(* ===== verification/Prelude.thy ===== *)
theory Prelude
  imports Main "HOL-Library.Char_ord" "HOL-Library.List_Lexorder" "HOL-Library.Code_Target_Nat"
begin

section \<open>Shared vocabulary of the development\<close>

text \<open>
  What every component theory uses: Rust's 64-bit integers as ranges of \<^typ>\<open>int\<close> and
  \<^typ>\<open>nat\<close> with their checked and saturating operations, the outcome of a fallible
  function (a value, an error, or an abort, that is a panic or a loop that does not stop),
  the slice operations the code relies on (\<open>windows(2)\<close>, \<open>sort\<close> with \<open>dedup\<close>,
  \<open>partition_point\<close>), and the ordered map that stands for \<open>BTreeMap\<close>, as an
  interface with its implementation by a sorted association list.
  Identifiers are byte strings, ordered as Rust orders \<open>String\<close>: lexicographically by
  byte, which is the order of \<^typ>\<open>string\<close> here.
\<close>

named_theorems i64_simps \<open>unfolding of the checked and saturating 64-bit operations\<close>

subsection \<open>Rust's integers\<close>

type_synonym i64 = int
type_synonym u64 = nat
type_synonym usize = nat

definition i64_min :: int where
  "i64_min = - 9223372036854775808"

definition i64_max :: int where
  "i64_max = 9223372036854775807"

definition u64_max :: nat where
  "u64_max = 18446744073709551615"

definition in_i64 :: "int \<Rightarrow> bool" where
  "in_i64 x \<longleftrightarrow> i64_min \<le> x \<and> x \<le> i64_max"

definition i64_checked_add :: "i64 \<Rightarrow> i64 \<Rightarrow> i64 option" where
  "i64_checked_add a b = (if in_i64 (a + b) then Some (a + b) else None)"

definition i64_checked_sub :: "i64 \<Rightarrow> i64 \<Rightarrow> i64 option" where
  "i64_checked_sub a b = (if in_i64 (a - b) then Some (a - b) else None)"

definition i64_checked_mul :: "i64 \<Rightarrow> i64 \<Rightarrow> i64 option" where
  "i64_checked_mul a b = (if in_i64 (a * b) then Some (a * b) else None)"

definition i64_checked_abs :: "i64 \<Rightarrow> i64 option" where
  "i64_checked_abs a = (if in_i64 \<bar>a\<bar> then Some \<bar>a\<bar> else None)"

definition u64_checked_add :: "u64 \<Rightarrow> u64 \<Rightarrow> u64 option" where
  "u64_checked_add a b = (if a + b \<le> u64_max then Some (a + b) else None)"

definition u64_checked_sub :: "u64 \<Rightarrow> u64 \<Rightarrow> u64 option" where
  "u64_checked_sub a b = (if b \<le> a then Some (a - b) else None)"

definition u64_checked_mul :: "u64 \<Rightarrow> u64 \<Rightarrow> u64 option" where
  "u64_checked_mul a b = (if a * b \<le> u64_max then Some (a * b) else None)"

definition u64_saturating_add :: "u64 \<Rightarrow> u64 \<Rightarrow> u64" where
  "u64_saturating_add a b = min (a + b) u64_max"

definition u64_saturating_mul :: "u64 \<Rightarrow> u64 \<Rightarrow> u64" where
  "u64_saturating_mul a b = min (a * b) u64_max"

lemmas [i64_simps] = i64_checked_add_def i64_checked_sub_def i64_checked_mul_def
  i64_checked_abs_def u64_checked_add_def u64_checked_sub_def u64_checked_mul_def
  u64_saturating_add_def u64_saturating_mul_def

lemma i64_checked_add_Some [simp]:
  "i64_checked_add a b = Some c \<longleftrightarrow> c = a + b \<and> in_i64 (a + b)"
  by (auto simp: i64_checked_add_def)

lemma i64_checked_sub_Some [simp]:
  "i64_checked_sub a b = Some c \<longleftrightarrow> c = a - b \<and> in_i64 (a - b)"
  by (auto simp: i64_checked_sub_def)

lemma i64_checked_mul_Some [simp]:
  "i64_checked_mul a b = Some c \<longleftrightarrow> c = a * b \<and> in_i64 (a * b)"
  by (auto simp: i64_checked_mul_def)

lemma u64_checked_add_Some [simp]:
  "u64_checked_add a b = Some c \<longleftrightarrow> c = a + b \<and> a + b \<le> u64_max"
  by (auto simp: u64_checked_add_def)

lemma u64_checked_sub_Some [simp]:
  "u64_checked_sub a b = Some c \<longleftrightarrow> c = a - b \<and> b \<le> a"
  by (auto simp: u64_checked_sub_def)

lemma u64_checked_mul_Some [simp]:
  "u64_checked_mul a b = Some c \<longleftrightarrow> c = a * b \<and> a * b \<le> u64_max"
  by (auto simp: u64_checked_mul_def)

lemma in_i64_between:
  assumes "in_i64 a" and "in_i64 b" and "a \<le> x" and "x \<le> b"
  shows "in_i64 x"
  using assms by (auto simp: in_i64_def)

lemma in_i64_0 [simp]: "in_i64 0"
  by (simp add: in_i64_def i64_min_def i64_max_def)

subsection \<open>Outcomes of fallible functions\<close>

text \<open>
  \<open>Ok\<close> and \<open>Err\<close> are the two sides of Rust's \<open>Result\<close>. \<open>Abort\<close> is
  everything that never hands a \<open>Result\<close> back: an index out of range, an
  \<open>expect\<close> on the wrong side, a loop whose fuel ran out.
\<close>

datatype ('e, 'a) outcome = Ok 'a | Err 'e | Abort

definition bind_o :: "('e, 'a) outcome \<Rightarrow> ('a \<Rightarrow> ('e, 'b) outcome) \<Rightarrow> ('e, 'b) outcome" where
  "bind_o r f = (case r of Ok x \<Rightarrow> f x | Err e \<Rightarrow> Err e | Abort \<Rightarrow> Abort)"

definition map_err :: "('e \<Rightarrow> 'f) \<Rightarrow> ('e, 'a) outcome \<Rightarrow> ('f, 'a) outcome" where
  "map_err f r = (case r of Ok x \<Rightarrow> Ok x | Err e \<Rightarrow> Err (f e) | Abort \<Rightarrow> Abort)"

definition ok_or :: "'e \<Rightarrow> 'a option \<Rightarrow> ('e, 'a) outcome" where
  "ok_or e v = (case v of None \<Rightarrow> Err e | Some x \<Rightarrow> Ok x)"

text \<open>A \<open>for\<close> loop that threads its mutable locals and leaves at the first error.\<close>

fun each_o :: "('a \<Rightarrow> 's \<Rightarrow> ('e, 's) outcome) \<Rightarrow> 'a list \<Rightarrow> 's \<Rightarrow> ('e, 's) outcome" where
  "each_o f [] s = Ok s"
| "each_o f (x # xs) s = bind_o (f x s) (each_o f xs)"

lemma bind_o_simps [simp]:
  "bind_o (Ok x) f = f x"
  "bind_o (Err e) f = Err e"
  "bind_o Abort f = Abort"
  by (simp_all add: bind_o_def)

lemma bind_o_Ok_right [simp]: "bind_o r Ok = r"
  by (cases r) simp_all

lemma bind_o_Ok_iff [simp]: "bind_o r f = Ok y \<longleftrightarrow> (\<exists>x. r = Ok x \<and> f x = Ok y)"
  by (cases r) auto

lemma bind_o_Abort_iff: "bind_o r f = Abort \<longleftrightarrow> r = Abort \<or> (\<exists>x. r = Ok x \<and> f x = Abort)"
  by (cases r) auto

lemma bind_o_Err_iff:
  "bind_o r f = Err e \<longleftrightarrow> r = Err e \<or> (\<exists>x. r = Ok x \<and> f x = Err e)"
  by (cases r) auto

lemma bind_o_cong [fundef_cong]:
  "r = r' \<Longrightarrow> (\<And>x. r' = Ok x \<Longrightarrow> f x = f' x) \<Longrightarrow> bind_o r f = bind_o r' f'"
  by (cases r') auto

lemma map_err_Ok_iff [simp]: "map_err f r = Ok x \<longleftrightarrow> r = Ok x"
  by (cases r) (auto simp: map_err_def)

lemma map_err_Abort_iff [simp]: "map_err f r = Abort \<longleftrightarrow> r = Abort"
  by (cases r) (auto simp: map_err_def)

lemma map_err_simps [simp]:
  "map_err f (Ok x) = Ok x"
  "map_err f (Err e) = Err (f e)"
  "map_err f Abort = Abort"
  by (simp_all add: map_err_def)

lemma ok_or_Ok_iff [simp]: "ok_or e v = Ok x \<longleftrightarrow> v = Some x"
  by (cases v) (auto simp: ok_or_def)

lemma ok_or_not_Abort [simp]: "ok_or e v \<noteq> Abort" "Abort \<noteq> ok_or e v"
  by (cases v; simp add: ok_or_def)+

lemma ok_or_simps [simp]:
  "ok_or e None = Err e"
  "ok_or e (Some x) = Ok x"
  by (simp_all add: ok_or_def)

lemma each_o_append: "each_o f (xs @ ys) s = bind_o (each_o f xs s) (each_o f ys)"
proof (induction xs arbitrary: s)
  case (Cons x xs)
  then show ?case by (cases "f x s") auto
qed simp

text \<open>A loop that only checks succeeds exactly when every element passes its check.\<close>

lemma each_o_pair:
  assumes "\<And>x d s. x \<in> set xs \<Longrightarrow> f x (d, s) = bind_o (g x d) (\<lambda>d. Ok (d, h x s))"
  shows "each_o f xs (d, s) = bind_o (each_o g xs d) (\<lambda>d. Ok (d, fold h xs s))"
  using assms
proof (induction xs arbitrary: d s)
  case (Cons x xs)
  then show ?case by (cases "g x d") simp_all
qed simp

lemma each_o_check_iff:
  "each_o (\<lambda>x u. f x) xs () = Ok () \<longleftrightarrow> (\<forall>x \<in> set xs. f x = Ok ())"
  by (induction xs) auto

subsection \<open>Slices\<close>

text \<open>\<open>windows(2)\<close> of a slice: its adjacent pairs.\<close>

definition windows2 :: "'a list \<Rightarrow> ('a \<times> 'a) list" where
  "windows2 xs = zip xs (tl xs)"

lemma windows2_simps [simp]:
  "windows2 [] = []"
  "windows2 [x] = []"
  "windows2 (x # y # xs) = (x, y) # windows2 (y # xs)"
  by (simp_all add: windows2_def)

abbreviation strictly_sorted :: "'a::linorder list \<Rightarrow> bool" where
  "strictly_sorted \<equiv> sorted_wrt (<)"

lemma strictly_sorted_by_windows:
  fixes key :: "'a \<Rightarrow> 'k::linorder"
  shows "(\<forall>p \<in> set (windows2 xs). key (fst p) < key (snd p)) \<longleftrightarrow> strictly_sorted (map key xs)"
proof (induction xs rule: induct_list012)
  case (3 x y xs)
  then show ?case by (auto intro: less_trans)
qed simp_all

lemma strictly_sorted_windows:
  "(\<forall>p \<in> set (windows2 xs). fst p < snd p) \<longleftrightarrow> strictly_sorted (xs :: 'a::linorder list)"
  using strictly_sorted_by_windows [of xs "\<lambda>x. x"] by simp

text \<open>\<open>sort()\<close> followed by \<open>dedup()\<close>.\<close>

definition sort_dedup :: "'a::linorder list \<Rightarrow> 'a list" where
  "sort_dedup xs = remdups_adj (sort xs)"

lemma set_sort_dedup [simp]: "set (sort_dedup xs) = set xs"
  by (simp add: sort_dedup_def)

lemma strictly_sorted_distinct: "strictly_sorted xs \<Longrightarrow> distinct xs"
  by (simp add: strict_sorted_iff)

lemma sorted_distinct_remdups_adj: "sorted xs \<Longrightarrow> distinct (remdups_adj xs)"
  by (induction xs rule: remdups_adj.induct) auto

lemma strictly_sorted_sort_dedup [simp]: "strictly_sorted (sort_dedup xs)"
  by (simp add: sort_dedup_def strict_sorted_iff sorted_distinct_remdups_adj)

lemma sort_dedup_id: "strictly_sorted xs \<Longrightarrow> sort_dedup xs = xs"
  by (simp add: sort_dedup_def strict_sorted_iff sorted_sort_id remdups_adj_distinct)

lemma sort_dedup_idem [simp]: "sort_dedup (sort_dedup xs) = sort_dedup xs"
  by (rule sort_dedup_id) simp

lemma sort_dedup_eq_iff: "sort_dedup xs = sort_dedup ys \<longleftrightarrow> set xs = set ys"
proof
  assume "set xs = set ys"
  then have "set (sort_dedup xs) = set (sort_dedup ys)" by simp
  then show "sort_dedup xs = sort_dedup ys"
    by (intro strict_sorted_equal) auto
next
  assume "sort_dedup xs = sort_dedup ys"
  then show "set xs = set ys" by (metis set_sort_dedup)
qed

lemma sort_key_strictly_sorted_id:
  "strictly_sorted (map key xs) \<Longrightarrow> sort_key key xs = xs"
  by (intro sort_key_id_if_sorted) (auto simp: strict_sorted_iff)

text \<open>\<open>partition_point\<close> on a slice whose elements satisfying the predicate come first.\<close>

definition partition_point :: "('a \<Rightarrow> bool) \<Rightarrow> 'a list \<Rightarrow> nat" where
  "partition_point P xs = length (takeWhile P xs)"

text \<open>The decimal numeral that \<open>format!\<close> prints for an index.\<close>

fun show_nat :: "nat \<Rightarrow> string" where
  "show_nat n =
     (if n < 10 then [char_of (48 + n)] else show_nat (n div 10) @ [char_of (48 + n mod 10)])"

declare show_nat.simps [simp del]

subsection \<open>Ordered maps\<close>

text \<open>
  What the code uses of \<open>BTreeMap\<close>: lookup, insertion and iteration in key order. The
  interface fixes the three operations and the laws the clients rely on; folds over a map
  that is filled one key at a time are reasoned about once, inside it.
\<close>

locale ordered_map =
  fixes empty :: "'m"
    and put :: "'k::linorder \<Rightarrow> 'v \<Rightarrow> 'm \<Rightarrow> 'm"
    and get :: "'m \<Rightarrow> 'k \<Rightarrow> 'v option"
    and entries :: "'m \<Rightarrow> ('k \<times> 'v) list"
    and invar :: "'m \<Rightarrow> bool"
  assumes invar_empty: "invar empty"
    and invar_put: "invar m \<Longrightarrow> invar (put k v m)"
    and get_empty: "get empty = Map.empty"
    and get_put: "invar m \<Longrightarrow> get (put k v m) = (get m)(k \<mapsto> v)"
    and entries_sorted: "invar m \<Longrightarrow> strictly_sorted (map fst (entries m))"
    and entries_get: "invar m \<Longrightarrow> map_of (entries m) = get m"
begin

lemma entries_iff: "invar m \<Longrightarrow> (k, v) \<in> set (entries m) \<longleftrightarrow> get m k = Some v"
  using entries_sorted [of m] entries_get [of m]
  by (metis map_of_eq_Some_iff strictly_sorted_distinct)

lemma distinct_entries: "invar m \<Longrightarrow> distinct (entries m)"
  using entries_sorted [of m] by (auto simp: strict_sorted_iff distinct_map)

lemma sum_entries_put:
  fixes w :: "'k \<Rightarrow> 'v \<Rightarrow> int"
  assumes "invar m"
  shows "(\<Sum>(k', v') \<leftarrow> entries (put k v m). w k' v')
    = (\<Sum>(k', v') \<leftarrow> entries m. w k' v')
      - (case get m k of None \<Rightarrow> 0 | Some v0 \<Rightarrow> w k v0) + w k v"
proof -
  have sum_dom: "(\<Sum>(k', v') \<leftarrow> entries n. w k' v') = (\<Sum>k' \<in> dom (get n). w k' (the (get n k')))"
    if "invar n" for n
  proof -
    have d: "distinct (map fst (entries n))"
      using entries_sorted [OF that] by (rule strictly_sorted_distinct)
    have "(\<Sum>(k', v') \<leftarrow> entries n. w k' v') = (\<Sum>p \<in> set (entries n). w (fst p) (snd p))"
      using distinct_entries [OF that] by (simp add: sum_list_distinct_conv_sum_set case_prod_unfold)
    also have "\<dots> = (\<Sum>k' \<in> fst ` set (entries n). w k' (the (get n k')))"
      using d entries_iff [OF that]
      by (subst sum.reindex) (auto simp: distinct_map intro!: sum.cong)
    also have "fst ` set (entries n) = dom (get n)"
      using entries_iff [OF that] by force
    finally show ?thesis .
  qed
  have fin: "finite (dom (get m))"
    using entries_get [OF assms] by (metis finite_dom_map_of)
  show ?thesis
  proof (cases "get m k")
    case None
    then have "k \<notin> dom (get m)" by auto
    then have "(\<Sum>k' \<in> dom (get m). w k' (the (((get m)(k \<mapsto> v)) k')))
        = (\<Sum>k' \<in> dom (get m). w k' (the (get m k')))"
      by (intro sum.cong) auto
    with None fin \<open>k \<notin> dom (get m)\<close> show ?thesis
      by (simp add: sum_dom assms invar_put get_put)
  next
    case (Some v0)
    then have k: "k \<in> dom (get m)" by auto
    have "(\<Sum>k' \<in> dom (get m) - {k}. w k' (the (((get m)(k \<mapsto> v)) k')))
        = (\<Sum>k' \<in> dom (get m) - {k}. w k' (the (get m k')))"
      by (intro sum.cong) auto
    with Some fin k show ?thesis
      by (simp add: sum_dom assms invar_put get_put sum.remove [OF fin k] insert_absorb)
  qed
qed

text \<open>Filling a map from a list of pairs; a later pair replaces an earlier one with its key.\<close>

lemma collect:
  assumes "invar m"
  shows "invar (fold (\<lambda>(k, v). put k v) kvs m) \<and>
    get (fold (\<lambda>(k, v). put k v) kvs m) = get m ++ map_of (rev kvs)"
  using assms
proof (induction kvs arbitrary: m)
  case (Cons kv kvs)
  obtain k v where kv: "kv = (k, v)" by (cases kv)
  from Cons.IH [OF invar_put [OF Cons.prems, of k v]] get_put [OF Cons.prems, of k v]
  show ?case by (simp add: kv map_add_def fun_eq_iff split: option.splits)
qed simp

end

text \<open>The implementation: an association list in strictly ascending key order.\<close>

type_synonym ('k, 'v) btree_map = "('k \<times> 'v) list"

fun bt_insert :: "'k::linorder \<Rightarrow> 'v \<Rightarrow> ('k, 'v) btree_map \<Rightarrow> ('k, 'v) btree_map" where
  "bt_insert k v [] = [(k, v)]"
| "bt_insert k v ((k', v') # m) =
     (if k < k' then (k, v) # (k', v') # m
      else if k = k' then (k, v) # m
      else (k', v') # bt_insert k v m)"

definition bt_get :: "('k, 'v) btree_map \<Rightarrow> 'k \<Rightarrow> 'v option" where
  "bt_get m k = map_of m k"

definition bt_invar :: "('k::linorder, 'v) btree_map \<Rightarrow> bool" where
  "bt_invar m \<longleftrightarrow> strictly_sorted (map fst m)"

lemma fst_set_bt_insert [simp]: "fst ` set (bt_insert k v m) = insert k (fst ` set m)"
  by (induction k v m rule: bt_insert.induct) auto

lemma bt_invar_insert: "bt_invar m \<Longrightarrow> bt_invar (bt_insert k v m)"
  unfolding bt_invar_def
proof (induction k v m rule: bt_insert.induct)
  case (2 k v k' v' m)
  have "\<forall>x \<in> fst ` set m. k' < x" using 2 by auto
  then have "\<forall>x \<in> fst ` set (bt_insert k v m). k' < x" if "\<not> k < k'" "k \<noteq> k'"
    using that by auto
  then show ?case using 2 by auto
qed simp

lemma map_of_bt_insert: "bt_invar m \<Longrightarrow> map_of (bt_insert k v m) = (map_of m)(k \<mapsto> v)"
  unfolding bt_invar_def
  by (induction k v m rule: bt_insert.induct) (auto simp: fun_eq_iff)

interpretation bt: ordered_map "[]" bt_insert bt_get "\<lambda>m. m" bt_invar
proof unfold_locales
  fix m :: "('a::linorder, 'b) btree_map" and k :: 'a and v :: 'b
  show "bt_invar ([] :: ('a, 'b) btree_map)" by (simp add: bt_invar_def)
  show "bt_get ([] :: ('a, 'b) btree_map) = Map.empty" by (simp add: bt_get_def fun_eq_iff)
  assume m: "bt_invar m"
  then show "bt_invar (bt_insert k v m)" by (rule bt_invar_insert)
  show "bt_get (bt_insert k v m) = (bt_get m)(k \<mapsto> v)"
    using map_of_bt_insert [OF m, of k v] by (simp add: bt_get_def fun_eq_iff)
  show "strictly_sorted (map fst m)" using m by (simp add: bt_invar_def)
  show "map_of m = bt_get m" by (simp add: bt_get_def fun_eq_iff)
qed

text \<open>\<open>collect\<close> into a map, and \<open>entry(k).or_default().push(x)\<close>.\<close>

definition bt_collect :: "('k::linorder \<times> 'v) list \<Rightarrow> ('k, 'v) btree_map" where
  "bt_collect kvs = fold (\<lambda>(k, v). bt_insert k v) kvs []"

lemma bt_collect:
  "bt_invar (bt_collect kvs)" "bt_get (bt_collect kvs) = map_of (rev kvs)"
  using bt.collect [of "[]" kvs] by (simp_all add: bt_collect_def bt_invar_def bt_get_def [abs_def])

definition bt_push :: "'k::linorder \<Rightarrow> 'x \<Rightarrow> ('k, 'x list) btree_map \<Rightarrow> ('k, 'x list) btree_map" where
  "bt_push k x m = bt_insert k ((case bt_get m k of None \<Rightarrow> [] | Some xs \<Rightarrow> xs) @ [x]) m"

lemma bt_push_fold:
  assumes "bt_invar m"
  shows "bt_invar (fold (\<lambda>x. bt_push (f x) (g x)) xs m) \<and>
    bt_get (fold (\<lambda>x. bt_push (f x) (g x)) xs m) k =
      (if bt_get m k = None \<and> (\<forall>x \<in> set xs. f x \<noteq> k) then None
       else Some ((case bt_get m k of None \<Rightarrow> [] | Some ys \<Rightarrow> ys) @ map g (filter (\<lambda>x. f x = k) xs)))"
  using assms
proof (induction xs arbitrary: m)
  case Nil
  then show ?case by (cases "bt_get m k") simp_all
next
  case (Cons x xs)
  let ?m = "bt_push (f x) (g x) m"
  have m: "bt_invar ?m" and get: "bt_get ?m = (bt_get m)(f x \<mapsto>
      (case bt_get m (f x) of None \<Rightarrow> [] | Some xs \<Rightarrow> xs) @ [g x])"
    using bt.invar_put [OF Cons.prems] bt.get_put [OF Cons.prems] by (simp_all add: bt_push_def)
  from Cons.IH [OF m] show ?case by (simp add: get)
qed

lemma bt_get_notin: "bt_get m k = None \<longleftrightarrow> k \<notin> fst ` set m"
  by (simp add: bt_get_def map_of_eq_None_iff)

subsection \<open>Decimal numbers\<close>

definition is_digit :: "char \<Rightarrow> bool" where
  "is_digit c \<longleftrightarrow> CHR ''0'' \<le> c \<and> c \<le> CHR ''9''"

lemma digit_char: "n < 10 \<Longrightarrow> is_digit (char_of (48 + n :: nat))"
  by (simp add: is_digit_def less_eq_char_def)

lemma show_nat_digits: "c \<in> set (show_nat n) \<Longrightarrow> is_digit c"
proof (induction n rule: show_nat.induct)
  case (1 n)
  show ?case
  proof (cases "n < 10")
    case True
    then show ?thesis using 1(2) digit_char [of n] by (simp add: show_nat.simps [of n])
  next
    case False
    then show ?thesis using 1 digit_char [of "n mod 10"] by (auto simp: show_nat.simps [of n])
  qed
qed

lemma show_nat_nonempty [simp]: "show_nat n \<noteq> []"
  by (simp add: show_nat.simps [of n])

lemma length_show_nat: "n < 10 ^ k \<Longrightarrow> 0 < k \<Longrightarrow> length (show_nat n) \<le> k"
proof (induction k arbitrary: n)
  case (Suc k)
  show ?case
  proof (cases "n < 10")
    case True
    then show ?thesis by (simp add: show_nat.simps [of n])
  next
    case False
    then have "0 < k" using Suc.prems by (cases k) auto
    moreover have "n div 10 < 10 ^ k" using Suc.prems by (simp add: div_less_iff_less_mult mult.commute)
    ultimately have "length (show_nat (n div 10)) \<le> k" by (rule Suc.IH [rotated])
    with False show ?thesis by (simp add: show_nat.simps [of n])
  qed
qed simp

end
