(* ===== verification/Int_Domain.thy ===== *)
theory Int_Domain
  imports Prelude
begin

section \<open>Integer domains\<close>

text \<open>
  \<open>InclusiveRange\<close> and \<open>IntDomain\<close> of \<open>crates/eutheto-planning-ir/src/model.rs\<close>:
  construction sorts the ranges, rejects reversed ones and merges those that overlap or
  touch. The lemmas show that construction keeps exactly the values of its input, that its
  result is canonical (nonempty ranges in ascending order with a gap between neighbours),
  and that a set of values has at most one canonical representation, so that comparing a
  domain with its normal form decides whether it is canonical.
\<close>

subsection \<open>Data\<close>

record inclusive_range =
  range_start :: i64
  range_end :: i64

instantiation inclusive_range_ext :: (linorder) linorder
begin

definition less_eq_inclusive_range_ext ::
    "'a inclusive_range_ext \<Rightarrow> 'a inclusive_range_ext \<Rightarrow> bool" where
  "less_eq_inclusive_range_ext a b \<longleftrightarrow>
     range_start a < range_start b \<or> range_start a = range_start b \<and>
     (range_end a < range_end b \<or> range_end a = range_end b \<and>
        inclusive_range.more a \<le> inclusive_range.more b)"

definition less_inclusive_range_ext ::
    "'a inclusive_range_ext \<Rightarrow> 'a inclusive_range_ext \<Rightarrow> bool" where
  "less_inclusive_range_ext a b \<longleftrightarrow> a \<le> b \<and> \<not> b \<le> a"

instance
  by standard (auto simp: less_inclusive_range_ext_def less_eq_inclusive_range_ext_def)

end

record int_domain =
  inclusive_ranges :: "inclusive_range list"

datatype model_error = EmptyDomain | ReversedRange | Shape | ArithmeticOverflow

subsection \<open>Operations\<close>

text \<open>
  The merging loop. Its accumulator is the vector \<open>normalized\<close> with its last element in
  front; an element that touches the last one extends it, any other is pushed.
\<close>

definition touches :: "inclusive_range \<Rightarrow> inclusive_range \<Rightarrow> bool" where
  "touches prev rng \<longleftrightarrow>
     range_start rng \<le> range_end prev \<or>
     (case i64_checked_add (range_end prev) 1 of
        None \<Rightarrow> False | Some nxt \<Rightarrow> range_start rng \<le> nxt)"

fun merge_ranges :: "inclusive_range list \<Rightarrow> inclusive_range list \<Rightarrow> inclusive_range list" where
  "merge_ranges normalized [] = rev normalized"
| "merge_ranges [] (rng # ranges) = merge_ranges [rng] ranges"
| "merge_ranges (prev # normalized) (rng # ranges) =
     (if touches prev rng
      then merge_ranges
             (prev\<lparr>range_end := max (range_end prev) (range_end rng)\<rparr> # normalized) ranges
      else merge_ranges (rng # prev # normalized) ranges)"

definition int_domain_new :: "inclusive_range list \<Rightarrow> (model_error, int_domain) outcome" where
  "int_domain_new ranges =
     (if ranges = [] then Err EmptyDomain
      else if list_ex (\<lambda>rng. range_start rng > range_end rng) ranges then Err ReversedRange
      else Ok \<lparr>inclusive_ranges = merge_ranges [] (sort ranges)\<rparr>)"

definition domain_contains :: "int_domain \<Rightarrow> i64 \<Rightarrow> bool" where
  "domain_contains domain v \<longleftrightarrow>
     list_ex (\<lambda>rng. range_start rng \<le> v \<and> v \<le> range_end rng)
       (inclusive_ranges domain)"

definition domain_bounds :: "int_domain \<Rightarrow> (i64 \<times> i64) option" where
  "domain_bounds domain =
     (case inclusive_ranges domain of
        [] \<Rightarrow> None
      | rng # ranges \<Rightarrow> Some (range_start rng, range_end (last (rng # ranges))))"

subsection \<open>Values and canonical form\<close>

definition range_values :: "inclusive_range \<Rightarrow> int set" where
  "range_values rng = {range_start rng .. range_end rng}"

definition values_of :: "inclusive_range list \<Rightarrow> int set" where
  "values_of ranges = (\<Union>rng \<in> set ranges. range_values rng)"

text \<open>
  Neighbours leave a gap: the next start lies beyond the successor of the last end. This
  is stated on the mathematical integers; \<open>touches\<close> computes it in 64 bits.
\<close>

definition canonical_ranges :: "inclusive_range list \<Rightarrow> bool" where
  "canonical_ranges ranges \<longleftrightarrow>
     (\<forall>rng \<in> set ranges. range_start rng \<le> range_end rng) \<and>
     sorted_wrt (\<lambda>a b. range_end a + 1 < range_start b) ranges"

definition domain_in_i64 :: "inclusive_range list \<Rightarrow> bool" where
  "domain_in_i64 ranges \<longleftrightarrow>
     (\<forall>rng \<in> set ranges. in_i64 (range_start rng) \<and> in_i64 (range_end rng))"

lemma domain_contains_iff:
  "domain_contains domain v \<longleftrightarrow> v \<in> values_of (inclusive_ranges domain)"
  by (auto simp: domain_contains_def values_of_def range_values_def list_ex_iff)

lemma values_of_simps [simp]:
  "values_of [] = {}"
  "values_of (r # rs) = range_values r \<union> values_of rs"
  "values_of (rs @ rs') = values_of rs \<union> values_of rs'"
  "values_of (rev rs) = values_of rs"
  "values_of (sort rs) = values_of rs"
  by (auto simp: values_of_def)

lemma touches_iff:
  assumes "in_i64 (range_end l)" and "in_i64 (range_start r)"
  shows "touches l r \<longleftrightarrow> range_start r \<le> range_end l + 1"
  using assms by (auto simp: touches_def i64_simps in_i64_def)

text \<open>One merge step keeps the values of the accumulator and the incoming range.\<close>

lemma merge_step_values:
  assumes "range_start l \<le> range_end l" and "range_start r \<le> range_end r"
    and "range_start l \<le> range_start r" and "range_start r \<le> range_end l + 1"
  shows "range_values (l\<lparr>range_end := max (range_end l) (range_end r)\<rparr>)
    = range_values l \<union> range_values r"
  using assms by (auto simp: range_values_def max_def)

definition proper :: "inclusive_range list \<Rightarrow> bool" where
  "proper ranges \<longleftrightarrow> (\<forall>rng \<in> set ranges. range_start rng \<le> range_end rng)"

text \<open>
  The loop's invariant: the accumulator reversed is canonical, and every range still to
  come starts no earlier than the last one kept.
\<close>

definition merge_inv :: "inclusive_range list \<Rightarrow> inclusive_range list \<Rightarrow> bool" where
  "merge_inv acc ranges \<longleftrightarrow>
     canonical_ranges (rev acc) \<and> domain_in_i64 acc \<and> domain_in_i64 ranges \<and> proper ranges \<and>
     sorted (map range_start ranges) \<and>
     (\<forall>l r. acc \<noteq> [] \<longrightarrow> l = hd acc \<longrightarrow> r \<in> set ranges \<longrightarrow> range_start l \<le> range_start r)"

lemma merge_inv_extend:
  assumes "merge_inv (l # acc) (r # rs)" and "range_start r \<le> range_end l + 1"
  shows "merge_inv (l\<lparr>range_end := max (range_end l) (range_end r)\<rparr> # acc) rs"
  using assms
  by (auto simp: merge_inv_def canonical_ranges_def domain_in_i64_def proper_def
      sorted_wrt_append max_def)

lemma merge_inv_push:
  assumes "merge_inv (l # acc) (r # rs)" and "\<not> range_start r \<le> range_end l + 1"
  shows "merge_inv (r # l # acc) rs"
  using assms
  by (fastforce simp: merge_inv_def canonical_ranges_def domain_in_i64_def proper_def
      sorted_wrt_append)

lemma merge_inv_first:
  assumes "merge_inv [] (r # rs)"
  shows "merge_inv [r] rs"
  using assms by (auto simp: merge_inv_def canonical_ranges_def domain_in_i64_def proper_def)

lemma merge_inv_touches:
  "merge_inv (l # acc) (r # rs) \<Longrightarrow> touches l r \<longleftrightarrow> range_start r \<le> range_end l + 1"
  by (intro touches_iff) (auto simp: merge_inv_def domain_in_i64_def)

lemma merge_ranges_correct:
  "merge_inv acc ranges \<Longrightarrow>
   canonical_ranges (merge_ranges acc ranges) \<and>
   values_of (merge_ranges acc ranges) = values_of acc \<union> values_of ranges"
proof (induction acc ranges rule: merge_ranges.induct)
  case (1 acc)
  then show ?case by (simp add: merge_inv_def)
next
  case (2 r rs)
  from merge_inv_first [OF 2(2)] 2(1) show ?case by simp
next
  case (3 l acc r rs)
  show ?case
  proof (cases "touches l r")
    case True
    then have le: "range_start r \<le> range_end l + 1"
      using 3(3) merge_inv_touches by blast
    have "range_values (l\<lparr>range_end := max (range_end l) (range_end r)\<rparr>)
        = range_values l \<union> range_values r"
      using 3(3) le
      by (intro merge_step_values) (auto simp: merge_inv_def canonical_ranges_def proper_def)
    with True 3(1) merge_inv_extend [OF 3(3) le] show ?thesis by auto
  next
    case False
    then have "\<not> range_start r \<le> range_end l + 1"
      using 3(3) merge_inv_touches by blast
    with False 3(2) merge_inv_push [OF 3(3)] show ?thesis by auto
  qed
qed

lemma sorted_map_range_start: "sorted ranges \<Longrightarrow> sorted (map range_start ranges)"
  for ranges :: "inclusive_range list"
  unfolding sorted_map
  by (erule sorted_wrt_mono_rel [rotated]) (auto simp: less_eq_inclusive_range_ext_def)

lemma int_domain_new_correct:
  assumes "int_domain_new ranges = Ok domain" and "domain_in_i64 ranges"
  shows "canonical_ranges (inclusive_ranges domain)"
    and "values_of (inclusive_ranges domain) = values_of ranges"
proof -
  from assms(1) have le: "\<forall>rng \<in> set ranges. range_start rng \<le> range_end rng"
    and d: "inclusive_ranges domain = merge_ranges [] (sort ranges)"
    by (auto simp: int_domain_new_def list_ex_iff not_less split: if_splits)
  have "merge_inv [] (sort ranges)"
    using le assms(2) sorted_map_range_start [OF sorted_sort, of ranges]
    by (simp add: merge_inv_def canonical_ranges_def domain_in_i64_def proper_def)
  from merge_ranges_correct [OF this]
  show "canonical_ranges (inclusive_ranges domain)"
    and "values_of (inclusive_ranges domain) = values_of ranges"
    by (simp_all add: d)
qed

subsection \<open>Uniqueness of the canonical form\<close>

lemma canonical_ranges_Cons:
  "canonical_ranges (r # rs) \<longleftrightarrow>
     range_start r \<le> range_end r \<and> (\<forall>x \<in> set rs. range_end r + 1 < range_start x) \<and>
     canonical_ranges rs"
  by (auto simp: canonical_ranges_def)

lemma values_above:
  "\<forall>x \<in> set rs. b < range_start x \<Longrightarrow> v \<in> values_of rs \<Longrightarrow> b < v"
  by (fastforce simp: values_of_def range_values_def)

lemma canonical_head_values:
  assumes "canonical_ranges (r # rs)" and "v \<in> values_of (r # rs)"
  shows "range_start r \<le> v"
proof (cases "v \<in> range_values r")
  case False
  with assms have "range_end r + 1 < v"
    by (auto simp: canonical_ranges_Cons intro: values_above)
  with assms(1) show ?thesis by (simp add: canonical_ranges_Cons)
qed (simp add: range_values_def)

lemma canonical_head_end:
  assumes "canonical_ranges (r # rs)"
  shows "range_end r + 1 \<notin> values_of (r # rs)"
  using assms values_above [of rs "range_end r + 1" "range_end r + 1"]
  by (auto simp: canonical_ranges_Cons range_values_def)

lemma canonical_heads_equal:
  assumes a: "canonical_ranges (r # rs)" and b: "canonical_ranges (q # qs)"
    and v: "values_of (r # rs) = values_of (q # qs)"
  shows "range_start r = range_start q" and "range_end r \<le> range_end q"
proof -
  have r: "range_start r \<in> values_of (r # rs)" "range_end r \<in> values_of (r # rs)"
    and q: "range_start q \<in> values_of (q # qs)"
    using a b by (auto simp: canonical_ranges_Cons range_values_def)
  show s: "range_start r = range_start q"
  proof (rule antisym)
    from q v have "range_start q \<in> values_of (r # rs)" by blast
    with a show "range_start r \<le> range_start q" by (rule canonical_head_values)
    from r v have "range_start r \<in> values_of (q # qs)" by blast
    with b show "range_start q \<le> range_start r" by (rule canonical_head_values)
  qed
  show "range_end r \<le> range_end q"
  proof (rule ccontr)
    assume "\<not> range_end r \<le> range_end q"
    with a b s have "range_end q + 1 \<in> values_of (r # rs)"
      by (auto simp: canonical_ranges_Cons range_values_def)
    with canonical_head_end [OF b] v show False by blast
  qed
qed

theorem canonical_ranges_unique:
  assumes "canonical_ranges rs" and "canonical_ranges qs" and "values_of rs = values_of qs"
  shows "rs = (qs :: inclusive_range list)"
  using assms
proof (induction rs arbitrary: qs)
  case Nil
  then show ?case
    by (cases qs) (auto simp: canonical_ranges_Cons range_values_def)
next
  case (Cons r rs)
  then obtain q qs' where qs: "qs = q # qs'"
    by (cases qs) (auto simp: canonical_ranges_Cons range_values_def)
  note c = Cons.prems(1) and c' = Cons.prems(2) [unfolded qs] and v = Cons.prems(3) [unfolded qs]
  have eq: "r = q"
    using canonical_heads_equal [OF c c' v] canonical_heads_equal(2) [OF c' c v [symmetric]]
    by (intro inclusive_range.equality) auto
  have "values_of rs = values_of (r # rs) - range_values r"
    using c values_above [of rs "range_end r + 1"]
    by (fastforce simp: canonical_ranges_Cons range_values_def)
  moreover have "values_of qs' = values_of (q # qs') - range_values q"
    using c' values_above [of qs' "range_end q + 1"]
    by (fastforce simp: canonical_ranges_Cons range_values_def)
  ultimately have "values_of rs = values_of qs'" using v eq by metis
  with Cons.IH c c' eq qs show ?case by (auto simp: canonical_ranges_Cons)
qed

text \<open>Normalising accepts exactly the canonical domains unchanged.\<close>

lemma int_domain_new_fixpoint:
  assumes "domain_in_i64 (inclusive_ranges domain)"
  shows "int_domain_new (inclusive_ranges domain) = Ok domain \<longleftrightarrow>
    inclusive_ranges domain \<noteq> [] \<and> canonical_ranges (inclusive_ranges domain)"
proof
  assume new: "int_domain_new (inclusive_ranges domain) = Ok domain"
  then have "inclusive_ranges domain \<noteq> []"
    by (auto simp: int_domain_new_def)
  with int_domain_new_correct(1) [OF new assms]
  show "inclusive_ranges domain \<noteq> [] \<and> canonical_ranges (inclusive_ranges domain)" by simp
next
  assume c: "inclusive_ranges domain \<noteq> [] \<and> canonical_ranges (inclusive_ranges domain)"
  then obtain d where d: "int_domain_new (inclusive_ranges domain) = Ok d"
    by (auto simp: int_domain_new_def canonical_ranges_def list_ex_iff not_less)
  from int_domain_new_correct [OF d assms] c
  have "inclusive_ranges d = inclusive_ranges domain"
    by (intro canonical_ranges_unique) auto
  then have "d = domain" by (intro int_domain.equality) auto
  with d show "int_domain_new (inclusive_ranges domain) = Ok domain" by simp
qed

subsection \<open>Bounds\<close>

lemma canonical_end_le_last:
  "canonical_ranges rs \<Longrightarrow> r \<in> set rs \<Longrightarrow> range_end r \<le> range_end (last rs)"
proof (induction rs)
  case (Cons q rs)
  show ?case
  proof (cases "rs = []")
    case False
    then have "last rs \<in> set rs" by simp
    with Cons.prems(1) have "range_end q + 1 < range_start (last rs)"
      and "range_start (last rs) \<le> range_end (last rs)"
      by (auto simp: canonical_ranges_def)
    then have "range_end q \<le> range_end (last rs)" by linarith
    with Cons False show ?thesis by (auto simp: canonical_ranges_Cons)
  qed (use Cons in simp)
qed simp

text \<open>On a canonical domain the bounds are the least and the greatest value.\<close>

lemma domain_bounds_correct:
  assumes "canonical_ranges (inclusive_ranges domain)"
    and "domain_bounds domain = Some (lower, upper)"
  shows "domain_contains domain lower" and "domain_contains domain upper"
    and "domain_contains domain v \<Longrightarrow> lower \<le> v \<and> v \<le> upper"
proof -
  from assms(2) obtain r rs where d: "inclusive_ranges domain = r # rs"
    and b: "lower = range_start r" "upper = range_end (last (r # rs))"
    by (auto simp: domain_bounds_def split: list.splits)
  have l: "last (r # rs) \<in> set (inclusive_ranges domain)" using d by simp
  with assms(1) have le: "range_start (last (r # rs)) \<le> upper"
    by (simp add: canonical_ranges_def b(2))
  show "domain_contains domain lower"
    using assms(1) by (simp add: domain_contains_def d b canonical_ranges_def)
  show "domain_contains domain upper"
    using l le b(2) by (fastforce simp: domain_contains_def list_ex_iff)
  show "lower \<le> v \<and> v \<le> upper" if "domain_contains domain v"
  proof
    from that show "lower \<le> v"
      using canonical_head_values [of r rs v] assms(1) d b by (simp add: domain_contains_iff)
    from that obtain q where "q \<in> set (r # rs)" and "v \<le> range_end q"
      by (auto simp: domain_contains_def list_ex_iff d)
    with canonical_end_le_last [of "r # rs" q] assms(1) d b(2) show "v \<le> upper" by simp
  qed
qed

lemma domain_bounds_Some_iff:
  "(\<exists>b. domain_bounds domain = Some b) \<longleftrightarrow> inclusive_ranges domain \<noteq> []"
  by (cases "inclusive_ranges domain") (auto simp: domain_bounds_def)

subsection \<open>Properties\<close>

definition mk_range :: "i64 \<Rightarrow> i64 \<Rightarrow> inclusive_range" where
  "mk_range a b = \<lparr>range_start = a, range_end = b\<rparr>"

text \<open>
  C28: \<open>IntDomain::new\<close> refuses exactly the empty list and lists with a reversed range; on any
  other list of 64-bit ranges, ranges that end at \<open>i64::MAX\<close> included, it returns a canonical
  domain with the same values, and that is the only canonical domain with these values. (The comment
  on the constructor also announces a refusal for adjacency overflow, which the code never makes.)
\<close>

theorem int_domain_new_normal_form:
  assumes "domain_in_i64 ranges"
  shows "case int_domain_new ranges of
      Ok domain \<Rightarrow>
        ranges \<noteq> [] \<and> proper ranges \<and> canonical_ranges (inclusive_ranges domain) \<and>
        (\<forall>v. domain_contains domain v \<longleftrightarrow> v \<in> values_of ranges) \<and>
        (\<forall>other. canonical_ranges (inclusive_ranges other) \<and>
           (\<forall>v. domain_contains other v \<longleftrightarrow> v \<in> values_of ranges) \<longrightarrow> other = domain)
    | Err e \<Rightarrow> e = EmptyDomain \<and> ranges = [] \<or> e = ReversedRange \<and> ranges \<noteq> [] \<and> \<not> proper ranges
    | Abort \<Rightarrow> False"
proof (cases "ranges = [] \<or> \<not> proper ranges")
  case True
  then show ?thesis
    by (auto simp: int_domain_new_def proper_def list_ex_iff not_less)
next
  case False
  then obtain domain where d: "int_domain_new ranges = Ok domain"
    by (auto simp: int_domain_new_def proper_def list_ex_iff not_less)
  note c = int_domain_new_correct [OF d assms]
  have "other = domain" if "canonical_ranges (inclusive_ranges other)"
    and "\<forall>v. domain_contains other v \<longleftrightarrow> v \<in> values_of ranges" for other
  proof (rule int_domain.equality)
    show "inclusive_ranges other = inclusive_ranges domain"
      by (rule canonical_ranges_unique) (use that c in \<open>auto simp: domain_contains_iff\<close>)
  qed simp
  then have "\<forall>other. canonical_ranges (inclusive_ranges other) \<and>
      (\<forall>v. domain_contains other v \<longleftrightarrow> v \<in> values_of ranges) \<longrightarrow> other = domain" by blast
  moreover have "\<forall>v. domain_contains domain v \<longleftrightarrow> v \<in> values_of ranges"
    using c by (simp add: domain_contains_iff)
  ultimately show ?thesis unfolding d outcome.case using c(1) False by blast
qed

theorem int_domain_new_normal_form_witness:
  "domain_in_i64 [mk_range 5 9, mk_range 1 4, mk_range 20 9223372036854775807] \<and>
   int_domain_new [mk_range 5 9, mk_range 1 4, mk_range 20 9223372036854775807]
     = Ok \<lparr>inclusive_ranges = [mk_range 1 9, mk_range 20 9223372036854775807]\<rparr> \<and>
   canonical_ranges [mk_range 1 9, mk_range 20 9223372036854775807]"
proof -
  have h: "domain_in_i64 [mk_range 5 9, mk_range 1 4, mk_range 20 9223372036854775807]"
    by (simp add: domain_in_i64_def mk_range_def in_i64_def i64_min_def i64_max_def)
  have r: "int_domain_new [mk_range 5 9, mk_range 1 4, mk_range 20 9223372036854775807]
     = Ok \<lparr>inclusive_ranges = [mk_range 1 9, mk_range 20 9223372036854775807]\<rparr>"
    by code_simp
  from int_domain_new_normal_form [OF h] show ?thesis by (simp add: h r)
qed

text \<open>
  C39: On a domain built by \<open>IntDomain::new\<close>, \<open>bounds\<close> returns the least and the greatest
  value of the domain.
\<close>

theorem domain_bounds_extremes:
  assumes "domain_in_i64 ranges" and "int_domain_new ranges = Ok domain"
  shows "\<exists>lower upper. domain_bounds domain = Some (lower, upper) \<and>
    domain_contains domain lower \<and> domain_contains domain upper \<and>
    (\<forall>v. domain_contains domain v \<longrightarrow> lower \<le> v \<and> v \<le> upper)"
proof -
  note c = int_domain_new_correct [OF assms(2,1)]
  have "ranges \<noteq> []" "proper ranges" using assms(2)
    by (auto simp: int_domain_new_def proper_def list_ex_iff not_less split: if_splits)
  then have "values_of ranges \<noteq> {}"
    by (cases ranges) (auto simp: proper_def range_values_def)
  with c have "inclusive_ranges domain \<noteq> []" by auto
  then obtain lower upper where "domain_bounds domain = Some (lower, upper)"
    using domain_bounds_Some_iff [of domain] by auto
  with domain_bounds_correct [OF c(1) this] show ?thesis by blast
qed

theorem domain_bounds_extremes_witness:
  "domain_in_i64 [mk_range 7 9, mk_range (-3) 2] \<and>
   int_domain_new [mk_range 7 9, mk_range (-3) 2]
     = Ok \<lparr>inclusive_ranges = [mk_range (-3) 2, mk_range 7 9]\<rparr> \<and>
   domain_bounds \<lparr>inclusive_ranges = [mk_range (-3) 2, mk_range 7 9]\<rparr> = Some (-3, 9) \<and>
   domain_contains \<lparr>inclusive_ranges = [mk_range (-3) 2, mk_range 7 9]\<rparr> (-3) \<and>
   domain_contains \<lparr>inclusive_ranges = [mk_range (-3) 2, mk_range 7 9]\<rparr> 9"
proof -
  have h: "domain_in_i64 [mk_range 7 9, mk_range (-3) 2]"
    by (simp add: domain_in_i64_def mk_range_def in_i64_def i64_min_def i64_max_def)
  have r: "int_domain_new [mk_range 7 9, mk_range (-3) 2]
      = Ok \<lparr>inclusive_ranges = [mk_range (-3) 2, mk_range 7 9]\<rparr>"
    by code_simp
  have b: "domain_bounds \<lparr>inclusive_ranges = [mk_range (-3) 2, mk_range 7 9]\<rparr> = Some (-3, 9)"
    by code_simp
  from domain_bounds_extremes [OF h r] show ?thesis by (simp add: h r b)
qed

end
