(* ===== verification/Linear_Expr.thy ===== *)
theory Linear_Expr
  imports Int_Domain
begin

section \<open>Linear expressions\<close>

text \<open>
  \<open>LinearTerm\<close> and \<open>LinearExpression\<close> of
  \<open>crates/eutheto-planning-ir/src/model.rs\<close>: the constructor adds up the coefficients of
  equal variables in an ordered map, drops the zero ones and leaves the terms in variable
  order. The lemmas show that a constructed expression has the value of its input at every
  valuation, that it is canonical, and that canonical expressions with the same values are
  equal.
\<close>

subsection \<open>Data and construction\<close>

type_synonym int_variable_id = string

record linear_term =
  term_variable :: int_variable_id
  coefficient :: i64

record linear_expression =
  expr_terms :: "linear_term list"
  expr_constant :: i64

text \<open>One step of the loop that fills the map \<open>combined\<close>.\<close>

definition combine_term ::
    "linear_term \<Rightarrow> (int_variable_id, i64) btree_map
       \<Rightarrow> (model_error, (int_variable_id, i64) btree_map) outcome" where
  "combine_term t combined =
     (let prior = (case bt_get combined (term_variable t) of None \<Rightarrow> 0 | Some c \<Rightarrow> c)
      in bind_o (ok_or ArithmeticOverflow (i64_checked_add prior (coefficient t)))
           (\<lambda>c. Ok (bt_insert (term_variable t) c combined)))"

definition nonzero_terms :: "(int_variable_id, i64) btree_map \<Rightarrow> linear_term list" where
  "nonzero_terms combined =
     map (\<lambda>(v, c). \<lparr>term_variable = v, coefficient = c\<rparr>) (filter (\<lambda>(v, c). c \<noteq> 0) combined)"

definition linear_expression_new ::
    "linear_term list \<Rightarrow> i64 \<Rightarrow> (model_error, linear_expression) outcome" where
  "linear_expression_new ts k =
     bind_o (each_o combine_term ts [])
       (\<lambda>combined. Ok \<lparr>expr_terms = nonzero_terms combined, expr_constant = k\<rparr>)"

subsection \<open>Values\<close>

definition terms_value :: "linear_term list \<Rightarrow> (int_variable_id \<Rightarrow> int) \<Rightarrow> int" where
  "terms_value ts f = (\<Sum>t \<leftarrow> ts. coefficient t * f (term_variable t))"

definition expr_value :: "linear_expression \<Rightarrow> (int_variable_id \<Rightarrow> int) \<Rightarrow> int" where
  "expr_value e f = expr_constant e + terms_value (expr_terms e) f"

definition canonical_terms :: "linear_term list \<Rightarrow> bool" where
  "canonical_terms ts \<longleftrightarrow>
     strictly_sorted (map term_variable ts) \<and> (\<forall>t \<in> set ts. coefficient t \<noteq> 0)"

lemma terms_value_simps [simp]:
  "terms_value [] f = 0"
  "terms_value (t # ts) f = coefficient t * f (term_variable t) + terms_value ts f"
  by (simp_all add: terms_value_def)

lemma combine_term_value:
  assumes "combine_term t m = Ok m'" and "bt_invar m"
  shows "bt_invar m'"
    and "(\<Sum>(v, c) \<leftarrow> m'. c * f v)
      = (\<Sum>(v, c) \<leftarrow> m. c * f v) + coefficient t * f (term_variable t)"
proof -
  define c where "c = (case bt_get m (term_variable t) of None \<Rightarrow> 0 | Some c \<Rightarrow> c) + coefficient t"
  from assms(1) have m': "m' = bt_insert (term_variable t) c m"
    by (auto simp: combine_term_def c_def Let_def)
  show "bt_invar m'" using m' assms(2) by (simp add: bt_invar_insert)
  show "(\<Sum>(v, c) \<leftarrow> m'. c * f v)
      = (\<Sum>(v, c) \<leftarrow> m. c * f v) + coefficient t * f (term_variable t)"
    using bt.sum_entries_put [OF assms(2), of "\<lambda>v c. c * f v" "term_variable t" c]
    by (simp add: m' c_def distrib_right split: option.splits)
qed

lemma combine_terms_value:
  assumes "each_o combine_term ts m = Ok m'" and "bt_invar m"
  shows "bt_invar m' \<and>
    (\<Sum>(v, c) \<leftarrow> m'. c * f v) = (\<Sum>(v, c) \<leftarrow> m. c * f v) + terms_value ts f"
  using assms
proof (induction ts arbitrary: m)
  case (Cons t ts)
  then obtain n where n: "combine_term t m = Ok n" "each_o combine_term ts n = Ok m'" by auto
  with Cons.IH [OF n(2)] combine_term_value [OF n(1) Cons.prems(2)] show ?case by simp
qed simp

lemma terms_value_nonzero:
  "terms_value (nonzero_terms m) f = (\<Sum>(v, c) \<leftarrow> m. c * f v)"
  by (induction m) (auto simp: nonzero_terms_def)

lemma canonical_nonzero_terms: "bt_invar m \<Longrightarrow> canonical_terms (nonzero_terms m)"
proof -
  assume "bt_invar m"
  then have "strictly_sorted (map fst (filter (\<lambda>(v, c). c \<noteq> 0) m))"
    by (auto simp: bt_invar_def strict_sorted_iff sorted_filter distinct_map_filter)
  then show ?thesis
    by (auto simp: canonical_terms_def nonzero_terms_def case_prod_unfold comp_def)
qed

lemma linear_expression_new_correct:
  assumes "linear_expression_new ts k = Ok e"
  shows "canonical_terms (expr_terms e)" and "expr_value e f = k + terms_value ts f"
proof -
  from assms obtain m where m: "each_o combine_term ts [] = Ok m"
    and e: "e = \<lparr>expr_terms = nonzero_terms m, expr_constant = k\<rparr>"
    by (auto simp: linear_expression_new_def)
  have inv: "bt_invar m \<and> (\<Sum>(v, c) \<leftarrow> m. c * f v) = terms_value ts f"
    using combine_terms_value [OF m bt.invar_empty] by simp
  then show "canonical_terms (expr_terms e)" by (simp add: e canonical_nonzero_terms)
  from inv show "expr_value e f = k + terms_value ts f"
    by (simp add: expr_value_def e terms_value_nonzero)
qed

subsection \<open>Canonical expressions are determined by their values\<close>

lemma terms_value_zero: "(\<And>t. t \<in> set ts \<Longrightarrow> f (term_variable t) = 0) \<Longrightarrow> terms_value ts f = 0"
  by (induction ts) auto

definition unit_at :: "int_variable_id \<Rightarrow> int_variable_id \<Rightarrow> int" where
  "unit_at v w = (if w = v then 1 else 0)"

definition coefficient_of :: "linear_term list \<Rightarrow> int_variable_id \<Rightarrow> int" where
  "coefficient_of ts v = (\<Sum>t \<leftarrow> ts. if term_variable t = v then coefficient t else 0)"

lemma terms_value_unit: "terms_value ts (unit_at v) = coefficient_of ts v"
  by (induction ts) (auto simp: coefficient_of_def unit_at_def)

lemma coefficient_of_notin: "v \<notin> term_variable ` set ts \<Longrightarrow> coefficient_of ts v = 0"
  by (induction ts) (auto simp: coefficient_of_def)

lemma coefficient_of_in:
  assumes "canonical_terms ts" and "t \<in> set ts"
  shows "coefficient_of ts (term_variable t) = coefficient t"
  using assms
proof (induction ts)
  case (Cons u ts)
  then have "term_variable u \<notin> term_variable ` set ts"
    by (auto simp: canonical_terms_def)
  with Cons show ?case
    by (cases "t = u") (auto simp: coefficient_of_def canonical_terms_def
        coefficient_of_notin [unfolded coefficient_of_def])
qed simp

lemma canonical_terms_subset:
  assumes "canonical_terms ts" and "canonical_terms us"
    and "\<And>v. coefficient_of ts v = coefficient_of us v"
  shows "set ts \<subseteq> set us"
proof
  fix t assume t: "t \<in> set ts"
  with assms(1) have "coefficient_of ts (term_variable t) = coefficient t"
    and nz: "coefficient t \<noteq> 0"
    by (auto simp: coefficient_of_in canonical_terms_def)
  then have c: "coefficient_of us (term_variable t) = coefficient t" using assms(3) by simp
  with nz obtain u where u: "u \<in> set us" "term_variable u = term_variable t"
    using coefficient_of_notin [of "term_variable t" us] by force
  from coefficient_of_in [OF assms(2) u(1)] u(2) c have "coefficient u = coefficient t" by simp
  with u have "u = t" by (intro linear_term.equality) auto
  with u show "t \<in> set us" by simp
qed

lemma canonical_terms_unique:
  assumes "canonical_terms ts" and "canonical_terms us" and "set ts = set us"
  shows "ts = us"
proof -
  have map_eq: "map term_variable ts = map term_variable us"
    using assms by (intro strict_sorted_equal) (auto simp: canonical_terms_def)
  have inj: "inj_on term_variable (set ts)"
    using assms(1) strictly_sorted_distinct by (fastforce simp: canonical_terms_def distinct_map)
  show ?thesis
    using map_eq inj assms(3) by (metis inj_on_map_eq_map sup.idem)
qed

theorem canonical_expr_unique:
  assumes "canonical_terms (expr_terms d)" and "canonical_terms (expr_terms e)"
    and "\<And>f. expr_value d f = expr_value e f"
  shows "d = (e :: linear_expression)"
proof -
  have k: "expr_constant d = expr_constant e"
    using assms(3) [of "\<lambda>_. 0"] by (simp add: expr_value_def terms_value_zero)
  have c: "coefficient_of (expr_terms d) v = coefficient_of (expr_terms e) v" for v
    using assms(3) [of "unit_at v"] k by (simp add: expr_value_def terms_value_unit)
  have "expr_terms d = expr_terms e"
    using canonical_terms_subset [OF assms(1,2) c]
      canonical_terms_subset [OF assms(2,1) c [symmetric]] assms(1,2)
    by (intro canonical_terms_unique) auto
  with k show ?thesis by (intro linear_expression.equality) auto
qed

subsection \<open>Construction on canonical input\<close>

lemma bt_insert_append:
  assumes "\<forall>x \<in> fst ` set m. x < k"
  shows "bt_insert k v m = m @ [(k, v)]"
  using assms by (induction k v m rule: bt_insert.induct) auto

lemma combine_terms_canonical:
  assumes "strictly_sorted (map fst m @ map term_variable ts)"
    and "\<forall>t \<in> set ts. in_i64 (coefficient t)"
  shows "each_o combine_term ts m = Ok (m @ map (\<lambda>t. (term_variable t, coefficient t)) ts)"
  using assms
proof (induction ts arbitrary: m)
  case (Cons t ts)
  have less: "\<forall>x \<in> fst ` set m. x < term_variable t"
    using Cons.prems(1) by (auto simp: sorted_wrt_append)
  then have "map_of m (term_variable t) = None"
    by (metis less_irrefl map_of_eq_None_iff)
  then have "combine_term t m = Ok (m @ [(term_variable t, coefficient t)])"
    using Cons.prems(2) less
    by (simp add: combine_term_def bt_get_def bt_insert_append i64_checked_add_def)
  with Cons.IH [of "m @ [(term_variable t, coefficient t)]"] Cons.prems show ?case by simp
qed simp

lemma linear_expression_new_id:
  assumes "canonical_terms (expr_terms e)" and "\<forall>t \<in> set (expr_terms e). in_i64 (coefficient t)"
  shows "linear_expression_new (expr_terms e) (expr_constant e) = Ok e"
proof -
  have nz: "filter (\<lambda>(v, c). c \<noteq> 0) (map (\<lambda>t. (term_variable t, coefficient t)) (expr_terms e))
      = map (\<lambda>t. (term_variable t, coefficient t)) (expr_terms e)"
    using assms(1) by (auto simp: canonical_terms_def intro!: filter_True)
  have "each_o combine_term (expr_terms e) [] = Ok (map (\<lambda>t. (term_variable t, coefficient t)) (expr_terms e))"
    using combine_terms_canonical [of "[]" "expr_terms e"] assms by (simp add: canonical_terms_def)
  moreover have "map (\<lambda>t. \<lparr>term_variable = term_variable t, coefficient = coefficient t\<rparr>)
      (expr_terms e) = expr_terms e"
    by (rule map_idI) simp
  ultimately show ?thesis
    by (simp add: linear_expression_new_def nonzero_terms_def nz comp_def)
qed

subsection \<open>Properties\<close>

text \<open>
  C29: \<open>LinearExpression::new\<close> keeps the value of the sum under every assignment, its result
  has strictly sorted variables and no zero coefficient, and it is the only such expression
  with that value.
\<close>

theorem linear_expression_new_normal_form:
  assumes "linear_expression_new ts k = Ok e"
  shows "canonical_terms (expr_terms e) \<and> (\<forall>f. expr_value e f = k + terms_value ts f) \<and>
    (\<forall>other. canonical_terms (expr_terms other) \<and> (\<forall>f. expr_value other f = k + terms_value ts f)
       \<longrightarrow> other = e)"
proof (intro conjI allI impI)
  show c: "canonical_terms (expr_terms e)" by (rule linear_expression_new_correct(1) [OF assms])
  fix f show "expr_value e f = k + terms_value ts f"
    by (rule linear_expression_new_correct(2) [OF assms])
next
  fix other :: linear_expression
  assume o: "canonical_terms (expr_terms other) \<and> (\<forall>f. expr_value other f = k + terms_value ts f)"
  show "other = e"
  proof (rule canonical_expr_unique)
    show "canonical_terms (expr_terms e)" by (rule linear_expression_new_correct(1) [OF assms])
    show "canonical_terms (expr_terms other)" using o by blast
    fix f show "expr_value other f = expr_value e f"
      using o linear_expression_new_correct(2) [OF assms, of f] by simp
  qed
qed

definition mk_term :: "string \<Rightarrow> i64 \<Rightarrow> linear_term" where
  "mk_term v c = \<lparr>term_variable = v, coefficient = c\<rparr>"

theorem linear_expression_new_normal_form_witness:
  "linear_expression_new [mk_term ''y'' 2, mk_term ''x'' 1, mk_term ''y'' (-2), mk_term ''a'' 4] 7
     = Ok \<lparr>expr_terms = [mk_term ''a'' 4, mk_term ''x'' 1], expr_constant = 7\<rparr> \<and>
   canonical_terms [mk_term ''a'' 4, mk_term ''x'' 1]"
proof -
  have r: "linear_expression_new [mk_term ''y'' 2, mk_term ''x'' 1, mk_term ''y'' (-2), mk_term ''a'' 4] 7
     = Ok \<lparr>expr_terms = [mk_term ''a'' 4, mk_term ''x'' 1], expr_constant = 7\<rparr>"
    by code_simp
  from linear_expression_new_normal_form [OF r] r show ?thesis by simp
qed

text \<open>C40: A canonical expression with 64-bit coefficients is rebuilt unchanged.\<close>

theorem linear_expression_new_fixpoint:
  assumes "canonical_terms (expr_terms e)" and "\<forall>t \<in> set (expr_terms e). in_i64 (coefficient t)"
  shows "linear_expression_new (expr_terms e) (expr_constant e) = Ok e"
  by (rule linear_expression_new_id [OF assms])

theorem linear_expression_new_fixpoint_witness:
  "linear_expression_new [mk_term ''a'' 4, mk_term ''x'' (-1)] 7
     = Ok \<lparr>expr_terms = [mk_term ''a'' 4, mk_term ''x'' (-1)], expr_constant = 7\<rparr>"
  using linear_expression_new_fixpoint
    [of "\<lparr>expr_terms = [mk_term ''a'' 4, mk_term ''x'' (-1)], expr_constant = 7\<rparr>"]
  by (simp add: canonical_terms_def mk_term_def in_i64_def i64_min_def i64_max_def)

end
