(* ===== verification/Planning_Model.thy ===== *)
theory Planning_Model
  imports Linear_Expr
begin

section \<open>The solver-neutral planning model\<close>

text \<open>
  The data of \<open>crates/eutheto-planning-ir/src/model.rs\<close> with its shape-safe constructors
  and the canonical form of a constraint record, and the few values of
  \<open>crates/eutheto-domain-ir/src/lib.rs\<close> the model refers to. Every identifier is its
  canonical string; constructor names carry a prefix where two Rust enums share one.
\<close>

type_synonym bool_variable_id = string
type_synonym interval_variable_id = string
type_synonym planning_constraint_id = string
type_synonym objective_level_id = string
type_synonym objective_term_id = string
type_synonym projection_id = string
type_synonym provenance_id = string
type_synonym constraint_tag = string
type_synonym rule_id = string

subsection \<open>Literals and variables\<close>

record literal =
  lit_variable :: bool_variable_id
  lit_positive :: bool

instantiation literal_ext :: (linorder) linorder
begin

definition less_eq_literal_ext :: "'a literal_ext \<Rightarrow> 'a literal_ext \<Rightarrow> bool" where
  "less_eq_literal_ext a b \<longleftrightarrow>
     lit_variable a < lit_variable b \<or> lit_variable a = lit_variable b \<and>
     (lit_positive a < lit_positive b \<or> lit_positive a = lit_positive b \<and>
        literal.more a \<le> literal.more b)"

definition less_literal_ext :: "'a literal_ext \<Rightarrow> 'a literal_ext \<Rightarrow> bool" where
  "less_literal_ext a b \<longleftrightarrow> a \<le> b \<and> \<not> b \<le> a"

instance
  by standard (auto simp: less_literal_ext_def less_eq_literal_ext_def)

end

definition literal_positive :: "bool_variable_id \<Rightarrow> literal" where
  "literal_positive v = \<lparr>lit_variable = v, lit_positive = True\<rparr>"

definition literal_negative :: "bool_variable_id \<Rightarrow> literal" where
  "literal_negative v = \<lparr>lit_variable = v, lit_positive = False\<rparr>"

definition literal_negated :: "literal \<Rightarrow> literal" where
  "literal_negated l = \<lparr>lit_variable = lit_variable l, lit_positive = (\<not> lit_positive l)\<rparr>"

record bool_variable =
  bool_id :: bool_variable_id
  bool_provenance :: provenance_id

record int_variable =
  int_id :: int_variable_id
  variable_domain :: int_domain
  int_provenance :: provenance_id

record interval_variable =
  interval_id :: interval_variable_id
  interval_start :: int_variable_id
  interval_duration :: int_variable_id
  interval_end :: int_variable_id
  interval_presence :: "literal option"
  interval_provenance :: provenance_id

datatype variable =
    VBoolean bool_variable
  | VInteger int_variable
  | VInterval interval_variable

fun canonical_id :: "variable \<Rightarrow> string" where
  "canonical_id (VBoolean v) = bool_id v"
| "canonical_id (VInteger v) = int_id v"
| "canonical_id (VInterval v) = interval_id v"

fun variable_provenance :: "variable \<Rightarrow> provenance_id" where
  "variable_provenance (VBoolean v) = bool_provenance v"
| "variable_provenance (VInteger v) = int_provenance v"
| "variable_provenance (VInterval v) = interval_provenance v"

subsection \<open>Constraints\<close>

datatype comparison_op = Equal | LessOrEqual | GreaterOrEqual

record linear_comparison =
  comparison_expression :: linear_expression
  comparison_op :: comparison_op
  comparison_rhs :: i64

datatype constraint =
    BoolOr "literal list"
  | BoolAnd "literal list"
  | Implication literal literal
  | Equivalence literal literal
  | AtMostOne "literal list"
  | ExactlyOne "literal list"
  | CardinalityRange "literal list" u64 u64
  | LinearComparison linear_comparison
  | ReifiedLinearComparison literal linear_comparison
  | AllDifferent "int_variable_id list"
  | AllowedTable "int_variable_id list" "i64 list list"
  | ForbiddenTable "int_variable_id list" "i64 list list"
  | Element int_variable_id "i64 list" int_variable_id
  | Min int_variable_id "int_variable_id list"
  | Max int_variable_id "int_variable_id list"
  | Equality int_variable_id int_variable_id
  | AbsDifference int_variable_id int_variable_id int_variable_id
  | NoOverlap "interval_variable_id list"
  | Cumulative "interval_variable_id list" "i64 list" i64

definition canonical_literals :: "literal list \<Rightarrow> literal list" where
  "canonical_literals literals = sort_dedup literals"

definition constraint_bool_or :: "literal list \<Rightarrow> constraint" where
  "constraint_bool_or literals = BoolOr (canonical_literals literals)"

definition constraint_bool_and :: "literal list \<Rightarrow> constraint" where
  "constraint_bool_and literals = BoolAnd (canonical_literals literals)"

definition constraint_at_most_one :: "literal list \<Rightarrow> constraint" where
  "constraint_at_most_one literals = AtMostOne (canonical_literals literals)"

definition constraint_exactly_one :: "literal list \<Rightarrow> constraint" where
  "constraint_exactly_one literals = ExactlyOne (canonical_literals literals)"

definition constraint_cardinality ::
    "literal list \<Rightarrow> u64 \<Rightarrow> u64 \<Rightarrow> (model_error, constraint) outcome" where
  "constraint_cardinality literals mn mx =
     (let literals = canonical_literals literals in
      if length literals > u64_max then Err Shape
      else if mn > mx \<or> mx > length literals then Err Shape
      else Ok (CardinalityRange literals mn mx))"

definition constraint_all_different :: "int_variable_id list \<Rightarrow> constraint" where
  "constraint_all_different vs = AllDifferent (sort_dedup vs)"

definition canonical_table ::
    "int_variable_id list \<Rightarrow> i64 list list \<Rightarrow> (model_error, i64 list list) outcome" where
  "canonical_table vs rows =
     (if list_ex (\<lambda>row. length row \<noteq> length vs) rows then Err Shape else Ok (sort_dedup rows))"

definition constraint_allowed_table ::
    "int_variable_id list \<Rightarrow> i64 list list \<Rightarrow> (model_error, constraint) outcome" where
  "constraint_allowed_table vs rows =
     bind_o (canonical_table vs rows) (\<lambda>rows. Ok (AllowedTable vs rows))"

definition constraint_forbidden_table ::
    "int_variable_id list \<Rightarrow> i64 list list \<Rightarrow> (model_error, constraint) outcome" where
  "constraint_forbidden_table vs rows =
     bind_o (canonical_table vs rows) (\<lambda>rows. Ok (ForbiddenTable vs rows))"

definition constraint_min ::
    "int_variable_id \<Rightarrow> int_variable_id list \<Rightarrow> (model_error, constraint) outcome" where
  "constraint_min target inputs =
     (if inputs = [] then Err Shape else Ok (Min target (sort_dedup inputs)))"

definition constraint_max ::
    "int_variable_id \<Rightarrow> int_variable_id list \<Rightarrow> (model_error, constraint) outcome" where
  "constraint_max target inputs =
     (if inputs = [] then Err Shape else Ok (Max target (sort_dedup inputs)))"

definition constraint_no_overlap :: "interval_variable_id list \<Rightarrow> constraint" where
  "constraint_no_overlap intervals = NoOverlap (sort_dedup intervals)"

definition checked_total :: "i64 list \<Rightarrow> (model_error, i64) outcome" where
  "checked_total demands =
     each_o (\<lambda>demand total. ok_or ArithmeticOverflow (i64_checked_add total demand)) demands 0"

definition constraint_cumulative ::
    "interval_variable_id list \<Rightarrow> i64 list \<Rightarrow> i64 \<Rightarrow> (model_error, constraint) outcome" where
  "constraint_cumulative intervals demands capacity =
     (if length intervals \<noteq> length demands \<or> capacity < 0 \<or> list_ex (\<lambda>demand. demand < 0) demands
      then Err Shape
      else
        let pairs = sort_key fst (zip intervals demands) in
        if list_ex (\<lambda>(a, b). fst a = fst b) (windows2 pairs) then Err Shape
        else bind_o (checked_total (map snd pairs))
               (\<lambda>_. Ok (Cumulative (map fst pairs) (map snd pairs) capacity)))"

record constraint_record =
  record_id :: planning_constraint_id
  body :: constraint
  enforcement :: "literal list"
  record_provenance :: provenance_id
  tags :: "constraint_tag list"

fun canonicalize_body :: "constraint \<Rightarrow> constraint" where
  "canonicalize_body (BoolOr literals) = BoolOr (canonical_literals literals)"
| "canonicalize_body (BoolAnd literals) = BoolAnd (canonical_literals literals)"
| "canonicalize_body (AtMostOne literals) = AtMostOne (canonical_literals literals)"
| "canonicalize_body (ExactlyOne literals) = ExactlyOne (canonical_literals literals)"
| "canonicalize_body (CardinalityRange literals mn mx) =
     CardinalityRange (canonical_literals literals) mn mx"
| "canonicalize_body (AllDifferent vs) = AllDifferent (sort_dedup vs)"
| "canonicalize_body (Min target inputs) = Min target (sort_dedup inputs)"
| "canonicalize_body (Max target inputs) = Max target (sort_dedup inputs)"
| "canonicalize_body (AllowedTable vs rows) = AllowedTable vs (sort_dedup rows)"
| "canonicalize_body (ForbiddenTable vs rows) = ForbiddenTable vs (sort_dedup rows)"
| "canonicalize_body (NoOverlap intervals) = NoOverlap (sort_dedup intervals)"
| "canonicalize_body (Cumulative intervals demands capacity) =
     (let pairs = sort_key fst (zip intervals demands)
      in Cumulative (map fst pairs) (map snd pairs) capacity)"
| "canonicalize_body (Implication a c) = Implication a c"
| "canonicalize_body (Equivalence l r) = Equivalence l r"
| "canonicalize_body (LinearComparison c) = LinearComparison c"
| "canonicalize_body (ReifiedLinearComparison l c) = ReifiedLinearComparison l c"
| "canonicalize_body (Element i vs t) = Element i vs t"
| "canonicalize_body (Equality l r) = Equality l r"
| "canonicalize_body (AbsDifference t l r) = AbsDifference t l r"

definition record_canonicalize :: "constraint_record \<Rightarrow> constraint_record" where
  "record_canonicalize r =
     r\<lparr>enforcement := canonical_literals (enforcement r),
       tags := sort_dedup (tags r),
       body := canonicalize_body (body r)\<rparr>"

subsection \<open>Objectives, assumptions, provenance, projections\<close>

datatype optimization_direction = Minimize | Maximize

datatype objective_term_kind = Penalty | Reward

record objective_term =
  objective_term_id :: objective_term_id
  objective_expression :: linear_expression
  objective_kind :: objective_term_kind
  objective_category :: string
  objective_term_provenance :: provenance_id

record objective_level =
  level_id :: objective_level_id
  direction :: optimization_direction
  lower_bound :: i64
  upper_bound :: i64
  level_terms :: "objective_term list"
  level_provenance :: provenance_id

record objective_plan =
  levels :: "objective_level list"

record assumption =
  assumption_id :: string
  assumption_literal :: literal
  required_rules :: "rule_id list"
  assumption_provenance :: provenance_id

record domain_entity_ref =
  entity_kind :: string
  entity_id :: string

instantiation domain_entity_ref_ext :: (linorder) linorder
begin

definition less_eq_domain_entity_ref_ext ::
    "'a domain_entity_ref_ext \<Rightarrow> 'a domain_entity_ref_ext \<Rightarrow> bool" where
  "less_eq_domain_entity_ref_ext a b \<longleftrightarrow>
     entity_kind a < entity_kind b \<or> entity_kind a = entity_kind b \<and>
     (entity_id a < entity_id b \<or> entity_id a = entity_id b \<and>
        domain_entity_ref.more a \<le> domain_entity_ref.more b)"

definition less_domain_entity_ref_ext ::
    "'a domain_entity_ref_ext \<Rightarrow> 'a domain_entity_ref_ext \<Rightarrow> bool" where
  "less_domain_entity_ref_ext a b \<longleftrightarrow> a \<le> b \<and> \<not> b \<le> a"

instance
  by standard (auto simp: less_domain_entity_ref_ext_def less_eq_domain_entity_ref_ext_def)

end

datatype provenance_parameter =
    PBoolean bool
  | PInteger i64
  | PText string
  | PEntity domain_entity_ref

datatype provenance_source_kind = RequiredRule | Preference | Fact | Derived | Projection

record provenance_record =
  provenance_record_id :: provenance_id
  source_kind :: provenance_source_kind
  source_id :: string
  entity_refs :: "domain_entity_ref list"
  message_key :: string
  parameters :: "(string, provenance_parameter) btree_map"
  parent :: "provenance_id option"

record assigned_interval =
  assigned_start :: i64
  assigned_duration :: i64
  assigned_end :: i64

datatype assignment_value =
    ABoolean bool
  | AInteger i64
  | AInterval assigned_interval
  | Absent

datatype projection_expression =
    EBoolean bool_variable_id
  | EInteger int_variable_id
  | ELinear linear_expression
  | EInterval interval_variable_id
  | EConstant assignment_value

record solution_projection =
  projection_id :: projection_id
  assignment_id :: string
  projection_entity :: domain_entity_ref
  required :: bool
  projection_expression :: projection_expression
  projection_provenance :: provenance_id

subsection \<open>The planning problem\<close>

record planning_metadata =
  pack_id :: string
  scenario_id :: string
  scenario_revision :: u64
  projection_version :: nat
  compiler_id :: string
  compiler_version :: string
  compile_metadata :: "(string, provenance_parameter) btree_map"
  display_text :: "(string, string) btree_map"

datatype capability =
    CapBoolOr | CapBoolAnd | CapImplication | CapEquivalence | CapAtMostOne | CapExactlyOne
  | CapCardinalityRange | CapLinearComparison | CapReifiedLinearComparison | CapAllDifferent
  | CapAllowedTable | CapForbiddenTable | CapElement | CapMin | CapMax | CapEquality
  | CapAbsDifference | CapNoOverlap | CapCumulative | OptionalIntervals | ObjectivePenalty
  | ObjectiveReward | Assumptions | BooleanProjection | IntegerProjection | IntervalProjection
  | AbsentProjection

record split_authorization =
  authorized_component_hash :: string
  domain_merge_contract :: string
  projection_independent :: bool

record planning_problem =
  schema_version :: nat
  variables :: "variable list"
  constraints :: "constraint_record list"
  objectives :: objective_plan
  assumptions :: "assumption list"
  projections :: "solution_projection list"
  provenance :: "provenance_record list"
  metadata :: planning_metadata
  declared_capabilities :: "capability set"
  split_authorization :: "split_authorization option"

definition planning_ir_schema_version :: nat where
  "planning_ir_schema_version = 2"

subsection \<open>Assigned intervals\<close>

text \<open>\<open>AssignedInterval::new\<close>; the only error is \<open>InvalidInterval\<close>, shown as \<open>None\<close>.\<close>

definition assigned_interval_new :: "i64 \<Rightarrow> i64 \<Rightarrow> i64 \<Rightarrow> assigned_interval option" where
  "assigned_interval_new s d e =
     (if d < 0 \<or> i64_checked_add s d \<noteq> Some e then None
      else Some \<lparr>assigned_start = s, assigned_duration = d, assigned_end = e\<rparr>)"

definition assigned_interval_validate :: "assigned_interval \<Rightarrow> bool" where
  "assigned_interval_validate i \<longleftrightarrow>
     assigned_interval_new (assigned_start i) (assigned_duration i) (assigned_end i) \<noteq> None"

subsection \<open>Canonical constraint records\<close>

lemma canonical_literals_id: "strictly_sorted ls \<Longrightarrow> canonical_literals ls = ls"
  by (simp add: canonical_literals_def sort_dedup_id)

lemma sort_key_fst_zip_sorted: "sorted (map fst (sort_key fst ps))"
  by simp

lemma sort_key_zip_unzip [simp]:
  "zip (map fst (sort_key fst ps)) (map snd (sort_key fst ps)) = sort_key fst ps"
  by (simp add: zip_map_fst_snd)

lemma canonicalize_body_idem: "canonicalize_body (canonicalize_body c) = canonicalize_body c"
  by (cases c) (simp_all add: canonical_literals_def Let_def sort_key_id_if_sorted)

theorem record_canonicalize_idem:
  "record_canonicalize (record_canonicalize r) = record_canonicalize r"
  by (simp add: record_canonicalize_def canonicalize_body_idem canonical_literals_def)

end
