(* ===== verification/Scalarization.thy ===== *)
theory Scalarization
  imports Planning_Model
begin

section \<open>Exact scalarization of a lexicographic objective\<close>

text \<open>
  \<open>lexicographic_strategy\<close> of \<open>crates/eutheto-planning-ir/src/analysis.rs\<close>: one weight per
  objective level so that the weighted sum orders value vectors as the levels do, or
  \<open>Multipass\<close> where the weights do not fit 64 bits. The properties say when it succeeds, that
  the weighted order is the lexicographic one on every vector within the declared bounds, and
  that the weighted distance from the lower bounds fits 64 bits.
\<close>

datatype strategy = ExactScalarization "i64 list" | Multipass

text \<open>The loop runs from the last level to the first and fills \<open>weights\<close> from the back.\<close>

fun scalarize_loop :: "objective_level list \<Rightarrow> i64 \<Rightarrow> i64 list \<Rightarrow> strategy" where
  "scalarize_loop [] lower_span weights = ExactScalarization weights"
| "scalarize_loop (level # rest) lower_span weights =
     (case i64_checked_sub (upper_bound level) (lower_bound level) of
        None \<Rightarrow> Multipass
      | Some span \<Rightarrow>
          (case i64_checked_add span 1 of
             None \<Rightarrow> Multipass
           | Some radix \<Rightarrow>
               (case i64_checked_mul lower_span radix of
                  None \<Rightarrow> Multipass
                | Some nxt \<Rightarrow> scalarize_loop rest nxt (lower_span # weights))))"

definition lexicographic_strategy :: "objective_plan \<Rightarrow> strategy" where
  "lexicographic_strategy plan =
     (if levels plan = [] then ExactScalarization []
      else scalarize_loop (rev (levels plan)) 1 [])"

subsection \<open>The weights\<close>

definition radix :: "objective_level \<Rightarrow> int" where
  "radix level = upper_bound level - lower_bound level + 1"

definition ordered_bounds :: "objective_level list \<Rightarrow> bool" where
  "ordered_bounds ls \<longleftrightarrow> (\<forall>l \<in> set ls. lower_bound l \<le> upper_bound l)"

definition radices :: "objective_level list \<Rightarrow> int" where
  "radices ls = (\<Prod>l \<leftarrow> ls. radix l)"

fun weights_of :: "objective_level list \<Rightarrow> int list" where
  "weights_of [] = []"
| "weights_of (l # ls) = radices ls # weights_of ls"

lemma radices_simps [simp]:
  "radices [] = 1"
  "radices (l # ls) = radix l * radices ls"
  "radices (ls @ ks) = radices ls * radices ks"
  "radices (rev ls) = radices ls"
  by (simp_all add: radices_def rev_map [symmetric])

lemma ordered_bounds_simps [simp]:
  "ordered_bounds []"
  "ordered_bounds (l # ls) \<longleftrightarrow> lower_bound l \<le> upper_bound l \<and> ordered_bounds ls"
  "ordered_bounds (rev ls) \<longleftrightarrow> ordered_bounds ls"
  by (simp_all add: ordered_bounds_def)

lemma radix_pos: "lower_bound l \<le> upper_bound l \<Longrightarrow> 1 \<le> radix l"
  by (simp add: radix_def)

lemma radices_pos: "ordered_bounds ls \<Longrightarrow> 1 \<le> radices ls"
proof (induction ls)
  case (Cons l ls)
  then have "1 \<le> radix l" "1 \<le> radices ls" by (simp_all add: radix_pos)
  then have "1 * 1 \<le> radix l * radices ls" by (intro mult_mono) linarith+
  then show ?case by simp
qed simp

lemma weights_of_snoc:
  "weights_of (ls @ [l]) = map (\<lambda>w. w * radix l) (weights_of ls) @ [1]"
  by (induction ls) (simp_all add: mult.assoc)

lemma scalarize_loop_spec:
  assumes "ordered_bounds ls" and "1 \<le> s" and "s \<le> i64_max"
  shows "scalarize_loop ls s ws =
    (if s * radices ls \<le> i64_max then ExactScalarization (map (\<lambda>w. w * s) (weights_of (rev ls)) @ ws)
     else Multipass)"
  using assms
proof (induction ls arbitrary: s ws)
  case (Cons l ls)
  have r: "1 \<le> radix l" and p: "1 \<le> radices ls" using Cons.prems radix_pos radices_pos by auto
  have le1: "radix l \<le> s * radix l" using mult_right_mono [of 1 s "radix l"] r Cons.prems by simp
  then have "0 \<le> s * radix l" using r by linarith
  then have le2: "s * radix l \<le> s * radix l * radices ls"
    using mult_left_mono [of 1 "radices ls" "s * radix l"] p by simp
  note le = le1 le2
  show ?case
  proof (cases "s * radix l \<le> i64_max")
    case True
    have "i64_min \<le> 0" by (simp add: i64_min_def)
    with True le1 r have i: "in_i64 (radix l)" "in_i64 (radix l - 1)" "in_i64 (s * radix l)"
      unfolding in_i64_def by linarith+
    have "scalarize_loop (l # ls) s ws = scalarize_loop ls (s * radix l) (s # ws)"
      using i by (simp add: i64_checked_sub_def i64_checked_add_def i64_checked_mul_def radix_def)
    moreover have "1 \<le> s * radix l" using le r by linarith
    ultimately show ?thesis
      using Cons.IH [of "s * radix l" "s # ws"] Cons.prems True
      by (simp add: weights_of_snoc mult.assoc mult.commute [of s] comp_def)
  next
    case False
    have "scalarize_loop (l # ls) s ws = Multipass"
      using False by (auto simp: i64_checked_sub_def i64_checked_add_def i64_checked_mul_def
          radix_def in_i64_def split: if_splits)
    moreover have "\<not> s * radices (l # ls) \<le> i64_max"
      using False le2 unfolding radices_simps mult.assoc by linarith
    ultimately show ?thesis by simp
  qed
qed simp

lemma lexicographic_strategy_spec:
  assumes "ordered_bounds (levels plan)"
  shows "lexicographic_strategy plan =
    (if radices (levels plan) \<le> i64_max then ExactScalarization (weights_of (levels plan)) else Multipass)"
  using assms scalarize_loop_spec [of "rev (levels plan)" 1 "[]"]
  by (auto simp: lexicographic_strategy_def i64_max_def)

subsection \<open>The order\<close>

definition within :: "objective_level list \<Rightarrow> int list \<Rightarrow> bool" where
  "within ls xs \<longleftrightarrow> list_all2 (\<lambda>l x. lower_bound l \<le> x \<and> x \<le> upper_bound l) ls xs"

definition weighted :: "int list \<Rightarrow> int list \<Rightarrow> int" where
  "weighted ws xs = (\<Sum>(w, x) \<leftarrow> zip ws xs. w * x)"

definition offsets :: "objective_level list \<Rightarrow> int list \<Rightarrow> int list" where
  "offsets ls xs = map2 (\<lambda>l x. x - lower_bound l) ls xs"

lemma within_ordered: "within ls xs \<Longrightarrow> ordered_bounds ls"
  unfolding within_def by (induction ls xs rule: list_all2_induct) auto

lemma weighted_simps [simp]:
  "weighted [] xs = 0"
  "weighted (w # ws) (x # xs) = w * x + weighted ws xs"
  by (simp_all add: weighted_def)

lemma offsets_Cons [simp]: "offsets (l # ls) (x # xs) = (x - lower_bound l) # offsets ls xs"
  by (simp add: offsets_def)

lemma weighted_offsets:
  assumes "within ls xs"
  shows "0 \<le> weighted (weights_of ls) (offsets ls xs)"
    and "weighted (weights_of ls) (offsets ls xs) < radices ls"
  using assms unfolding within_def
proof (induction ls xs rule: list_all2_induct)
  case (Cons l ls x xs)
  then have p: "1 \<le> radices ls" using within_ordered [of ls xs] radices_pos by (simp add: within_def)
  have "0 \<le> radices ls * (x - lower_bound l)" using Cons p by simp
  then show "0 \<le> weighted (weights_of (l # ls)) (offsets (l # ls) (x # xs))" using Cons by simp
  have "radices ls * (x - lower_bound l) + radices ls \<le> radices ls * radix l"
  proof -
    have "radices ls * (x - lower_bound l + 1) \<le> radices ls * radix l"
      using Cons p by (intro mult_left_mono) (simp_all add: radix_def)
    then show ?thesis by (simp add: distrib_left)
  qed
  with Cons show "weighted (weights_of (l # ls)) (offsets (l # ls) (x # xs)) < radices (l # ls)"
    by (simp add: mult.commute)
qed (simp_all add: offsets_def)

lemma radix_compare:
  fixes W :: int
  assumes "0 \<le> p" "p < W" "0 \<le> q" "q < W"
  shows "W * a + p < W * b + q \<longleftrightarrow> a < b \<or> a = b \<and> p < q"
proof (cases a b rule: linorder_cases)
  case less
  then have "W * (a + 1) \<le> W * b" using assms by (intro mult_left_mono) auto
  with less assms show ?thesis by (simp add: distrib_left)
next
  case greater
  then have "W * (b + 1) \<le> W * a" using assms by (intro mult_left_mono) auto
  with greater assms show ?thesis by (simp add: distrib_left)
qed simp

lemma weighted_lexicographic:
  assumes "within ls xs" and "within ls ys"
  shows "weighted (weights_of ls) (offsets ls xs) < weighted (weights_of ls) (offsets ls ys) \<longleftrightarrow> xs < ys"
  using assms
proof (induction ls arbitrary: xs ys)
  case (Cons l ls)
  then obtain x xs' y ys' where xy: "xs = x # xs'" "ys = y # ys'" "within ls xs'" "within ls ys'"
    by (auto simp: within_def list_all2_Cons1)
  let ?p = "weighted (weights_of ls) (offsets ls xs')" and ?q = "weighted (weights_of ls) (offsets ls ys')"
  have "radices ls * (x - lower_bound l) + ?p < radices ls * (y - lower_bound l) + ?q \<longleftrightarrow>
      x - lower_bound l < y - lower_bound l \<or> x - lower_bound l = y - lower_bound l \<and> ?p < ?q"
    by (rule radix_compare) (rule weighted_offsets, fact xy)+
  also have "\<dots> \<longleftrightarrow> x < y \<or> x = y \<and> xs' < ys'"
    by (simp only: Cons.IH [OF xy(3,4)] diff_less_eq diff_add_cancel diff_eq_eq)
  finally show ?case
    by (simp only: xy(1,2) weights_of.simps offsets_Cons weighted_simps Cons_less_Cons)
qed (simp add: within_def)

lemma weighted_shift:
  assumes "length ws = length ls" and "length xs = length ls"
  shows "weighted ws xs = weighted ws (offsets ls xs) + weighted ws (map lower_bound ls)"
  using assms
proof (induction ls arbitrary: ws xs)
  case (Cons l ls)
  obtain w ws' x xs' where wx: "ws = w # ws'" "xs = x # xs'"
    using Cons.prems by (cases ws; cases xs) auto
  with Cons.prems have "length ws' = length ls" "length xs' = length ls" by simp_all
  then have "weighted ws' xs' = weighted ws' (offsets ls xs') + weighted ws' (map lower_bound ls)"
    by (rule Cons.IH)
  then show ?case by (simp add: wx right_diff_distrib)
qed simp

lemma length_weights_of [simp]: "length (weights_of ls) = length ls"
  by (induction ls) auto

subsection \<open>Properties\<close>

text \<open>
  C26: Where every level's bounds are ordered, \<open>lexicographic_strategy\<close> gives up exactly if the
  product of the level widths exceeds \<open>i64::MAX\<close>. Where it returns weights, there is one per level,
  the weighted sum of two vectors within the bounds compares as the vectors do
  lexicographically, equal sums mean equal vectors, and the weighted distance from the lower
  bounds fits 64 bits.
\<close>

theorem lexicographic_strategy_exact:
  assumes "ordered_bounds (levels plan)"
  shows "case lexicographic_strategy plan of
      Multipass \<Rightarrow> i64_max < radices (levels plan)
    | ExactScalarization ws \<Rightarrow>
        radices (levels plan) \<le> i64_max \<and> length ws = length (levels plan) \<and>
        (\<forall>xs ys. within (levels plan) xs \<longrightarrow> within (levels plan) ys \<longrightarrow>
           (weighted ws xs < weighted ws ys \<longleftrightarrow> xs < ys) \<and>
           (weighted ws xs = weighted ws ys \<longleftrightarrow> xs = ys) \<and>
           0 \<le> weighted ws (offsets (levels plan) xs) \<and>
           weighted ws (offsets (levels plan) xs) < i64_max)"
proof (cases "radices (levels plan) \<le> i64_max")
  case False
  then show ?thesis using lexicographic_strategy_spec [OF assms] by simp
next
  case True
  let ?l = "levels plan"
  let ?w = "weights_of ?l"
  have s: "lexicographic_strategy plan = ExactScalarization ?w"
    using lexicographic_strategy_spec [OF assms] True by simp
  have lt: "weighted ?w xs < weighted ?w ys \<longleftrightarrow> xs < ys" if w: "within ?l xs" "within ?l ys" for xs ys
  proof -
    have len: "length xs = length ?l" "length ys = length ?l"
      using w [unfolded within_def, THEN list_all2_lengthD] by simp_all
    show ?thesis
      using weighted_lexicographic [OF w] weighted_shift [OF length_weights_of len(1)]
        weighted_shift [OF length_weights_of len(2)] by linarith
  qed
  have eq: "weighted ?w xs = weighted ?w ys \<longleftrightarrow> xs = ys" if w: "within ?l xs" "within ?l ys" for xs ys
  proof
    assume "weighted ?w xs = weighted ?w ys"
    then have "\<not> xs < ys" "\<not> ys < xs" using lt [OF w] lt [OF w(2,1)] by simp_all
    then show "xs = ys" by (rule order.antisym [OF leI leI, rotated])
  qed simp
  have bound: "0 \<le> weighted ?w (offsets ?l xs)" "weighted ?w (offsets ?l xs) < i64_max"
    if "within ?l xs" for xs
    using weighted_offsets [OF that] True by simp_all
  show ?thesis unfolding s strategy.case
    by (intro conjI allI impI) (fact True, rule length_weights_of, erule (1) lt, erule (1) eq, erule bound, erule bound)
qed

definition mk_level :: "i64 \<Rightarrow> i64 \<Rightarrow> objective_level" where
  "mk_level lo hi = \<lparr>level_id = ''o.l'', direction = Minimize, lower_bound = lo, upper_bound = hi,
     level_terms = [], level_provenance = ''p.q''\<rparr>"

theorem lexicographic_strategy_exact_witness:
  "lexicographic_strategy \<lparr>levels = [mk_level 0 5, mk_level (-3) 6, mk_level 1 2]\<rparr>
     = ExactScalarization [20, 2, 1] \<and>
   within [mk_level 0 5, mk_level (-3) 6, mk_level 1 2] [4, 6, 2] \<and>
   within [mk_level 0 5, mk_level (-3) 6, mk_level 1 2] [5, -3, 1] \<and>
   weighted [20, 2, 1] [4, 6, 2] < weighted [20, 2, 1] [5, -3, 1]"
proof -
  let ?p = "\<lparr>levels = [mk_level 0 5, mk_level (-3) 6, mk_level 1 2]\<rparr>"
  have o: "ordered_bounds (levels ?p)" by (simp add: mk_level_def)
  have s: "lexicographic_strategy ?p = ExactScalarization [20, 2, 1]" by code_simp
  have w: "within (levels ?p) [4, 6, 2]" "within (levels ?p) [5, -3, 1]"
    by (simp_all add: within_def mk_level_def)
  from lexicographic_strategy_exact [OF o] w have
    "weighted [20, 2, 1] [4, 6, 2] < weighted [20, 2, 1] [5, -3, 1] \<longleftrightarrow> [4, 6, 2] < [5, -3, 1 :: int]"
    unfolding s strategy.case by blast
  with s w show ?thesis by simp
qed

end
