(* ===== verification/Planning_Ids.thy ===== *)
theory Planning_Ids
  imports Prelude
begin

section \<open>Planning identifiers\<close>

text \<open>
  The validity check of \<open>crates/eutheto-planning-ir/src/ids.rs\<close>, shared by all identifier types
  of the planning model: at most 160 bytes, at least two segments separated by dots, each segment
  made of lowercase letters, digits, \<open>_\<close> and \<open>-\<close>, beginning and ending with a letter or digit.
\<close>

definition max_planning_id_bytes :: usize where
  "max_planning_id_bytes = 160"

text \<open>\<open>str::split(c)\<close>: the pieces between the separators, always at least one.\<close>

fun split_on :: "char \<Rightarrow> string \<Rightarrow> string list" where
  "split_on c [] = [[]]"
| "split_on c (x # xs) =
     (if x = c then [] # split_on c xs
      else (case split_on c xs of [] \<Rightarrow> [[x]] | s # ss \<Rightarrow> (x # s) # ss))"

definition is_ascii_lowercase :: "char \<Rightarrow> bool" where
  "is_ascii_lowercase c \<longleftrightarrow> CHR ''a'' \<le> c \<and> c \<le> CHR ''z''"

definition is_ascii_uppercase :: "char \<Rightarrow> bool" where
  "is_ascii_uppercase c \<longleftrightarrow> CHR ''A'' \<le> c \<and> c \<le> CHR ''Z''"

definition is_ascii_alphanumeric :: "char \<Rightarrow> bool" where
  "is_ascii_alphanumeric c \<longleftrightarrow> is_ascii_lowercase c \<or> is_ascii_uppercase c \<or> is_digit c"

definition valid_segment :: "string \<Rightarrow> bool" where
  "valid_segment segment \<longleftrightarrow>
     segment \<noteq> [] \<and>
     list_all (\<lambda>c. is_ascii_lowercase c \<or> is_digit c \<or> c = CHR ''_'' \<or> c = CHR ''-'') segment \<and>
     is_ascii_alphanumeric (hd segment) \<and> is_ascii_alphanumeric (last segment)"

definition planning_id_valid :: "string \<Rightarrow> bool" where
  "planning_id_valid v \<longleftrightarrow>
     length v \<le> max_planning_id_bytes \<and> length (split_on CHR ''.'' v) \<ge> 2 \<and>
     list_all valid_segment (split_on CHR ''.'' v)"

definition planning_id_new :: "string \<Rightarrow> string option" where
  "planning_id_new v = (if planning_id_valid v then Some v else None)"

subsection \<open>Splitting\<close>

lemma split_on_nonempty [simp]: "split_on c xs \<noteq> []"
  by (induction xs) (auto split: list.splits)

lemma split_on_no_sep: "c \<notin> set xs \<Longrightarrow> split_on c xs = [xs]"
  by (induction xs) auto

lemma split_on_append_sep: "c \<notin> set xs \<Longrightarrow> split_on c (xs @ c # ys) = xs # split_on c ys"
  by (induction xs) auto

lemma digit_not_dot: "is_digit c \<Longrightarrow> c \<noteq> CHR ''.''"
  by (auto simp: is_digit_def less_eq_char_def)

text \<open>Every component identifier the analysis forms is valid.\<close>

lemma component_id_valid:
  assumes "n \<le> u64_max"
  shows "planning_id_valid (''component.c'' @ show_nat n)"
proof -
  have d: "\<And>c. c \<in> set (show_nat n) \<Longrightarrow> is_digit c" by (rule show_nat_digits)
  have "length (show_nat n) \<le> 20"
    by (rule length_show_nat) (use assms in \<open>simp_all add: u64_max_def\<close>)
  moreover have "split_on CHR ''.'' (''component.c'' @ show_nat n)
      = [''component'', ''c'' @ show_nat n]"
  proof -
    have "CHR ''.'' \<notin> set (''c'' @ show_nat n)" using d digit_not_dot by fastforce
    from split_on_append_sep [of "CHR ''.''" "''component''" "''c'' @ show_nat n"]
      split_on_no_sep [OF this] show ?thesis by simp
  qed
  moreover have "valid_segment ''component''" by code_simp
  moreover have "valid_segment (''c'' @ show_nat n)"
  proof -
    have "is_digit (last (show_nat n))" using d by simp
    moreover have "is_ascii_lowercase CHR ''c''" by code_simp
    ultimately show ?thesis using d
      by (auto simp: valid_segment_def is_ascii_alphanumeric_def list_all_iff)
  qed
  ultimately show ?thesis by (simp add: planning_id_valid_def max_planning_id_bytes_def)
qed

end
