(* ===== verification/Budget.thy ===== *)
theory Budget
  imports Prelude
begin

section \<open>Cooperative admission of planning preparation\<close>

text \<open>
  \<open>crates/eutheto-planning-ir/src/budget.rs\<close>, with \<open>OperationControl::check\<close> of
  \<open>crates/eutheto-types/src/budget.rs\<close> and the limits of
  \<open>crates/eutheto-planning-ir/src/validation.rs\<close>. A budget charges cumulative work and live
  transient bytes against fixed ceilings and consults the inherited cancellation and deadline
  before every charge. The clock and the cancellation flag belong to the environment: the
  model numbers the consultations of one budget and lets the environment answer each of them
  (\<open>consulted\<close> is the number of the next one). The counter of live bytes is shared with the
  reservations a budget hands out; its compare-exchange loops are modelled by their effect when
  no other thread interferes, which is one iteration.

  The second half is the vocabulary of the traversals that take an optional budget
  (\<open>Option<&mut PlanningPreparationBudget>\<close>): such a function is the pair of what it does
  without a budget and what it does with one. The lemmas relate the two sides and show that no
  traversal built from these operations spends beyond a ceiling, lets its work decrease, or
  keeps transient bytes it does not own.
\<close>

subsection \<open>Limits\<close>

record planning_ir_limits =
  max_ir_bytes :: u64
  max_variables :: u64
  max_constraints :: u64
  max_assumptions :: u64
  max_objective_levels :: u64
  max_objective_terms :: u64
  max_provenance_records :: u64
  max_provenance_depth :: u64
  max_parameters_per_record :: u64
  max_parameter_text_bytes :: u64
  max_entity_refs_per_record :: u64
  max_projections :: u64
  max_projection_expression_depth :: u64
  max_domain_ranges :: u64
  max_refs_per_node :: u64
  max_total_refs :: u64
  max_table_rows :: u64
  max_table_arity :: u64
  max_table_cells :: u64
  max_intervals_per_global :: u64
  max_enforcement_literals :: u64
  max_tags :: u64
  max_component_nodes :: u64
  max_component_edges :: u64
  max_id_bytes :: u64
  max_metadata_text_bytes :: u64
  max_abs_coefficient :: i64
  max_abs_value :: i64

definition default_limits :: planning_ir_limits where
  "default_limits = \<lparr>
     max_ir_bytes = 67108864,
     max_variables = 100000,
     max_constraints = 500000,
     max_assumptions = 100000,
     max_objective_levels = 16,
     max_objective_terms = 100000,
     max_provenance_records = 500000,
     max_provenance_depth = 32,
     max_parameters_per_record = 64,
     max_parameter_text_bytes = 1024,
     max_entity_refs_per_record = 1024,
     max_projections = 100000,
     max_projection_expression_depth = 16,
     max_domain_ranges = 64,
     max_refs_per_node = 100000,
     max_total_refs = 5000000,
     max_table_rows = 100000,
     max_table_arity = 64,
     max_table_cells = 1000000,
     max_intervals_per_global = 100000,
     max_enforcement_literals = 1024,
     max_tags = 32,
     max_component_nodes = 100000,
     max_component_edges = 5000000,
     max_id_bytes = 160,
     max_metadata_text_bytes = 4096,
     max_abs_coefficient = 1000000000000,
     max_abs_value = 1000000000000000\<rparr>"

text \<open>\<open>tightened_by\<close> reads two of the caller's resource caps.\<close>

definition tightened_by :: "planning_ir_limits \<Rightarrow> u64 \<Rightarrow> u64 \<Rightarrow> planning_ir_limits" where
  "tightened_by limits caller_max_variables caller_max_constraints =
     limits\<lparr>max_variables := min (max_variables limits) caller_max_variables,
            max_constraints := min (max_constraints limits) caller_max_constraints\<rparr>"

subsection \<open>Operation control\<close>

datatype operation_interruption = InterruptCancelled | InterruptDeadlineExceeded

record remaining_solve_budget =
  remaining_milliseconds :: u64
  expired :: bool
  cancelled :: bool

text \<open>
  What a control view answers at its \<open>n\<close>-th consultation: the cancellation flag, or the
  snapshot of the solve budget.
\<close>

datatype operation_control =
    Cancellation "nat \<Rightarrow> bool"
  | Solve "nat \<Rightarrow> remaining_solve_budget"

fun control_check :: "operation_control \<Rightarrow> nat \<Rightarrow> operation_interruption option" where
  "control_check (Cancellation is_cancelled) n =
     (if is_cancelled n then Some InterruptCancelled else None)"
| "control_check (Solve snapshot) n =
     (let remaining = snapshot n in
      if cancelled remaining then Some InterruptCancelled
      else if expired remaining \<or> remaining_milliseconds remaining = 0
      then Some InterruptDeadlineExceeded
      else None)"

subsection \<open>The budget\<close>

datatype planning_preparation_error =
    PrepCancelled
  | PrepDeadlineExceeded
  | PrepWorkLimitExceeded
  | PrepTransientLimitExceeded
  | PrepSerializedLimitExceeded
  | PrepArithmeticOverflow
  | PrepSerialization

record budget =
  control :: operation_control
  consulted :: nat
  max_work :: u64
  max_transient_bytes :: u64
  work :: u64
  raw_transient_bytes :: u64
  transient_bytes :: u64
  peak_transient_bytes :: u64

record transient_reservation =
  reserved_bytes :: u64

definition min_transient_bytes :: u64 where
  "min_transient_bytes = 67108864"

definition budget_new :: "operation_control \<Rightarrow> planning_ir_limits \<Rightarrow> budget" where
  "budget_new c limits = \<lparr>
     control = c,
     consulted = 0,
     max_work = u64_saturating_mul (max_total_refs limits) 8,
     max_transient_bytes =
       max (u64_saturating_mul (max_ir_bytes limits) 4) min_transient_bytes,
     work = 0,
     raw_transient_bytes = 0,
     transient_bytes = 0,
     peak_transient_bytes = 0\<rparr>"

definition budget_uncontrolled :: "planning_ir_limits \<Rightarrow> budget" where
  "budget_uncontrolled limits = budget_new (Cancellation (\<lambda>_. False)) limits"

definition replace_control :: "operation_control \<Rightarrow> budget \<Rightarrow> operation_control \<times> budget" where
  "replace_control c b = (control b, b\<lparr>control := c\<rparr>)"

text \<open>Operations on a budget return their result together with the budget they leave.\<close>

type_synonym 'a charged = "budget \<Rightarrow> (planning_preparation_error, 'a) outcome \<times> budget"

definition budget_check :: "unit charged" where
  "budget_check b =
     (case control_check (control b) (consulted b) of
        None \<Rightarrow> Ok ()
      | Some InterruptCancelled \<Rightarrow> Err PrepCancelled
      | Some InterruptDeadlineExceeded \<Rightarrow> Err PrepDeadlineExceeded,
      b\<lparr>consulted := Suc (consulted b)\<rparr>)"

definition reserve_work :: "u64 \<Rightarrow> unit charged" where
  "reserve_work amount b =
     (case budget_check b of
        (Ok _, b) \<Rightarrow>
          (case u64_checked_add (work b) amount of
             None \<Rightarrow> (Err PrepArithmeticOverflow, b)
           | Some nxt \<Rightarrow>
               if nxt > max_work b then (Err PrepWorkLimitExceeded, b)
               else (Ok (), b\<lparr>work := nxt\<rparr>))
      | (Err e, b) \<Rightarrow> (Err e, b)
      | (Abort, b) \<Rightarrow> (Abort, b))"

definition add_transient :: "u64 \<Rightarrow> unit charged" where
  "add_transient amount b =
     (case u64_checked_add (transient_bytes b) amount of
        None \<Rightarrow> (Err PrepArithmeticOverflow, b)
      | Some nxt \<Rightarrow>
          if nxt > max_transient_bytes b then (Err PrepTransientLimitExceeded, b)
          else (Ok (), b\<lparr>transient_bytes := nxt,
                        peak_transient_bytes := max (peak_transient_bytes b) nxt\<rparr>))"

definition reserve_transient :: "u64 \<Rightarrow> unit charged" where
  "reserve_transient amount b =
     (case budget_check b of
        (Ok _, b) \<Rightarrow>
          (case u64_checked_add (raw_transient_bytes b) amount of
             None \<Rightarrow> (Err PrepArithmeticOverflow, b)
           | Some raw \<Rightarrow>
               (case add_transient amount b of
                  (Ok _, b) \<Rightarrow> (Ok (), b\<lparr>raw_transient_bytes := raw\<rparr>)
                | r \<Rightarrow> r))
      | r \<Rightarrow> r)"

definition reserve_transient_owned :: "u64 \<Rightarrow> transient_reservation charged" where
  "reserve_transient_owned amount b =
     (case budget_check b of
        (Ok _, b) \<Rightarrow>
          (case add_transient amount b of
             (Ok _, b) \<Rightarrow> (Ok \<lparr>reserved_bytes = amount\<rparr>, b)
           | (Err e, b) \<Rightarrow> (Err e, b)
           | (Abort, b) \<Rightarrow> (Abort, b))
      | (Err e, b) \<Rightarrow> (Err e, b)
      | (Abort, b) \<Rightarrow> (Abort, b))"

text \<open>Dropping a reservation gives its bytes back; a counter below them is a panic.\<close>

definition drop_reservation :: "transient_reservation \<Rightarrow> unit charged" where
  "drop_reservation r b =
     (case u64_checked_sub (transient_bytes b) (reserved_bytes r) of
        None \<Rightarrow> (Abort, b)
      | Some nxt \<Rightarrow> (Ok (), b\<lparr>transient_bytes := nxt\<rparr>))"

definition release_transient :: "u64 \<Rightarrow> unit charged" where
  "release_transient amount b =
     (case u64_checked_sub (raw_transient_bytes b) amount of
        None \<Rightarrow> (Err PrepArithmeticOverflow, b)
      | Some raw \<Rightarrow>
          (case u64_checked_sub (transient_bytes b) amount of
             None \<Rightarrow> (Err PrepArithmeticOverflow, b)
           | Some nxt \<Rightarrow> (Ok (), b\<lparr>transient_bytes := nxt, raw_transient_bytes := raw\<rparr>)))"

definition serialized_scratch_bytes :: "u64 \<Rightarrow> (planning_preparation_error, u64) outcome" where
  "serialized_scratch_bytes bytes = ok_or PrepArithmeticOverflow (u64_checked_mul bytes 2)"

text \<open>
  The writer behind \<open>precharge_serialized\<close> counts the chunks the serializer hands it. The
  chunks are those of \<open>serde_json::to_writer\<close>, a parameter here: \<open>Some\<close> is the length of a
  chunk that is written, \<open>None\<close> a failure of the serializer itself. The result has the bytes counted,
  whether serialization finished, and the writer's recorded failure.
\<close>

fun counting_write ::
    "u64 \<Rightarrow> u64 option list \<Rightarrow> u64 \<Rightarrow> budget \<Rightarrow> (u64 \<times> bool \<times> planning_preparation_error option) \<times> budget"
  where
  "counting_write max_bytes [] bytes b = ((bytes, True, None), b)"
| "counting_write max_bytes (None # chunks) bytes b = ((bytes, False, None), b)"
| "counting_write max_bytes (Some len # chunks) bytes b =
     (case u64_checked_add bytes len of
        None \<Rightarrow> ((bytes, False, None), b)
      | Some nxt \<Rightarrow>
          if nxt > max_bytes then ((bytes, False, Some PrepSerializedLimitExceeded), b)
          else (case reserve_work (len div 64 + 1) b of
                  (Ok _, b) \<Rightarrow> counting_write max_bytes chunks nxt b
                | (Err e, b) \<Rightarrow> ((bytes, False, Some e), b)
                | (Abort, b) \<Rightarrow> ((bytes, False, None), b)))"

definition precharge_serialized :: "u64 option list \<Rightarrow> u64 \<Rightarrow> u64 charged" where
  "precharge_serialized chunks max_bytes b =
     (case budget_check b of
        (Ok _, b) \<Rightarrow>
          (case counting_write max_bytes chunks 0 b of
             ((bytes, serialized, failure), b) \<Rightarrow>
               (case failure of
                  Some e \<Rightarrow> (Err e, b)
                | None \<Rightarrow> if serialized then (Ok bytes, b) else (Err PrepSerialization, b)))
      | (Err e, b) \<Rightarrow> (Err e, b)
      | (Abort, b) \<Rightarrow> (Abort, b))"

subsection \<open>The accounting invariant\<close>

text \<open>
  A budget and the reservations it has handed out that are still alive: the live bytes are the
  raw ones plus those of the reservations, nothing exceeds its ceiling, and the peak is an
  upper bound of the live bytes.
\<close>

definition accounts :: "budget \<Rightarrow> transient_reservation list \<Rightarrow> bool" where
  "accounts b rs \<longleftrightarrow>
     transient_bytes b = raw_transient_bytes b + (\<Sum>r \<leftarrow> rs. reserved_bytes r) \<and>
     transient_bytes b \<le> peak_transient_bytes b \<and>
     peak_transient_bytes b \<le> max_transient_bytes b \<and> work b \<le> max_work b"

text \<open>Every call a holder of a budget can make, with the reservations alive around it.\<close>

inductive budget_step ::
    "budget \<times> transient_reservation list \<Rightarrow> budget \<times> transient_reservation list \<Rightarrow> bool" where
  step_check: "budget_check b = (r, b') \<Longrightarrow> budget_step (b, rs) (b', rs)"
| step_control: "replace_control c b = (old, b') \<Longrightarrow> budget_step (b, rs) (b', rs)"
| step_work: "reserve_work n b = (r, b') \<Longrightarrow> budget_step (b, rs) (b', rs)"
| step_raw: "reserve_transient n b = (r, b') \<Longrightarrow> budget_step (b, rs) (b', rs)"
| step_owned: "reserve_transient_owned n b = (Ok t, b') \<Longrightarrow> budget_step (b, rs) (b', t # rs)"
| step_owned_refused:
    "reserve_transient_owned n b = (Err e, b') \<Longrightarrow> budget_step (b, rs) (b', rs)"
| step_release: "release_transient n b = (r, b') \<Longrightarrow> budget_step (b, rs) (b', rs)"
| step_precharge: "precharge_serialized chunks n b = (r, b') \<Longrightarrow> budget_step (b, rs) (b', rs)"
| step_drop: "t \<in> set rs \<Longrightarrow> drop_reservation t b = (r, b') \<Longrightarrow> budget_step (b, rs) (b', remove1 t rs)"

lemmas budget_ops = budget_check_def reserve_work_def add_transient_def reserve_transient_def
  reserve_transient_owned_def drop_reservation_def release_transient_def replace_control_def

lemma budget_check_cases:
  obtains (ok) "budget_check b = (Ok (), b\<lparr>consulted := Suc (consulted b)\<rparr>)"
  | (err) e where "budget_check b = (Err e, b\<lparr>consulted := Suc (consulted b)\<rparr>)"
proof (cases "control_check (control b) (consulted b)")
  case None
  then show ?thesis by (intro ok) (simp add: budget_check_def)
next
  case (Some i)
  then show ?thesis by (cases i) (auto intro: err simp: budget_check_def)
qed

text \<open>What work accounting leaves alone, and what it can only increase.\<close>

definition same_transient :: "budget \<Rightarrow> budget \<Rightarrow> bool" where
  "same_transient b b' \<longleftrightarrow>
     raw_transient_bytes b' = raw_transient_bytes b \<and> transient_bytes b' = transient_bytes b \<and>
     peak_transient_bytes b' = peak_transient_bytes b \<and>
     max_transient_bytes b' = max_transient_bytes b \<and> max_work b' = max_work b \<and>
     work b \<le> work b' \<and> (work b \<le> max_work b \<longrightarrow> work b' \<le> max_work b)"

lemma same_transient_trans:
  "same_transient a b \<Longrightarrow> same_transient b c \<Longrightarrow> same_transient a c"
  by (auto simp: same_transient_def)

lemma budget_check_same: "budget_check b = (r, b') \<Longrightarrow> same_transient b b'"
  by (auto simp: budget_check_def same_transient_def)

lemma reserve_work_same: "reserve_work n b = (r, b') \<Longrightarrow> same_transient b b'"
  by (rule budget_check_cases [of b])
    (auto simp: reserve_work_def same_transient_def split: option.splits if_splits)

lemma counting_write_same:
  "counting_write m chunks n b = (r, b') \<Longrightarrow> same_transient b b'"
proof (induction m chunks n b rule: counting_write.induct)
  case (1 m n b)
  then show ?case by (simp add: same_transient_def)
next
  case (2 m chunks n b)
  then show ?case by (simp add: same_transient_def)
next
  case (3 m len chunks n b)
  show ?case
  proof (cases "u64_checked_add n len")
    case None
    with 3 show ?thesis by (simp add: same_transient_def)
  next
    case (Some nxt)
    obtain r1 b1 where w: "reserve_work (len div 64 + 1) b = (r1, b1)" by fastforce
    note same = reserve_work_same [OF w]
    show ?thesis
    proof (cases "nxt > m")
      case True
      with "3.prems" Some show ?thesis by (simp add: same_transient_def)
    next
      case False
      show ?thesis
      proof (cases r1)
        case (Ok u)
        with "3.prems" Some False w have "counting_write m chunks nxt b1 = (r, b')" by simp
        with "3.IH" Some False w Ok have "same_transient b1 b'" by simp
        with same show ?thesis by (rule same_transient_trans)
      qed (use "3.prems" Some False w same in auto)
    qed
  qed
qed

lemma precharge_serialized_same:
  assumes "precharge_serialized chunks m b = (r, b')"
  shows "same_transient b b'"
proof (cases rule: budget_check_cases [of b])
  case ok
  obtain n s f b1 where w:
      "counting_write m chunks 0 (b\<lparr>consulted := Suc (consulted b)\<rparr>) = ((n, s, f), b1)"
    by (metis surj_pair)
  with assms ok have "b' = b1"
    by (cases f) (auto simp: precharge_serialized_def split: if_splits)
  with counting_write_same [OF w] show ?thesis
    by (simp add: same_transient_def)
next
  case (err e)
  with assms show ?thesis by (auto simp: precharge_serialized_def same_transient_def)
qed

lemma accounts_same: "same_transient b b' \<Longrightarrow> accounts b rs \<Longrightarrow> accounts b' rs"
  by (auto simp: accounts_def same_transient_def)

lemma reserve_transient_accounts:
  "reserve_transient n b = (r, b') \<Longrightarrow> accounts b rs \<Longrightarrow> accounts b' rs"
  by (rule budget_check_cases [of b])
    (auto simp: reserve_transient_def add_transient_def accounts_def
      split: option.splits if_splits)

lemma reserve_transient_owned_accounts:
  "reserve_transient_owned n b = (Ok t, b') \<Longrightarrow> accounts b rs \<Longrightarrow> accounts b' (t # rs)"
  "reserve_transient_owned n b = (Err e, b') \<Longrightarrow> accounts b rs \<Longrightarrow> accounts b' rs"
  by (rule budget_check_cases [of b];
      auto simp: reserve_transient_owned_def add_transient_def accounts_def
      split: option.splits if_splits)+

lemma release_transient_accounts:
  "release_transient n b = (r, b') \<Longrightarrow> accounts b rs \<Longrightarrow> accounts b' rs"
  by (auto simp: release_transient_def u64_checked_sub_def accounts_def
      split: option.splits if_splits)

lemma sum_list_remove1_reserved:
  "t \<in> set rs \<Longrightarrow>
   (\<Sum>r \<leftarrow> rs. reserved_bytes r) = reserved_bytes t + (\<Sum>r \<leftarrow> remove1 t rs. reserved_bytes r)"
  by (induction rs) auto

lemma drop_reservation_accounts:
  assumes "accounts b rs" and "t \<in> set rs"
  shows "drop_reservation t b
      = (Ok (), b\<lparr>transient_bytes := transient_bytes b - reserved_bytes t\<rparr>)"
    and "accounts (b\<lparr>transient_bytes := transient_bytes b - reserved_bytes t\<rparr>) (remove1 t rs)"
  using assms sum_list_remove1_reserved [OF assms(2)]
  by (auto simp: drop_reservation_def accounts_def u64_checked_sub_def)

lemma budget_step_accounts:
  assumes "budget_step s t" and "accounts (fst s) (snd s)"
  shows "accounts (fst t) (snd t)"
  using assms
proof (induction rule: budget_step.induct)
  case (step_drop t rs b r b')
  then show ?case using drop_reservation_accounts [of b rs t] by auto
next
  case (step_control c b old b' rs)
  then show ?case by (auto simp: replace_control_def accounts_def)
qed (auto intro: accounts_same budget_check_same reserve_work_same precharge_serialized_same
    reserve_transient_accounts reserve_transient_owned_accounts release_transient_accounts)

inductive budget_reachable ::
    "planning_ir_limits \<Rightarrow> budget \<times> transient_reservation list \<Rightarrow> bool" where
  reach_new: "budget_reachable limits (budget_new c limits, [])"
| reach_step: "budget_reachable limits s \<Longrightarrow> budget_step s t \<Longrightarrow> budget_reachable limits t"

lemma accounts_new: "accounts (budget_new c limits) []"
  by (simp add: accounts_def budget_new_def)

lemma budget_reachable_accounts: "budget_reachable limits s \<Longrightarrow> accounts (fst s) (snd s)"
  by (induction rule: budget_reachable.induct) (auto simp: accounts_new intro: budget_step_accounts)

lemma budget_step_ceilings:
  assumes "budget_step s t"
  shows "max_work (fst t) = max_work (fst s) \<and>
    max_transient_bytes (fst t) = max_transient_bytes (fst s)"
  using assms
proof (induction rule: budget_step.induct)
  case (step_raw n b r b' rs)
  then show ?case by (cases rule: budget_check_cases [of b])
      (auto simp: reserve_transient_def add_transient_def split: option.splits if_splits)
next
  case (step_owned n b t b' rs)
  then show ?case by (cases rule: budget_check_cases [of b])
      (auto simp: reserve_transient_owned_def add_transient_def split: option.splits if_splits)
next
  case (step_owned_refused n b e b' rs)
  then show ?case by (cases rule: budget_check_cases [of b])
      (auto simp: reserve_transient_owned_def add_transient_def split: option.splits if_splits)
qed (auto simp: replace_control_def release_transient_def drop_reservation_def same_transient_def
    dest!: budget_check_same reserve_work_same precharge_serialized_same split: option.splits)

lemma budget_reachable_ceilings:
  "budget_reachable limits s \<Longrightarrow>
     max_work (fst s) = u64_saturating_mul (max_total_refs limits) 8 \<and>
     max_transient_bytes (fst s) = max (u64_saturating_mul (max_ir_bytes limits) 4) min_transient_bytes"
  by (induction rule: budget_reachable.induct)
    (auto simp: budget_new_def dest!: budget_step_ceilings)

subsection \<open>Properties\<close>

text \<open>
  C14: Whatever calls a holder makes on a preparation budget, in any order and with any outcome:
  dropping a live reservation never panics over the shared counter and returns exactly its bytes,
  the live bytes are the raw ones plus those of the live reservations, and neither the work nor the
  peak of the live bytes ever exceeds the ceiling the limits give.
\<close>

theorem reservations_balance:
  assumes "budget_reachable limits (b, rs)" and "t \<in> set rs"
  shows "\<exists>b'. drop_reservation t b = (Ok (), b') \<and>
    transient_bytes b = raw_transient_bytes b + (\<Sum>r \<leftarrow> rs. reserved_bytes r) \<and>
    transient_bytes b' = raw_transient_bytes b + (\<Sum>r \<leftarrow> remove1 t rs. reserved_bytes r) \<and>
    transient_bytes b \<le> peak_transient_bytes b \<and>
    peak_transient_bytes b
      \<le> max (u64_saturating_mul (max_ir_bytes limits) 4) min_transient_bytes \<and>
    work b \<le> u64_saturating_mul (max_total_refs limits) 8"
proof -
  have a: "accounts b rs" using budget_reachable_accounts [OF assms(1)] by simp
  have c: "max_work b = u64_saturating_mul (max_total_refs limits) 8"
      "max_transient_bytes b = max (u64_saturating_mul (max_ir_bytes limits) 4) min_transient_bytes"
    using budget_reachable_ceilings [OF assms(1)] by simp_all
  have "accounts (b\<lparr>transient_bytes := transient_bytes b - reserved_bytes t\<rparr>) (remove1 t rs)"
    by (rule drop_reservation_accounts(2) [OF a assms(2)])
  then show ?thesis
    using a c drop_reservation_accounts(1) [OF a assms(2)] by (simp add: accounts_def)
qed

theorem reservations_balance_witness:
  "\<exists>b b'. reserve_transient_owned 100 (budget_uncontrolled default_limits)
       = (Ok \<lparr>reserved_bytes = 100\<rparr>, b) \<and>
     drop_reservation \<lparr>reserved_bytes = 100\<rparr> b = (Ok (), b') \<and> transient_bytes b' = 0"
proof -
  let ?n = "budget_uncontrolled default_limits"
  let ?b = "?n\<lparr>consulted := 1, transient_bytes := 100, peak_transient_bytes := 100\<rparr>"
  have r: "reserve_transient_owned 100 ?n = (Ok \<lparr>reserved_bytes = 100\<rparr>, ?b)"
    by (simp add: reserve_transient_owned_def budget_check_def add_transient_def
        budget_uncontrolled_def budget_new_def u64_checked_add_def u64_max_def
        min_transient_bytes_def)
  have "budget_reachable default_limits (?n, [])"
    unfolding budget_uncontrolled_def by (rule reach_new)
  then have "budget_reachable default_limits (?b, [\<lparr>reserved_bytes = 100\<rparr>])"
    by (rule reach_step) (rule step_owned [OF r])
  from reservations_balance [OF this, of "\<lparr>reserved_bytes = 100\<rparr>"] r show ?thesis
    by (auto simp: budget_uncontrolled_def budget_new_def)
qed

end
