(* ===== verification/Traversal.thy ===== *)
theory Traversal
  imports Budget
begin

section \<open>Traversals under an optional budget\<close>

text \<open>
  The functions of the planning crate that take \<open>Option<&mut PlanningPreparationBudget>\<close>
  (or a \<open>ValidationContext\<close> around one) share two contracts. Without a budget they compute
  the same value they compute with one that admits them (\<open>agrees\<close>). With a budget they only
  ever spend: work never decreases and stays below its ceiling, and the live transient bytes
  after the call are those before it plus the bytes of the reservations the result still owns
  (\<open>holds\<close>, a triple over the bytes held on entry and by the result); an error path has given
  everything back. Both are closed under the operations below, so that a traversal has them by
  the way it is put together.
\<close>

named_theorems agrees_intro \<open>introduction rules for the agreement of the two sides\<close>
named_theorems holds_intro \<open>introduction rules for the transient-byte triple\<close>

text \<open>
  A traversal takes the optional budget and returns its outcome with the budget it leaves. Without
  a budget there is none to return; the second component is then the placeholder \<open>no_budget\<close>,
  which nothing reads.
\<close>

type_synonym ('e, 'a) prep = "budget option \<Rightarrow> ('e, 'a) outcome \<times> budget"

definition uncontrolled :: "('e, 'a) prep \<Rightarrow> ('e, 'a) outcome" where
  "uncontrolled m = fst (m None)"

definition controlled :: "('e, 'a) prep \<Rightarrow> budget \<Rightarrow> ('e, 'a) outcome \<times> budget" where
  "controlled m b = m (Some b)"

definition no_budget :: budget where
  "no_budget = budget_uncontrolled default_limits"

fun pass :: "('e, 'a) outcome \<Rightarrow> ('e, 'a) prep" where
  "pass r None = (r, no_budget)"
| "pass r (Some b) = (r, b)"

fun again :: "budget option \<Rightarrow> budget \<Rightarrow> budget option" where
  "again None b = None"
| "again (Some _) b = Some b"

subsection \<open>Operations\<close>

definition ret :: "'a \<Rightarrow> ('e, 'a) prep" where
  "ret x ob = pass (Ok x) ob"

definition lift_o :: "('e, 'a) outcome \<Rightarrow> ('e, 'a) prep" where
  "lift_o r ob = pass r ob"

text \<open>The \<open>?\<close> operator: an early return on an error, with the budget as it is.\<close>

fun resume ::
    "('e, 'a) outcome \<times> budget \<Rightarrow> ('a \<Rightarrow> ('e, 'b) prep) \<Rightarrow> budget option \<Rightarrow> ('e, 'b) outcome \<times> budget"
  where
  "resume (Ok x, b) f ob = f x (again ob b)"
| "resume (Err e, b) f ob = (Err e, b)"
| "resume (Abort, b) f ob = (Abort, b)"

definition bind_p :: "('e, 'a) prep \<Rightarrow> ('a \<Rightarrow> ('e, 'b) prep) \<Rightarrow> ('e, 'b) prep" where
  "bind_p m f ob = resume (m ob) f ob"

definition then_p :: "('e, unit) prep \<Rightarrow> ('e, 'b) prep \<Rightarrow> ('e, 'b) prep" where
  "then_p m n ob = resume (m ob) (\<lambda>_. n) ob"

definition map_err_p :: "('e \<Rightarrow> 'f) \<Rightarrow> ('e, 'a) prep \<Rightarrow> ('f, 'a) prep" where
  "map_err_p h m ob = (case m ob of (r, b) \<Rightarrow> (map_err h r, b))"

text \<open>\<open>if let Some(budget) = budget\<close> around a charge, and a branch on \<open>budget.is_some()\<close>.\<close>

fun if_budget :: "unit charged \<Rightarrow> (planning_preparation_error, unit) prep" where
  "if_budget c None = (Ok (), no_budget)"
| "if_budget c (Some b) = c b"

fun branch_p :: "('e, 'a) prep \<Rightarrow> ('e, 'a) prep \<Rightarrow> ('e, 'a) prep" where
  "branch_p m n None = n None"
| "branch_p m n (Some b) = m (Some b)"

text \<open>\<open>visit\<close>: one unit of work where there is a budget.\<close>

definition visit :: "(planning_preparation_error, unit) prep" where
  "visit = if_budget (reserve_work 1)"

text \<open>An owned reservation where there is a budget, its release, and its release by unwinding.\<close>

fun reserve_owned ::
    "u64 \<Rightarrow> (planning_preparation_error, transient_reservation option) prep" where
  "reserve_owned n None = (Ok None, no_budget)"
| "reserve_owned n (Some b) =
     (case reserve_transient_owned n b of
        (Ok r, b) \<Rightarrow> (Ok (Some r), b)
      | (Err e, b) \<Rightarrow> (Err e, b)
      | (Abort, b) \<Rightarrow> (Abort, b))"

fun drop_owned :: "transient_reservation option \<Rightarrow> ('e, unit) prep" where
  "drop_owned r None = (Ok (), no_budget)"
| "drop_owned None (Some b) = (Ok (), b)"
| "drop_owned (Some r) (Some b) =
     (case drop_reservation r b of
        (Ok _, b) \<Rightarrow> (Ok (), b)
      | (_, b) \<Rightarrow> (Abort, b))"

definition guarded :: "transient_reservation option \<Rightarrow> ('e, 'a) prep \<Rightarrow> ('e, 'a) prep" where
  "guarded r m ob =
     (case m ob of
        (Ok x, b) \<Rightarrow> (Ok x, b)
      | (Err e, b) \<Rightarrow>
          (case (drop_owned r :: ('e, unit) prep) (again ob b) of
             (Ok _, b) \<Rightarrow> (Err e, b)
           | (_, b) \<Rightarrow> (Abort, b))
      | (Abort, b) \<Rightarrow> (Abort, b))"

definition bracket :: "transient_reservation option \<Rightarrow> ('e, 'a) prep \<Rightarrow> ('e, 'a) prep" where
  "bracket r m = bind_p (guarded r m) (\<lambda>x. bind_p (drop_owned r) (\<lambda>_. ret x))"

text \<open>
  A reservation taken only where there is a budget, after the charges of \<open>m\<close>; and a stretch of code
  during which the reservations \<open>rs\<close> are alive, so that an early return drops them.
\<close>

definition reserving ::
    "('e, transient_reservation option) prep \<Rightarrow> ('e, transient_reservation option) prep" where
  "reserving m = branch_p m (ret None)"

definition holding :: "transient_reservation option list \<Rightarrow> ('e, 'a) prep \<Rightarrow> ('e, 'a) prep" where
  "holding rs m = foldr guarded rs m"

text \<open>A \<open>for\<close> loop over a slice that threads its mutable locals.\<close>

fun each_p :: "('a \<Rightarrow> 's \<Rightarrow> ('e, 's) prep) \<Rightarrow> 'a list \<Rightarrow> 's \<Rightarrow> ('e, 's) prep" where
  "each_p f [] s = ret s"
| "each_p f (x # xs) s = bind_p (f x s) (each_p f xs)"

definition check_each :: "('a \<Rightarrow> ('e, unit) prep) \<Rightarrow> 'a list \<Rightarrow> ('e, unit) prep" where
  "check_each f xs = each_p (\<lambda>x _. f x) xs ()"

lemma resume_None: "fst (resume p f None) = bind_o (fst p) (\<lambda>x. fst (f x None))"
  by (cases "(p, f, None :: budget option)" rule: resume.cases) simp_all

lemma resume_Some:
  "resume p f (Some b) = (case p of (Ok x, b) \<Rightarrow> f x (Some b) | (Err e, b) \<Rightarrow> (Err e, b)
     | (Abort, b) \<Rightarrow> (Abort, b))"
  by (cases "(p, f, Some b)" rule: resume.cases) simp_all

lemma fst_case_swap: "fst (case p of (r, b) \<Rightarrow> (h r, b)) = h (fst p)"
  by (cases p) simp

lemma uncontrolled_guarded: "uncontrolled (guarded r m) = uncontrolled m"
  by (simp add: uncontrolled_def guarded_def split: prod.split outcome.split)

lemma uncontrolled_simps [simp]:
  "uncontrolled (ret x) = Ok x"
  "uncontrolled (lift_o res) = res"
  "uncontrolled (bind_p m f) = bind_o (uncontrolled m) (\<lambda>x. uncontrolled (f x))"
  "uncontrolled (then_p u n) = bind_o (uncontrolled u) (\<lambda>_. uncontrolled n)"
  "uncontrolled (map_err_p h a) = map_err h (uncontrolled a)"
  "uncontrolled (if_budget c) = Ok ()"
  "uncontrolled (branch_p p q) = uncontrolled q"
  "uncontrolled visit = Ok ()"
  "uncontrolled (reserve_owned k) = Ok None"
  "uncontrolled (drop_owned r) = Ok ()"
  "uncontrolled (guarded r g) = uncontrolled g"
  "uncontrolled (bracket r g') = uncontrolled g'"
proof -
  show bind: "uncontrolled (bind_p m f) = bind_o (uncontrolled m) (\<lambda>x. uncontrolled (f x))" for m f
    by (simp add: uncontrolled_def bind_p_def resume_None)
  show drop: "uncontrolled (drop_owned r) = Ok ()" by (simp add: uncontrolled_def)
  show "uncontrolled (guarded r g) = uncontrolled g" by (rule uncontrolled_guarded)
  show "uncontrolled (bracket r g') = uncontrolled g'"
    by (cases "uncontrolled g'")
      (simp_all add: bracket_def bind drop uncontrolled_guarded, simp add: uncontrolled_def ret_def)
qed (simp_all add: uncontrolled_def ret_def lift_o_def then_p_def resume_None map_err_p_def
    fst_case_swap visit_def)

text \<open>The same on the side with a budget.\<close>

lemma controlled_simps:
  "controlled (ret x) b = (Ok x, b)"
  "controlled (lift_o res) b = (res, b)"
  "controlled (bind_p m f) b = (case controlled m b of
     (Ok x, b) \<Rightarrow> controlled (f x) b | (Err e, b) \<Rightarrow> (Err e, b) | (Abort, b) \<Rightarrow> (Abort, b))"
  "controlled (then_p u n) b = (case controlled u b of
     (Ok x, b) \<Rightarrow> controlled n b | (Err e, b) \<Rightarrow> (Err e, b) | (Abort, b) \<Rightarrow> (Abort, b))"
  "controlled (map_err_p h a) b = (case controlled a b of (r, b) \<Rightarrow> (map_err h r, b))"
  "controlled (if_budget c) b = c b"
  "controlled (branch_p p q) b = controlled p b"
  "controlled visit b = reserve_work 1 b"
  by (simp_all add: controlled_def [abs_def] ret_def lift_o_def bind_p_def then_p_def map_err_p_def
      visit_def resume_Some split: prod.split outcome.split)

lemma controlled_guarded:
  fixes m :: "('e, 'a) prep"
  shows "controlled (guarded r m) b = (case controlled m b of
     (Ok x, b) \<Rightarrow> (Ok x, b)
   | (Err e, b) \<Rightarrow> (case controlled (drop_owned r :: ('e, unit) prep) b of
       (Ok _, b) \<Rightarrow> (Err e, b) | (_, b) \<Rightarrow> (Abort, b))
   | (Abort, b) \<Rightarrow> (Abort, b))"
  by (simp add: controlled_def [abs_def] guarded_def split: prod.split outcome.split)

lemma controlled_drop_owned:
  "controlled (drop_owned r) b = (case r of None \<Rightarrow> (Ok (), b) | Some r \<Rightarrow>
     (case drop_reservation r b of (Ok _, b) \<Rightarrow> (Ok (), b) | (_, b) \<Rightarrow> (Abort, b)))"
  by (cases r) (simp_all add: controlled_def)

lemma controlled_reserve_owned:
  "controlled (reserve_owned n) b = (case reserve_transient_owned n b of
     (Ok r, b) \<Rightarrow> (Ok (Some r), b) | (Err e, b) \<Rightarrow> (Err e, b) | (Abort, b) \<Rightarrow> (Abort, b))"
  by (simp add: controlled_def)

lemma then_p_bind: "then_p m n = bind_p m (\<lambda>_. n)"
  by (simp add: fun_eq_iff then_p_def bind_p_def)

lemma uncontrolled_each_p [simp]:
  "uncontrolled (each_p f xs s) = each_o (\<lambda>x s. uncontrolled (f x s)) xs s"
  by (induction xs arbitrary: s) auto

lemma uncontrolled_check_each:
  "uncontrolled (check_each f xs) = Ok () \<longleftrightarrow> (\<forall>x \<in> set xs. uncontrolled (f x) = Ok ())"
  by (simp add: check_each_def each_o_check_iff)

lemma bind_p_assoc: "bind_p (bind_p m f) g = bind_p m (\<lambda>x. bind_p (f x) g)"
proof
  fix ob
  show "bind_p (bind_p m f) g ob = bind_p m (\<lambda>x. bind_p (f x) g) ob"
    by (cases "(m ob, f, ob)" rule: resume.cases; cases ob)
      (simp_all add: bind_p_def resume_Some)
qed

lemma bind_p_ret [simp]: "bind_p (ret x) f = f x"
proof
  fix ob show "bind_p (ret x) f ob = f x ob" by (cases ob) (simp_all add: bind_p_def ret_def)
qed

subsection \<open>Agreement of the two sides\<close>

definition agrees :: "('e, 'a) prep \<Rightarrow> bool" where
  "agrees m \<longleftrightarrow> (\<forall>b x b'. controlled m b = (Ok x, b') \<longrightarrow> uncontrolled m = Ok x)"

lemma agreesD: "agrees m \<Longrightarrow> controlled m b = (Ok x, b') \<Longrightarrow> uncontrolled m = Ok x"
  by (auto simp: agrees_def)

lemma agrees_ret [agrees_intro]: "agrees (ret x)"
  by (simp add: agrees_def controlled_simps)

lemma agrees_lift_o [agrees_intro]: "agrees (lift_o r)"
  by (simp add: agrees_def controlled_simps)

lemma agrees_bind_p [agrees_intro]:
  assumes "agrees m" and "\<And>x. uncontrolled m = Ok x \<Longrightarrow> agrees (f x)"
  shows "agrees (bind_p m f)"
  unfolding agrees_def
proof (intro allI impI)
  fix b y b' assume "controlled (bind_p m f) b = (Ok y, b')"
  then obtain x b1 where "controlled m b = (Ok x, b1)" and f: "controlled (f x) b1 = (Ok y, b')"
    by (auto simp: controlled_simps split: prod.splits outcome.splits)
  then have x: "uncontrolled m = Ok x" using agreesD [OF assms(1)] by blast
  with f show "uncontrolled (bind_p m f) = Ok y" using agreesD [OF assms(2)] by auto
qed

lemma agrees_then_p [agrees_intro]: "agrees m \<Longrightarrow> agrees n \<Longrightarrow> agrees (then_p m n)"
  unfolding then_p_bind by (rule agrees_bind_p)

lemma agrees_map_err_p [agrees_intro]: "agrees m \<Longrightarrow> agrees (map_err_p h m)"
  by (auto simp: agrees_def controlled_simps split: prod.splits)

lemma agrees_if_budget [agrees_intro]: "agrees (if_budget c)"
  by (simp add: agrees_def controlled_simps)

lemma agrees_visit [agrees_intro]: "agrees visit"
  by (simp add: visit_def agrees_if_budget)

lemma agrees_branch_p:
  assumes "\<And>b x b'. controlled m b = (Ok x, b') \<Longrightarrow> uncontrolled n = Ok x"
  shows "agrees (branch_p m n)"
  using assms by (auto simp: agrees_def controlled_simps)

lemma agrees_drop_owned [agrees_intro]: "agrees (drop_owned r)"
  by (simp add: agrees_def controlled_drop_owned)

lemma agrees_guarded [agrees_intro]: "agrees m \<Longrightarrow> agrees (guarded r m)"
  by (auto simp: agrees_def controlled_guarded split: prod.splits outcome.splits)

lemma agrees_bracket [agrees_intro]: "agrees m \<Longrightarrow> agrees (bracket r m)"
  unfolding bracket_def by (intro agrees_intro)

lemma agrees_each_p [agrees_intro]: "(\<And>x s. x \<in> set xs \<Longrightarrow> agrees (f x s)) \<Longrightarrow> agrees (each_p f xs s)"
  by (induction xs arbitrary: s) (auto intro!: agrees_intro)

lemma agrees_check_each [agrees_intro]: "(\<And>x. x \<in> set xs \<Longrightarrow> agrees (f x)) \<Longrightarrow> agrees (check_each f xs)"
  unfolding check_each_def by (intro agrees_intro)

text \<open>
  A reservation is \<open>None\<close> on one side and \<open>Some\<close> on the other, so the code after it is
  compared at both.
\<close>

lemma agrees_reserve_owned:
  assumes "\<And>r. agrees (f r)" and "\<And>r. uncontrolled (f r) = uncontrolled (f None)"
  shows "agrees (bind_p (reserve_owned n) f)"
  unfolding agrees_def
proof (intro allI impI)
  fix b y b' assume "controlled (bind_p (reserve_owned n) f) b = (Ok y, b')"
  then obtain r b1 where "controlled (f r) b1 = (Ok y, b')"
    by (auto simp: controlled_simps split: prod.splits outcome.splits)
  then have "uncontrolled (f r) = Ok y" using agreesD [OF assms(1)] by blast
  with assms(2) [of r] show "uncontrolled (bind_p (reserve_owned n) f) = Ok y" by simp
qed

subsection \<open>Spending\<close>

text \<open>What every charge does to a budget that was within its ceilings.\<close>

definition spends :: "budget \<Rightarrow> budget \<Rightarrow> bool" where
  "spends b b' \<longleftrightarrow>
     max_work b' = max_work b \<and> max_transient_bytes b' = max_transient_bytes b \<and>
     raw_transient_bytes b' = raw_transient_bytes b \<and> work b \<le> work b' \<and>
     (work b \<le> max_work b \<longrightarrow> work b' \<le> max_work b) \<and>
     peak_transient_bytes b \<le> peak_transient_bytes b' \<and>
     (peak_transient_bytes b \<le> max_transient_bytes b
        \<longrightarrow> peak_transient_bytes b' \<le> max_transient_bytes b)"

lemma spends_refl [simp]: "spends b b"
  by (simp add: spends_def)

lemma spends_trans: "spends a b \<Longrightarrow> spends b c \<Longrightarrow> spends a c"
  by (auto simp: spends_def)

lemma same_transient_spends: "same_transient b b' \<Longrightarrow> spends b b'"
  by (auto simp: same_transient_def spends_def)

text \<open>
  \<open>holds h m g\<close>: entered with \<open>h\<close> transient bytes to its account, \<open>m\<close> leaves the bytes
  of its result \<open>g x\<close> on success, none on an error, and never panics over the counter.
\<close>

definition holds :: "u64 \<Rightarrow> ('e, 'a) prep \<Rightarrow> ('a \<Rightarrow> u64) \<Rightarrow> bool" where
  "holds h m g \<longleftrightarrow>
     (\<forall>b r b'. controlled m b = (r, b') \<longrightarrow> h \<le> transient_bytes b \<longrightarrow>
        spends b b' \<and>
        (case r of
           Ok x \<Rightarrow> transient_bytes b' = transient_bytes b - h + g x
         | Err e \<Rightarrow> transient_bytes b' = transient_bytes b - h
         | Abort \<Rightarrow> uncontrolled m = Abort))"

abbreviation balanced :: "('e, 'a) prep \<Rightarrow> bool" where
  "balanced m \<equiv> holds 0 m (\<lambda>_. 0)"

definition bytes_of :: "transient_reservation option \<Rightarrow> u64" where
  "bytes_of r = (case r of None \<Rightarrow> 0 | Some r \<Rightarrow> reserved_bytes r)"

lemma bytes_of_simps [simp]:
  "bytes_of None = 0"
  "bytes_of (Some r) = reserved_bytes r"
  by (simp_all add: bytes_of_def)

lemma holds_ret [holds_intro]: "h = g x \<Longrightarrow> holds h (ret x) g"
  by (auto simp: holds_def controlled_simps)

lemma holds_lift_o [holds_intro]: "holds 0 (lift_o res) (\<lambda>_. 0)"
  by (auto simp: holds_def controlled_simps split: outcome.splits)

lemma holds_bind_p:
  assumes m: "holds h m k" and a: "agrees m"
    and f: "\<And>x. uncontrolled m = Ok x \<Longrightarrow> holds (k x) (f x) g"
  shows "holds h (bind_p m f) g"
  unfolding holds_def
proof (intro allI impI)
  fix b r b' assume c: "controlled (bind_p m f) b = (r, b')" and h: "h \<le> transient_bytes b"
  obtain r1 b1 where m1: "controlled m b = (r1, b1)" by fastforce
  note M = m [unfolded holds_def, rule_format, OF m1 h]
  show "spends b b' \<and> (case r of Ok x \<Rightarrow> transient_bytes b' = transient_bytes b - h + g x
      | Err e \<Rightarrow> transient_bytes b' = transient_bytes b - h
      | Abort \<Rightarrow> uncontrolled (bind_p m f) = Abort)"
  proof (cases r1)
    case (Ok x)
    with m1 have u: "uncontrolled m = Ok x" using agreesD [OF a] by simp
    from c m1 Ok have "controlled (f x) b1 = (r, b')" by (simp add: controlled_simps)
    with f [OF u, unfolded holds_def, rule_format, of b1 r b'] M Ok u show ?thesis
      by (auto intro: spends_trans split: outcome.splits)
  qed (use c m1 M in \<open>auto simp: controlled_simps\<close>)
qed

lemma holds_bind_balanced [holds_intro]:
  assumes "balanced m" and "agrees m" and "\<And>x. uncontrolled m = Ok x \<Longrightarrow> holds 0 (f x) g"
  shows "holds 0 (bind_p m f) g"
  using assms by (rule holds_bind_p)

lemma holds_then_p [holds_intro]:
  "balanced m \<Longrightarrow> agrees m \<Longrightarrow> holds 0 n g \<Longrightarrow> holds 0 (then_p m n) g"
  unfolding then_p_bind by (rule holds_bind_p)

lemma holds_map_err_p [holds_intro]:
  assumes "holds h m g"
  shows "holds h (map_err_p q m) g"
  unfolding holds_def
proof (intro allI impI)
  fix b r b' assume c: "controlled (map_err_p q m) b = (r, b')" and h: "h \<le> transient_bytes b"
  obtain r1 b1 where m1: "controlled m b = (r1, b1)" by fastforce
  with c have "r = map_err q r1" "b' = b1" by (simp_all add: controlled_simps)
  with assms [unfolded holds_def, rule_format, OF m1 h]
  show "spends b b' \<and> (case r of Ok x \<Rightarrow> transient_bytes b' = transient_bytes b - h + g x
      | Err e \<Rightarrow> transient_bytes b' = transient_bytes b - h
      | Abort \<Rightarrow> uncontrolled (map_err_p q m) = Abort)"
    by (cases r1) simp_all
qed

lemma reserve_work_not_Abort: "reserve_work n b = (r, b') \<Longrightarrow> r \<noteq> Abort"
  by (cases rule: budget_check_cases [of b])
    (auto simp: reserve_work_def split: option.splits if_splits)

lemma holds_reserve_work [holds_intro]: "balanced (if_budget (reserve_work n))"
  unfolding holds_def
proof (intro allI impI)
  fix b r b' assume "controlled (if_budget (reserve_work n)) b = (r, b')"
  then have w: "reserve_work n b = (r, b')" by (simp add: controlled_simps)
  from reserve_work_same [OF w] reserve_work_not_Abort [OF w]
  show "spends b b' \<and> (case r of Ok x \<Rightarrow> transient_bytes b' = transient_bytes b - 0 + 0
      | Err e \<Rightarrow> transient_bytes b' = transient_bytes b - 0
      | Abort \<Rightarrow> uncontrolled (if_budget (reserve_work n)) = Abort)"
    by (cases r) (simp_all add: same_transient_spends, simp_all add: same_transient_def)
qed

lemma holds_visit [holds_intro]: "balanced visit"
  unfolding visit_def by (rule holds_reserve_work)

lemma holds_drop_owned [holds_intro]:
  "bytes_of r \<le> h \<Longrightarrow> holds h (drop_owned r) (\<lambda>_. h - bytes_of r)"
  by (cases r) (auto simp: holds_def controlled_drop_owned drop_reservation_def u64_checked_sub_def
      spends_def split: if_splits)

lemma holds_guarded_frame:
  assumes "holds k m g"
  shows "holds (k + bytes_of r) (guarded r m) (\<lambda>x. g x + bytes_of r)"
  unfolding holds_def
proof (intro allI impI)
  fix b q b'
  assume c: "controlled (guarded r m) b = (q, b')" and h: "k + bytes_of r \<le> transient_bytes b"
  obtain q1 b1 where m1: "controlled m b = (q1, b1)" by fastforce
  from h have k: "k \<le> transient_bytes b" by simp
  note M = assms [unfolded holds_def, rule_format, OF m1 k]
  show "spends b b' \<and> (case q of
        Ok x \<Rightarrow> transient_bytes b' = transient_bytes b - (k + bytes_of r) + (g x + bytes_of r)
      | Err e \<Rightarrow> transient_bytes b' = transient_bytes b - (k + bytes_of r)
      | Abort \<Rightarrow> uncontrolled (guarded r m) = Abort)"
  proof (cases q1)
    case (Err e)
    with M have b1: "spends b b1" "transient_bytes b1 = transient_bytes b - k" by auto
    then have b1r: "bytes_of r \<le> transient_bytes b1" using h by simp
    obtain q2 b2 where d: "controlled (drop_owned r :: ('a, unit) prep) b1 = (q2, b2)" by fastforce
    from holds_drop_owned [of r "bytes_of r", unfolded holds_def, rule_format, OF _ d b1r] b1
    have D: "spends b1 b2" "q2 \<noteq> Abort" "transient_bytes b2 = transient_bytes b - (k + bytes_of r)"
      by (auto split: outcome.splits)
    have "\<exists>u. q2 = Ok u" using D(2) d
      by (auto simp: controlled_drop_owned split: option.splits prod.splits outcome.splits)
    with D b1 c m1 Err d show ?thesis
      by (auto simp: controlled_guarded intro: spends_trans)
  qed (use c m1 M h in \<open>auto simp: controlled_guarded\<close>)
qed

lemma holds_guarded [holds_intro]:
  "holds 0 m g \<Longrightarrow> holds (bytes_of r) (guarded r m) (\<lambda>x. g x + bytes_of r)"
  using holds_guarded_frame [of 0 m g r] by simp

lemma holds_bracket [holds_intro]:
  assumes "holds 0 m g" and "agrees m"
  shows "holds (bytes_of r) (bracket r m) g"
  unfolding bracket_def
proof (rule holds_bind_p [OF holds_guarded [OF assms(1)]])
  show "agrees (guarded r m)" using assms(2) by (rule agrees_guarded)
  fix x
  show "holds (g x + bytes_of r) (bind_p (drop_owned r) (\<lambda>_. ret x)) g"
    by (rule holds_bind_p [OF holds_drop_owned]) (auto intro: agrees_intro holds_intro)
qed

lemma holds_reserve_owned:
  assumes "\<And>r. bytes_of r = n \<Longrightarrow> holds n (f r) g"
    and "\<And>r. uncontrolled (f r) = uncontrolled (f None)"
  shows "holds 0 (bind_p (reserve_owned n) f) g"
  unfolding holds_def
proof (intro allI impI)
  fix b r b' assume c: "controlled (bind_p (reserve_owned n) f) b = (r, b')"
  obtain r1 b1 where o1: "reserve_transient_owned n b = (r1, b1)" by fastforce
  have o: "spends b b1 \<and> r1 \<noteq> Abort \<and> (case r1 of
        Ok t \<Rightarrow> reserved_bytes t = n \<and> transient_bytes b1 = transient_bytes b + n
      | _ \<Rightarrow> transient_bytes b1 = transient_bytes b)"
    using o1 by (cases rule: budget_check_cases [of b])
      (auto simp: reserve_transient_owned_def add_transient_def spends_def
        split: option.splits if_splits)
  show "spends b b' \<and> (case r of Ok x \<Rightarrow> transient_bytes b' = transient_bytes b - 0 + g x
      | Err e \<Rightarrow> transient_bytes b' = transient_bytes b - 0
      | Abort \<Rightarrow> uncontrolled (bind_p (reserve_owned n) f) = Abort)"
  proof (cases r1)
    case (Ok t)
    with o c o1 have c1: "controlled (f (Some t)) b1 = (r, b')" and n: "bytes_of (Some t) = n"
      by (simp_all add: controlled_simps controlled_reserve_owned)
    from o Ok have b1: "spends b b1" "transient_bytes b1 = transient_bytes b + n" by auto
    then have "n \<le> transient_bytes b1" by simp
    from assms(1) [OF n, unfolded holds_def, rule_format, OF c1 this] assms(2) [of "Some t"] b1
    show ?thesis by (cases r) (auto intro: spends_trans)
  qed (use o c o1 in \<open>auto simp: controlled_simps controlled_reserve_owned\<close>)
qed

lemma holds_each_p [holds_intro]:
  assumes "\<And>x s. x \<in> set xs \<Longrightarrow> balanced (f x s)" and "\<And>x s. x \<in> set xs \<Longrightarrow> agrees (f x s)"
  shows "balanced (each_p f xs s)"
  using assms
proof (induction xs arbitrary: s)
  case Nil
  then show ?case by (simp add: holds_ret)
next
  case (Cons x xs)
  then show ?case by (auto intro!: holds_bind_balanced)
qed

lemma holds_check_each [holds_intro]:
  "(\<And>x. x \<in> set xs \<Longrightarrow> balanced (f x)) \<Longrightarrow> (\<And>x. x \<in> set xs \<Longrightarrow> agrees (f x)) \<Longrightarrow>
   balanced (check_each f xs)"
  unfolding check_each_def by (rule holds_each_p)

lemma holds_branch_p:
  assumes "holds h m g" and "uncontrolled m = Abort \<Longrightarrow> uncontrolled n = Abort"
  shows "holds h (branch_p m n) g"
  unfolding holds_def
proof (intro allI impI)
  fix b r b' assume "controlled (branch_p m n) b = (r, b')" and h: "h \<le> transient_bytes b"
  then have c: "controlled m b = (r, b')" by (simp add: controlled_simps)
  from assms(1) [unfolded holds_def, rule_format, OF c h] assms(2)
  show "spends b b' \<and> (case r of Ok x \<Rightarrow> transient_bytes b' = transient_bytes b - h + g x
      | Err e \<Rightarrow> transient_bytes b' = transient_bytes b - h
      | Abort \<Rightarrow> uncontrolled (branch_p m n) = Abort)"
    by (cases r) auto
qed

subsection \<open>Reservations that end in the result\<close>

lemma uncontrolled_reserving [simp]: "uncontrolled (reserving m) = Ok None"
  by (simp add: reserving_def)

lemma uncontrolled_holding [simp]: "uncontrolled (holding rs m) = uncontrolled m"
  by (induction rs) (simp_all add: holding_def)

lemma agrees_holding [agrees_intro]: "agrees m \<Longrightarrow> agrees (holding rs m)"
  by (induction rs) (simp_all add: holding_def agrees_guarded)

lemma holds_holding [holds_intro]:
  assumes "holds 0 m g"
  shows "holds (\<Sum>r \<leftarrow> rs. bytes_of r) (holding rs m) (\<lambda>x. g x + (\<Sum>r \<leftarrow> rs. bytes_of r))"
proof (induction rs)
  case Nil
  then show ?case using assms by (simp add: holding_def)
next
  case (Cons r rs)
  from holds_guarded_frame [OF this, of r] show ?case by (simp add: holding_def add_ac)
qed

lemma holds_reserved: "holds 0 (reserve_owned n) bytes_of"
  unfolding holds_def
proof (intro allI impI)
  fix b r b' assume c: "controlled (reserve_owned n) b = (r, b')"
  show "spends b b' \<and> (case r of Ok x \<Rightarrow> transient_bytes b' = transient_bytes b - 0 + bytes_of x
      | Err e \<Rightarrow> transient_bytes b' = transient_bytes b - 0
      | Abort \<Rightarrow> uncontrolled (reserve_owned n) = Abort)"
    using c by (cases rule: budget_check_cases [of b])
      (auto simp: controlled_reserve_owned reserve_transient_owned_def add_transient_def spends_def
        split: option.splits if_splits)
qed

lemma holds_reserving [holds_intro]:
  assumes "holds 0 m bytes_of" and "uncontrolled m \<noteq> Abort"
  shows "holds 0 (reserving m) bytes_of"
  unfolding reserving_def by (rule holds_branch_p) (use assms in auto)

text \<open>
  Agreement up to the reservations in the result: \<open>q\<close> forgets them.
\<close>

definition map_ok :: "('a \<Rightarrow> 'b) \<Rightarrow> ('e, 'a) outcome \<Rightarrow> ('e, 'b) outcome" where
  "map_ok q r = bind_o r (\<lambda>x. Ok (q x))"

definition agrees_on :: "('a \<Rightarrow> 'b) \<Rightarrow> ('e, 'a) prep \<Rightarrow> bool" where
  "agrees_on q m \<longleftrightarrow>
     (\<forall>b x b'. controlled m b = (Ok x, b') \<longrightarrow> map_ok q (uncontrolled m) = Ok (q x))"

lemma map_ok_simps [simp]:
  "map_ok q (Ok x) = Ok (q x)"
  "map_ok q (bind_o r f) = bind_o r (\<lambda>x. map_ok q (f x))"
  by (simp_all add: map_ok_def) (cases r; simp)

lemma agrees_onD: "agrees_on q m \<Longrightarrow> controlled m b = (Ok x, b') \<Longrightarrow> map_ok q (uncontrolled m) = Ok (q x)"
  by (auto simp: agrees_on_def)

lemma agrees_on_ret: "agrees_on q (ret x)"
  by (simp add: agrees_on_def controlled_simps)

lemma agrees_on_bind:
  assumes "agrees m" and "\<And>x. uncontrolled m = Ok x \<Longrightarrow> agrees_on q (f x)"
  shows "agrees_on q (bind_p m f)"
  unfolding agrees_on_def
proof (intro allI impI)
  fix b y b' assume "controlled (bind_p m f) b = (Ok y, b')"
  then obtain x b1 where "controlled m b = (Ok x, b1)" and f: "controlled (f x) b1 = (Ok y, b')"
    by (auto simp: controlled_simps split: prod.splits outcome.splits)
  then have x: "uncontrolled m = Ok x" using agreesD [OF assms(1)] by blast
  with agrees_onD [OF assms(2) f] show "map_ok q (uncontrolled (bind_p m f)) = Ok (q y)" by simp
qed

lemma agrees_on_then: "agrees m \<Longrightarrow> agrees_on q n \<Longrightarrow> agrees_on q (then_p m n)"
  unfolding then_p_bind by (rule agrees_on_bind)

lemma agrees_on_reserving:
  assumes "uncontrolled m = Ok None"
    and "\<And>r. map_ok q (uncontrolled (f r)) = map_ok q (uncontrolled (f None))"
    and "\<And>r. agrees_on q (f r)"
  shows "agrees_on q (bind_p m f)"
  unfolding agrees_on_def
proof (intro allI impI)
  fix b y b' assume "controlled (bind_p m f) b = (Ok y, b')"
  then obtain r b1 where "controlled (f r) b1 = (Ok y, b')"
    by (auto simp: controlled_simps split: prod.splits outcome.splits)
  then have "map_ok q (uncontrolled (f r)) = Ok (q y)" by (rule agrees_onD [OF assms(3)])
  with assms(1) assms(2) [of r] show "map_ok q (uncontrolled (bind_p m f)) = Ok (q y)" by simp
qed

lemma holds_bind_reserving:
  assumes m: "holds h m (\<lambda>r. bytes_of r + k)" and u: "uncontrolled m = Ok None"
    and f: "\<And>r. holds (bytes_of r + k) (f r) g"
    and a: "\<And>r. uncontrolled (f r) = Abort \<Longrightarrow> uncontrolled (f None) = Abort"
  shows "holds h (bind_p m f) g"
  unfolding holds_def
proof (intro allI impI)
  fix b r b' assume c: "controlled (bind_p m f) b = (r, b')" and h: "h \<le> transient_bytes b"
  obtain r1 b1 where m1: "controlled m b = (r1, b1)" by fastforce
  note M = m [unfolded holds_def, rule_format, OF m1 h]
  show "spends b b' \<and> (case r of Ok x \<Rightarrow> transient_bytes b' = transient_bytes b - h + g x
      | Err e \<Rightarrow> transient_bytes b' = transient_bytes b - h
      | Abort \<Rightarrow> uncontrolled (bind_p m f) = Abort)"
  proof (cases r1)
    case (Ok x)
    from c m1 Ok have "controlled (f x) b1 = (r, b')" by (simp add: controlled_simps)
    with f [of x, unfolded holds_def, rule_format, of b1 r b'] a [of x] M Ok u show ?thesis
      by (auto intro: spends_trans split: outcome.splits)
  qed (use c m1 M u in \<open>auto simp: controlled_simps\<close>)
qed

text \<open>A reservation around a stretch of code, dropped at its end.\<close>

lemma agrees_scoped [agrees_intro]:
  assumes "uncontrolled res = Ok None" and "agrees m"
  shows "agrees (bind_p res (\<lambda>r. bracket r m))"
  unfolding agrees_def
proof (intro allI impI)
  fix b y b' assume "controlled (bind_p res (\<lambda>r. bracket r m)) b = (Ok y, b')"
  then obtain r b1 where "controlled (bracket r m) b1 = (Ok y, b')"
    by (auto simp: controlled_simps split: prod.splits outcome.splits)
  then have "uncontrolled (bracket r m) = Ok y" by (rule agreesD [OF agrees_bracket [OF assms(2)]])
  with assms(1) show "uncontrolled (bind_p res (\<lambda>r. bracket r m)) = Ok y" by simp
qed

lemma holds_scoped [holds_intro]:
  assumes "holds 0 res bytes_of" and "uncontrolled res = Ok None" and "balanced m" and "agrees m"
  shows "balanced (bind_p res (\<lambda>r. bracket r m))"
  using assms holds_bracket [OF assms(3,4)]
  by (intro holds_bind_reserving [where k = 0]) simp_all

lemma agrees_branch_same:
  "agrees m \<Longrightarrow> uncontrolled m = uncontrolled n \<Longrightarrow> agrees (branch_p m n)"
  by (rule agrees_branch_p) (simp add: agreesD)

lemma holds_branch_same:
  "holds h m g \<Longrightarrow> uncontrolled m = uncontrolled n \<Longrightarrow> holds h (branch_p m n) g"
  by (rule holds_branch_p) simp_all

text \<open>The steps of a function that keeps several reservations alive.\<close>

lemma holds_step:
  assumes "balanced m" "agrees m" "h = (\<Sum>r \<leftarrow> rs. bytes_of r)"
    and "\<And>x. uncontrolled m = Ok x \<Longrightarrow> holds h (f x) g"
  shows "holds h (bind_p (holding rs m) f) g"
proof (rule holds_bind_p)
  show "holds h (holding rs m) (\<lambda>_. h)" using holds_holding [OF assms(1), of rs] assms(3) by simp
  show "agrees (holding rs m)" using assms(2) by (rule agrees_holding)
  show "holds h (f x) g" if "uncontrolled (holding rs m) = Ok x" for x using assms(4) that by simp
qed

lemma holds_step_reserving:
  assumes "holds 0 m bytes_of" "uncontrolled m = Ok None" "h = (\<Sum>r \<leftarrow> rs. bytes_of r)"
    and "\<And>r. uncontrolled (f r) = Abort \<Longrightarrow> uncontrolled (f None) = Abort"
    and "\<And>r. holds (bytes_of r + h) (f r) g"
  shows "holds h (bind_p (holding rs m) f) g"
  using assms holds_holding [OF assms(1), of rs]
  by (intro holds_bind_reserving [where k = h]) simp_all

lemma holds_step_drop:
  assumes "bytes_of r \<le> h" and "holds (h - bytes_of r) n g"
  shows "holds h (then_p (drop_owned r) n) g"
  unfolding then_p_bind
  by (rule holds_bind_p [OF holds_drop_owned [OF assms(1)] agrees_drop_owned]) (rule assms(2))

text \<open>
  A call whose result owns reservations, followed by code that reads only what the two sides agree
  on.
\<close>

lemma agrees_on_bind_on:
  assumes "agrees_on p m" and "\<And>x. agrees_on q (f x)"
    and "\<And>x y. p x = p y \<Longrightarrow> map_ok q (uncontrolled (f x)) = map_ok q (uncontrolled (f y))"
  shows "agrees_on q (bind_p m f)"
  unfolding agrees_on_def
proof (intro allI impI)
  fix b y b' assume "controlled (bind_p m f) b = (Ok y, b')"
  then obtain x b1 where m: "controlled m b = (Ok x, b1)" and f: "controlled (f x) b1 = (Ok y, b')"
    by (auto simp: controlled_simps split: prod.splits outcome.splits)
  from agrees_onD [OF assms(1) m] obtain z where "uncontrolled m = Ok z" "p z = p x"
    by (cases "uncontrolled m") (auto simp: map_ok_def)
  with agrees_onD [OF assms(2) f] assms(3) [of z x]
  show "map_ok q (uncontrolled (bind_p m f)) = Ok (q y)" by simp
qed

lemma holds_bind_total:
  assumes m: "holds h m k" and f: "\<And>x. holds (k x) (f x) g" and t: "\<And>x. uncontrolled (f x) \<noteq> Abort"
  shows "holds h (bind_p m f) g"
  unfolding holds_def
proof (intro allI impI)
  fix b r b' assume c: "controlled (bind_p m f) b = (r, b')" and h: "h \<le> transient_bytes b"
  obtain r1 b1 where m1: "controlled m b = (r1, b1)" by fastforce
  note M = m [unfolded holds_def, rule_format, OF m1 h]
  show "spends b b' \<and> (case r of Ok x \<Rightarrow> transient_bytes b' = transient_bytes b - h + g x
      | Err e \<Rightarrow> transient_bytes b' = transient_bytes b - h
      | Abort \<Rightarrow> uncontrolled (bind_p m f) = Abort)"
  proof (cases r1)
    case (Ok x)
    from c m1 Ok have "controlled (f x) b1 = (r, b')" by (simp add: controlled_simps)
    with f [of x, unfolded holds_def, rule_format, of b1 r b'] t [of x] M Ok show ?thesis
      by (auto intro: spends_trans split: outcome.splits)
  qed (use c m1 M in \<open>auto simp: controlled_simps\<close>)
qed

lemma holds_budget_check [holds_intro]: "balanced (if_budget budget_check)"
  unfolding holds_def
proof (intro allI impI)
  fix b r b' assume "controlled (if_budget budget_check) b = (r, b')"
  then have "budget_check b = (r, b')" by (simp add: controlled_simps)
  then show "spends b b' \<and> (case r of Ok x \<Rightarrow> transient_bytes b' = transient_bytes b - 0 + 0
      | Err e \<Rightarrow> transient_bytes b' = transient_bytes b - 0
      | Abort \<Rightarrow> uncontrolled (if_budget budget_check) = Abort)"
    by (cases rule: budget_check_cases [of b]) (auto simp: spends_def)
qed

text \<open>The triple, read as what a caller sees.\<close>

lemma holdsD:
  assumes "holds 0 m g" and "controlled m b = (r, b')"
  shows "spends b b'"
    and "r = Ok x \<Longrightarrow> transient_bytes b' = transient_bytes b + g x"
    and "r = Err e \<Longrightarrow> transient_bytes b' = transient_bytes b"
    and "r = Abort \<Longrightarrow> uncontrolled m = Abort"
  using assms(1) [unfolded holds_def, rule_format, OF assms(2) le0] by auto

end
