(* ===== verification/Union_Find.thy ===== *)
theory Union_Find
  imports Traversal
begin

section \<open>Union-find with size linking and path halving\<close>

text \<open>
  \<open>find_root\<close> and \<open>union\<close> of \<open>crates/eutheto-planning-ir/src/analysis.rs\<close>, over the
  two slices \<open>parent\<close> and \<open>size\<close>. The loop of \<open>find_root\<close> runs on fuel, one unit more
  than there are nodes; out-of-range indices and exhausted fuel are \<open>Abort\<close>.

  The invariant says that parents are in range, that linking at least doubles the recorded size
  from a node to its parent, and that a root's size is the number of nodes below it. From it
  follow termination, the absence of overflow, the logarithmic depth bound the source's comment
  claims, and the effect on the partition. The interface at the end is what the component
  analysis relies on.
\<close>

subsection \<open>Operations\<close>

fun find_root :: "nat \<Rightarrow> usize list \<Rightarrow> usize \<Rightarrow> (planning_preparation_error, usize \<times> usize list) prep"
  where
  "find_root 0 par node = lift_o Abort"
| "find_root (Suc fuel) par node =
     (if node \<ge> length par then lift_o Abort
      else if par ! node = node then ret (node, par)
      else then_p visit
        (if par ! node \<ge> length par then lift_o Abort
         else let grandparent = par ! (par ! node)
              in find_root fuel (par[node := grandparent]) grandparent))"

definition find_fuel :: "usize list \<Rightarrow> nat" where
  "find_fuel par = Suc (length par)"

definition union ::
    "usize list \<Rightarrow> usize list \<Rightarrow> usize \<Rightarrow> usize
       \<Rightarrow> (planning_preparation_error, usize list \<times> usize list) prep" where
  "union par sz left right =
     then_p (if_budget (reserve_work 6))
       (bind_p (find_root (find_fuel par) par left) (\<lambda>(left_root, par).
        bind_p (find_root (find_fuel par) par right) (\<lambda>(right_root, par).
          if left_root = right_root then ret (par, sz)
          else if left_root \<ge> length sz \<or> right_root \<ge> length sz then lift_o Abort
          else bind_p (lift_o (ok_or PrepArithmeticOverflow
                                 (u64_checked_add (sz ! left_root) (sz ! right_root))))
            (\<lambda>combined.
               let (winner, loser) =
                 (if sz ! left_root > sz ! right_root
                     \<or> sz ! left_root = sz ! right_root \<and> left_root < right_root
                  then (left_root, right_root) else (right_root, left_root))
               in ret (par[loser := winner], sz[winner := combined])))))"

subsection \<open>Paths to the root\<close>

inductive root_path :: "usize list \<Rightarrow> usize \<Rightarrow> nat \<Rightarrow> usize \<Rightarrow> bool" for par where
  path_root: "i < length par \<Longrightarrow> par ! i = i \<Longrightarrow> root_path par i 0 i"
| path_step: "i < length par \<Longrightarrow> par ! i \<noteq> i \<Longrightarrow> root_path par (par ! i) d r \<Longrightarrow> root_path par i (Suc d) r"

inductive_cases path_0E: "root_path par i 0 r"
inductive_cases path_SucE: "root_path par i (Suc d) r"

definition rep :: "usize list \<Rightarrow> usize \<Rightarrow> usize \<Rightarrow> bool" where
  "rep par i r \<longleftrightarrow> (\<exists>d. root_path par i d r)"

lemma rep_root: "i < length par \<Longrightarrow> par ! i = i \<Longrightarrow> rep par i i"
  unfolding rep_def by (blast intro: path_root)

lemma rep_step: "i < length par \<Longrightarrow> par ! i \<noteq> i \<Longrightarrow> rep par (par ! i) r \<Longrightarrow> rep par i r"
  unfolding rep_def by (blast intro: path_step)

lemma path_end: "root_path par i d r \<Longrightarrow> i < length par \<and> r < length par \<and> par ! r = r"
  by (induction rule: root_path.induct) auto

lemma rep_end: "rep par i r \<Longrightarrow> i < length par \<and> r < length par \<and> par ! r = r"
  unfolding rep_def by (blast dest: path_end)

lemma path_unique: "root_path par i d r \<Longrightarrow> root_path par i d' r' \<Longrightarrow> d' = d \<and> r' = r"
proof (induction arbitrary: d' rule: root_path.induct)
  case (path_root i)
  from path_root(3,1,2) show ?case by (cases rule: root_path.cases) auto
next
  case (path_step i d r)
  from path_step(5,1,2) obtain d1 where "d' = Suc d1" "root_path par (par ! i) d1 r'"
    by (cases rule: root_path.cases) auto
  with path_step.IH show ?case by auto
qed

lemma rep_unique: "rep par i r \<Longrightarrow> rep par i r' \<Longrightarrow> r' = r"
  unfolding rep_def using path_unique by blast

lemma rep_root_iff: "par ! i = i \<Longrightarrow> rep par i r \<longleftrightarrow> i < length par \<and> r = i"
  using rep_root rep_unique rep_end by blast

lemma rep_step_iff: "i < length par \<Longrightarrow> par ! i \<noteq> i \<Longrightarrow> rep par i r \<longleftrightarrow> rep par (par ! i) r"
  unfolding rep_def by (auto intro: path_step elim: root_path.cases)

subsection \<open>The invariant\<close>

definition members :: "usize list \<Rightarrow> usize \<Rightarrow> usize set" where
  "members par r = {j. rep par j r}"

text \<open>The part that path halving and linking maintain locally.\<close>

definition forest :: "usize list \<Rightarrow> usize list \<Rightarrow> bool" where
  "forest par sz \<longleftrightarrow>
     length sz = length par \<and>
     (\<forall>i < length par. par ! i < length par \<and> 1 \<le> sz ! i \<and>
        (par ! i \<noteq> i \<longrightarrow> 2 * sz ! i \<le> sz ! (par ! i)))"

definition uf_invar :: "usize list \<Rightarrow> usize list \<Rightarrow> bool" where
  "uf_invar par sz \<longleftrightarrow>
     forest par sz \<and> length par \<le> u64_max \<and>
     (\<forall>r < length par. par ! r = r \<longrightarrow> sz ! r = card (members par r))"

lemma forest_step:
  assumes "forest par sz" and "i < length par"
  shows "par ! i < length par" and "1 \<le> sz ! i" and "sz ! i \<le> sz ! (par ! i)"
    and "par ! i \<noteq> i \<Longrightarrow> 2 * sz ! i \<le> sz ! (par ! i)" and "par ! i \<noteq> i \<Longrightarrow> sz ! i < sz ! (par ! i)"
proof -
  from assms have f: "par ! i < length par" "1 \<le> sz ! i"
      "par ! i \<noteq> i \<longrightarrow> 2 * sz ! i \<le> sz ! (par ! i)"
    by (auto simp: forest_def)
  from f show "par ! i < length par" "1 \<le> sz ! i"
    and "par ! i \<noteq> i \<Longrightarrow> 2 * sz ! i \<le> sz ! (par ! i)" by simp_all
  from f show "par ! i \<noteq> i \<Longrightarrow> sz ! i < sz ! (par ! i)" by linarith
  from f show "sz ! i \<le> sz ! (par ! i)" by (cases "par ! i = i") simp_all
qed

lemma finite_members [simp]: "finite (members par r)"
  by (rule finite_subset [of _ "{..<length par}"]) (auto simp: members_def dest: rep_end)

lemma card_members_le: "card (members par r) \<le> length par"
proof -
  have "members par r \<subseteq> {..<length par}" by (auto simp: members_def dest: rep_end)
  then show ?thesis by (metis card_lessThan card_mono finite_lessThan)
qed

lemma size_doubles: "root_path par i d r \<Longrightarrow> forest par sz \<Longrightarrow> 2 ^ d * sz ! i \<le> sz ! r"
proof (induction rule: root_path.induct)
  case (path_step i d r)
  then have "2 * sz ! i \<le> sz ! (par ! i)" by (simp add: forest_def)
  then have "2 ^ d * (2 * sz ! i) \<le> 2 ^ d * sz ! (par ! i)" by simp
  also have "\<dots> \<le> sz ! r" using path_step by simp
  finally show ?case by (simp add: mult.commute mult.left_commute)
qed simp

text \<open>Every node has a root: the recorded size grows along the way and is bounded.\<close>

lemma path_exists:
  assumes "forest par sz" and "i < length par"
  shows "\<exists>d r. root_path par i d r"
  using assms(2)
proof (induction "Max (set sz) - sz ! i" arbitrary: i rule: less_induct)
  case less
  show ?case
  proof (cases "par ! i = i")
    case True
    with less show ?thesis by (blast intro: path_root)
  next
    case False
    with assms(1) less(2) have p: "par ! i < length par" "sz ! i < sz ! (par ! i)"
      by (simp_all add: forest_step)
    then have "sz ! (par ! i) \<le> Max (set sz)"
      using assms(1) by (auto simp: forest_def intro: Max_ge)
    with p less(1) [of "par ! i"] obtain d r where "root_path par (par ! i) d r" by fastforce
    with False less(2) show ?thesis by (blast intro: path_step)
  qed
qed

lemma rep_exists: "forest par sz \<Longrightarrow> i < length par \<Longrightarrow> \<exists>r. rep par i r"
  unfolding rep_def using path_exists by blast

lemma depth_bound:
  assumes "uf_invar par sz" and "root_path par i d r"
  shows "2 ^ d \<le> length par"
proof -
  from assms have f: "forest par sz" and r: "sz ! r = card (members par r)"
    using path_end by (auto simp: uf_invar_def)
  from assms(2) f have "1 \<le> sz ! i" using path_end by (auto simp: forest_def)
  then have "2 ^ d \<le> 2 ^ d * sz ! i" by simp
  also have "\<dots> \<le> sz ! r" using size_doubles [OF assms(2) f] .
  also have "\<dots> \<le> length par" using r card_members_le by simp
  finally show ?thesis .
qed

subsection \<open>Path halving\<close>

definition halve :: "usize list \<Rightarrow> usize \<Rightarrow> usize list" where
  "halve par i = par[i := par ! (par ! i)]"

lemma length_halve [simp]: "length (halve par i) = length par"
  by (simp add: halve_def)

lemma forest_halve:
  assumes "forest par sz" and "i < length par"
  shows "forest (halve par i) sz"
proof -
  let ?p = "par ! i"
  from assms have p: "?p < length par" "par ! ?p < length par"
    and s: "?p \<noteq> i \<longrightarrow> 2 * sz ! i \<le> sz ! ?p" "par ! ?p \<noteq> ?p \<longrightarrow> 2 * sz ! ?p \<le> sz ! (par ! ?p)"
    by (auto simp: forest_def)
  have "2 * sz ! i \<le> sz ! (par ! ?p)" if "par ! ?p \<noteq> i"
  proof (cases "?p = i")
    case True
    with that show ?thesis by simp
  next
    case False
    with s show ?thesis by (cases "par ! ?p = ?p") auto
  qed
  with assms p show ?thesis
    by (auto simp: forest_def halve_def nth_list_update)
qed

lemma no_two_cycle:
  assumes "forest par sz" and "i < length par" and "par ! i \<noteq> i"
  shows "par ! (par ! i) \<noteq> i"
proof
  assume c: "par ! (par ! i) = i"
  have p: "par ! i < length par" and less: "sz ! i < sz ! (par ! i)"
    using forest_step [OF assms(1,2)] assms(3) by auto
  have "sz ! (par ! i) \<le> sz ! (par ! (par ! i))"
    by (rule forest_step(3) [OF assms(1) p])
  with c less show False by simp
qed

lemma rep_halve_forward:
  assumes "root_path par j d r" and f: "forest par sz" and i: "i < length par"
  shows "rep (halve par i) j r"
  using assms(1)
proof (induction rule: root_path.induct)
  case (path_root j)
  then have "halve par i ! j = j" by (cases "j = i") (simp_all add: halve_def)
  with path_root(1) show ?case by (intro rep_root) simp_all
next
  case (path_step j d r)
  note IH = path_step.IH
  show ?case
  proof (cases "j = i")
    case False
    then have "halve par i ! j = par ! j" by (simp add: halve_def)
    with path_step(1,2) IH show ?thesis by (simp add: rep_step)
  next
    case True
    let ?h = "halve par i" and ?p = "par ! i"
    have ne: "?p \<noteq> i" using path_step(2) True by simp
    have h: "?h ! i = par ! ?p" using i by (simp add: halve_def)
    have hp: "?h ! ?p = par ! ?p" using ne by (simp add: halve_def)
    have p: "?p < length ?h" using forest_step(1) [OF f i] by simp
    have "rep ?h (par ! ?p) r"
    proof (cases "par ! ?p = ?p")
      case eq: True
      from IH have "rep ?h ?p r" by (simp only: True)
      then show ?thesis by (simp only: eq)
    next
      case False
      then have "?h ! ?p \<noteq> ?p" by (simp only: hp not_False_eq_True)
      from rep_step_iff [OF p this, of r] IH show ?thesis by (simp only: True hp)
    qed
    then have "rep ?h (?h ! i) r" by (simp only: h)
    moreover have "?h ! i \<noteq> i" using no_two_cycle [OF f i ne] by (simp only: h not_False_eq_True)
    ultimately have "rep ?h i r" using i by (simp add: rep_step)
    with True show ?thesis by simp
  qed
qed

lemma rep_halve:
  assumes "forest par sz" and "i < length par"
  shows "rep (halve par i) j r \<longleftrightarrow> rep par j r"
proof
  assume "rep par j r"
  then show "rep (halve par i) j r"
    unfolding rep_def [of par] using rep_halve_forward assms by blast
next
  assume h: "rep (halve par i) j r"
  then have "j < length par" using rep_end by fastforce
  then obtain r' where r': "rep par j r'" using rep_exists assms(1) by blast
  then have "rep (halve par i) j r'"
    unfolding rep_def [of par] using rep_halve_forward assms by blast
  with h r' show "rep par j r" using rep_unique by blast
qed

lemma path_halve_skip:
  assumes "root_path par i (Suc (Suc d)) r" and "forest par sz"
  shows "root_path (halve par i) (par ! (par ! i)) d r"
proof -
  from assms(1) obtain p: "i < length par" "par ! i \<noteq> i" "root_path par (par ! i) (Suc d) r"
    by (auto elim: path_SucE)
  then obtain q: "par ! i < length par" "root_path par (par ! (par ! i)) d r"
    by (auto elim: path_SucE)
  have le: "sz ! i < sz ! (par ! i)" "sz ! (par ! i) \<le> sz ! (par ! (par ! i))"
    using assms(2) p(1,2) q(1) by (simp_all add: forest_step)
  have "root_path (halve par i) k e r" if "root_path par k e r" "sz ! i < sz ! k" for k e
    using that
  proof (induction rule: root_path.induct)
    case (path_root k)
    then have "halve par i ! k = k" by (cases "k = i") (simp_all add: halve_def)
    with path_root show ?case by (intro root_path.path_root) simp_all
  next
    case (path_step k e r)
    then have k: "halve par i ! k = par ! k" by (cases "k = i") (simp_all add: halve_def)
    have "sz ! k \<le> sz ! (par ! k)" using assms(2) path_step by (simp add: forest_step)
    with path_step have "root_path (halve par i) (par ! k) e r" by simp
    with path_step k show ?case by (simp add: root_path.path_step)
  qed
  from this [OF q(2)] le show ?thesis by simp
qed

lemma path_halve:
  assumes "root_path par i d r" and "0 < d" and f: "forest par sz"
  shows "root_path (halve par i) (par ! (par ! i)) (d - 2) r"
proof (cases "d = 1")
  case True
  then have d: "d = Suc 0" by simp
  from assms(1) obtain i: "i < length par" "par ! i \<noteq> i" and p: "root_path par (par ! i) 0 r"
    unfolding d by (auto elim: path_SucE)
  from p have r: "par ! i = r" "par ! r = r" "r < length par" by (auto elim: path_0E)
  with i have "halve par i ! r = r" by (simp add: halve_def)
  with r show ?thesis by (simp add: path_root True)
next
  case False
  with assms(2) have "d = Suc (Suc (d - 2))" by arith
  with path_halve_skip [of par i "d - 2" r] assms show ?thesis by simp
qed

subsection \<open>Finding a root\<close>

lemma find_root_correct:
  assumes "forest par sz" and "root_path par i d r" and "(d + 1) div 2 < fuel"
  shows "\<exists>par'. uncontrolled (find_root fuel par i) = Ok (r, par') \<and> forest par' sz \<and>
    length par' = length par \<and> (\<forall>j q. rep par' j q \<longleftrightarrow> rep par j q)"
  using assms
proof (induction fuel arbitrary: par i d)
  case 0
  then show ?case by simp
next
  case (Suc fuel)
  have i: "i < length par" using path_end [OF Suc.prems(2)] by simp
  show ?case
  proof (cases "par ! i = i")
    case True
    then have "r = i" using rep_root_iff [OF True] Suc.prems(2) by (auto simp: rep_def)
    with True i Suc.prems(1) show ?thesis by simp
  next
    case False
    then have d: "0 < d" using Suc.prems(2) by (auto elim: path_0E intro: gr0I)
    note h = path_halve [OF Suc.prems(2) d Suc.prems(1)]
    have "(d - 2 + 1) div 2 < fuel" using Suc.prems(3) d by arith
    from Suc.IH [OF forest_halve [OF Suc.prems(1) i] h this]
    obtain par' where "uncontrolled (find_root fuel (halve par i) (par ! (par ! i))) = Ok (r, par')"
      and "forest par' sz" "length par' = length par"
      and "\<forall>j q. rep par' j q \<longleftrightarrow> rep (halve par i) j q" by auto
    with False i rep_halve [OF Suc.prems(1) i] forest_step(1) [OF Suc.prems(1) i] show ?thesis
      by (simp add: halve_def Let_def)
  qed
qed

lemma depth_lt: "uf_invar par sz \<Longrightarrow> root_path par i d r \<Longrightarrow> d < length par"
  using depth_bound less_exp [of d] by (meson order_less_le_trans)

lemma uf_invar_same:
  assumes "uf_invar par sz" and "forest par' sz" and "length par' = length par"
    and "\<forall>j q. rep par' j q \<longleftrightarrow> rep par j q"
  shows "uf_invar par' sz"
proof -
  have "members par' = members par" using assms(4) by (simp add: members_def fun_eq_iff)
  moreover have "par' ! r = r \<longleftrightarrow> par ! r = r" if "r < length par" for r
    using assms(3,4) that rep_root rep_end by metis
  ultimately show ?thesis using assms by (auto simp: uf_invar_def)
qed

lemma find_root_uf:
  assumes "uf_invar par sz" and "i < length par"
  obtains r par' where "uncontrolled (find_root (find_fuel par) par i) = Ok (r, par')"
    and "rep par i r" and "uf_invar par' sz" and "length par' = length par"
    and "\<And>j q. rep par' j q \<longleftrightarrow> rep par j q"
proof -
  from assms have f: "forest par sz" by (simp add: uf_invar_def)
  from path_exists [OF f assms(2)] obtain d r where p: "root_path par i d r" by blast
  have "(d + 1) div 2 < find_fuel par" using depth_lt [OF assms(1) p] by (simp add: find_fuel_def)
  from find_root_correct [OF f p this] obtain par'
    where u: "uncontrolled (find_root (find_fuel par) par i) = Ok (r, par')"
      and f': "forest par' sz" "length par' = length par"
      and eq: "\<forall>j q. rep par' j q \<longleftrightarrow> rep par j q" by blast
  have "rep par i r" using p by (auto simp: rep_def)
  with that [OF u] uf_invar_same [OF assms(1) f' eq] f'(2) eq show ?thesis by simp
qed

subsection \<open>Work of a search\<close>

text \<open>Halving visits every other ancestor: a node at depth \<open>d\<close> costs \<open>\<lceil>d/2\<rceil>\<close> visits.\<close>

lemma visit_charges:
  assumes "controlled visit b = (Ok u, b')"
  shows "work b' = work b + 1"
  using assms unfolding controlled_simps
  by (cases rule: budget_check_cases [of b])
    (auto simp: reserve_work_def split: option.splits if_splits)

lemma find_root_visits:
  assumes "forest par sz" and "root_path par i d r"
    and "controlled (find_root fuel par i) b = (Ok x, b')"
  shows "work b' = work b + (d + 1) div 2"
  using assms
proof (induction fuel arbitrary: par i d b)
  case 0
  then show ?case by (simp add: controlled_simps)
next
  case (Suc fuel)
  have i: "i < length par" using path_end [OF Suc.prems(2)] by simp
  show ?case
  proof (cases "par ! i = i")
    case True
    then have "d = 0" using path_unique [OF path_root [OF i] Suc.prems(2)] by simp
    with True i Suc.prems(3) show ?thesis by (simp add: controlled_simps)
  next
    case False
    then have d: "0 < d" using Suc.prems(2) by (auto elim: path_0E intro: gr0I)
    note h = path_halve [OF Suc.prems(2) d Suc.prems(1)]
    obtain q b1 where v: "controlled visit b = (q, b1)" by fastforce
    with Suc.prems(3) False i forest_step(1) [OF Suc.prems(1) i]
    have q: "q = Ok ()"
      and rest: "controlled (find_root fuel (halve par i) (par ! (par ! i))) b1 = (Ok x, b')"
      by (cases q; auto simp: controlled_simps halve_def Let_def)+
    have "1 + (d - 2 + 1) div 2 = (d + 1) div 2" using d by arith
    with Suc.IH [OF forest_halve [OF Suc.prems(1) i] h rest] visit_charges [of b "()" b1] v q
    show ?thesis by simp
  qed
qed

subsection \<open>Linking two roots\<close>

definition link :: "usize list \<Rightarrow> usize \<Rightarrow> usize \<Rightarrow> usize list" where
  "link par loser winner = par[loser := winner]"

lemma length_link [simp]: "length (link par l w) = length par"
  by (simp add: link_def)

lemma rep_link_forward:
  assumes "root_path par j d q" and "l < length par" "w < length par" "par ! l = l" "par ! w = w" "l \<noteq> w"
  shows "rep (link par l w) j (if q = l then w else q)"
  using assms(1)
proof (induction rule: root_path.induct)
  case (path_root j)
  have w: "rep (link par l w) w w" using assms by (simp add: link_def rep_root)
  show ?case
  proof (cases "j = l")
    case True
    have "link par l w ! l = w" using assms by (simp add: link_def)
    with w True assms show ?thesis by (simp add: rep_step_iff [of l "link par l w" w])
  next
    case False
    with path_root show ?thesis by (simp add: link_def rep_root)
  qed
next
  case (path_step j d q)
  then have "j \<noteq> l" using assms(4) by auto
  then have "link par l w ! j = par ! j" by (simp add: link_def)
  with path_step show ?case by (simp add: rep_step)
qed

lemma rep_link:
  assumes "forest par sz" and "l < length par" "w < length par" "par ! l = l" "par ! w = w" "l \<noteq> w"
  shows "rep (link par l w) j r \<longleftrightarrow> (\<exists>q. rep par j q \<and> r = (if q = l then w else q))"
proof
  assume h: "rep (link par l w) j r"
  then have "j < length par" using rep_end by fastforce
  then obtain q where q: "rep par j q" using rep_exists assms(1) by blast
  then have "rep (link par l w) j (if q = l then w else q)"
    unfolding rep_def [of par] using rep_link_forward assms(2-) by blast
  then have "r = (if q = l then w else q)" using rep_unique [OF h] by metis
  with q show "\<exists>q. rep par j q \<and> r = (if q = l then w else q)" by blast
next
  assume "\<exists>q. rep par j q \<and> r = (if q = l then w else q)"
  then show "rep (link par l w) j r"
    unfolding rep_def [of par] using rep_link_forward assms(2-) by blast
qed

lemma forest_link:
  assumes f: "forest par sz" and lw: "l < length par" "w < length par" "par ! l = l" "par ! w = w" "l \<noteq> w"
    and le: "sz ! l \<le> sz ! w"
  shows "forest (link par l w) (sz[w := sz ! l + sz ! w])"
proof -
  let ?s = "sz[w := sz ! l + sz ! w]" and ?p = "link par l w"
  have len: "length ?s = length ?p" using f by (simp add: forest_def)
  have "?p ! i < length ?p \<and> 1 \<le> ?s ! i \<and> (?p ! i \<noteq> i \<longrightarrow> 2 * ?s ! i \<le> ?s ! (?p ! i))"
    if i: "i < length ?p" for i
  proof -
    have w: "w < length sz" using f lw by (simp add: forest_def)
    note st = forest_step [OF f, of i]
    show ?thesis
    proof (cases "i = l")
      case True
      then have "?p ! i = w" using lw by (simp add: link_def)
      with True lw le w st i show ?thesis by simp
    next
      case False
      then have p: "?p ! i = par ! i" by (simp add: link_def)
      show ?thesis
      proof (cases "i = w")
        case True
        with p lw st i w show ?thesis by simp
      next
        case iw: False
        have "2 * sz ! i \<le> ?s ! (par ! i)" if "par ! i \<noteq> i"
          using st(4) that i w by (cases "par ! i = w") (simp_all add: nth_list_update)
        with p st i iw show ?thesis by simp
      qed
    qed
  qed
  with len show ?thesis by (simp add: forest_def)
qed

lemma uf_invar_link:
  assumes inv: "uf_invar par sz"
    and lw: "l < length par" "w < length par" "par ! l = l" "par ! w = w" "l \<noteq> w"
    and le: "sz ! l \<le> sz ! w"
  shows "uf_invar (link par l w) (sz[w := sz ! l + sz ! w])"
proof -
  have f: "forest par sz" using inv by (simp add: uf_invar_def)
  have rl: "rep (link par l w) j r \<longleftrightarrow> (\<exists>q. rep par j q \<and> r = (if q = l then w else q))" for j r
    by (rule rep_link [OF f lw])
  have size: "sz ! l = card (members par l)" "sz ! w = card (members par w)"
    using inv lw by (auto simp: uf_invar_def)
  have w: "w < length sz" using f lw by (simp add: forest_def)
  have "sz[w := sz ! l + sz ! w] ! r = card (members (link par l w) r)"
    if r: "r < length par" "link par l w ! r = r" for r
  proof -
    have rl': "r \<noteq> l" using r lw by (auto simp: link_def)
    then have pr: "par ! r = r" using r by (simp add: link_def)
    show ?thesis
    proof (cases "r = w")
      case True
      have "rep (link par l w) j w \<longleftrightarrow> rep par j l \<or> rep par j w" for j
        using lw(5) rl [of j w] by metis
      then have "members (link par l w) w = members par l \<union> members par w"
        by (auto simp: members_def)
      moreover have "members par l \<inter> members par w = {}"
        using lw(5) rep_unique by (fastforce simp: members_def)
      ultimately show ?thesis using True w size by (simp add: card_Un_disjoint)
    next
      case False
      have "rep (link par l w) j r \<longleftrightarrow> rep par j r" for j
        using False rl' rl [of j r] by metis
      then have "members (link par l w) r = members par r"
        by (simp add: members_def)
      with False r pr inv show ?thesis by (simp add: uf_invar_def)
    qed
  qed
  with forest_link [OF f lw le] inv show ?thesis by (simp add: uf_invar_def)
qed

lemma size_sum_bound:
  assumes inv: "uf_invar par sz" and lw: "l < length par" "w < length par" "par ! l = l" "par ! w = w" "l \<noteq> w"
  shows "sz ! l + sz ! w \<le> length par"
proof -
  have "members par l \<inter> members par w = {}"
    using lw(5) rep_unique by (fastforce simp: members_def)
  then have "sz ! l + sz ! w = card (members par l \<union> members par w)"
    using inv lw by (simp add: uf_invar_def card_Un_disjoint)
  also have "\<dots> \<le> card {..<length par}"
    by (rule card_mono) (auto simp: members_def dest: rep_end)
  finally show ?thesis by simp
qed

subsection \<open>Union\<close>

lemma union_uf:
  assumes inv: "uf_invar par sz" and l: "left < length par" and r: "right < length par"
  obtains par' sz' where "uncontrolled (union par sz left right) = Ok (par', sz')"
    and "uf_invar par' sz'" and "length par' = length par"
    and "\<And>a b ra rb. rep par left a \<Longrightarrow> rep par right b \<Longrightarrow> rep par' ra rb \<longleftrightarrow>
           (\<exists>q. rep par ra q \<and> rb = (if q \<in> {a, b} then
              (if sz ! a > sz ! b \<or> sz ! a = sz ! b \<and> a < b then a else b) else q))"
proof -
  from find_root_uf [OF inv l] obtain lr p1
    where f1: "uncontrolled (find_root (find_fuel par) par left) = Ok (lr, p1)"
      and r1: "rep par left lr" and i1: "uf_invar p1 sz" and len1: "length p1 = length par"
      and eq1: "\<And>j q. rep p1 j q \<longleftrightarrow> rep par j q" by metis
  from find_root_uf [OF i1, of right] r len1 obtain rr p2
    where f2: "uncontrolled (find_root (find_fuel p1) p1 right) = Ok (rr, p2)"
      and r2: "rep p1 right rr" and i2: "uf_invar p2 sz" and len2: "length p2 = length par"
      and eq2: "\<And>j q. rep p2 j q \<longleftrightarrow> rep p1 j q" by metis
  have eq: "rep p2 j q \<longleftrightarrow> rep par j q" for j q using eq1 eq2 by blast
  have r2': "rep par right rr" using r2 eq1 by blast
  have ru: "a = lr \<and> b = rr" if "rep par left a" "rep par right b" for a b
    using that r1 r2' rep_unique by blast
  have sz: "length sz = length par" using inv by (simp add: uf_invar_def forest_def)
  have root: "lr < length p2" "rr < length p2" "p2 ! lr = lr" "p2 ! rr = rr"
    using r1 r2' rep_end rep_root eq len2 by metis+
  let ?win = "if sz ! lr > sz ! rr \<or> sz ! lr = sz ! rr \<and> lr < rr then lr else rr"
  let ?los = "if sz ! lr > sz ! rr \<or> sz ! lr = sz ! rr \<and> lr < rr then rr else lr"
  show thesis
  proof (cases "lr = rr")
    case True
    show thesis
    proof (rule that)
      show "uncontrolled (union par sz left right) = Ok (p2, sz)"
        using f1 f2 True by (simp add: union_def)
      fix a b ra rb assume "rep par left a" "rep par right b"
      with True have "a = lr" "b = lr" using ru by blast+
      then show "rep p2 ra rb \<longleftrightarrow> (\<exists>q. rep par ra q \<and> rb = (if q \<in> {a, b} then
              (if sz ! a > sz ! b \<or> sz ! a = sz ! b \<and> a < b then a else b) else q))"
        by (auto simp: eq)
    qed (use i2 len2 in simp_all)
  next
    case False
    have wl: "?los < length p2" "?win < length p2" "p2 ! ?los = ?los" "p2 ! ?win = ?win"
        "?los \<noteq> ?win" "sz ! ?los \<le> sz ! ?win" "sz ! ?los + sz ! ?win = sz ! lr + sz ! rr"
      using root False by auto
    have "sz ! lr + sz ! rr \<le> u64_max"
      using size_sum_bound [OF i2 wl(1-5)] wl(7) i2 by (simp add: uf_invar_def)
    then have ok: "u64_checked_add (sz ! lr) (sz ! rr) = Some (sz ! lr + sz ! rr)"
      by (simp add: u64_checked_add_def)
    show thesis
    proof (rule that)
      show "uncontrolled (union par sz left right)
          = Ok (link p2 ?los ?win, sz[?win := sz ! ?los + sz ! ?win])"
        using f1 f2 False ok root sz len2 by (simp add: union_def link_def add.commute)
      show "uf_invar (link p2 ?los ?win) (sz[?win := sz ! ?los + sz ! ?win])"
        by (rule uf_invar_link [OF i2 wl(1-6)])
      show "length (link p2 ?los ?win) = length par" using len2 by simp
      fix a b ra rb assume "rep par left a" "rep par right b"
      then have ab: "a = lr" "b = rr" using ru by blast+
      have "forest p2 sz" using i2 by (simp add: uf_invar_def)
      then have "rep (link p2 ?los ?win) ra rb \<longleftrightarrow>
          (\<exists>q. rep par ra q \<and> rb = (if q = ?los then ?win else q))"
        using rep_link wl(1-5) eq by simp
      moreover have "(if q = ?los then ?win else q) = (if q \<in> {lr, rr} then ?win else q)" for q
        by auto
      ultimately show "rep (link p2 ?los ?win) ra rb \<longleftrightarrow> (\<exists>q. rep par ra q \<and> rb = (if q \<in> {a, b} then
              (if sz ! a > sz ! b \<or> sz ! a = sz ! b \<and> a < b then a else b) else q))"
        by (simp only: ab)
    qed
  qed
qed

subsection \<open>Budgets\<close>

lemma agrees_find_root [agrees_intro]: "agrees (find_root fuel par node)"
  by (induction fuel arbitrary: par node) (auto simp: Let_def intro!: agrees_intro)

lemma holds_find_root [holds_intro]: "balanced (find_root fuel par node)"
  by (induction fuel arbitrary: par node) (auto simp: Let_def intro!: agrees_intro holds_intro)

lemma agrees_union [agrees_intro]: "agrees (union par sz left right)"
  by (auto simp: union_def Let_def intro!: agrees_intro split: prod.split)

lemma holds_union [holds_intro]: "balanced (union par sz left right)"
  by (auto simp: union_def Let_def intro!: agrees_intro holds_intro split: prod.split)

subsection \<open>The partition interface\<close>

text \<open>
  What a client of the union-find relies on: \<open>leader\<close> names a node's class and does not
  change the partition, \<open>join\<close> merges two classes and nothing else. The client lemma says that
  joining along a list of edges yields the classes of the equivalence closure of the edges.
\<close>

locale partition_structure =
  fixes nodes :: "'d \<Rightarrow> nat"
    and invar :: "'d \<Rightarrow> bool"
    and top :: "'d \<Rightarrow> nat \<Rightarrow> nat"
    and discrete :: "nat \<Rightarrow> 'd"
    and join :: "'d \<Rightarrow> nat \<Rightarrow> nat \<Rightarrow> ('e, 'd) outcome"
    and leader :: "'d \<Rightarrow> nat \<Rightarrow> ('e, nat \<times> 'd) outcome"
  assumes discrete: "n \<le> u64_max \<Longrightarrow>
      invar (discrete n) \<and> nodes (discrete n) = n \<and> (\<forall>i < n. top (discrete n) i = i)"
    and join: "invar d \<Longrightarrow> i < nodes d \<Longrightarrow> j < nodes d \<Longrightarrow>
      \<exists>d'. join d i j = Ok d' \<and> invar d' \<and> nodes d' = nodes d \<and>
        (\<exists>w \<in> {top d i, top d j}. \<forall>k < nodes d.
           top d' k = (if top d k \<in> {top d i, top d j} then w else top d k))"
    and leader: "invar d \<Longrightarrow> i < nodes d \<Longrightarrow>
      \<exists>d'. leader d i = Ok (top d i, d') \<and> invar d' \<and> nodes d' = nodes d \<and>
        (\<forall>k < nodes d. top d' k = top d k)"
    and top: "invar d \<Longrightarrow> i < nodes d \<Longrightarrow> top d i < nodes d \<and> top d (top d i) = top d i"
begin

definition same :: "'d \<Rightarrow> (nat \<times> nat) set" where
  "same d = {(a, b). a < nodes d \<and> b < nodes d \<and> top d a = top d b}"

lemma same_trans: "trans (same d)"
  unfolding trans_def same_def by auto

lemma join_same:
  assumes "invar d" "i < nodes d" "j < nodes d" "join d i j = Ok d'"
  shows "same d' \<union> Id = (same d \<union> {(i, j), (j, i)})\<^sup>*"
proof
  from join [OF assms(1-3)] assms(4) obtain w
    where n: "nodes d' = nodes d"
      and t: "\<And>k. k < nodes d \<Longrightarrow>
        top d' k = (if top d k \<in> {top d i, top d j} then w else top d k)"
      and w: "w \<in> {top d i, top d j}" by auto
  let ?R = "(same d \<union> {(i, j), (j, i)})\<^sup>*"
  have "same d \<union> {(i, j), (j, i)} \<subseteq> same d'"
    using assms(2,3) by (auto simp: same_def n t)
  then have "?R \<subseteq> (same d')\<^sup>*" by (rule rtrancl_mono)
  also have "\<dots> = same d' \<union> Id"
    using same_trans [of d'] by (simp add: rtrancl_trancl_reflcl)
  finally show "?R \<subseteq> same d' \<union> Id" .
  show "same d' \<union> Id \<subseteq> ?R"
  proof
    fix p assume "p \<in> same d' \<union> Id"
    then consider "fst p = snd p" | "p \<in> same d'" by (cases p) auto
    then show "p \<in> ?R"
    proof cases
      case 1
      then show ?thesis by (cases p) simp
    next
      case 2
      then obtain a b where p: "p = (a, b)" "a < nodes d" "b < nodes d" "top d' a = top d' b"
        by (cases p) (auto simp: same_def n)
      have reach: "(a, i) \<in> ?R \<and> (i, a) \<in> ?R" if "a < nodes d" "top d a \<in> {top d i, top d j}" for a
      proof (cases "top d a = top d i")
        case True
        with that assms(2) show ?thesis by (auto simp: same_def)
      next
        case False
        with that assms(3) have "(a, j) \<in> same d" "(j, a) \<in> same d" by (auto simp: same_def)
        then have "(a, j) \<in> ?R" "(j, i) \<in> ?R" "(i, j) \<in> ?R" "(j, a) \<in> ?R" by auto
        then show ?thesis by (meson rtrancl_trans)
      qed
      show ?thesis
      proof (cases "top d a \<in> {top d i, top d j} \<and> top d b \<in> {top d i, top d j}")
        case True
        with reach p show ?thesis by (meson rtrancl_trans)
      next
        case False
        with p w t have "(a, b) \<in> same d" by (auto simp: same_def split: if_splits)
        with p show ?thesis by auto
      qed
    qed
  qed
qed

text \<open>Joining along a list of edges.\<close>

lemma join_loop:
  assumes "invar d" and "\<And>x. x \<in> set xs \<Longrightarrow> l x < nodes d \<and> r x < nodes d"
  shows "\<exists>d'. each_o (\<lambda>x d. join d (l x) (r x)) xs d = Ok d' \<and> invar d' \<and> nodes d' = nodes d \<and>
      same d' \<union> Id = (same d \<union> (\<Union>x \<in> set xs. {(l x, r x), (r x, l x)}))\<^sup>*"
  using assms
proof (induction xs arbitrary: d)
  case Nil
  then show ?case using same_trans [of d] by (simp add: rtrancl_trancl_reflcl)
next
  case (Cons x xs)
  then obtain d1 where d1: "join d (l x) (r x) = Ok d1" "invar d1" "nodes d1 = nodes d"
    using join [of d "l x" "r x"] by auto
  let ?E = "\<Union>x \<in> set xs. {(l x, r x), (r x, l x)}"
  have e: "same d1 \<union> Id = (same d \<union> {(l x, r x), (r x, l x)})\<^sup>*"
    using join_same d1(1) Cons.prems by simp
  have "\<And>y. y \<in> set xs \<Longrightarrow> l y < nodes d1 \<and> r y < nodes d1" using Cons.prems d1 by simp
  from Cons.IH [OF d1(2) this] obtain d' where
      d': "each_o (\<lambda>x d. join d (l x) (r x)) xs d1 = Ok d'" "invar d'" "nodes d' = nodes d1"
        "same d' \<union> Id = (same d1 \<union> ?E)\<^sup>*" by auto
  have "(same d1 \<union> ?E)\<^sup>* = ((same d1 \<union> Id)\<^sup>* \<union> ?E\<^sup>*)\<^sup>*"
    by (simp add: rtrancl_Un_rtrancl)
  also have "\<dots> = (same d \<union> {(l x, r x), (r x, l x)} \<union> ?E)\<^sup>*"
    by (simp only: e rtrancl_idemp rtrancl_Un_rtrancl)
  finally show ?case using d' d1 by (simp add: Un_assoc)
qed

lemma same_discrete: "n \<le> u64_max \<Longrightarrow> same (discrete n) \<subseteq> Id"
  using discrete [of n] by (auto simp: same_def)

text \<open>Asking for the leaders of a list of nodes and recording each answer.\<close>

lemma leader_loop:
  assumes "invar d" and "\<And>x. x \<in> set xs \<Longrightarrow> i x < nodes d"
  shows "\<exists>d'. each_o (\<lambda>x (d, s). bind_o (leader d (i x)) (\<lambda>(r, d). Ok (d, rec r x s))) xs (d, s)
      = Ok (d', fold (\<lambda>x. rec (top d (i x)) x) xs s)"
  using assms
proof (induction xs arbitrary: d s)
  case Nil
  then show ?case by simp
next
  case (Cons x xs)
  then obtain d1 where d1: "leader d (i x) = Ok (top d (i x), d1)" "invar d1" "nodes d1 = nodes d"
      "\<forall>k < nodes d. top d1 k = top d k"
    using leader [of d "i x"] by auto
  have "\<And>y. y \<in> set xs \<Longrightarrow> i y < nodes d1" using Cons.prems d1 by simp
  from Cons.IH [OF d1(2) this, of "rec (top d (i x)) x s"] obtain d' where
      d': "each_o (\<lambda>x (d, s). bind_o (leader d (i x)) (\<lambda>(r, d). Ok (d, rec r x s))) xs
        (d1, rec (top d (i x)) x s) = Ok (d', fold (\<lambda>x. rec (top d1 (i x)) x) xs (rec (top d (i x)) x s))"
    by auto
  have "fold (\<lambda>x. rec (top d1 (i x)) x) xs t = fold (\<lambda>x. rec (top d (i x)) x) xs t" for t
    by (rule fold_cong) (use Cons.prems d1 in auto)
  with d' d1 show ?case by simp
qed

end

subsubsection \<open>The union-find provides it\<close>

text \<open>The root of a node, without a search: where its parents lead in as many steps as there are nodes.\<close>

definition root_of :: "usize list \<Rightarrow> usize \<Rightarrow> usize" where
  "root_of par i = ((\<lambda>k. par ! k) ^^ length par) i"

lemma path_funpow: "root_path par i d r \<Longrightarrow> d \<le> n \<Longrightarrow> ((\<lambda>k. par ! k) ^^ n) i = r"
proof (induction arbitrary: n rule: root_path.induct)
  case (path_root i)
  then show ?case by (induction n) simp_all
next
  case (path_step i d r)
  then show ?case by (cases n) (simp_all add: funpow_swap1 del: funpow.simps add: funpow_Suc_right)
qed

definition uf_init :: "nat \<Rightarrow> usize list \<times> usize list" where
  "uf_init n = ([0..<n], replicate n 1)"

lemma rep_root_of:
  assumes "uf_invar par sz" "i < length par"
  shows "rep par i r \<longleftrightarrow> r = root_of par i"
proof -
  have "forest par sz" using assms(1) by (simp add: uf_invar_def)
  from path_exists [OF this assms(2)] obtain d q where p: "root_path par i d q" by blast
  then have "root_of par i = q"
    using path_funpow depth_lt [OF assms(1) p] by (simp add: root_of_def)
  moreover have "rep par i q" using p by (auto simp: rep_def)
  ultimately show ?thesis using rep_unique by auto
qed

lemma uf_invar_init: "n \<le> u64_max \<Longrightarrow> uf_invar [0..<n] (replicate n 1)"
proof -
  assume n: "n \<le> u64_max"
  have "rep [0..<n] i r \<longleftrightarrow> i < n \<and> r = i" for i r
    using rep_root_iff [of "[0..<n]" i r] rep_end [of "[0..<n]" i r] by auto
  then have "members [0..<n] r = {r}" if "r < n" for r
    using that by (auto simp: members_def)
  with n show ?thesis by (simp add: uf_invar_def forest_def)
qed

lemma root_of_union:
  assumes u: "uf_invar par sz" "i < length par" "j < length par"
  defines "a \<equiv> root_of par i" and "b \<equiv> root_of par j"
  defines "w \<equiv> if sz ! a > sz ! b \<or> sz ! a = sz ! b \<and> a < b then a else b"
  shows "\<exists>par' sz'. uncontrolled (union par sz i j) = Ok (par', sz') \<and> uf_invar par' sz' \<and>
    length par' = length par \<and>
    (\<forall>k < length par. root_of par' k = (if root_of par k \<in> {a, b} then w else root_of par k))"
proof -
  have ab: "rep par i a" "rep par j b"
    unfolding a_def b_def using rep_root_of [OF u(1)] u(2,3) by simp_all
  obtain par' sz' where un: "uncontrolled (union par sz i j) = Ok (par', sz')"
    and inv': "uf_invar par' sz'" "length par' = length par"
    and rep': "\<And>k r. rep par' k r \<longleftrightarrow> (\<exists>q. rep par k q \<and> r = (if q \<in> {a, b} then w else q))"
  proof (rule union_uf [OF u])
    fix p s
    assume un: "uncontrolled (union par sz i j) = Ok (p, s)" "uf_invar p s" "length p = length par"
      and rep: "\<And>a b ra rb. rep par i a \<Longrightarrow> rep par j b \<Longrightarrow> rep p ra rb \<longleftrightarrow>
           (\<exists>q. rep par ra q \<and> rb = (if q \<in> {a, b} then
              (if sz ! a > sz ! b \<or> sz ! a = sz ! b \<and> a < b then a else b) else q))"
    show thesis
      by (rule that [OF un]) (simp only: rep [OF ab] w_def)
  qed
  have "root_of par' k = (if root_of par k \<in> {a, b} then w else root_of par k)"
    if k: "k < length par" for k
  proof -
    have "rep par k q \<longleftrightarrow> q = root_of par k" for q by (rule rep_root_of [OF u(1) k])
    moreover have "rep par' k q \<longleftrightarrow> q = root_of par' k" for q
      by (rule rep_root_of [OF inv'(1)]) (simp add: k inv'(2))
    ultimately show ?thesis using rep' [of k "root_of par' k"] by simp
  qed
  with un inv' show ?thesis by blast
qed

interpretation uf: partition_structure
  "\<lambda>d. length (fst d)" "\<lambda>d. uf_invar (fst d) (snd d)" "\<lambda>d. root_of (fst d)" uf_init
  "\<lambda>d i j. uncontrolled (union (fst d) (snd d) i j)"
  "\<lambda>d i. bind_o (uncontrolled (find_root (find_fuel (fst d)) (fst d) i))
            (\<lambda>(r, par). Ok (r, (par, snd d)))"
proof unfold_locales
  fix n assume n: "n \<le> u64_max"
  have "root_of [0..<n] i = i" if "i < n" for i
    using that rep_root_of [OF uf_invar_init [OF n], of i i] by (simp add: rep_root)
  with uf_invar_init [OF n]
  show "uf_invar (fst (uf_init n)) (snd (uf_init n)) \<and> length (fst (uf_init n)) = n \<and>
      (\<forall>i<n. root_of (fst (uf_init n)) i = i)" by (simp add: uf_init_def)
next
  fix d i j
  assume inv: "uf_invar (fst d) (snd d)" and ij: "i < length (fst d)" "j < length (fst d)"
  let ?a = "root_of (fst d) i" and ?b = "root_of (fst d) j"
  obtain par' sz' where "uncontrolled (union (fst d) (snd d) i j) = Ok (par', sz')"
      "uf_invar par' sz'" "length par' = length (fst d)"
    and r: "\<forall>k < length (fst d). root_of par' k = (if root_of (fst d) k \<in> {?a, ?b} then
      (if snd d ! ?a > snd d ! ?b \<or> snd d ! ?a = snd d ! ?b \<and> ?a < ?b then ?a else ?b)
      else root_of (fst d) k)"
    using root_of_union [OF inv ij] by blast
  moreover have "(if snd d ! ?a > snd d ! ?b \<or> snd d ! ?a = snd d ! ?b \<and> ?a < ?b then ?a else ?b)
      \<in> {?a, ?b}" by simp
  ultimately show "\<exists>d'. uncontrolled (union (fst d) (snd d) i j) = Ok d' \<and>
      uf_invar (fst d') (snd d') \<and> length (fst d') = length (fst d) \<and>
      (\<exists>w \<in> {root_of (fst d) i, root_of (fst d) j}. \<forall>k < length (fst d).
         root_of (fst d') k = (if root_of (fst d) k \<in> {root_of (fst d) i, root_of (fst d) j}
                               then w else root_of (fst d) k))"
    by (intro exI [of _ "(par', sz')"] conjI bexI) simp_all
next
  fix d i assume inv: "uf_invar (fst d) (snd d)" and i: "i < length (fst d)"
  from find_root_uf [OF inv i] obtain r par'
    where f: "uncontrolled (find_root (find_fuel (fst d)) (fst d) i) = Ok (r, par')"
      and r: "rep (fst d) i r" and p: "uf_invar par' (snd d)" "length par' = length (fst d)"
      and eq: "\<And>j q. rep par' j q \<longleftrightarrow> rep (fst d) j q" by metis
  have "root_of par' k = root_of (fst d) k" if "k < length (fst d)" for k
    using rep_root_of [OF inv that] rep_root_of [OF p(1), of k] eq p(2) that by simp
  with f r p rep_root_of [OF inv i]
  show "\<exists>d'. bind_o (uncontrolled (find_root (find_fuel (fst d)) (fst d) i))
        (\<lambda>(r, par). Ok (r, (par, snd d))) = Ok (root_of (fst d) i, d') \<and>
      uf_invar (fst d') (snd d') \<and> length (fst d') = length (fst d) \<and>
      (\<forall>k < length (fst d). root_of (fst d') k = root_of (fst d) k)" by auto
next
  fix d i assume inv: "uf_invar (fst d) (snd d)" and i: "i < length (fst d)"
  from rep_root_of [OF inv i] have "rep (fst d) i (root_of (fst d) i)" by simp
  from rep_end [OF this] show "root_of (fst d) i < length (fst d) \<and>
      root_of (fst d) (root_of (fst d) i) = root_of (fst d) i"
    using rep_root_of [OF inv] rep_root by metis
qed

subsection \<open>Properties\<close>

text \<open>Uniting the pairs of a list on fresh arrays of \<open>n\<close> nodes, as the analysis does.\<close>

definition unite_all ::
    "nat \<Rightarrow> (usize \<times> usize) list
       \<Rightarrow> (planning_preparation_error, usize list \<times> usize list) outcome" where
  "unite_all n es =
     each_o (\<lambda>e d. uncontrolled (union (fst d) (snd d) (fst e) (snd e))) es (uf_init n)"

lemma unite_all_uf:
  assumes "n \<le> u64_max" and "\<forall>(i, j) \<in> set es. i < n \<and> j < n"
  shows "\<exists>par sz. unite_all n es = Ok (par, sz) \<and> uf_invar par sz \<and> length par = n \<and>
    uf.same (par, sz) \<union> Id = (set es \<union> (set es)\<inverse>)\<^sup>*"
proof -
  note init = uf.discrete [OF assms(1)]
  have "\<And>e. e \<in> set es \<Longrightarrow> fst e < length (fst (uf_init n)) \<and> snd e < length (fst (uf_init n))"
    using assms(2) init by auto
  from uf.join_loop [of "uf_init n" es fst snd, OF _ this] init obtain d
    where d: "unite_all n es = Ok d" "uf_invar (fst d) (snd d)" "length (fst d) = n"
      and s: "uf.same d \<union> Id = (uf.same (uf_init n) \<union>
        (\<Union>x \<in> set es. {(fst x, snd x), (snd x, fst x)}))\<^sup>*"
    by (auto simp: unite_all_def)
  have e: "(\<Union>x \<in> set es. {(fst x, snd x), (snd x, fst x)}) = set es \<union> (set es)\<inverse>" by force
  have i: "uf.same (uf_init n) \<subseteq> Id" by (rule uf.same_discrete [OF assms(1)])
  have "(uf.same (uf_init n) \<union> (set es \<union> (set es)\<inverse>))\<^sup>* = (set es \<union> (set es)\<inverse>)\<^sup>*"
  proof
    have "uf.same (uf_init n) \<union> (set es \<union> (set es)\<inverse>) \<subseteq> (set es \<union> (set es)\<inverse>)\<^sup>*" using i by auto
    then show "(uf.same (uf_init n) \<union> (set es \<union> (set es)\<inverse>))\<^sup>* \<subseteq> (set es \<union> (set es)\<inverse>)\<^sup>*"
      by (rule rtrancl_subset_rtrancl)
  qed (auto intro: rtrancl_mono [THEN subsetD])
  with d s e show ?thesis by (cases d) auto
qed

text \<open>
  C10: Uniting any list of pairs of in-range nodes on fresh arrays neither panics nor overflows,
  and afterwards two nodes have the same root exactly if the pairs connect them, the root being where
  the parents of a node lead and what \<open>find_root\<close> returns for it.
\<close>

theorem union_find_connectivity:
  assumes "n \<le> u64_max" and "\<forall>(i, j) \<in> set es. i < n \<and> j < n"
  shows "\<exists>par sz. unite_all n es = Ok (par, sz) \<and>
    (\<forall>a < n. \<forall>b < n. root_of par a = root_of par b \<longleftrightarrow> (a, b) \<in> (set es \<union> (set es)\<inverse>)\<^sup>*) \<and>
    (\<forall>a < n. \<exists>par'. uncontrolled (find_root (find_fuel par) par a) = Ok (root_of par a, par'))"
proof -
  from unite_all_uf [OF assms] obtain par sz where u: "unite_all n es = Ok (par, sz)" and i: "uf_invar par sz"
    and len: "length par = n" and s: "uf.same (par, sz) \<union> Id = (set es \<union> (set es)\<inverse>)\<^sup>*" by blast
  have "root_of par a = root_of par b \<longleftrightarrow> (a, b) \<in> uf.same (par, sz) \<union> Id" if "a < n" "b < n" for a b
    using that len by (auto simp: uf.same_def)
  moreover have "\<exists>par'. uncontrolled (find_root (find_fuel par) par a) = Ok (root_of par a, par')" if "a < n" for a
    using find_root_uf [OF i, of a] rep_root_of [OF i, of a] that len by metis
  ultimately show ?thesis using u s by simp
qed

theorem union_find_connectivity_witness:
  "\<exists>par sz. unite_all 5 [(0, 1), (2, 3), (3, 1)] = Ok (par, sz) \<and> root_of par 2 = root_of par 0"
proof -
  have "(2, 0) \<in> (set [(0, 1), (2, 3), (3, 1)] \<union> (set [(0, 1), (2, 3), (3, 1 :: nat)])\<inverse>)\<^sup>*"
  proof -
    let ?E = "set [(0, 1), (2, 3), (3, 1)] \<union> (set [(0, 1), (2, 3), (3, 1 :: nat)])\<inverse>"
    have "(2, 3) \<in> ?E" "(3, 1) \<in> ?E" "(1, 0) \<in> ?E" by auto
    then show ?thesis by (meson converse_rtrancl_into_rtrancl rtrancl.rtrancl_refl)
  qed
  moreover have "(5::nat) \<le> u64_max" by (simp add: u64_max_def)
  moreover have "\<forall>(i, j) \<in> set [(0, 1), (2, 3), (3, 1)]. i < (5::nat) \<and> j < (5::nat)" by simp
  moreover have "(2::nat) < 5" "(0::nat) < 5" by simp_all
  ultimately show ?thesis using union_find_connectivity [of 5 "[(0, 1), (2, 3), (3, 1)]"] by blast
qed

text \<open>
  C37: The depth bound claimed above \<open>union\<close>: after any unions of \<open>n\<close> nodes the path from a node
  over its parents to its root has a length \<open>d\<close> with \<open>2 ^ d \<le> n\<close>; the search from the node
  returns that root and charges \<open>\<lceil>d / 2\<rceil>\<close> visits.
\<close>

theorem find_root_logarithmic:
  assumes "n \<le> u64_max" and "\<forall>(i, j) \<in> set es. i < n \<and> j < n"
    and "unite_all n es = Ok (par, sz)" and "i < n"
  shows "\<exists>d r. root_path par i d r \<and> 2 ^ d \<le> n \<and>
    (\<exists>par'. uncontrolled (find_root (find_fuel par) par i) = Ok (r, par')) \<and>
    (\<forall>b x b'. controlled (find_root (find_fuel par) par i) b = (Ok x, b') \<longrightarrow>
       fst x = r \<and> work b' = work b + (d + 1) div 2)"
proof -
  from unite_all_uf [OF assms(1,2)] assms(3) have u: "uf_invar par sz" and len: "length par = n"
    by auto
  then have f: "forest par sz" by (simp add: uf_invar_def)
  have i: "i < length par" using assms(4) len by simp
  from path_exists [OF f i] obtain d r where p: "root_path par i d r" by blast
  from find_root_uf [OF u i] obtain par' where
      r: "uncontrolled (find_root (find_fuel par) par i) = Ok (r, par')"
    using p rep_unique rep_def by metis
  have "fst x = r \<and> work b' = work b + (d + 1) div 2"
    if "controlled (find_root (find_fuel par) par i) b = (Ok x, b')" for b x b'
    using find_root_visits [OF f p that] agreesD [OF agrees_find_root that] r by auto
  with p r depth_bound [OF u p] len show ?thesis by blast
qed

theorem find_root_logarithmic_witness:
  "unite_all 4 [(0, 1), (2, 3), (0, 2)] = Ok ([0, 0, 0, 2], [4, 1, 2, 1]) \<and>
   root_path [0, 0, 0, 2] 3 2 0 \<and> 2 ^ 2 \<le> (4::nat) \<and>
   work (snd (controlled (find_root (find_fuel [0, 0, 0, 2]) [0, 0, 0, 2] 3)
                (budget_uncontrolled default_limits))) = 1"
proof -
  let ?f = "controlled (find_root (find_fuel [0, 0, 0, 2]) [0, 0, 0, 2] 3)
    (budget_uncontrolled default_limits)"
  have r: "unite_all 4 [(0, 1), (2, 3), (0, 2)] = Ok ([0, 0, 0, 2], [4, 1, 2, 1])"
    by code_simp
  have "fst ?f = Ok (0, [0, 0, 0, 0])" by code_simp
  then have f: "?f = (Ok (0, [0, 0, 0, 0]), snd ?f)" by (simp only: prod_eq_iff fst_conv snd_conv)
  have w: "work (budget_uncontrolled default_limits) = 0"
    by (simp add: budget_uncontrolled_def budget_new_def)
  have n: "(4::nat) \<le> u64_max" by (simp add: u64_max_def)
  have e: "\<forall>(i, j) \<in> set [(0, 1), (2, 3), (0, 2)]. i < (4::nat) \<and> j < (4::nat)" by simp
  have "(3::nat) < 4" by simp
  from find_root_logarithmic [OF n e r this] obtain d q where p: "root_path [0, 0, 0, 2] 3 d q"
    and v: "\<And>b x b'. controlled (find_root (find_fuel [0, 0, 0, 2]) [0, 0, 0, 2] 3) b = (Ok x, b')
      \<Longrightarrow> work b' = work b + (d + 1) div 2"
    by blast
  have "root_path [0, 0, 0, 2] 0 0 0" by (simp add: path_root)
  then have "root_path [0, 0, 0, 2] 2 (Suc 0) 0" by (simp add: path_step)
  then have two: "root_path [0, 0, 0, 2] 3 2 0" by (simp add: path_step numeral_2_eq_2)
  then have "d = 2" using path_unique p by blast
  with v [OF f] w two r show ?thesis by simp
qed

end
