(* ===== verification/Components.thy ===== *)
theory Components
  imports Planning_Model Planning_Ids Union_Find
begin

section \<open>Mathematical components\<close>

text \<open>
  The component analysis of \<open>crates/eutheto-planning-ir/src/analysis.rs\<close>: the variables a
  problem declares are nodes; interval structure, constraints, objective levels, projections and
  assumptions are hyperedges; the components are the classes the hyperedges connect. Reservations
  follow the lifetimes of the source, so that every early return gives back what is alive. BLAKE3
  is not part of the sources; it is the parameter \<open>blake3\<close>, a function from the bytes fed to the
  hasher to the hexadecimal digest.
\<close>

subsection \<open>Nodes\<close>

datatype variable_node =
    NBool bool_variable_id
  | NInt int_variable_id
  | NInterval interval_variable_id

fun node_rank :: "variable_node \<Rightarrow> nat" where
  "node_rank (NBool _) = 0"
| "node_rank (NInt _) = 1"
| "node_rank (NInterval _) = 2"

fun node_id :: "variable_node \<Rightarrow> string" where
  "node_id (NBool v) = v"
| "node_id (NInt v) = v"
| "node_id (NInterval v) = v"

instantiation variable_node :: linorder
begin

definition less_eq_variable_node :: "variable_node \<Rightarrow> variable_node \<Rightarrow> bool" where
  "less_eq_variable_node a b \<longleftrightarrow>
     node_rank a < node_rank b \<or> node_rank a = node_rank b \<and> node_id a \<le> node_id b"

definition less_variable_node :: "variable_node \<Rightarrow> variable_node \<Rightarrow> bool" where
  "less_variable_node a b \<longleftrightarrow>
     node_rank a < node_rank b \<or> node_rank a = node_rank b \<and> node_id a < node_id b"

instance
proof
  fix a b :: variable_node
  assume "a \<le> b" "b \<le> a"
  then have "node_rank a = node_rank b" "node_id a = node_id b"
    by (auto simp: less_eq_variable_node_def)
  then show "a = b" by (cases a; cases b) auto
qed (auto simp: less_eq_variable_node_def less_variable_node_def)

end

fun encoded :: "variable_node \<Rightarrow> string" where
  "encoded (NBool v) = ''bool:'' @ v"
| "encoded (NInt v) = ''int:'' @ v"
| "encoded (NInterval v) = ''interval:'' @ v"

fun node_of :: "variable \<Rightarrow> variable_node" where
  "node_of (VBoolean v) = NBool (bool_id v)"
| "node_of (VInteger v) = NInt (int_id v)"
| "node_of (VInterval v) = NInterval (interval_id v)"

record mathematical_component =
  component_id :: string
  variable_nodes :: "string list"

record component_analysis =
  components :: "mathematical_component list"
  edge_count :: u64
  component_hash :: string

record budgeted_component_analysis =
  analysis :: component_analysis
  reservation :: "transient_reservation option"

subsection \<open>Declared nodes\<close>

definition declared_scratch :: "variable list \<Rightarrow> (planning_preparation_error, u64) prep" where
  "declared_scratch vs =
     each_p (\<lambda>v scratch.
       then_p visit
         (bind_p (lift_o (ok_or PrepArithmeticOverflow (u64_checked_add (length (canonical_id v)) 128)))
           (\<lambda>n. lift_o (ok_or PrepArithmeticOverflow (u64_checked_add scratch n)))))
       vs 4096"

definition declared_nodes ::
    "planning_problem
       \<Rightarrow> (planning_preparation_error, transient_reservation option \<times> variable_node list) prep" where
  "declared_nodes problem =
     bind_p (reserving
       (bind_p (declared_scratch (variables problem)) (\<lambda>scratch.
        then_p (if_budget (reserve_work (length (variables problem)))) (reserve_owned scratch))))
       (\<lambda>reservation. ret (reservation, sort_dedup (map node_of (variables problem))))"

subsection \<open>Hyperedges\<close>

text \<open>\<open>nodes.push\<close> after a visit, for each of some nodes.\<close>

definition push_each ::
    "variable_node list \<Rightarrow> variable_node list \<Rightarrow> (planning_preparation_error, variable_node list) prep"
  where
  "push_each new nodes = each_p (\<lambda>n nodes. then_p visit (ret (nodes @ [n]))) new nodes"

definition expression_nodes :: "linear_expression \<Rightarrow> variable_node list" where
  "expression_nodes e = map (\<lambda>t. NInt (term_variable t)) (expr_terms e)"

fun projection_nodes :: "projection_expression \<Rightarrow> variable_node list" where
  "projection_nodes (EBoolean v) = [NBool v]"
| "projection_nodes (EInteger v) = [NInt v]"
| "projection_nodes (ELinear e) = expression_nodes e"
| "projection_nodes (EInterval v) = [NInterval v]"
| "projection_nodes (EConstant _) = []"

definition literal_node :: "literal \<Rightarrow> variable_node" where
  "literal_node l = NBool (lit_variable l)"

fun constraint_nodes :: "constraint \<Rightarrow> variable_node list" where
  "constraint_nodes (BoolOr literals) = map literal_node literals"
| "constraint_nodes (BoolAnd literals) = map literal_node literals"
| "constraint_nodes (AtMostOne literals) = map literal_node literals"
| "constraint_nodes (ExactlyOne literals) = map literal_node literals"
| "constraint_nodes (CardinalityRange literals _ _) = map literal_node literals"
| "constraint_nodes (Implication a c) = [literal_node a, literal_node c]"
| "constraint_nodes (Equivalence l r) = [literal_node l, literal_node r]"
| "constraint_nodes (LinearComparison c) = expression_nodes (comparison_expression c)"
| "constraint_nodes (ReifiedLinearComparison l c) =
     expression_nodes (comparison_expression c) @ [literal_node l]"
| "constraint_nodes (AllDifferent vs) = map NInt vs"
| "constraint_nodes (AllowedTable vs _) = map NInt vs"
| "constraint_nodes (ForbiddenTable vs _) = map NInt vs"
| "constraint_nodes (Min target inputs) = NInt target # map NInt inputs"
| "constraint_nodes (Max target inputs) = NInt target # map NInt inputs"
| "constraint_nodes (Element index _ target) = [NInt index, NInt target]"
| "constraint_nodes (Equality l r) = [NInt l, NInt r]"
| "constraint_nodes (AbsDifference t l r) = [NInt t, NInt l, NInt r]"
| "constraint_nodes (NoOverlap intervals) = map NInterval intervals"
| "constraint_nodes (Cumulative intervals _ _) = map NInterval intervals"

fun constraint_nodes_into_with_budget ::
    "constraint \<Rightarrow> variable_node list \<Rightarrow> (planning_preparation_error, variable_node list) prep" where
  "constraint_nodes_into_with_budget (BoolOr literals) nodes =
     push_each (map literal_node literals) nodes"
| "constraint_nodes_into_with_budget (BoolAnd literals) nodes =
     push_each (map literal_node literals) nodes"
| "constraint_nodes_into_with_budget (AtMostOne literals) nodes =
     push_each (map literal_node literals) nodes"
| "constraint_nodes_into_with_budget (ExactlyOne literals) nodes =
     push_each (map literal_node literals) nodes"
| "constraint_nodes_into_with_budget (CardinalityRange literals _ _) nodes =
     push_each (map literal_node literals) nodes"
| "constraint_nodes_into_with_budget (Implication a c) nodes =
     push_each (map literal_node [a, c]) nodes"
| "constraint_nodes_into_with_budget (Equivalence l r) nodes =
     push_each (map literal_node [l, r]) nodes"
| "constraint_nodes_into_with_budget (LinearComparison c) nodes =
     push_each (map (\<lambda>t. NInt (term_variable t)) (expr_terms (comparison_expression c))) nodes"
| "constraint_nodes_into_with_budget (ReifiedLinearComparison l c) nodes =
     bind_p (push_each (map (\<lambda>t. NInt (term_variable t)) (expr_terms (comparison_expression c))) nodes)
       (push_each [literal_node l])"
| "constraint_nodes_into_with_budget (AllDifferent vs) nodes = push_each (map NInt vs) nodes"
| "constraint_nodes_into_with_budget (AllowedTable vs _) nodes = push_each (map NInt vs) nodes"
| "constraint_nodes_into_with_budget (ForbiddenTable vs _) nodes = push_each (map NInt vs) nodes"
| "constraint_nodes_into_with_budget (Min target inputs) nodes =
     bind_p (push_each [NInt target] nodes) (push_each (map NInt inputs))"
| "constraint_nodes_into_with_budget (Max target inputs) nodes =
     bind_p (push_each [NInt target] nodes) (push_each (map NInt inputs))"
| "constraint_nodes_into_with_budget (Element index _ target) nodes =
     push_each (map NInt [index, target]) nodes"
| "constraint_nodes_into_with_budget (Equality l r) nodes = push_each (map NInt [l, r]) nodes"
| "constraint_nodes_into_with_budget (AbsDifference t l r) nodes =
     push_each (map NInt [t, l, r]) nodes"
| "constraint_nodes_into_with_budget (NoOverlap intervals) nodes =
     push_each (map NInterval intervals) nodes"
| "constraint_nodes_into_with_budget (Cumulative intervals _ _) nodes =
     push_each (map NInterval intervals) nodes"

definition projection_nodes_with_budget ::
    "projection_expression \<Rightarrow> (planning_preparation_error, variable_node list) prep" where
  "projection_nodes_with_budget e =
     then_p (check_each (\<lambda>_. visit) (projection_nodes e)) (ret (projection_nodes e))"

fun constraint_node_capacity :: "constraint \<Rightarrow> (planning_preparation_error, usize) outcome" where
  "constraint_node_capacity (BoolOr literals) = Ok (length literals)"
| "constraint_node_capacity (BoolAnd literals) = Ok (length literals)"
| "constraint_node_capacity (AtMostOne literals) = Ok (length literals)"
| "constraint_node_capacity (ExactlyOne literals) = Ok (length literals)"
| "constraint_node_capacity (CardinalityRange literals _ _) = Ok (length literals)"
| "constraint_node_capacity (Implication _ _) = Ok 2"
| "constraint_node_capacity (Equivalence _ _) = Ok 2"
| "constraint_node_capacity (Element _ _ _) = Ok 2"
| "constraint_node_capacity (Equality _ _) = Ok 2"
| "constraint_node_capacity (LinearComparison c) =
     Ok (length (expr_terms (comparison_expression c)))"
| "constraint_node_capacity (ReifiedLinearComparison _ c) =
     ok_or PrepArithmeticOverflow
       (u64_checked_add (length (expr_terms (comparison_expression c))) 1)"
| "constraint_node_capacity (AllDifferent vs) = Ok (length vs)"
| "constraint_node_capacity (AllowedTable vs _) = Ok (length vs)"
| "constraint_node_capacity (ForbiddenTable vs _) = Ok (length vs)"
| "constraint_node_capacity (Min _ inputs) =
     ok_or PrepArithmeticOverflow (u64_checked_add (length inputs) 1)"
| "constraint_node_capacity (Max _ inputs) =
     ok_or PrepArithmeticOverflow (u64_checked_add (length inputs) 1)"
| "constraint_node_capacity (AbsDifference _ _ _) = Ok 3"
| "constraint_node_capacity (NoOverlap intervals) = Ok (length intervals)"
| "constraint_node_capacity (Cumulative intervals _ _) = Ok (length intervals)"

fun projection_node_capacity :: "projection_expression \<Rightarrow> usize" where
  "projection_node_capacity (EBoolean _) = 1"
| "projection_node_capacity (EInteger _) = 1"
| "projection_node_capacity (EInterval _) = 1"
| "projection_node_capacity (ELinear e) = length (expr_terms e)"
| "projection_node_capacity (EConstant _) = 0"

definition edge_scratch_bytes :: "usize \<Rightarrow> (planning_preparation_error, u64) outcome" where
  "edge_scratch_bytes edge_len =
     ok_or PrepArithmeticOverflow
       (Option.bind (u64_checked_mul edge_len 192) (\<lambda>v. u64_checked_add v 1024))"

definition reserve_edge ::
    "(planning_preparation_error, usize) prep
       \<Rightarrow> (planning_preparation_error, transient_reservation option) prep" where
  "reserve_edge capacity =
     reserving (bind_p capacity (\<lambda>edge_len.
       bind_p (lift_o (edge_scratch_bytes edge_len)) (\<lambda>scratch.
       then_p (if_budget (reserve_work edge_len)) (reserve_owned scratch))))"

text \<open>The mutable locals of the loops: the two slices of the union-find and the edge counter.\<close>

type_synonym edge_state = "(usize list \<times> usize list) \<times> u64"

definition count_edge :: "u64 \<Rightarrow> (planning_preparation_error, u64) prep" where
  "count_edge n =
     branch_p (lift_o (ok_or PrepArithmeticOverflow (u64_checked_add n 1)))
       (ret (u64_saturating_add n 1))"

definition edge_positions ::
    "(variable_node, usize) btree_map \<Rightarrow> variable_node list \<Rightarrow> usize list" where
  "edge_positions indexes edge = List.map_filter (bt_get indexes) (sort_dedup edge)"

definition union_edge ::
    "variable_node list \<Rightarrow> (variable_node, usize) btree_map \<Rightarrow> edge_state
       \<Rightarrow> (planning_preparation_error, edge_state) prep" where
  "union_edge edge indexes st =
     bind_p (reserve_edge (ret (length edge))) (\<lambda>unique_scratch.
       bracket unique_scratch
         (case edge_positions indexes edge of
            [] \<Rightarrow> ret st
          | first # positions \<Rightarrow>
              each_p (\<lambda>position (d, n).
                bind_p (union (fst d) (snd d) first position) (\<lambda>d.
                bind_p (count_edge n) (\<lambda>n. ret (d, n)))) positions st))"

text \<open>One loop body per kind of hyperedge: visit, reserve, collect, unite, drop.\<close>

definition with_edge ::
    "(planning_preparation_error, usize) prep
       \<Rightarrow> (planning_preparation_error, variable_node list) prep
       \<Rightarrow> (variable_node, usize) btree_map \<Rightarrow> edge_state
       \<Rightarrow> (planning_preparation_error, edge_state) prep" where
  "with_edge capacity edge indexes st =
     bind_p (reserve_edge capacity) (\<lambda>edge_reservation.
       bracket edge_reservation (bind_p edge (\<lambda>edge. union_edge edge indexes st)))"

definition interval_nodes :: "interval_variable \<Rightarrow> variable_node list" where
  "interval_nodes i =
     [NInterval (interval_id i), NInt (interval_start i), NInt (interval_duration i),
      NInt (interval_end i)] @
     (case interval_presence i of None \<Rightarrow> [] | Some l \<Rightarrow> [NBool (lit_variable l)])"

fun unite_variable ::
    "(variable_node, usize) btree_map \<Rightarrow> variable \<Rightarrow> edge_state
       \<Rightarrow> (planning_preparation_error, edge_state) prep" where
  "unite_variable indexes (VInterval i) st =
     then_p visit
       (with_edge (ret (if interval_presence i = None then 4 else 5))
         (branch_p (push_each (interval_nodes i) []) (ret (interval_nodes i))) indexes st)"
| "unite_variable indexes (VBoolean _) st = then_p visit (ret st)"
| "unite_variable indexes (VInteger _) st = then_p visit (ret st)"

text \<open>
  For a constraint and for a level the capacity is computed before the reservation, where there
  is a budget; an overflow there is an error of the analysis.
\<close>

definition unite_record ::
    "(variable_node, usize) btree_map \<Rightarrow> constraint_record \<Rightarrow> edge_state
       \<Rightarrow> (planning_preparation_error, edge_state) prep" where
  "unite_record indexes record st =
     then_p visit
       (with_edge
         (bind_p (lift_o (constraint_node_capacity (body record))) (\<lambda>n.
            lift_o (ok_or PrepArithmeticOverflow (u64_checked_add n (length (enforcement record))))))
         (bind_p (branch_p (constraint_nodes_into_with_budget (body record) [])
                    (ret (constraint_nodes (body record))))
            (push_each (map literal_node (enforcement record)))) indexes st)"

definition level_capacity :: "objective_term list \<Rightarrow> (planning_preparation_error, usize) prep" where
  "level_capacity ts =
     each_p (\<lambda>t edge_len. then_p visit
       (lift_o (ok_or PrepArithmeticOverflow
          (u64_checked_add edge_len (length (expr_terms (objective_expression t))))))) ts 0"

definition level_edge :: "objective_term list \<Rightarrow> (planning_preparation_error, variable_node list) prep" where
  "level_edge ts =
     each_p (\<lambda>t edge. then_p visit
       (branch_p
         (push_each (map (\<lambda>t. NInt (term_variable t)) (expr_terms (objective_expression t))) edge)
         (ret (edge @ expression_nodes (objective_expression t))))) ts []"

definition unite_level ::
    "(variable_node, usize) btree_map \<Rightarrow> objective_level \<Rightarrow> edge_state
       \<Rightarrow> (planning_preparation_error, edge_state) prep" where
  "unite_level indexes level st =
     then_p visit
       (with_edge (level_capacity (level_terms level)) (level_edge (level_terms level)) indexes st)"

definition unite_projection ::
    "(variable_node, usize) btree_map \<Rightarrow> solution_projection \<Rightarrow> edge_state
       \<Rightarrow> (planning_preparation_error, edge_state) prep" where
  "unite_projection indexes projection st =
     then_p visit
       (with_edge (ret (projection_node_capacity (projection_expression projection)))
         (projection_nodes_with_budget (projection_expression projection)) indexes st)"

definition unite_assumption ::
    "(variable_node, usize) btree_map \<Rightarrow> assumption \<Rightarrow> edge_state
       \<Rightarrow> (planning_preparation_error, edge_state) prep" where
  "unite_assumption indexes a st =
     then_p visit
       (with_edge (ret 1) (ret [NBool (lit_variable (assumption_literal a))]) indexes st)"

definition unite_problem ::
    "planning_problem \<Rightarrow> (variable_node, usize) btree_map \<Rightarrow> edge_state
       \<Rightarrow> (planning_preparation_error, edge_state) prep" where
  "unite_problem problem indexes st =
     bind_p (each_p (unite_variable indexes) (variables problem) st) (\<lambda>st.
     bind_p (each_p (unite_record indexes) (constraints problem) st) (\<lambda>st.
     bind_p (each_p (unite_level indexes) (levels (objectives problem)) st) (\<lambda>st.
     bind_p (each_p (unite_projection indexes) (projections problem) st) (\<lambda>st.
     each_p (unite_assumption indexes) (assumptions problem) st))))"

subsection \<open>Hashing\<close>

definition le_bytes :: "u64 \<Rightarrow> string" where
  "le_bytes n = map (\<lambda>i. char_of (n div 256 ^ i mod 256)) [0..<8]"

definition hash_components ::
    "(string \<Rightarrow> string) \<Rightarrow> mathematical_component list \<Rightarrow> u64
       \<Rightarrow> (planning_preparation_error, string) prep" where
  "hash_components blake3 cs n =
     bind_p (reserving (reserve_owned 4096)) (\<lambda>hash_reservation.
       bracket hash_reservation
         (bind_p (each_p (\<lambda>c hasher.
            then_p visit
              (each_p (\<lambda>node hasher.
                 then_p visit (ret (hasher @ le_bytes (length node) @ node)))
               (variable_nodes c) (hasher @ le_bytes (length (variable_nodes c)))))
            cs (le_bytes n)) (\<lambda>hasher. ret (blake3 hasher))))"

subsection \<open>The analysis\<close>

definition node_indexes :: "variable_node list \<Rightarrow> (variable_node, usize) btree_map" where
  "node_indexes ordered = bt_collect (map (\<lambda>(i, node). (node, i)) (enumerate 0 ordered))"

definition index_reservation ::
    "u64 \<Rightarrow> (planning_preparation_error, transient_reservation option) prep" where
  "index_reservation node_count =
     reserving (bind_p (lift_o (ok_or PrepArithmeticOverflow
         (Option.bind (u64_checked_mul node_count 192) (\<lambda>v. u64_checked_add v 4096)))) (\<lambda>scratch.
       then_p (if_budget (reserve_work node_count)) (reserve_owned scratch)))"

definition parent_reservation ::
    "u64 \<Rightarrow> (planning_preparation_error, transient_reservation option) prep" where
  "parent_reservation node_count =
     reserving (bind_p (lift_o (ok_or PrepArithmeticOverflow
         (Option.bind (u64_checked_mul node_count 8) (\<lambda>v.
          Option.bind (u64_checked_mul v 2) (\<lambda>v. u64_checked_add v 4096))))) (\<lambda>scratch.
       bind_p (lift_o (ok_or PrepArithmeticOverflow (u64_checked_mul node_count 2))) (\<lambda>amount.
       then_p (if_budget (reserve_work amount)) (reserve_owned scratch))))"

text \<open>
  The two reservations before grouping. Both sizes are computed and the work is charged before the
  first is taken; the second is taken while the first is alive.
\<close>

definition output_reservation ::
    "u64 \<Rightarrow> (planning_preparation_error, transient_reservation option) prep" where
  "output_reservation node_count =
     reserving (bind_p (lift_o (ok_or PrepArithmeticOverflow
         (Option.bind (u64_checked_mul node_count 512) (\<lambda>v. u64_checked_add v 8192)))) (\<lambda>output.
       bind_p (lift_o (ok_or PrepArithmeticOverflow
         (Option.bind (u64_checked_mul node_count 128) (\<lambda>v. u64_checked_add v 4096)))) (\<lambda>_.
       then_p (if_budget (reserve_work node_count)) (reserve_owned output))))"

definition grouping_reservation ::
    "u64 \<Rightarrow> (planning_preparation_error, transient_reservation option) prep" where
  "grouping_reservation node_count =
     reserving (bind_p (lift_o (ok_or PrepArithmeticOverflow
         (Option.bind (u64_checked_mul node_count 128) (\<lambda>v. u64_checked_add v 4096)))) (\<lambda>grouping.
       reserve_owned grouping))"

definition group_nodes ::
    "variable_node list \<Rightarrow> usize list
       \<Rightarrow> (planning_preparation_error, (usize, string list) btree_map) prep" where
  "group_nodes ordered par =
     bind_p (each_p (\<lambda>(index, node) (par, grouped).
         then_p visit
           (bind_p (find_root (find_fuel par) par index) (\<lambda>(root, par).
              ret (par, bt_push root (encoded node) grouped))))
       (enumerate 0 ordered) (par, [])) (\<lambda>(par, grouped). ret grouped)"

definition sort_groups ::
    "(usize, string list) btree_map \<Rightarrow> (planning_preparation_error, string list list) prep" where
  "sort_groups grouped =
     bind_p (each_p (\<lambda>group groups. then_p visit (ret (groups @ [sort group])))
               (map snd grouped) []) (\<lambda>raw_groups.
     then_p (if_budget (reserve_work (length raw_groups))) (ret (sort raw_groups)))"

definition name_components :: "string list list \<Rightarrow> mathematical_component list" where
  "name_components groups =
     List.map_filter (\<lambda>(index, nodes).
       map_option (\<lambda>v. \<lparr>component_id = v, variable_nodes = nodes\<rparr>)
         (planning_id_new (''component.c'' @ show_nat index)))
       (enumerate 0 groups)"

definition analyze_components_inner ::
    "(string \<Rightarrow> string) \<Rightarrow> planning_problem
       \<Rightarrow> (planning_preparation_error, budgeted_component_analysis) prep" where
  "analyze_components_inner blake3 problem =
     then_p visit
     (bind_p (declared_nodes problem) (\<lambda>(declared, ordered).
      bind_p (holding [declared] (index_reservation (length ordered))) (\<lambda>index.
      bind_p (holding [declared, index] (parent_reservation (length ordered))) (\<lambda>parents.
      bind_p (holding [declared, index, parents]
                (unite_problem problem (node_indexes ordered)
                   (([0..<length ordered], replicate (length ordered) 1), 0))) (\<lambda>(d, edges).
      then_p (drop_owned index)
     (bind_p (holding [declared, parents] (output_reservation (length ordered))) (\<lambda>output.
      bind_p (holding [declared, parents, output] (grouping_reservation (length ordered)))
                (\<lambda>grouping.
      bind_p (holding [declared, parents, output, grouping] (group_nodes ordered (fst d)))
                (\<lambda>grouped.
      then_p (drop_owned parents)
     (then_p (drop_owned declared)
     (bind_p (holding [output, grouping] (sort_groups grouped)) (\<lambda>groups.
      then_p (drop_owned grouping)
     (bind_p (holding [output]
                (then_p visit (hash_components blake3 (name_components groups) edges))) (\<lambda>hash.
      ret \<lparr>analysis = \<lparr>components = name_components groups, edge_count = edges,
             component_hash = hash\<rparr>, reservation = output\<rparr>))))))))))))))"

definition analyze_components ::
    "(string \<Rightarrow> string) \<Rightarrow> planning_problem
       \<Rightarrow> (planning_preparation_error, component_analysis) outcome" where
  "analyze_components blake3 problem =
     (case uncontrolled (analyze_components_inner blake3 problem) of
        Ok r \<Rightarrow> Ok (analysis r) | _ \<Rightarrow> Abort)"

definition analyze_components_with_budget ::
    "(string \<Rightarrow> string) \<Rightarrow> planning_problem \<Rightarrow> budgeted_component_analysis charged" where
  "analyze_components_with_budget blake3 problem =
     controlled (analyze_components_inner blake3 problem)"

end
