(* ===== verification/Component_Budget.thy ===== *)
theory Component_Budget
  imports Components
begin

section \<open>The component analysis under a budget\<close>

text \<open>
  What the component analysis does with a preparation budget: the same result as without one, every
  reservation given back except the one the result owns.
\<close>

subsection \<open>Collecting nodes\<close>

lemma uncontrolled_push_each [simp]: "uncontrolled (push_each new nodes) = Ok (nodes @ new)"
  unfolding push_each_def by (induction new arbitrary: nodes) simp_all

lemma agrees_push_each [agrees_intro]: "agrees (push_each new nodes)"
  unfolding push_each_def by (intro agrees_intro)

lemma holds_push_each [holds_intro]: "balanced (push_each new nodes)"
  unfolding push_each_def by (intro agrees_intro holds_intro) simp

lemma uncontrolled_constraint_nodes_into [simp]:
  "uncontrolled (constraint_nodes_into_with_budget c nodes) = Ok (nodes @ constraint_nodes c)"
  by (cases c) (simp_all add: expression_nodes_def)

lemma agrees_constraint_nodes_into [agrees_intro]:
  "agrees (constraint_nodes_into_with_budget c nodes)"
  by (cases c) (simp_all add: agrees_intro)

lemma holds_constraint_nodes_into [holds_intro]:
  "balanced (constraint_nodes_into_with_budget c nodes)"
  by (cases c) (simp_all add: agrees_intro holds_intro)

lemma projection_nodes_with_budget:
  "uncontrolled (projection_nodes_with_budget e) = Ok (projection_nodes e)"
  "agrees (projection_nodes_with_budget e)"
  "balanced (projection_nodes_with_budget e)"
proof -
  have "uncontrolled (check_each (\<lambda>_. visit) ns) = Ok ()" for ns :: "variable_node list"
    by (simp add: uncontrolled_check_each)
  then show "uncontrolled (projection_nodes_with_budget e) = Ok (projection_nodes e)"
    by (simp add: projection_nodes_with_budget_def)
  show "agrees (projection_nodes_with_budget e)"
    unfolding projection_nodes_with_budget_def by (intro agrees_intro)
  show "balanced (projection_nodes_with_budget e)"
    unfolding projection_nodes_with_budget_def by (intro agrees_intro holds_intro) simp
qed

lemmas [simp] = projection_nodes_with_budget(1)
lemmas [agrees_intro] = projection_nodes_with_budget(2)
lemmas [holds_intro] = projection_nodes_with_budget(3)

lemma uncontrolled_level_edge [simp]:
  "uncontrolled (level_edge ts) = Ok (concat (map (\<lambda>t. expression_nodes (objective_expression t)) ts))"
proof -
  have "each_o (\<lambda>t edge. Ok (edge @ expression_nodes (objective_expression t))) ts edge
      = (Ok (edge @ concat (map (\<lambda>t. expression_nodes (objective_expression t)) ts))
         :: (planning_preparation_error, variable_node list) outcome)" for edge
    by (induction ts arbitrary: edge) simp_all
  then show ?thesis by (simp add: level_edge_def)
qed

lemma agrees_level_edge [agrees_intro]: "agrees (level_edge ts)"
  unfolding level_edge_def
  by (intro agrees_intro agrees_branch_same) (simp add: expression_nodes_def)

lemma holds_level_edge [holds_intro]: "balanced (level_edge ts)"
  unfolding level_edge_def
  by (intro agrees_intro agrees_branch_same holds_intro holds_branch_same)
    (simp_all add: expression_nodes_def)

subsection \<open>Reservations and unions\<close>

lemma level_capacity:
  "agrees (level_capacity ts)" "balanced (level_capacity ts)"
  unfolding level_capacity_def by (intro agrees_intro holds_intro)+

lemmas [agrees_intro] = level_capacity(1)
lemmas [holds_intro] = level_capacity(2)

lemma not_Abort_capacity: "uncontrolled (level_capacity ts) \<noteq> Abort"
proof -
  have "each_o (\<lambda>t n. ok_or PrepArithmeticOverflow
      (u64_checked_add n (length (expr_terms (objective_expression t))))) ts n \<noteq> Abort" for n
    by (induction ts arbitrary: n) (simp_all add: bind_o_Abort_iff)
  then show ?thesis by (simp add: level_capacity_def)
qed

lemma constraint_node_capacity_not_Abort [simp]: "constraint_node_capacity c \<noteq> Abort"
  by (cases c) simp_all

lemma edge_scratch_not_Abort [simp]: "edge_scratch_bytes n \<noteq> Abort"
  by (simp add: edge_scratch_bytes_def)

lemma uncontrolled_reserve_edge [simp]: "uncontrolled (reserve_edge capacity) = Ok None"
  by (simp add: reserve_edge_def)

lemma holds_reserve_edge [holds_intro]:
  assumes "agrees capacity" "balanced capacity" "uncontrolled capacity \<noteq> Abort"
  shows "holds 0 (reserve_edge capacity) bytes_of"
  unfolding reserve_edge_def
  by (intro holds_reserving holds_bind_balanced holds_then_p holds_reserved holds_lift_o
      agrees_intro holds_reserve_work) (use assms in \<open>auto simp: bind_o_Abort_iff\<close>)

lemma agrees_count_edge [agrees_intro]: "agrees (count_edge n)"
  unfolding count_edge_def
  by (rule agrees_branch_p) (auto simp: controlled_simps u64_saturating_add_def)

lemma holds_count_edge [holds_intro]: "balanced (count_edge n)"
  unfolding count_edge_def by (rule holds_branch_p) (auto intro: holds_intro)

lemma agrees_union_edge [agrees_intro]: "agrees (union_edge edge indexes st)"
  unfolding union_edge_def
  by (intro agrees_scoped) (auto intro!: agrees_intro split: list.split)

lemma holds_union_edge [holds_intro]: "balanced (union_edge edge indexes st)"
  unfolding union_edge_def
  by (intro holds_scoped holds_reserve_edge)
    (auto intro!: agrees_intro holds_intro split: list.split)

lemma agrees_with_edge [agrees_intro]: "agrees edge \<Longrightarrow> agrees (with_edge capacity edge indexes st)"
  unfolding with_edge_def by (intro agrees_intro) simp_all

lemma holds_with_edge [holds_intro]:
  assumes "agrees capacity" "balanced capacity" "uncontrolled capacity \<noteq> Abort"
    and "agrees edge" "balanced edge"
  shows "balanced (with_edge capacity edge indexes st)"
  unfolding with_edge_def
  by (intro holds_scoped holds_reserve_edge) (use assms in \<open>auto intro: agrees_intro holds_intro\<close>)

lemma unite_variable:
  "agrees (unite_variable indexes v st)" "balanced (unite_variable indexes v st)"
  by (cases v; auto intro!: agrees_intro holds_intro agrees_branch_same holds_branch_same)+

lemmas [agrees_intro] = unite_variable(1)
lemmas [holds_intro] = unite_variable(2)

lemma unite_record:
  "agrees (unite_record indexes r st)" "balanced (unite_record indexes r st)"
  unfolding unite_record_def
  by (auto intro!: agrees_intro holds_intro agrees_branch_same holds_branch_same
      simp: bind_o_Abort_iff)

lemmas [agrees_intro] = unite_record(1)
lemmas [holds_intro] = unite_record(2)

lemma unite_level:
  "agrees (unite_level indexes l st)" "balanced (unite_level indexes l st)"
  unfolding unite_level_def using not_Abort_capacity
  by (auto intro!: agrees_intro holds_intro)

lemmas [agrees_intro] = unite_level(1)
lemmas [holds_intro] = unite_level(2)

lemma unite_projection:
  "agrees (unite_projection indexes p st)" "balanced (unite_projection indexes p st)"
  unfolding unite_projection_def by (auto intro!: agrees_intro holds_intro)

lemmas [agrees_intro] = unite_projection(1)
lemmas [holds_intro] = unite_projection(2)

lemma unite_assumption:
  "agrees (unite_assumption indexes a st)" "balanced (unite_assumption indexes a st)"
  unfolding unite_assumption_def by (auto intro!: agrees_intro holds_intro)

lemmas [agrees_intro] = unite_assumption(1)
lemmas [holds_intro] = unite_assumption(2)

lemma unite_problem:
  "agrees (unite_problem problem indexes st)" "balanced (unite_problem problem indexes st)"
  unfolding unite_problem_def by (intro agrees_intro holds_intro)+

lemmas [agrees_intro] = unite_problem(1)
lemmas [holds_intro] = unite_problem(2)

subsection \<open>The reservations of the analysis\<close>

lemma ok_or_bind_not_Abort [simp]: "ok_or e v \<noteq> Abort"
  by simp

lemma declared_scratch [agrees_intro, holds_intro]:
  "agrees (declared_scratch vs)" "balanced (declared_scratch vs)"
  unfolding declared_scratch_def by (intro agrees_intro holds_intro)+

lemma declared_scratch_not_Abort: "uncontrolled (declared_scratch vs) \<noteq> Abort"
proof -
  have "each_o (\<lambda>v scratch. bind_o (ok_or PrepArithmeticOverflow
      (u64_checked_add (length (canonical_id v)) 128)) (\<lambda>n.
        ok_or PrepArithmeticOverflow (u64_checked_add scratch n))) vs n \<noteq> Abort" for n
    by (induction vs arbitrary: n) (auto simp: bind_o_Abort_iff)
  then show ?thesis by (simp add: declared_scratch_def)
qed

definition declared_reservation ::
    "planning_problem \<Rightarrow> (planning_preparation_error, transient_reservation option) prep" where
  "declared_reservation problem = reserving
     (bind_p (declared_scratch (variables problem)) (\<lambda>scratch.
      then_p (if_budget (reserve_work (length (variables problem)))) (reserve_owned scratch)))"

definition ordered_nodes :: "planning_problem \<Rightarrow> variable_node list" where
  "ordered_nodes problem = sort_dedup (map node_of (variables problem))"

lemma declared_nodes_bind:
  "bind_p (declared_nodes problem) f
     = bind_p (declared_reservation problem) (\<lambda>r. f (r, ordered_nodes problem))"
  by (simp add: declared_nodes_def declared_reservation_def ordered_nodes_def bind_p_assoc)

lemma uncontrolled_reservations [simp]:
  "uncontrolled (declared_reservation problem) = Ok None"
  "uncontrolled (index_reservation n) = Ok None"
  "uncontrolled (parent_reservation n) = Ok None"
  "uncontrolled (output_reservation n) = Ok None"
  "uncontrolled (grouping_reservation n) = Ok None"
  by (simp_all add: declared_reservation_def index_reservation_def parent_reservation_def
      output_reservation_def grouping_reservation_def)

lemma holds_reservations:
  "holds 0 (declared_reservation problem) bytes_of"
  "holds 0 (index_reservation n) bytes_of"
  "holds 0 (parent_reservation n) bytes_of"
  "holds 0 (output_reservation n) bytes_of"
  "holds 0 (grouping_reservation n) bytes_of"
  unfolding declared_reservation_def index_reservation_def parent_reservation_def
    output_reservation_def grouping_reservation_def
  by (intro holds_reserving holds_bind_balanced holds_then_p holds_reserved holds_lift_o
      agrees_intro holds_reserve_work holds_intro;
      simp add: bind_o_Abort_iff declared_scratch_not_Abort)+

lemma group_nodes [agrees_intro, holds_intro]:
  "agrees (group_nodes ordered par)" "balanced (group_nodes ordered par)"
  unfolding group_nodes_def
  by (auto intro!: agrees_intro holds_intro split: prod.split)

lemma sort_groups [agrees_intro, holds_intro]:
  "agrees (sort_groups grouped)" "balanced (sort_groups grouped)"
  unfolding sort_groups_def by (auto intro!: agrees_intro holds_intro)

lemma hash_components [agrees_intro, holds_intro]:
  "agrees (hash_components blake3 cs n)" "balanced (hash_components blake3 cs n)"
proof -
  show "agrees (hash_components blake3 cs n)"
    unfolding hash_components_def by (intro agrees_scoped agrees_intro) simp
  show "balanced (hash_components blake3 cs n)"
    unfolding hash_components_def
    by (rule holds_scoped) (auto intro!: agrees_intro holds_intro holds_reserved)
qed

lemma holding_Nil: "holding [] m = m"
  by (simp add: holding_def)

text \<open>The two traversals follow the text of the analysis, one rule for each of its steps.\<close>

lemma agrees_on_analyze: "agrees_on analysis (analyze_components_inner blake3 problem)"
  unfolding analyze_components_inner_def declared_nodes_bind case_prod_unfold
  apply (rule agrees_on_then [OF agrees_visit])
  apply (rule agrees_on_reserving, simp, simp)
  apply (rule agrees_on_reserving, simp, simp)
  apply (rule agrees_on_reserving, simp, simp)
  apply (rule agrees_on_bind, intro agrees_intro)
  apply (rule agrees_on_then [OF agrees_drop_owned])
  apply (rule agrees_on_reserving, simp, simp)
  apply (rule agrees_on_reserving, simp, simp)
  apply (rule agrees_on_bind, intro agrees_intro)
  apply (rule agrees_on_then [OF agrees_drop_owned])
  apply (rule agrees_on_then [OF agrees_drop_owned])
  apply (rule agrees_on_bind, intro agrees_intro)
  apply (rule agrees_on_then [OF agrees_drop_owned])
  apply (rule agrees_on_bind, intro agrees_intro)
  apply (rule agrees_on_ret)
  done

lemma holds_analyze:
  "holds 0 (analyze_components_inner blake3 problem) (\<lambda>r. bytes_of (reservation r))"
  unfolding analyze_components_inner_def declared_nodes_bind case_prod_unfold
  apply (rule holds_then_p [OF holds_visit agrees_visit])
  apply (subst holding_Nil [symmetric, of "declared_reservation problem"])
  apply (rule holds_step_reserving [OF holds_reservations(1)], simp, simp, simp)
  apply (rule holds_step_reserving [OF holds_reservations(2)], simp, simp, simp)
  apply (rule holds_step_reserving [OF holds_reservations(3)], simp, simp, simp)
  apply (rule holds_step [OF unite_problem(2,1)], simp)
  apply (rule holds_step_drop, simp)
  apply (rule holds_step_reserving [OF holds_reservations(4)], simp, simp)
  apply (simp add: bind_o_Abort_iff)
  apply (rule holds_step_reserving [OF holds_reservations(5)], simp, simp, simp)
  apply (rule holds_step [OF group_nodes(2,1)], simp)
  apply (rule holds_step_drop, simp)
  apply (rule holds_step_drop, simp)
  apply (rule holds_step [OF sort_groups(2,1)], simp)
  apply (rule holds_step_drop, simp)
  apply (rule holds_step, intro holds_intro agrees_intro, intro agrees_intro, simp)
  apply (rule holds_ret, simp)
  done

end
