(* ===== verification/Sample.thy ===== *)
theory Sample
  imports Planning_Model
begin

section \<open>A sample problem\<close>

text \<open>
  A small problem with every kind of variable, an optional interval, three constraints, an
  objective, an assumption, projections and a provenance chain. Theorems about whole problems are
  exercised on it.
\<close>

definition one_range :: "i64 \<Rightarrow> i64 \<Rightarrow> int_domain" where
  "one_range lo hi = \<lparr>inclusive_ranges = [\<lparr>range_start = lo, range_end = hi\<rparr>]\<rparr>"

definition sample_int :: "string \<Rightarrow> int_domain \<Rightarrow> variable" where
  "sample_int v d = VInteger \<lparr>int_id = v, variable_domain = d, int_provenance = ''prov.fact''\<rparr>"

definition sample_bool :: "string \<Rightarrow> variable" where
  "sample_bool v = VBoolean \<lparr>bool_id = v, bool_provenance = ''prov.fact''\<rparr>"

definition sample_variables :: "variable list" where
  "sample_variables =
     [sample_bool ''bool.a'', sample_bool ''bool.b'',
      sample_int ''int.d'' (one_range 1 3), sample_int ''int.e'' (one_range 0 13),
      sample_int ''int.s'' (one_range 0 10), sample_int ''int.x'' (one_range 0 5),
      sample_int ''int.y'' \<lparr>inclusive_ranges = [\<lparr>range_start = -2, range_end = 4\<rparr>,
        \<lparr>range_start = 7, range_end = 9\<rparr>]\<rparr>,
      VInterval \<lparr>interval_id = ''interval.i'', interval_start = ''int.s'',
        interval_duration = ''int.d'', interval_end = ''int.e'',
        interval_presence = Some (literal_positive ''bool.a''),
        interval_provenance = ''prov.fact''\<rparr>]"

definition sample_comparison :: linear_comparison where
  "sample_comparison = \<lparr>comparison_expression = \<lparr>expr_terms =
       [\<lparr>term_variable = ''int.x'', coefficient = 2\<rparr>, \<lparr>term_variable = ''int.y'', coefficient = -3\<rparr>],
       expr_constant = 1\<rparr>, comparison_op = LessOrEqual, comparison_rhs = 10\<rparr>"

definition sample_record :: "string \<Rightarrow> constraint \<Rightarrow> literal list \<Rightarrow> constraint_record" where
  "sample_record v c ls = \<lparr>record_id = v, body = c, enforcement = ls,
     record_provenance = ''prov.rule'', tags = []\<rparr>"

definition sample_constraints :: "constraint_record list" where
  "sample_constraints =
     [sample_record ''constraint.a'' (BoolOr [literal_positive ''bool.a'', literal_negative ''bool.b'']) [],
      sample_record ''constraint.b'' (LinearComparison sample_comparison) [],
      sample_record ''constraint.c'' (NoOverlap [''interval.i'']) [literal_positive ''bool.a'']]"

definition sample_level :: objective_level where
  "sample_level = \<lparr>level_id = ''level.cost'', direction = Minimize, lower_bound = 0, upper_bound = 5,
     level_terms = [\<lparr>objective_term_id = ''term.x'', objective_expression = \<lparr>expr_terms =
       [\<lparr>term_variable = ''int.x'', coefficient = 1\<rparr>], expr_constant = 0\<rparr>, objective_kind = Penalty,
       objective_category = ''cost'', objective_term_provenance = ''prov.fact''\<rparr>],
     level_provenance = ''prov.fact''\<rparr>"

definition sample_projection :: "string \<Rightarrow> projection_expression \<Rightarrow> solution_projection" where
  "sample_projection v e = \<lparr>projection_id = ''projection.'' @ v, assignment_id = ''assignment.'' @ v,
     projection_entity = \<lparr>entity_kind = ''shift'', entity_id = v\<rparr>, required = True,
     projection_expression = e, projection_provenance = ''prov.fact''\<rparr>"

definition sample_provenance :: "string \<Rightarrow> provenance_source_kind \<Rightarrow> string option \<Rightarrow> provenance_record" where
  "sample_provenance v k p = \<lparr>provenance_record_id = v, source_kind = k, source_id = ''source'',
     entity_refs = [], message_key = ''message'', parameters = [], parent = p\<rparr>"

definition sample_problem :: planning_problem where
  "sample_problem = \<lparr>
     schema_version = 2,
     variables = sample_variables,
     constraints = sample_constraints,
     objectives = \<lparr>levels = [sample_level]\<rparr>,
     assumptions = [\<lparr>assumption_id = ''assumption.r'', assumption_literal = literal_positive ''bool.b'',
       required_rules = [''rule.one''], assumption_provenance = ''prov.rule''\<rparr>],
     projections = [sample_projection ''i'' (EInterval ''interval.i''),
       sample_projection ''x'' (EInteger ''int.x'')],
     provenance = [sample_provenance ''prov.fact'' Fact (Some ''prov.rule''),
       sample_provenance ''prov.rule'' RequiredRule None],
     metadata = \<lparr>pack_id = ''pack'', scenario_id = ''scenario'', scenario_revision = 1,
       projection_version = 1, compiler_id = ''compiler'', compiler_version = ''1.0'',
       compile_metadata = [], display_text = []\<rparr>,
     declared_capabilities = {CapBoolOr, CapLinearComparison, CapNoOverlap, OptionalIntervals,
       ObjectivePenalty, Assumptions, IntervalProjection, IntegerProjection},
     split_authorization = None\<rparr>"

end
