(* ===== verification/Component_Correctness.thy ===== *)
theory Component_Correctness
  imports Component_Budget Sample
begin

section \<open>Components are the connected components\<close>

text \<open>
  The component analysis against its specification: the classes of the declared nodes under the
  hyperedges of the problem. The union-find enters through the interface of \<open>Union_Find\<close>
  only.
\<close>

subsection \<open>The hyperedges of a problem\<close>

fun variable_edges :: "variable \<Rightarrow> variable_node list list" where
  "variable_edges (VInterval i) = [interval_nodes i]"
| "variable_edges _ = []"

definition record_edge :: "constraint_record \<Rightarrow> variable_node list" where
  "record_edge r = constraint_nodes (body r) @ map literal_node (enforcement r)"

definition problem_edges :: "planning_problem \<Rightarrow> variable_node list list" where
  "problem_edges problem =
     concat (map variable_edges (variables problem)) @
     map record_edge (constraints problem) @
     map (\<lambda>l. concat (map (\<lambda>t. expression_nodes (objective_expression t)) (level_terms l)))
       (levels (objectives problem)) @
     map (\<lambda>p. projection_nodes (projection_expression p)) (projections problem) @
     map (\<lambda>a. [NBool (lit_variable (assumption_literal a))]) (assumptions problem)"

definition declared_set :: "planning_problem \<Rightarrow> variable_node set" where
  "declared_set problem = node_of ` set (variables problem)"

text \<open>Two declared nodes on a common hyperedge.\<close>

definition linked :: "planning_problem \<Rightarrow> (variable_node \<times> variable_node) set" where
  "linked problem = {(a, b). a \<in> declared_set problem \<and> b \<in> declared_set problem \<and>
     (\<exists>e \<in> set (problem_edges problem). a \<in> set e \<and> b \<in> set e)}"

lemma set_ordered_nodes [simp]: "set (ordered_nodes problem) = declared_set problem"
  by (simp add: ordered_nodes_def declared_set_def)

lemma distinct_ordered_nodes [simp]: "distinct (ordered_nodes problem)"
  by (simp add: ordered_nodes_def strictly_sorted_distinct)

lemma length_ordered_nodes: "length (ordered_nodes problem) \<le> length (variables problem)"
proof -
  have "length (ordered_nodes problem) = card (node_of ` set (variables problem))"
    using distinct_card [OF distinct_ordered_nodes, of problem]
    by (simp add: declared_set_def)
  also have "\<dots> \<le> length (variables problem)"
    by (meson card_image_le card_length finite_set le_trans)
  finally show ?thesis .
qed

subsection \<open>The loops unite along the hyperedges\<close>

definition unite_edge ::
    "(variable_node, usize) btree_map \<Rightarrow> variable_node list \<Rightarrow> edge_state
       \<Rightarrow> (planning_preparation_error, edge_state) outcome" where
  "unite_edge indexes e st = uncontrolled (union_edge e indexes st)"

lemma uncontrolled_with_edge [simp]:
  "uncontrolled (with_edge capacity edge indexes st)
     = bind_o (uncontrolled edge) (\<lambda>e. unite_edge indexes e st)"
  by (simp add: with_edge_def unite_edge_def)

lemma uncontrolled_unite [simp]:
  "uncontrolled (unite_variable indexes v st) = each_o (unite_edge indexes) (variable_edges v) st"
  "uncontrolled (unite_record indexes r st) = unite_edge indexes (record_edge r) st"
  "uncontrolled (unite_level indexes l st) = unite_edge indexes
     (concat (map (\<lambda>t. expression_nodes (objective_expression t)) (level_terms l))) st"
  "uncontrolled (unite_projection indexes p st)
     = unite_edge indexes (projection_nodes (projection_expression p)) st"
  "uncontrolled (unite_assumption indexes a st)
     = unite_edge indexes [NBool (lit_variable (assumption_literal a))] st"
proof -
  show "uncontrolled (unite_variable indexes v st) = each_o (unite_edge indexes) (variable_edges v) st"
    by (cases v) (simp_all add: bind_o_def split: outcome.split)
qed (simp_all add: unite_record_def unite_level_def unite_projection_def unite_assumption_def
    record_edge_def)

lemma each_o_fun:
  "each_o f [] = Ok"
  "each_o f (x # xs) = (\<lambda>s. bind_o (f x s) (each_o f xs))"
  by (simp_all add: fun_eq_iff)

lemma each_o_map: "each_o f (map g xs) = each_o (\<lambda>x. f (g x)) xs"
  by (induction xs) (simp_all only: each_o_fun list.map)

lemma each_o_append_fun: "each_o f (xs @ ys) = (\<lambda>s. bind_o (each_o f xs s) (each_o f ys))"
  by (simp add: fun_eq_iff each_o_append)

lemma each_o_concat: "each_o f (concat xss) = each_o (each_o f) xss"
  by (induction xss) (simp_all only: each_o_fun each_o_append_fun concat.simps)

lemma uncontrolled_unite_problem:
  "uncontrolled (unite_problem problem indexes st)
     = each_o (unite_edge indexes) (problem_edges problem) st"
  by (simp add: unite_problem_def problem_edges_def each_o_append_fun each_o_map each_o_concat)

definition edge_pairs ::
    "(variable_node, usize) btree_map \<Rightarrow> variable_node list \<Rightarrow> (usize \<times> usize) list" where
  "edge_pairs indexes e =
     (case edge_positions indexes e of [] \<Rightarrow> [] | first # ps \<Rightarrow> map (Pair first) ps)"

definition unite_pair ::
    "usize \<times> usize \<Rightarrow> usize list \<times> usize list
       \<Rightarrow> (planning_preparation_error, usize list \<times> usize list) outcome" where
  "unite_pair p d = uncontrolled (union (fst d) (snd d) (fst p) (snd p))"

lemma fold_const: "fold (\<lambda>_. f) xs s = (f ^^ length xs) s"
  by (induction xs arbitrary: s) (simp_all add: funpow_swap1)

lemma unite_edge_pairs:
  "unite_edge indexes e (d, n) = bind_o (each_o unite_pair (edge_pairs indexes e) d)
     (\<lambda>d. Ok (d, ((\<lambda>n. u64_saturating_add n 1) ^^ length (edge_pairs indexes e)) n))"
proof (cases "edge_positions indexes e")
  case Nil
  then show ?thesis by (simp add: unite_edge_def union_edge_def edge_pairs_def)
next
  case (Cons first ps)
  have "unite_edge indexes e (d, n) = each_o (\<lambda>position (d, n).
      bind_o (unite_pair (first, position) d) (\<lambda>d. Ok (d, u64_saturating_add n 1))) ps (d, n)"
    using Cons by (simp add: unite_edge_def union_edge_def count_edge_def unite_pair_def
        case_prod_unfold)
  also have "\<dots> = bind_o (each_o (\<lambda>position. unite_pair (first, position)) ps d)
      (\<lambda>d. Ok (d, fold (\<lambda>_ n. u64_saturating_add n 1) ps n))"
    by (rule each_o_pair) simp
  also have "\<dots> = bind_o (each_o unite_pair (map (Pair first) ps) d)
      (\<lambda>d. Ok (d, ((\<lambda>n. u64_saturating_add n 1) ^^ length ps) n))"
    by (simp add: each_o_map fold_const)
  finally show ?thesis using Cons by (simp add: edge_pairs_def)
qed

definition all_pairs :: "planning_problem \<Rightarrow> (usize \<times> usize) list" where
  "all_pairs problem =
     concat (map (edge_pairs (node_indexes (ordered_nodes problem))) (problem_edges problem))"

lemma funpow_saturating:
  "n \<le> u64_max \<Longrightarrow> ((\<lambda>n. u64_saturating_add n 1) ^^ k) n = min (n + k) u64_max"
  by (induction k) (auto simp: u64_saturating_add_def)

lemma unite_problem_pairs:
  "uncontrolled (unite_problem problem (node_indexes (ordered_nodes problem)) (d, 0))
     = bind_o (each_o unite_pair (all_pairs problem) d)
         (\<lambda>d. Ok (d, min (length (all_pairs problem)) u64_max))"
proof -
  let ?i = "node_indexes (ordered_nodes problem)"
  let ?h = "\<lambda>e. (\<lambda>n. u64_saturating_add n 1) ^^ length (edge_pairs ?i e)"
  have h: "fold ?h es n = min (n + length (concat (map (edge_pairs ?i) es))) u64_max"
    if "n \<le> u64_max" for es n
    using that
  proof (induction es arbitrary: n)
    case (Cons e es)
    have "?h e n \<le> u64_max" using Cons.prems by (simp add: funpow_saturating [unfolded One_nat_def])
    from Cons.IH [OF this] Cons.prems show ?case by (simp add: funpow_saturating [unfolded One_nat_def])
  qed simp
  have "each_o (unite_edge ?i) (problem_edges problem) (d, 0)
      = bind_o (each_o (\<lambda>e. each_o unite_pair (edge_pairs ?i e)) (problem_edges problem) d)
          (\<lambda>d. Ok (d, fold ?h (problem_edges problem) 0))"
    by (rule each_o_pair) (rule unite_edge_pairs)
  also have "\<dots> = bind_o (each_o unite_pair (all_pairs problem) d)
         (\<lambda>d. Ok (d, min (length (all_pairs problem)) u64_max))"
    using h [of 0 "problem_edges problem"] by (simp add: all_pairs_def each_o_concat each_o_map)
  finally show ?thesis by (simp add: uncontrolled_unite_problem)
qed

subsection \<open>Positions and nodes\<close>

lemma node_index_iff:
  assumes "distinct ordered"
  shows "bt_get (node_indexes ordered) node = Some i \<longleftrightarrow> i < length ordered \<and> ordered ! i = node"
proof -
  let ?kvs = "map (\<lambda>(i, node). (node, i)) (enumerate 0 ordered)"
  have keys: "map fst ?kvs = ordered"
    by (simp add: case_prod_unfold comp_def)
  have "bt_get (node_indexes ordered) node = Some i \<longleftrightarrow> map_of (rev ?kvs) node = Some i"
    by (simp add: node_indexes_def bt_collect)
  also have "\<dots> \<longleftrightarrow> (node, i) \<in> set (rev ?kvs)"
    by (rule map_of_eq_Some_iff) (simp only: rev_map [symmetric] keys distinct_rev assms)
  also have "\<dots> \<longleftrightarrow> (i, node) \<in> set (enumerate 0 ordered)" by force
  also have "\<dots> \<longleftrightarrow> i < length ordered \<and> ordered ! i = node"
    by (simp add: in_set_enumerate_eq)
  finally show ?thesis .
qed

lemma set_edge_positions:
  assumes "distinct ordered"
  shows "set (edge_positions (node_indexes ordered) e)
    = {i. i < length ordered \<and> ordered ! i \<in> set e}"
proof -
  have "set (List.map_filter f xs) = {y. \<exists>x \<in> set xs. f x = Some y}"
    for f :: "variable_node \<Rightarrow> usize option" and xs
    by (induction xs) (auto simp: List.map_filter_simps split: option.splits)
  then show ?thesis by (auto simp: edge_positions_def node_index_iff [OF assms])
qed

lemma set_edge_pairs:
  "set (edge_pairs indexes e)
     \<subseteq> set (edge_positions indexes e) \<times> set (edge_positions indexes e)"
  by (cases "edge_positions indexes e") (auto simp: edge_pairs_def)

lemma edge_pairs_connect:
  assumes "i \<in> set (edge_positions indexes e)" "j \<in> set (edge_positions indexes e)"
  shows "(i, j) \<in> (set (edge_pairs indexes e) \<union> (set (edge_pairs indexes e))\<inverse>)\<^sup>*"
proof -
  let ?P = "set (edge_pairs indexes e)"
  from assms(1) obtain f ps where p: "edge_positions indexes e = f # ps"
    by (cases "edge_positions indexes e") auto
  have f: "(f, k) \<in> (?P \<union> ?P\<inverse>)\<^sup>* \<and> (k, f) \<in> (?P \<union> ?P\<inverse>)\<^sup>*"
    if "k \<in> set (edge_positions indexes e)" for k
  proof (cases "k = f")
    case False
    with that p have "(f, k) \<in> ?P" by (auto simp: edge_pairs_def)
    then show ?thesis by blast
  qed simp
  from f [OF assms(1)] f [OF assms(2)] show ?thesis by (meson rtrancl_trans)
qed

lemma linked_sym: "(a, b) \<in> linked problem \<Longrightarrow> (b, a) \<in> linked problem"
  by (auto simp: linked_def)

lemma all_pairs_linked:
  fixes problem
  defines "ordered \<equiv> ordered_nodes problem" and "P \<equiv> set (all_pairs problem)"
  shows "(i, j) \<in> P \<union> P\<inverse> \<Longrightarrow>
      i < length ordered \<and> j < length ordered \<and> (ordered ! i, ordered ! j) \<in> linked problem"
    and "(ordered ! i, b) \<in> linked problem \<Longrightarrow> i < length ordered \<Longrightarrow>
      \<exists>j < length ordered. ordered ! j = b \<and> (i, j) \<in> (P \<union> P\<inverse>)\<^sup>*"
proof -
  have d: "distinct ordered" and set: "set ordered = declared_set problem"
    by (simp_all add: ordered_def)
  let ?ix = "node_indexes ordered"
  have P: "P = (\<Union>e \<in> set (problem_edges problem). set (edge_pairs ?ix e))"
    by (simp add: P_def all_pairs_def ordered_def)
  have fwd: "i < length ordered \<and> j < length ordered \<and> (ordered ! i, ordered ! j) \<in> linked problem"
    if "(i, j) \<in> P" for i j
  proof -
    from that P obtain e where e: "e \<in> set (problem_edges problem)" "(i, j) \<in> set (edge_pairs ?ix e)"
      by blast
    then have "i < length ordered \<and> ordered ! i \<in> set e \<and> j < length ordered \<and> ordered ! j \<in> set e"
      using set_edge_pairs [of ?ix e] set_edge_positions [OF d, of e] by blast
    with e set nth_mem show ?thesis by (fastforce simp: linked_def)
  qed
  then show "(i, j) \<in> P \<union> P\<inverse> \<Longrightarrow>
      i < length ordered \<and> j < length ordered \<and> (ordered ! i, ordered ! j) \<in> linked problem"
    using linked_sym by blast
  assume l: "(ordered ! i, b) \<in> linked problem" and i: "i < length ordered"
  then obtain e where e: "e \<in> set (problem_edges problem)" "ordered ! i \<in> set e" "b \<in> set e"
    and b: "b \<in> set ordered" by (auto simp: linked_def set)
  from b obtain j where j: "j < length ordered" "ordered ! j = b" by (meson in_set_conv_nth)
  have "(i, j) \<in> (set (edge_pairs ?ix e) \<union> (set (edge_pairs ?ix e))\<inverse>)\<^sup>*"
    by (rule edge_pairs_connect) (use set_edge_positions [OF d, of e] e i j in auto)
  moreover have "set (edge_pairs ?ix e) \<union> (set (edge_pairs ?ix e))\<inverse> \<subseteq> P \<union> P\<inverse>"
    using P e(1) by blast
  ultimately have "(i, j) \<in> (P \<union> P\<inverse>)\<^sup>*" using rtrancl_mono by blast
  with j show "\<exists>j < length ordered. ordered ! j = b \<and> (i, j) \<in> (P \<union> P\<inverse>)\<^sup>*" by blast
qed

lemma connected_positions:
  fixes problem
  defines "ordered \<equiv> ordered_nodes problem" and "P \<equiv> set (all_pairs problem)"
  assumes "i < length ordered" "j < length ordered"
  shows "(i, j) \<in> (P \<union> P\<inverse>)\<^sup>* \<longleftrightarrow> (ordered ! i, ordered ! j) \<in> (linked problem)\<^sup>*"
proof
  assume "(i, j) \<in> (P \<union> P\<inverse>)\<^sup>*"
  then show "(ordered ! i, ordered ! j) \<in> (linked problem)\<^sup>*"
  proof (induction rule: rtrancl_induct)
    case (step j k)
    then show ?case using all_pairs_linked(1) [of j k problem] unfolding ordered_def P_def
      by (meson rtrancl.rtrancl_into_rtrancl)
  qed simp
next
  assume "(ordered ! i, ordered ! j) \<in> (linked problem)\<^sup>*"
  then have "\<exists>k < length ordered. ordered ! k = ordered ! j \<and> (i, k) \<in> (P \<union> P\<inverse>)\<^sup>*"
  proof (induction rule: rtrancl_induct)
    case base
    with assms(3) show ?case by blast
  next
    case (step b c)
    then obtain k where k: "k < length ordered" "ordered ! k = b" "(i, k) \<in> (P \<union> P\<inverse>)\<^sup>*" by blast
    with step(2) obtain l where "l < length ordered" "ordered ! l = c" "(k, l) \<in> (P \<union> P\<inverse>)\<^sup>*"
      using all_pairs_linked(2) [of problem k c] unfolding ordered_def P_def by blast
    with k rtrancl_trans [of i k "P \<union> P\<inverse>" l] show ?case by blast
  qed
  moreover have "distinct ordered" by (simp add: ordered_def)
  ultimately show "(i, j) \<in> (P \<union> P\<inverse>)\<^sup>*" using assms(4) by (auto simp: nth_eq_iff_index_eq)
qed

subsection \<open>Grouping\<close>

definition grouped_by :: "usize list \<Rightarrow> variable_node list \<Rightarrow> (usize, string list) btree_map" where
  "grouped_by par ordered =
     fold (\<lambda>x. bt_push (root_of par (fst x)) (encoded (snd x))) (enumerate 0 ordered) []"

lemma uncontrolled_group_nodes:
  assumes inv: "uf_invar par sz" and len: "length par = length ordered"
  shows "uncontrolled (group_nodes ordered par) = Ok (grouped_by par ordered)"
proof -
  define f where "f x st = bind_o (uncontrolled (find_root (find_fuel (fst st)) (fst st) (fst x)))
      (\<lambda>rp. Ok (snd rp, bt_push (fst rp) (encoded (snd x)) (snd st)))"
    for x :: "usize \<times> variable_node" and st :: "usize list \<times> (usize, string list) btree_map"
  define F where "F x ds = (case ds of (d, s) \<Rightarrow>
      bind_o (bind_o (uncontrolled (find_root (find_fuel (fst d)) (fst d) (fst x)))
            (\<lambda>(r, par). Ok (r, (par, snd d))))
        (\<lambda>(r, d). Ok (d, bt_push r (encoded (snd x)) s)))"
    for x :: "usize \<times> variable_node"
      and ds :: "(usize list \<times> usize list) \<times> (usize, string list) btree_map"
  have Ff: "F x ((par, sz), s) = bind_o (f x (par, s)) (\<lambda>(par, s). Ok ((par, sz), s))" for x par s
    by (cases "uncontrolled (find_root (find_fuel par) par (fst x))")
      (simp_all add: F_def f_def case_prod_unfold)
  have sim: "each_o F xs ((par, sz), s) = bind_o (each_o f xs (par, s)) (\<lambda>(par, s). Ok ((par, sz), s))"
    for xs par s
  proof (induction xs arbitrary: par s)
    case (Cons x xs)
    then show ?case by (cases "f x (par, s)") (simp_all add: Ff case_prod_unfold)
  qed simp
  have "\<And>x. x \<in> set (enumerate 0 ordered) \<Longrightarrow> fst x < length (fst (par, sz))"
    using len by (auto simp: in_set_enumerate_eq)
  from uf.leader_loop [of "(par, sz)" "enumerate 0 ordered" fst
      "\<lambda>r x s. bt_push r (encoded (snd x)) s" "[]", OF _ this] inv
  obtain d' where "each_o F (enumerate 0 ordered) ((par, sz), []) = Ok (d', grouped_by par ordered)"
    by (auto simp: F_def [abs_def] grouped_by_def)
  then obtain par' where "each_o f (enumerate 0 ordered) (par, []) = Ok (par', grouped_by par ordered)"
    unfolding sim by (auto split: prod.splits)
  then show ?thesis
    by (auto simp: group_nodes_def f_def [abs_def] case_prod_unfold)
qed

lemma encoded_inject [simp]: "encoded a = encoded b \<longleftrightarrow> a = b"
  by (cases a; cases b) simp_all

lemma inj_encoded [simp]: "inj_on encoded A"
  by (simp add: inj_on_def)

definition class_of :: "usize list \<Rightarrow> variable_node list \<Rightarrow> usize \<Rightarrow> variable_node list" where
  "class_of par ordered r =
     map snd (filter (\<lambda>x. root_of par (fst x) = r) (enumerate 0 ordered))"

lemma set_class_of:
  "set (class_of par ordered r) = {ordered ! i | i. i < length ordered \<and> root_of par i = r}"
proof (intro set_eqI iffI)
  fix y assume "y \<in> set (class_of par ordered r)"
  then show "y \<in> {ordered ! i | i. i < length ordered \<and> root_of par i = r}"
    by (auto simp: class_of_def in_set_enumerate_eq)
next
  fix y assume "y \<in> {ordered ! i | i. i < length ordered \<and> root_of par i = r}"
  then obtain i where i: "i < length ordered" "root_of par i = r" "y = ordered ! i" by blast
  then have "(i, y) \<in> set (filter (\<lambda>x. root_of par (fst x) = r) (enumerate 0 ordered))"
    by (simp add: in_set_enumerate_eq)
  then show "y \<in> set (class_of par ordered r)" unfolding class_of_def by force
qed

lemma distinct_class_of:
  assumes "distinct ordered"
  shows "distinct (class_of par ordered r)"
proof -
  have "map snd (enumerate 0 ordered) = ordered" by simp
  with assms have "distinct (map snd (enumerate 0 ordered))" by simp
  then show ?thesis unfolding class_of_def by (rule distinct_map_filter)
qed

lemma grouped_by_entries:
  "bt_invar (grouped_by par ordered)"
  "(r, g) \<in> set (grouped_by par ordered) \<longleftrightarrow>
     (\<exists>i < length ordered. root_of par i = r) \<and> g = map encoded (class_of par ordered r)"
proof -
  let ?f = "\<lambda>x. root_of par (fst x)" and ?g = "\<lambda>x. encoded (snd x)"
  have nil: "bt_invar []" by (rule bt.invar_empty)
  note b = bt_push_fold [OF nil, of ?f ?g "enumerate 0 ordered"]
  show inv: "bt_invar (grouped_by par ordered)" using b by (simp add: grouped_by_def)
  have "(r, g) \<in> set (grouped_by par ordered) \<longleftrightarrow> bt_get (grouped_by par ordered) r = Some g"
    using bt.entries_iff [OF inv] .
  also have "\<dots> \<longleftrightarrow> (\<exists>x \<in> set (enumerate 0 ordered). ?f x = r) \<and>
      g = map ?g (filter (\<lambda>x. ?f x = r) (enumerate 0 ordered))"
    using b [of r] by (auto simp: grouped_by_def bt_get_def)
  also have "\<dots> \<longleftrightarrow> (\<exists>i < length ordered. root_of par i = r) \<and> g = map encoded (class_of par ordered r)"
  proof -
    have "(\<exists>x \<in> set (enumerate 0 ordered). ?f x = r) \<longleftrightarrow> (\<exists>i < length ordered. root_of par i = r)"
    proof
      assume "\<exists>i < length ordered. root_of par i = r"
      then obtain i where "(i, ordered ! i) \<in> set (enumerate 0 ordered)" "root_of par i = r"
        by (auto simp: in_set_enumerate_eq)
      then show "\<exists>x \<in> set (enumerate 0 ordered). ?f x = r" by force
    qed (auto simp: in_set_enumerate_eq)
    then show ?thesis by (simp add: class_of_def comp_def)
  qed
  finally show "(r, g) \<in> set (grouped_by par ordered) \<longleftrightarrow>
     (\<exists>i < length ordered. root_of par i = r) \<and> g = map encoded (class_of par ordered r)" .
qed

text \<open>The groups the analysis names, in order.\<close>

definition sorted_groups :: "(usize, string list) btree_map \<Rightarrow> string list list" where
  "sorted_groups grouped = sort (map (\<lambda>g. sort (snd g)) grouped)"

lemma uncontrolled_sort_groups: "uncontrolled (sort_groups grouped) = Ok (sorted_groups grouped)"
proof -
  have "each_o (\<lambda>group groups. Ok (groups @ [sort group])) gs acc = (Ok (acc @ map sort gs)
      :: (planning_preparation_error, string list list) outcome)" for gs :: "string list list" and acc
    by (induction gs arbitrary: acc) simp_all
  then show ?thesis by (simp add: sort_groups_def sorted_groups_def comp_def)
qed

lemma set_sorted_groups:
  "set (sorted_groups (grouped_by par ordered))
     = {sort (map encoded (class_of par ordered (root_of par i))) | i. i < length ordered}"
proof -
  have "set (sorted_groups (grouped_by par ordered)) = (\<lambda>g. sort (snd g)) ` set (grouped_by par ordered)"
    by (simp add: sorted_groups_def)
  also have "\<dots> = {sort (map encoded (class_of par ordered (root_of par i))) | i. i < length ordered}"
  proof (intro set_eqI iffI)
    fix y assume "y \<in> (\<lambda>g. sort (snd g)) ` set (grouped_by par ordered)"
    then obtain r g where "(r, g) \<in> set (grouped_by par ordered)" "y = sort g" by force
    then show "y \<in> {sort (map encoded (class_of par ordered (root_of par i))) | i. i < length ordered}"
      unfolding grouped_by_entries by blast
  next
    fix y assume "y \<in> {sort (map encoded (class_of par ordered (root_of par i))) | i. i < length ordered}"
    then obtain i where i: "i < length ordered"
        "y = sort (map encoded (class_of par ordered (root_of par i)))" by blast
    then have "(root_of par i, map encoded (class_of par ordered (root_of par i)))
        \<in> set (grouped_by par ordered)" unfolding grouped_by_entries by blast
    with i show "y \<in> (\<lambda>g. sort (snd g)) ` set (grouped_by par ordered)" by force
  qed
  finally show ?thesis .
qed

lemma class_of_nonempty: "i < length ordered \<Longrightarrow> class_of par ordered (root_of par i) \<noteq> []"
  using set_class_of [of par ordered "root_of par i"] by force

lemma class_of_disjoint:
  assumes "distinct ordered" and "r \<noteq> q"
  shows "set (class_of par ordered r) \<inter> set (class_of par ordered q) = {}"
  using assms by (auto simp: set_class_of nth_eq_iff_index_eq)

lemma distinct_groups:
  assumes "distinct ordered"
  shows "distinct (concat (sorted_groups (grouped_by par ordered)))"
proof (rule distinct_concat)
  let ?G = "grouped_by par ordered"
  have inj: "inj_on (\<lambda>g. sort (snd g)) (set ?G)"
  proof (rule inj_onI)
    fix x y assume xy: "x \<in> set ?G" "y \<in> set ?G" and eq: "sort (snd x) = sort (snd y)"
    obtain r g q h where x: "x = (r, g)" and y: "y = (q, h)" by (cases x; cases y)
    from xy obtain i where i: "i < length ordered" "root_of par i = r"
      and g: "g = map encoded (class_of par ordered r)"
      and h: "h = map encoded (class_of par ordered q)"
      unfolding x y grouped_by_entries by blast
    have "set (sort g) = set (sort h)" using eq x y by simp
    then have "encoded ` set (class_of par ordered r) = encoded ` set (class_of par ordered q)"
      by (simp only: g h set_sort set_map)
    then have s: "set (class_of par ordered r) = set (class_of par ordered q)"
      by (rule inj_image_eq_iff [THEN iffD1, rotated]) simp
    have "class_of par ordered r \<noteq> []" using class_of_nonempty [OF i(1), of par] i(2) by simp
    then have "set (class_of par ordered r) \<inter> set (class_of par ordered q) \<noteq> {}"
      unfolding s [symmetric] by simp
    then have "r = q" using class_of_disjoint [OF assms, of r q par] by argo
    with g h x y show "x = y" by simp
  qed
  have "distinct ?G" by (rule bt.distinct_entries [OF grouped_by_entries(1)])
  with inj show "distinct (sorted_groups ?G)" by (simp add: sorted_groups_def distinct_map)
  fix ys assume "ys \<in> set (sorted_groups ?G)"
  then obtain i where i: "ys = sort (map encoded (class_of par ordered (root_of par i)))"
    unfolding set_sorted_groups by blast
  then show "distinct ys" using distinct_class_of [OF assms] by (simp add: distinct_map)
  fix zs assume "zs \<in> set (sorted_groups ?G)" and ne: "ys \<noteq> zs"
  then obtain j where j: "zs = sort (map encoded (class_of par ordered (root_of par j)))"
    unfolding set_sorted_groups by blast
  with i ne have "root_of par i \<noteq> root_of par j" by auto
  from class_of_disjoint [OF assms this, of par] have
    "encoded ` (set (class_of par ordered (root_of par i)) \<inter> set (class_of par ordered (root_of par j))) = {}"
    by simp
  then show "set ys \<inter> set zs = {}" unfolding i j by (simp add: image_Int)
qed

subsection \<open>Names and hash\<close>

lemma map_filter_Some: "(\<And>x. x \<in> set xs \<Longrightarrow> f x = Some (h x)) \<Longrightarrow> List.map_filter f xs = map h xs"
  by (induction xs) (auto simp: List.map_filter_simps)

lemma name_components_eq:
  assumes "length groups \<le> u64_max"
  shows "name_components groups = map (\<lambda>(index, nodes).
    \<lparr>component_id = ''component.c'' @ show_nat index, variable_nodes = nodes\<rparr>) (enumerate 0 groups)"
  unfolding name_components_def
proof (rule map_filter_Some)
  fix x assume "x \<in> set (enumerate 0 groups)"
  then have "fst x \<le> u64_max" using assms by (simp add: in_set_enumerate_eq)
  then show "(case x of (index, nodes) \<Rightarrow>
      map_option (\<lambda>v. \<lparr>component_id = v, variable_nodes = nodes\<rparr>)
        (planning_id_new (''component.c'' @ show_nat index)))
    = Some (case x of (index, nodes) \<Rightarrow>
        \<lparr>component_id = ''component.c'' @ show_nat index, variable_nodes = nodes\<rparr>)"
    using component_id_valid by (simp add: planning_id_new_def case_prod_unfold)
qed

lemma name_components_proj:
  assumes "length groups \<le> u64_max"
  shows "map variable_nodes (name_components groups) = groups"
    and "map component_id (name_components groups)
      = map (\<lambda>i. ''component.c'' @ show_nat i) [0..<length groups]"
proof -
  have 1: "map variable_nodes (name_components groups) = map snd (enumerate 0 groups)"
    unfolding name_components_eq [OF assms] by (simp add: case_prod_unfold comp_def)
  have 2: "map component_id (name_components groups)
      = map (\<lambda>i. ''component.c'' @ show_nat i) (map fst (enumerate 0 groups))"
    unfolding name_components_eq [OF assms] map_map by (simp only: comp_def case_prod_unfold mathematical_component.simps)
  from 1 2 show "map variable_nodes (name_components groups) = groups"
    and "map component_id (name_components groups)
      = map (\<lambda>i. ''component.c'' @ show_nat i) [0..<length groups]" by simp_all
qed

definition node_bytes :: "string \<Rightarrow> string" where
  "node_bytes node = le_bytes (length node) @ node"

definition component_bytes :: "string list \<Rightarrow> string" where
  "component_bytes nodes = le_bytes (length nodes) @ concat (map node_bytes nodes)"

definition hash_preimage :: "string list list \<Rightarrow> u64 \<Rightarrow> string" where
  "hash_preimage groups n = le_bytes n @ concat (map component_bytes groups)"

lemma uncontrolled_hash_components:
  "uncontrolled (hash_components blake3 cs n) = Ok (blake3 (hash_preimage (map variable_nodes cs) n))"
proof -
  have i: "each_o (\<lambda>node hasher. Ok (hasher @ le_bytes (length node) @ node)) ns acc
      = (Ok (acc @ concat (map node_bytes ns)) :: (planning_preparation_error, string) outcome)"
    for ns acc
    by (induction ns arbitrary: acc) (simp_all add: node_bytes_def)
  have "each_o (\<lambda>c hasher. Ok (hasher @ le_bytes (length (variable_nodes c)) @
          concat (map node_bytes (variable_nodes c)))) cs acc
      = (Ok (acc @ concat (map component_bytes (map variable_nodes cs)))
          :: (planning_preparation_error, string) outcome)" for cs :: "mathematical_component list" and acc
    by (induction cs arbitrary: acc) (simp_all add: component_bytes_def)
  then show ?thesis by (simp add: hash_components_def i hash_preimage_def)
qed

subsection \<open>The whole analysis\<close>

definition final_forest :: "planning_problem \<Rightarrow> usize list" where
  "final_forest problem = (case unite_all (length (ordered_nodes problem)) (all_pairs problem) of
     Ok (par, _) \<Rightarrow> par | _ \<Rightarrow> [])"

definition problem_groups :: "planning_problem \<Rightarrow> string list list" where
  "problem_groups problem =
     sorted_groups (grouped_by (final_forest problem) (ordered_nodes problem))"

lemma final_forest:
  assumes "length (variables problem) \<le> u64_max"
  shows "\<exists>sz. unite_all (length (ordered_nodes problem)) (all_pairs problem)
      = Ok (final_forest problem, sz) \<and> uf_invar (final_forest problem) sz \<and>
      length (final_forest problem) = length (ordered_nodes problem)"
    and "i < length (ordered_nodes problem) \<Longrightarrow> j < length (ordered_nodes problem) \<Longrightarrow>
      root_of (final_forest problem) i = root_of (final_forest problem) j \<longleftrightarrow>
      (ordered_nodes problem ! i, ordered_nodes problem ! j) \<in> (linked problem)\<^sup>*"
proof -
  let ?n = "length (ordered_nodes problem)"
  have n: "?n \<le> u64_max" using assms length_ordered_nodes [of problem] by (rule le_trans [rotated])
  have p: "\<forall>(i, j) \<in> set (all_pairs problem). i < ?n \<and> j < ?n"
    using all_pairs_linked(1) [of _ _ problem] by blast
  from unite_all_uf [OF n p] obtain par sz where u: "unite_all ?n (all_pairs problem) = Ok (par, sz)"
    "uf_invar par sz" "length par = ?n"
    and s: "uf.same (par, sz) \<union> Id = (set (all_pairs problem) \<union> (set (all_pairs problem))\<inverse>)\<^sup>*"
    by blast
  have f: "final_forest problem = par" using u by (simp add: final_forest_def)
  show "\<exists>sz. unite_all ?n (all_pairs problem) = Ok (final_forest problem, sz) \<and>
      uf_invar (final_forest problem) sz \<and> length (final_forest problem) = ?n" using u f by blast
  assume ij: "i < ?n" "j < ?n"
  have "root_of par i = root_of par j \<longleftrightarrow> (i, j) \<in> uf.same (par, sz) \<union> Id"
    using ij u(3) by (auto simp: uf.same_def)
  then show "root_of (final_forest problem) i = root_of (final_forest problem) j \<longleftrightarrow>
      (ordered_nodes problem ! i, ordered_nodes problem ! j) \<in> (linked problem)\<^sup>*"
    unfolding s f connected_positions [OF ij] .
qed

lemma analyze_components_eq:
  assumes "length (variables problem) \<le> u64_max"
  shows "analyze_components blake3 problem = Ok \<lparr>
    components = name_components (problem_groups problem),
    edge_count = min (length (all_pairs problem)) u64_max,
    component_hash = blake3 (hash_preimage (map variable_nodes (name_components (problem_groups problem)))
      (min (length (all_pairs problem)) u64_max))\<rparr>"
proof -
  from final_forest(1) [OF assms] obtain sz where
    u: "unite_all (length (ordered_nodes problem)) (all_pairs problem) = Ok (final_forest problem, sz)"
    and inv: "uf_invar (final_forest problem) sz"
    and len: "length (final_forest problem) = length (ordered_nodes problem)" by blast
  have "each_o unite_pair (all_pairs problem)
      ([0..<length (ordered_nodes problem)], replicate (length (ordered_nodes problem)) 1)
    = Ok (final_forest problem, sz)"
    using u by (simp add: unite_all_def unite_pair_def [abs_def] uf_init_def)
  then have e: "uncontrolled (unite_problem problem (node_indexes (ordered_nodes problem))
      (([0..<length (ordered_nodes problem)], replicate (length (ordered_nodes problem)) 1), 0))
    = Ok ((final_forest problem, sz), min (length (all_pairs problem)) u64_max)"
    by (simp add: unite_problem_pairs)
  show ?thesis
    by (simp add: analyze_components_def analyze_components_inner_def declared_nodes_bind e [unfolded One_nat_def]
        uncontrolled_group_nodes [OF inv len] uncontrolled_sort_groups uncontrolled_hash_components
        problem_groups_def)
qed

lemma set_problem_groups:
  "set (problem_groups problem) = {sort (map encoded (class_of (final_forest problem)
      (ordered_nodes problem) (root_of (final_forest problem) i))) | i. i < length (ordered_nodes problem)}"
  by (simp add: problem_groups_def set_sorted_groups)

lemma problem_groups_class:
  assumes "length (variables problem) \<le> u64_max" and "i < length (ordered_nodes problem)"
  shows "encoded ` set (class_of (final_forest problem) (ordered_nodes problem)
      (root_of (final_forest problem) i))
    = encoded ` {y \<in> declared_set problem. (ordered_nodes problem ! i, y) \<in> (linked problem)\<^sup>*}"
proof -
  let ?o = "ordered_nodes problem" and ?L = "(linked problem)\<^sup>*"
  have "set (class_of (final_forest problem) ?o (root_of (final_forest problem) i))
      = {?o ! j | j. j < length ?o \<and> (?o ! i, ?o ! j) \<in> ?L}"
    unfolding set_class_of using final_forest(2) [OF assms] by (intro Collect_cong) metis
  also have "\<dots> = {y \<in> set ?o. (?o ! i, y) \<in> ?L}"
    unfolding set_conv_nth by blast
  finally show ?thesis by simp
qed

lemma set_set_problem_groups:
  assumes "length (variables problem) \<le> u64_max"
  shows "set ` set (problem_groups problem)
    = (\<lambda>x. encoded ` {y \<in> declared_set problem. (x, y) \<in> (linked problem)\<^sup>*}) ` declared_set problem"
    (is "_ = ?C ` _")
proof -
  have "set ` set (problem_groups problem)
      = {?C (ordered_nodes problem ! i) | i. i < length (ordered_nodes problem)}"
    unfolding set_problem_groups setcompr_eq_image image_image
    by (rule image_cong) (simp_all add: problem_groups_class [OF assms])
  also have "\<dots> = ?C ` set (ordered_nodes problem)"
    unfolding set_conv_nth by blast
  finally show ?thesis by simp
qed

lemma distinct_problem_groups: "distinct (concat (problem_groups problem))"
  unfolding problem_groups_def by (rule distinct_groups) simp

lemma set_concat_problem_groups:
  assumes "length (variables problem) \<le> u64_max"
  shows "set (concat (problem_groups problem)) = encoded ` declared_set problem"
proof -
  have "set (concat (problem_groups problem)) = \<Union> (set ` set (problem_groups problem))" by simp
  also have "\<dots> = encoded ` declared_set problem"
    unfolding set_set_problem_groups [OF assms] by blast
  finally show ?thesis .
qed

lemma length_le_concat: "[] \<notin> set xss \<Longrightarrow> length xss \<le> length (concat xss)"
proof (induction xss)
  case (Cons xs xss)
  then show ?case by (cases xs) auto
qed simp

lemma length_problem_groups:
  assumes "length (variables problem) \<le> u64_max"
  shows "length (problem_groups problem) \<le> length (variables problem)"
proof -
  have "[] \<notin> set (problem_groups problem)"
  proof
    assume "[] \<in> set (problem_groups problem)"
    then obtain i where i: "i < length (ordered_nodes problem)"
      and "sort (map encoded (class_of (final_forest problem) (ordered_nodes problem)
        (root_of (final_forest problem) i))) = []"
      unfolding set_problem_groups by auto
    then have "set (map encoded (class_of (final_forest problem) (ordered_nodes problem)
        (root_of (final_forest problem) i))) = {}" by (metis set_sort set_empty)
    with class_of_nonempty [OF i, of "final_forest problem"] show False by simp
  qed
  then have "length (problem_groups problem) \<le> length (concat (problem_groups problem))"
    by (rule length_le_concat)
  also have "\<dots> = card (encoded ` declared_set problem)"
    unfolding set_concat_problem_groups [OF assms, symmetric]
    by (rule distinct_card [symmetric]) (rule distinct_problem_groups)
  also have "\<dots> \<le> length (variables problem)"
    unfolding declared_set_def image_image using card_length card_image_le by (metis finite_set le_trans)
  finally show ?thesis .
qed

text \<open>
  The specification of the analysis: the components partition the encoded declared nodes, two nodes
  share a component exactly if the hyperedges connect them, components and their nodes are in
  canonical order and named by position, the edge counter saturates, and the hash covers the
  components and the counter.
\<close>

definition component_partition :: "planning_problem \<Rightarrow> mathematical_component list \<Rightarrow> bool" where
  "component_partition problem cs \<longleftrightarrow>
     distinct (concat (map variable_nodes cs)) \<and>
     set (concat (map variable_nodes cs)) = encoded ` declared_set problem \<and>
     (\<forall>x \<in> declared_set problem. \<forall>y \<in> declared_set problem.
        (\<exists>c \<in> set cs. encoded x \<in> set (variable_nodes c) \<and> encoded y \<in> set (variable_nodes c))
          \<longleftrightarrow> (x, y) \<in> (linked problem)\<^sup>*)"

definition canonical_components :: "mathematical_component list \<Rightarrow> bool" where
  "canonical_components cs \<longleftrightarrow>
     map component_id cs = map (\<lambda>i. ''component.c'' @ show_nat i) [0..<length cs] \<and>
     sorted (map variable_nodes cs) \<and> (\<forall>c \<in> set cs. sorted (variable_nodes c))"

lemma linked_rtrancl_sym: "(x, y) \<in> (linked problem)\<^sup>* \<Longrightarrow> (y, x) \<in> (linked problem)\<^sup>*"
  using sym_rtrancl [OF symI [of "linked problem", OF linked_sym]] by (rule symD)

lemma problem_groups_partition:
  assumes "length (variables problem) \<le> u64_max"
    and x: "x \<in> declared_set problem" and y: "y \<in> declared_set problem"
  shows "(\<exists>g \<in> set (problem_groups problem). encoded x \<in> set g \<and> encoded y \<in> set g)
    \<longleftrightarrow> (x, y) \<in> (linked problem)\<^sup>*"
proof -
  let ?C = "\<lambda>x. encoded ` {y \<in> declared_set problem. (x, y) \<in> (linked problem)\<^sup>*}"
  have "(\<exists>g \<in> set (problem_groups problem). encoded x \<in> set g \<and> encoded y \<in> set g) \<longleftrightarrow>
      (\<exists>G \<in> set ` set (problem_groups problem). encoded x \<in> G \<and> encoded y \<in> G)" by blast
  also have "\<dots> \<longleftrightarrow> (\<exists>z \<in> declared_set problem. encoded x \<in> ?C z \<and> encoded y \<in> ?C z)"
    unfolding set_set_problem_groups [OF assms(1)] by blast
  also have "\<dots> \<longleftrightarrow> (\<exists>z \<in> declared_set problem.
      (z, x) \<in> (linked problem)\<^sup>* \<and> (z, y) \<in> (linked problem)\<^sup>*)"
    using x y by (auto simp: image_iff)
  also have "\<dots> \<longleftrightarrow> (x, y) \<in> (linked problem)\<^sup>*"
  proof
    assume "\<exists>z \<in> declared_set problem. (z, x) \<in> (linked problem)\<^sup>* \<and> (z, y) \<in> (linked problem)\<^sup>*"
    then obtain z where "(z, x) \<in> (linked problem)\<^sup>*" "(z, y) \<in> (linked problem)\<^sup>*" by (elim bexE conjE)
    then show "(x, y) \<in> (linked problem)\<^sup>*" by (rule rtrancl_trans [OF linked_rtrancl_sym])
  qed (use x in auto)
  finally show ?thesis .
qed

text \<open>
  C7: The component analysis never panics and computes the connected components: its components
  partition the declared nodes, two nodes share one exactly if the hyperedges of the problem
  connect them, they are sorted and named by position, the edge counter is the saturated number of
  unions, and the hash is taken over the components and the counter.
\<close>

theorem analyze_components_correct:
  assumes "length (variables problem) \<le> u64_max"
  shows "\<exists>a. analyze_components blake3 problem = Ok a \<and>
    component_partition problem (components a) \<and> canonical_components (components a) \<and>
    edge_count a = min (length (all_pairs problem)) u64_max \<and>
    component_hash a = blake3 (hash_preimage (map variable_nodes (components a)) (edge_count a))"
proof -
  let ?g = "problem_groups problem"
  have len: "length ?g \<le> u64_max" using length_problem_groups [OF assms] assms by (rule le_trans)
  note nodes = name_components_proj(1) [OF len] and ids = name_components_proj(2) [OF len]
  have l: "length (name_components ?g) = length ?g" using arg_cong [OF nodes, of length] by simp
  have ex: "(\<exists>c \<in> set (name_components ?g). P (variable_nodes c)) \<longleftrightarrow> (\<exists>g \<in> set ?g. P g)" for P
  proof -
    have "set ?g = variable_nodes ` set (name_components ?g)" using arg_cong [OF nodes, of set] by simp
    then show ?thesis by simp
  qed
  have "component_partition problem (name_components ?g)"
    unfolding component_partition_def nodes
    by (intro conjI ballI distinct_problem_groups set_concat_problem_groups assms
        trans [OF ex problem_groups_partition])
  moreover have "canonical_components (name_components ?g)"
  proof -
    have "\<not> (\<exists>g \<in> set ?g. \<not> sorted g)"
      unfolding problem_groups_def sorted_groups_def by simp
    then have "\<forall>c \<in> set (name_components ?g). sorted (variable_nodes c)"
      using ex [of "\<lambda>g. \<not> sorted g"] by blast
    moreover have "sorted ?g" by (simp add: problem_groups_def sorted_groups_def)
    ultimately show ?thesis unfolding canonical_components_def nodes ids l by blast
  qed
  ultimately show ?thesis unfolding analyze_components_eq [OF assms] by auto
qed

theorem analyze_components_correct_witness:
  "\<exists>a. analyze_components (\<lambda>bytes. ''digest'') sample_problem = Ok a \<and>
    component_partition sample_problem (components a) \<and>
    map variable_nodes (components a) =
      [[''bool:bool.a'', ''bool:bool.b'', ''int:int.d'', ''int:int.e'', ''int:int.s'', ''interval:interval.i''],
       [''int:int.x'', ''int:int.y'']] \<and> edge_count a = 7"
proof -
  have v: "map_ok (\<lambda>a. (map variable_nodes (components a), edge_count a))
      (analyze_components (\<lambda>bytes. ''digest'') sample_problem) = Ok
      ([[''bool:bool.a'', ''bool:bool.b'', ''int:int.d'', ''int:int.e'', ''int:int.s'', ''interval:interval.i''],
       [''int:int.x'', ''int:int.y'']], 7)"
    by code_simp
  have "length (variables sample_problem) \<le> u64_max" by code_simp
  from analyze_components_correct [OF this, of "\<lambda>bytes. ''digest''"] obtain a where
    a: "analyze_components (\<lambda>bytes. ''digest'') sample_problem = Ok a"
    and p: "component_partition sample_problem (components a)" by blast
  from v have "map variable_nodes (components a) =
      [[''bool:bool.a'', ''bool:bool.b'', ''int:int.d'', ''int:int.e'', ''int:int.s'', ''interval:interval.i''],
       [''int:int.x'', ''int:int.y'']]" and "edge_count a = 7"
    unfolding a map_ok_simps outcome.inject prod.inject by (rule conjunct1, elim conjunct2)
  with a p show ?thesis by (intro exI conjI)
qed

text \<open>
  C20: The analysis under a preparation budget never panics; when it succeeds it computes what the
  analysis without a budget computes and the only transient bytes left are those of the
  reservation the result owns; when it fails every byte has been given back.
\<close>

theorem analyze_components_with_budget_balanced:
  assumes "length (variables problem) \<le> u64_max"
    and "analyze_components_with_budget blake3 problem b = (r, b')"
  shows "spends b b' \<and> (case r of
      Ok x \<Rightarrow> analyze_components blake3 problem = Ok (analysis x) \<and>
        transient_bytes b' = transient_bytes b + bytes_of (reservation x)
    | Err e \<Rightarrow> transient_bytes b' = transient_bytes b
    | Abort \<Rightarrow> False)"
proof -
  let ?m = "analyze_components_inner blake3 problem"
  from analyze_components_eq [OF assms(1), of blake3] have u: "uncontrolled ?m \<noteq> Abort"
    by (auto simp: analyze_components_def split: outcome.splits)
  from assms(2) have c: "controlled ?m b = (r, b')" by (simp add: analyze_components_with_budget_def)
  note H = holdsD [OF holds_analyze c]
  show ?thesis
  proof (cases r)
    case (Ok x)
    with c have "map_ok analysis (uncontrolled ?m) = Ok (analysis x)"
      by (intro agrees_onD [OF agrees_on_analyze]) simp
    then have "analyze_components blake3 problem = Ok (analysis x)"
      by (cases "uncontrolled ?m") (simp_all add: analyze_components_def map_ok_def)
    with H(1,2) Ok show ?thesis by simp
  next
    case (Err e)
    with H(1,3) show ?thesis by simp
  next
    case Abort
    with H(4) u show ?thesis by simp
  qed
qed

theorem analyze_components_with_budget_balanced_witness:
  "\<exists>x b'. analyze_components_with_budget (\<lambda>bytes. ''digest'') sample_problem
      (budget_uncontrolled default_limits) = (Ok x, b') \<and>
    analyze_components (\<lambda>bytes. ''digest'') sample_problem = Ok (analysis x) \<and>
    bytes_of (reservation x) = 12288 \<and>
    transient_bytes b' = transient_bytes (budget_uncontrolled default_limits) + 12288"
proof -
  let ?c = "analyze_components_with_budget (\<lambda>bytes. ''digest'') sample_problem
    (budget_uncontrolled default_limits)"
  have v: "map_ok (\<lambda>x. bytes_of (reservation x)) (fst ?c) = Ok 12288" by code_simp
  then obtain x where x: "fst ?c = Ok x" and r: "bytes_of (reservation x) = 12288"
    by (cases "fst ?c") (auto simp: map_ok_def)
  have e: "?c = (Ok x, snd ?c)" using x by (simp only: prod_eq_iff fst_conv snd_conv)
  have "length (variables sample_problem) \<le> u64_max" by code_simp
  from analyze_components_with_budget_balanced [OF this e] r e show ?thesis
    by (simp only: outcome.case) blast
qed

end
