(* ===== verification/Component_Hash.thy ===== *)
theory Component_Hash
  imports Component_Correctness
begin

section \<open>The component hash binds the components\<close>

text \<open>
  \<open>hash_components\<close> feeds the hasher a length-prefixed encoding. The encoding is injective, so
  two analyses with the same hash differ only where BLAKE3 itself collides.
\<close>

lemma digits_determine:
  fixes n m b :: nat
  assumes "\<And>i. i < k \<Longrightarrow> n div b ^ i mod b = m div b ^ i mod b"
  shows "n mod b ^ k = m mod b ^ k"
  using assms
proof (induction k)
  case (Suc k)
  have "x mod b ^ Suc k = b ^ k * (x div b ^ k mod b) + x mod b ^ k" for x
    using mod_mult2_eq [of x "b ^ k" b] by (simp add: mult.commute)
  then show ?case using Suc.IH Suc.prems [of k] Suc.prems by simp
qed simp

lemma length_le_bytes [simp]: "length (le_bytes n) = 8"
  by (simp add: le_bytes_def)

lemma le_bytes_inject:
  assumes "n \<le> u64_max" "m \<le> u64_max"
  shows "le_bytes n = le_bytes m \<longleftrightarrow> n = m"
proof
  assume eq: "le_bytes n = le_bytes m"
  have "n div 256 ^ i mod 256 = m div 256 ^ i mod 256" if "i < 8" for i
  proof -
    have "(char_of (n div 256 ^ i mod 256) :: char) = char_of (m div 256 ^ i mod 256)"
      using arg_cong [OF eq, of "\<lambda>xs. xs ! i"] that by (simp add: le_bytes_def)
    then have "(of_char (char_of (n div 256 ^ i mod 256) :: char) :: nat)
        = of_char (char_of (m div 256 ^ i mod 256) :: char)" by simp
    then show ?thesis by simp
  qed
  then have "n mod 256 ^ 8 = m mod 256 ^ 8" by (rule digits_determine)
  then show "n = m" using assms by (simp add: u64_max_def)
qed simp

definition small :: "'a list \<Rightarrow> bool" where
  "small xs \<longleftrightarrow> length xs \<le> u64_max"

lemma node_bytes_prefix:
  assumes "small a" "small b" "node_bytes a @ x = node_bytes b @ y"
  shows "a = b \<and> x = y"
proof -
  from assms(3) have l: "le_bytes (length a) = le_bytes (length b)" and r: "a @ x = b @ y"
    by (simp_all add: node_bytes_def)
  from l assms(1,2) have "length a = length b" by (simp add: le_bytes_inject small_def)
  with r show ?thesis by simp
qed

lemma nodes_bytes_prefix:
  assumes "length ns = length ms" "\<forall>n \<in> set (ns @ ms). small n"
    and "concat (map node_bytes ns) @ x = concat (map node_bytes ms) @ y"
  shows "ns = ms \<and> x = y"
  using assms
proof (induction ns ms arbitrary: x y rule: list_induct2)
  case (Cons n ns m ms)
  from Cons.prems have e: "node_bytes n @ (concat (map node_bytes ns) @ x)
      = node_bytes m @ (concat (map node_bytes ms) @ y)" by simp
  have "small n" "small m" using Cons.prems by simp_all
  from node_bytes_prefix [OF this e] Cons.IH [of x y] Cons.prems show ?case by simp
qed simp

lemma component_bytes_prefix:
  assumes "small g" "small h" "\<forall>n \<in> set (g @ h). small n"
    and "component_bytes g @ x = component_bytes h @ y"
  shows "g = h \<and> x = y"
proof -
  from assms(4) have l: "le_bytes (length g) = le_bytes (length h)"
    and r: "concat (map node_bytes g) @ x = concat (map node_bytes h) @ y"
    by (simp_all add: component_bytes_def)
  from l assms(1,2) have "length g = length h" by (simp add: le_bytes_inject small_def)
  from nodes_bytes_prefix [OF this assms(3) r] show ?thesis .
qed

definition small_groups :: "string list list \<Rightarrow> bool" where
  "small_groups gs \<longleftrightarrow> (\<forall>g \<in> set gs. small g \<and> (\<forall>n \<in> set g. small n))"

lemma component_bytes_nonempty [simp]: "component_bytes g \<noteq> []"
  by (metis component_bytes_def append_is_Nil_conv length_le_bytes list.size(3) zero_neq_numeral)

lemma components_bytes_inject:
  assumes "small_groups gs" "small_groups hs"
    and "concat (map component_bytes gs) = concat (map component_bytes hs)"
  shows "gs = hs"
  using assms
proof (induction gs arbitrary: hs)
  case Nil
  then show ?case by (cases hs) auto
next
  case (Cons g gs)
  then obtain h hs' where hs: "hs = h # hs'" by (cases hs) auto
  from Cons.prems(3) have e: "component_bytes g @ concat (map component_bytes gs)
      = component_bytes h @ concat (map component_bytes hs')" by (simp add: hs)
  have s: "small g" "small h" "\<forall>n \<in> set (g @ h). small n"
    using Cons.prems(1,2) by (auto simp: small_groups_def hs)
  from component_bytes_prefix [OF s e] have "g = h"
    and "concat (map component_bytes gs) = concat (map component_bytes hs')" by auto
  with Cons.IH [of hs'] Cons.prems(1,2) show ?case by (simp add: small_groups_def hs)
qed

lemma hash_preimage_inject:
  assumes "small_groups gs" "small_groups hs" "n \<le> u64_max" "m \<le> u64_max"
    and "hash_preimage gs n = hash_preimage hs m"
  shows "gs = hs \<and> n = m"
proof -
  from assms(5) have "le_bytes n = le_bytes m"
    and c: "concat (map component_bytes gs) = concat (map component_bytes hs)"
    by (simp_all add: hash_preimage_def)
  with assms(3,4) components_bytes_inject [OF assms(1,2) c] show ?thesis by (simp add: le_bytes_inject)
qed

text \<open>Sizes every value of the program has: vectors and strings have 64-bit lengths.\<close>

definition sized :: "planning_problem \<Rightarrow> bool" where
  "sized problem \<longleftrightarrow> length (variables problem) \<le> u64_max \<and>
     list_all (\<lambda>v. length (canonical_id v) + 9 \<le> u64_max) (variables problem)"

lemma small_problem_groups:
  assumes "sized problem"
  shows "small_groups (problem_groups problem)"
proof -
  have v: "length (variables problem) \<le> u64_max" using assms by (simp add: sized_def)
  have "small g \<and> (\<forall>n \<in> set g. small n)" if g: "g \<in> set (problem_groups problem)" for g
  proof -
    have d: "distinct g" using distinct_problem_groups [of problem] g
      by (meson distinct_concat_iff)
    have sub: "set g \<subseteq> encoded ` node_of ` set (variables problem)"
      using g set_concat_problem_groups [OF v] by (auto simp: declared_set_def)
    have "length g = card (set g)" using d by (simp add: distinct_card)
    also have "\<dots> \<le> card (encoded ` node_of ` set (variables problem))"
      by (rule card_mono [OF _ sub]) simp
    also have "\<dots> \<le> length (variables problem)"
      unfolding image_image using card_length card_image_le by (metis finite_set le_trans)
    finally have "small g" using v by (simp add: small_def)
    moreover have "small (encoded (node_of x))" if "x \<in> set (variables problem)" for x
    proof -
      have "length (encoded (node_of x)) \<le> length (canonical_id x) + 9" by (cases x) simp_all
      with assms that show ?thesis by (auto simp: sized_def small_def list_all_iff)
    qed
    ultimately show ?thesis using sub by blast
  qed
  then show ?thesis by (simp add: small_groups_def)
qed

definition hashed_bytes :: "component_analysis \<Rightarrow> string" where
  "hashed_bytes a = hash_preimage (map variable_nodes (components a)) (edge_count a)"

text \<open>
  C27: Two analyses with the same component hash have the same components and edge count, unless
  the two encodings are a collision of the hash function.
\<close>

theorem component_hash_binding:
  assumes "sized p" "sized q"
    and "analyze_components blake3 p = Ok a" "analyze_components blake3 q = Ok c"
    and "component_hash a = component_hash c"
  shows "components a = components c \<and> edge_count a = edge_count c \<or>
    hashed_bytes a \<noteq> hashed_bytes c \<and> blake3 (hashed_bytes a) = blake3 (hashed_bytes c)"
proof -
  have *: "\<exists>gs n. small_groups gs \<and> n \<le> u64_max \<and> components r = name_components gs \<and>
      edge_count r = n \<and> hashed_bytes r = hash_preimage gs n \<and> component_hash r = blake3 (hashed_bytes r)"
    if "sized s" "analyze_components blake3 s = Ok r" for s r
  proof -
    from that(1) have v: "length (variables s) \<le> u64_max" by (simp add: sized_def)
    have "length (problem_groups s) \<le> u64_max"
      using length_problem_groups [OF v] v by (rule le_trans)
    from name_components_proj(1) [OF this] small_problem_groups [OF that(1)]
      that(2) [unfolded analyze_components_eq [OF v]]
    show ?thesis by (intro exI [of _ "problem_groups s"]) (auto simp: hashed_bytes_def)
  qed
  from * [OF assms(1,3)] obtain gs n where a: "small_groups gs" "n \<le> u64_max"
    "components a = name_components gs" "edge_count a = n"
    "hashed_bytes a = hash_preimage gs n" "component_hash a = blake3 (hashed_bytes a)" by blast
  from * [OF assms(2,4)] obtain hs m where c: "small_groups hs" "m \<le> u64_max"
    "components c = name_components hs" "edge_count c = m"
    "hashed_bytes c = hash_preimage hs m" "component_hash c = blake3 (hashed_bytes c)" by blast
  show ?thesis
  proof (cases "hash_preimage gs n = hash_preimage hs m")
    case True
    from hash_preimage_inject [OF a(1) c(1) a(2) c(2) True] a c show ?thesis by simp
  next
    case False
    with a(5,6) c(5,6) assms(5) show ?thesis by simp
  qed
qed

theorem component_hash_binding_witness:
  "\<exists>a c. analyze_components (\<lambda>bytes. bytes) sample_problem = Ok a \<and>
    analyze_components (\<lambda>bytes. bytes) (sample_problem\<lparr>schema_version := 7\<rparr>) = Ok c \<and>
    component_hash a = component_hash c \<and> components a = components c \<and> edge_count a = edge_count c"
proof -
  let ?q = "sample_problem\<lparr>schema_version := 7\<rparr>"
  have s: "sized sample_problem" "sized ?q" by code_simp+
  then have v: "length (variables sample_problem) \<le> u64_max" "length (variables ?q) \<le> u64_max"
    by (simp_all only: sized_def)
  from analyze_components_eq [OF v(1)] analyze_components_eq [OF v(2)] obtain a c where
    a: "analyze_components (\<lambda>bytes. bytes) sample_problem = Ok a" and
    c: "analyze_components (\<lambda>bytes. bytes) ?q = Ok c" by blast
  have "map_ok component_hash (analyze_components (\<lambda>bytes. bytes) sample_problem)
      = map_ok component_hash (analyze_components (\<lambda>bytes. bytes) ?q)"
    by code_simp
  then have h: "component_hash a = component_hash c"
    unfolding a c map_ok_simps outcome.inject .
  from component_hash_binding [OF s a c h] have "components a = components c \<and> edge_count a = edge_count c"
    by (elim disjE conjE) simp_all
  with a c h show ?thesis by (intro exI conjI) auto
qed

end
