(* ===== verification/Validation_Checks.thy ===== *)
theory Validation_Checks
  imports Planning_Model Traversal
begin

section \<open>Validation: domains, expressions and constraints\<close>

text \<open>
  The checks of \<open>crates/eutheto-planning-ir/src/validation.rs\<close> on one value: text and limits,
  strict order, domains, linear expressions, interval equations and constraint bodies. A
  \<open>ValidationContext\<close> is an optional budget, so the checks are traversals with two kinds of
  error: the model is invalid, or the preparation budget stopped the walk. Identifier sets are
  finite sets, the domain index an ordered map.
\<close>

subsection \<open>Errors\<close>

datatype validation_code =
    UnsupportedVersion | MalformedJson | LimitExceeded | DuplicateId | MissingReference
  | MissingProvenance | NonCanonical | InvalidDomain | InvalidShape | ValidationOverflow
  | ValueOutOfBounds | InvalidObjectiveBounds | InvalidProjection | ProvenanceCycle
  | OrphanProvenance | UndeclaredCapability | InvalidSplitAuthorization

record validation_error =
  code :: validation_code
  error_path :: string

datatype budgeted_validation_error =
    Invalid validation_error
  | Preparation planning_preparation_error

type_synonym 'a checked = "(validation_error, 'a) outcome"
type_synonym 'a checks = "(budgeted_validation_error, 'a) prep"

definition reject :: "validation_code \<Rightarrow> string \<Rightarrow> 'a checked" where
  "reject c path = Err \<lparr>code = c, error_path = path\<rparr>"

definition duplicate :: "string \<Rightarrow> 'a checked" where
  "duplicate path = reject DuplicateId path"

definition noncanonical :: "string \<Rightarrow> 'a checked" where
  "noncanonical path = reject NonCanonical path"

definition shape :: "string \<Rightarrow> 'a checked" where
  "shape path = reject InvalidShape path"

text \<open>\<open>?\<close> on a check that needs no context, and \<open>ValidationContext::visit\<close>.\<close>

definition lift_v :: "'a checked \<Rightarrow> 'a checks" where
  "lift_v r = lift_o (map_err Invalid r)"

definition visit_v :: "unit checks" where
  "visit_v = map_err_p Preparation visit"

definition work_v :: "u64 \<Rightarrow> unit checks" where
  "work_v n = map_err_p Preparation (if_budget (reserve_work n))"

definition require :: "bool \<Rightarrow> validation_code \<Rightarrow> string \<Rightarrow> unit checked" where
  "require p c path = (if p then Ok () else reject c path)"

definition checked_v :: "'a option \<Rightarrow> string \<Rightarrow> 'a checked" where
  "checked_v v path = (case v of None \<Rightarrow> reject ValidationOverflow path | Some x \<Rightarrow> Ok x)"

definition indexed :: "string \<Rightarrow> nat \<Rightarrow> string \<Rightarrow> string" where
  "indexed prefix index suffix = prefix @ ''['' @ show_nat index @ '']'' @ suffix"

subsection \<open>Scalars and order\<close>

definition cast_unsigned :: "i64 \<Rightarrow> u64" where
  "cast_unsigned v = nat (v mod 18446744073709551616)"

definition unsigned_abs :: "i64 \<Rightarrow> u64" where
  "unsigned_abs v = nat \<bar>v\<bar>"

definition check_value :: "i64 \<Rightarrow> planning_ir_limits \<Rightarrow> string \<Rightarrow> unit checked" where
  "check_value v limits path =
     (if unsigned_abs v > cast_unsigned (max_abs_value limits) then reject ValueOutOfBounds path
      else Ok ())"

definition check_text :: "string \<Rightarrow> u64 \<Rightarrow> string \<Rightarrow> unit checked" where
  "check_text v maximum path =
     (if v = [] \<or> length v > maximum then reject LimitExceeded path else Ok ())"

definition check_limit :: "usize \<Rightarrow> u64 \<Rightarrow> string \<Rightarrow> unit checked" where
  "check_limit v maximum path = (if v > maximum then reject LimitExceeded path else Ok ())"

definition add_refs :: "u64 \<Rightarrow> u64 \<Rightarrow> planning_ir_limits \<Rightarrow> u64 checked" where
  "add_refs tot additional limits =
     bind_o (checked_v (u64_checked_add tot additional) ''totalReferences'') (\<lambda>v.
       if v > max_total_refs limits then reject LimitExceeded ''totalReferences'' else Ok v)"

definition strict_by_with_context :: "('a \<Rightarrow> 'k::linorder) \<Rightarrow> 'a list \<Rightarrow> string \<Rightarrow> unit checks" where
  "strict_by_with_context key xs path =
     check_each (\<lambda>(a, b). then_p visit_v
       (lift_v (if key a \<ge> key b then noncanonical path else Ok ()))) (windows2 xs)"

definition strict_with_context :: "'a::linorder list \<Rightarrow> string \<Rightarrow> unit checks" where
  "strict_with_context xs path =
     check_each (\<lambda>(a, b). then_p visit_v
       (lift_v (if a \<ge> b then noncanonical path else Ok ()))) (windows2 xs)"

subsection \<open>References\<close>

record variable_references =
  ref_provenance :: "provenance_id set"
  ref_bools :: "bool_variable_id set"
  ref_ints :: "(int_variable_id, int_domain) btree_map"
  ref_intervals :: "interval_variable_id set"

definition require_bool :: "bool_variable_id \<Rightarrow> bool_variable_id set \<Rightarrow> string \<Rightarrow> unit checked" where
  "require_bool v bools path = (if v \<in> bools then Ok () else reject MissingReference path)"

definition require_literal :: "literal \<Rightarrow> bool_variable_id set \<Rightarrow> string \<Rightarrow> unit checked" where
  "require_literal l bools path = require_bool (lit_variable l) bools path"

definition require_int ::
    "int_variable_id \<Rightarrow> (int_variable_id, int_domain) btree_map \<Rightarrow> string \<Rightarrow> int_domain checked" where
  "require_int v ints path =
     (case bt_get ints v of None \<Rightarrow> reject MissingReference path | Some d \<Rightarrow> Ok d)"

definition require_interval ::
    "interval_variable_id \<Rightarrow> interval_variable_id set \<Rightarrow> string \<Rightarrow> unit checked" where
  "require_interval v intervals path = (if v \<in> intervals then Ok () else reject MissingReference path)"

definition require_provenance :: "provenance_id \<Rightarrow> provenance_id set \<Rightarrow> string \<Rightarrow> unit checked" where
  "require_provenance v known path =
     (if v \<in> known then Ok () else reject MissingProvenance path)"

subsection \<open>Domains and expressions\<close>

definition validate_domain :: "int_domain \<Rightarrow> planning_ir_limits \<Rightarrow> string \<Rightarrow> unit checks" where
  "validate_domain domain limits path =
     then_p (lift_v (check_limit (length (inclusive_ranges domain)) (max_domain_ranges limits) path))
    (then_p (check_each (\<lambda>_. visit_v) (inclusive_ranges domain))
    (bind_p (lift_v (map_err (\<lambda>_. \<lparr>code = InvalidDomain, error_path = path\<rparr>)
               (int_domain_new (inclusive_ranges domain)))) (\<lambda>normalized.
     then_p (lift_v (if normalized \<noteq> domain then noncanonical path else Ok ()))
    (check_each (\<lambda>rng. then_p visit_v
       (then_p (lift_v (check_value (range_start rng) limits path))
          (lift_v (check_value (range_end rng) limits path)))) (inclusive_ranges domain)))))"

definition term_bounds ::
    "linear_term \<Rightarrow> (int_variable_id, int_domain) btree_map \<Rightarrow> planning_ir_limits \<Rightarrow> string
       \<Rightarrow> i64 \<times> i64 \<Rightarrow> (i64 \<times> i64) checked" where
  "term_bounds t ints limits path bounds =
     (if coefficient t = 0 \<or> unsigned_abs (coefficient t) > cast_unsigned (max_abs_coefficient limits)
      then reject ValueOutOfBounds path
      else
        bind_o (require_int (term_variable t) ints path) (\<lambda>domain.
        bind_o (case domain_bounds domain of None \<Rightarrow> reject InvalidDomain path | Some b \<Rightarrow> Ok b)
          (\<lambda>(lower, upper).
        bind_o (checked_v (i64_checked_mul (coefficient t) lower) path) (\<lambda>first.
        bind_o (checked_v (i64_checked_mul (coefficient t) upper) path) (\<lambda>second.
        bind_o (checked_v (i64_checked_add (fst bounds) (min first second)) path) (\<lambda>minimum.
        bind_o (checked_v (i64_checked_add (snd bounds) (max first second)) path) (\<lambda>maximum.
          Ok (minimum, maximum))))))))"

definition expression_bounds ::
    "linear_expression \<Rightarrow> (int_variable_id, int_domain) btree_map \<Rightarrow> planning_ir_limits \<Rightarrow> string
       \<Rightarrow> (i64 \<times> i64) checks" where
  "expression_bounds e ints limits path =
     then_p (strict_by_with_context term_variable (expr_terms e) path)
    (then_p (lift_v (check_value (expr_constant e) limits path))
    (each_p (\<lambda>t bounds. then_p visit_v (lift_v (term_bounds t ints limits path bounds)))
       (expr_terms e) (expr_constant e, expr_constant e)))"

definition validate_comparison ::
    "linear_comparison \<Rightarrow> (int_variable_id, int_domain) btree_map \<Rightarrow> planning_ir_limits \<Rightarrow> string
       \<Rightarrow> unit checks" where
  "validate_comparison comparison ints limits path =
     bind_p (expression_bounds (comparison_expression comparison) ints limits path) (\<lambda>_.
       lift_v (check_value (comparison_rhs comparison) limits path))"

definition prove_abs_bounds :: "int_domain \<Rightarrow> int_domain \<Rightarrow> string \<Rightarrow> unit checked" where
  "prove_abs_bounds left right path =
     bind_o (case domain_bounds left of None \<Rightarrow> reject InvalidDomain path | Some b \<Rightarrow> Ok b)
       (\<lambda>(left_min, left_max).
     bind_o (case domain_bounds right of None \<Rightarrow> reject InvalidDomain path | Some b \<Rightarrow> Ok b)
       (\<lambda>(right_min, right_max).
     bind_o (checked_v (Option.bind (i64_checked_sub left_min right_max) i64_checked_abs) path) (\<lambda>_.
     bind_o (checked_v (Option.bind (i64_checked_sub left_max right_min) i64_checked_abs) path) (\<lambda>_.
       Ok ()))))"

subsection \<open>Interval equations\<close>

definition domain_intersects_range :: "int_domain \<Rightarrow> i64 \<Rightarrow> i64 \<Rightarrow> bool" where
  "domain_intersects_range domain minimum maximum =
     (let first_after_maximum =
        partition_point (\<lambda>rng. range_start rng \<le> maximum) (inclusive_ranges domain)
      in first_after_maximum \<noteq> 0 \<and>
         (case rev (take first_after_maximum (inclusive_ranges domain)) of
            [] \<Rightarrow> False | rng # _ \<Rightarrow> range_end rng \<ge> minimum))"

text \<open>
  The nested loop over the ranges of start and duration. The inner state is the flag
  \<open>has_representable_sum\<close> and whether the function has returned with success.
\<close>

definition interval_pair ::
    "int_domain \<Rightarrow> inclusive_range \<Rightarrow> inclusive_range \<Rightarrow> bool \<times> bool \<Rightarrow> bool \<times> bool" where
  "interval_pair end_domain start_range duration_range st =
     (let duration_minimum = max (range_start duration_range) 0 in
      if duration_minimum > range_end duration_range then st
      else (case i64_checked_add (range_start start_range) duration_minimum of
              None \<Rightarrow> st
            | Some sum_minimum \<Rightarrow>
                let sum_maximum = (case i64_checked_add (range_end start_range) (range_end duration_range)
                                   of None \<Rightarrow> i64_max | Some s \<Rightarrow> s)
                in (True, domain_intersects_range end_domain sum_minimum sum_maximum)))"

definition interval_scan ::
    "int_domain \<Rightarrow> int_domain \<Rightarrow> int_domain \<Rightarrow> (bool \<times> bool) checks" where
  "interval_scan start duration end_domain =
     each_p (\<lambda>start_range st.
       if snd st then ret st
       else then_p visit_v
         (each_p (\<lambda>duration_range st.
            if snd st then ret st
            else then_p visit_v (ret (interval_pair end_domain start_range duration_range st)))
          (inclusive_ranges duration) st))
       (inclusive_ranges start) (False, False)"

definition validate_interval_equation ::
    "int_domain \<Rightarrow> int_domain \<Rightarrow> int_domain \<Rightarrow> nat \<Rightarrow> unit checks" where
  "validate_interval_equation start duration end_domain index =
     (let has_nonnegative_duration =
        list_ex (\<lambda>rng. range_end rng \<ge> 0) (inclusive_ranges duration)
      in bind_p (interval_scan start duration end_domain) (\<lambda>(has_representable_sum, found).
           lift_v (if found then Ok ()
             else reject (if \<not> has_nonnegative_duration \<or> has_representable_sum then InvalidDomain
                          else ValidationOverflow) (indexed ''variables'' index ''''))))"

subsection \<open>Tables\<close>

datatype ordering = OrdLess | OrdEqual | OrdGreater

definition cmp :: "'a::linorder \<Rightarrow> 'a \<Rightarrow> ordering" where
  "cmp a b = (if a < b then OrdLess else if a = b then OrdEqual else OrdGreater)"

fun first_difference :: "(i64 \<times> i64) list \<Rightarrow> ordering option checks" where
  "first_difference [] = ret None"
| "first_difference ((l, r) # ps) =
     then_p visit_v (if l \<noteq> r then ret (Some (cmp l r)) else first_difference ps)"

definition strict_table_rows_with_context :: "i64 list list \<Rightarrow> string \<Rightarrow> unit checks" where
  "strict_table_rows_with_context rows path =
     check_each (\<lambda>(a, b). then_p visit_v
       (bind_p (first_difference (zip a b)) (\<lambda>ordering.
          lift_v (if (case ordering of None \<Rightarrow> cmp (length a) (length b) | Some o' \<Rightarrow> o') \<noteq> OrdLess
                  then noncanonical path else Ok ()))))
       (windows2 rows)"

definition require_ints ::
    "int_variable_id list \<Rightarrow> (int_variable_id, int_domain) btree_map \<Rightarrow> string \<Rightarrow> unit checks" where
  "require_ints vs ints path =
     check_each (\<lambda>v. then_p visit_v (bind_p (lift_v (require_int v ints path)) (\<lambda>_. ret ()))) vs"

definition validate_table ::
    "int_variable_id list \<Rightarrow> i64 list list \<Rightarrow> (int_variable_id, int_domain) btree_map
       \<Rightarrow> planning_ir_limits \<Rightarrow> string \<Rightarrow> unit checks" where
  "validate_table vs rows ints limits path =
     then_p (lift_v (check_limit (length vs) (max_table_arity limits) path))
    (then_p (lift_v (check_limit (length rows) (max_table_rows limits) path))
    (then_p
      (branch_p
        (then_p (require_ints vs ints path)
        (bind_p (each_p (\<lambda>row cells. then_p visit_v
             (lift_v (if length row \<noteq> length vs then shape path
                      else checked_v (u64_checked_add cells (length row)) path))) rows 0) (\<lambda>cells.
         then_p (lift_v (if cells > max_table_cells limits then reject LimitExceeded path else Ok ()))
        (strict_table_rows_with_context rows path))))
        (then_p (strict_with_context rows path)
        (then_p (require_ints vs ints path)
        (then_p (lift_v (if list_ex (\<lambda>row. length row \<noteq> length vs) rows then shape path else Ok ()))
        (bind_p (lift_v (checked_v (u64_checked_mul (length rows) (length vs)) path)) (\<lambda>cells.
         lift_v (if cells > max_table_cells limits then reject LimitExceeded path else Ok ())))))))
    (check_each (\<lambda>row. then_p visit_v
       (check_each (\<lambda>v. then_p visit_v (lift_v (check_value v limits path))) row)) rows)))"

subsection \<open>Constraint bodies\<close>

definition validate_literals :: "literal list \<Rightarrow> bool_variable_id set \<Rightarrow> string \<Rightarrow> unit checks" where
  "validate_literals literals bools path =
     then_p (strict_with_context literals path)
       (check_each (\<lambda>l. then_p visit_v (lift_v (require_literal l bools path))) literals)"

definition validate_integer_aggregate ::
    "int_variable_id \<Rightarrow> int_variable_id list \<Rightarrow> (int_variable_id, int_domain) btree_map \<Rightarrow> string
       \<Rightarrow> unit checks" where
  "validate_integer_aggregate target inputs ints path =
     bind_p (lift_v (require_int target ints path)) (\<lambda>_.
     then_p (lift_v (if inputs = [] then shape path else Ok ()))
    (then_p (strict_with_context inputs path) (require_ints inputs ints path)))"

definition validate_cumulative ::
    "interval_variable_id list \<Rightarrow> i64 list \<Rightarrow> i64 \<Rightarrow> interval_variable_id set
       \<Rightarrow> planning_ir_limits \<Rightarrow> string \<Rightarrow> unit checks" where
  "validate_cumulative vs demands capacity intervals limits path =
     then_p (lift_v (if length vs \<noteq> length demands \<or> capacity < 0 then shape path else Ok ()))
    (then_p (strict_with_context vs path)
    (then_p (lift_v (check_limit (length vs) (max_intervals_per_global limits) path))
    (then_p (lift_v (check_value capacity limits path))
    (bind_p (each_p (\<lambda>(interval, demand) tot. then_p visit_v
       (then_p (lift_v (require_interval interval intervals path))
       (then_p (lift_v (if demand < 0 then shape path else Ok ()))
       (then_p (lift_v (check_value demand limits path))
         (lift_v (checked_v (i64_checked_add tot demand) path)))))) (zip vs demands) 0) (\<lambda>_. ret ())))))"

fun validate_constraint ::
    "constraint \<Rightarrow> variable_references \<Rightarrow> planning_ir_limits \<Rightarrow> string \<Rightarrow> unit checks" where
  "validate_constraint (BoolOr literals) refs limits path =
     validate_literals literals (ref_bools refs) path"
| "validate_constraint (BoolAnd literals) refs limits path =
     validate_literals literals (ref_bools refs) path"
| "validate_constraint (AtMostOne literals) refs limits path =
     validate_literals literals (ref_bools refs) path"
| "validate_constraint (ExactlyOne literals) refs limits path =
     validate_literals literals (ref_bools refs) path"
| "validate_constraint (CardinalityRange literals mn mx) refs limits path =
     then_p (validate_literals literals (ref_bools refs) path)
       (lift_v (if mn > mx \<or> mx > length literals then shape path else Ok ()))"
| "validate_constraint (Implication a c) refs limits path =
     then_p visit_v (then_p (lift_v (require_literal a (ref_bools refs) path))
       (lift_v (require_literal c (ref_bools refs) path)))"
| "validate_constraint (Equivalence l r) refs limits path =
     then_p visit_v (then_p (lift_v (require_literal l (ref_bools refs) path))
       (lift_v (require_literal r (ref_bools refs) path)))"
| "validate_constraint (LinearComparison comparison) refs limits path =
     validate_comparison comparison (ref_ints refs) limits path"
| "validate_constraint (ReifiedLinearComparison l comparison) refs limits path =
     then_p visit_v (then_p (lift_v (require_literal l (ref_bools refs) path))
       (validate_comparison comparison (ref_ints refs) limits path))"
| "validate_constraint (AllDifferent vs) refs limits path =
     then_p (strict_with_context vs path) (require_ints vs (ref_ints refs) path)"
| "validate_constraint (AllowedTable vs rows) refs limits path =
     validate_table vs rows (ref_ints refs) limits path"
| "validate_constraint (ForbiddenTable vs rows) refs limits path =
     validate_table vs rows (ref_ints refs) limits path"
| "validate_constraint (Element index vs target) refs limits path =
     bind_p (lift_v (require_int index (ref_ints refs) path)) (\<lambda>_.
     bind_p (lift_v (require_int target (ref_ints refs) path)) (\<lambda>_.
       check_each (\<lambda>v. then_p visit_v (lift_v (check_value v limits path))) vs))"
| "validate_constraint (Min target inputs) refs limits path =
     validate_integer_aggregate target inputs (ref_ints refs) path"
| "validate_constraint (Max target inputs) refs limits path =
     validate_integer_aggregate target inputs (ref_ints refs) path"
| "validate_constraint (Equality l r) refs limits path =
     then_p visit_v (bind_p (lift_v (require_int l (ref_ints refs) path)) (\<lambda>_.
       bind_p (lift_v (require_int r (ref_ints refs) path)) (\<lambda>_. ret ())))"
| "validate_constraint (AbsDifference target l r) refs limits path =
     then_p visit_v (bind_p (lift_v (require_int target (ref_ints refs) path)) (\<lambda>_.
       bind_p (lift_v (require_int l (ref_ints refs) path)) (\<lambda>left_domain.
       bind_p (lift_v (require_int r (ref_ints refs) path)) (\<lambda>right_domain.
         lift_v (prove_abs_bounds left_domain right_domain path)))))"
| "validate_constraint (NoOverlap vs) refs limits path =
     then_p (strict_with_context vs path)
    (then_p (lift_v (check_limit (length vs) (max_intervals_per_global limits) path))
       (check_each (\<lambda>v. then_p visit_v (lift_v (require_interval v (ref_intervals refs) path))) vs))"
| "validate_constraint (Cumulative vs demands capacity) refs limits path =
     validate_cumulative vs demands capacity (ref_intervals refs) limits path"

end
