(* ===== verification/Feature_Usage.thy ===== *)
theory Feature_Usage
  imports Planning_Model Traversal
begin

section \<open>Feature inventory\<close>

text \<open>
  \<open>FeatureUsageManifest\<close> and \<open>feature_usage_inner\<close> of
  \<open>crates/eutheto-planning-ir/src/analysis.rs\<close>. The counters saturate at \<open>u64::MAX\<close>. The
  properties give the set of required capabilities and the counters declaratively.
\<close>

subsection \<open>The order of capabilities\<close>

text \<open>\<open>Ord\<close> is derived, so capabilities are ordered as they are declared.\<close>

fun capability_index :: "capability \<Rightarrow> nat" where
  "capability_index CapBoolOr = 0"
| "capability_index CapBoolAnd = 1"
| "capability_index CapImplication = 2"
| "capability_index CapEquivalence = 3"
| "capability_index CapAtMostOne = 4"
| "capability_index CapExactlyOne = 5"
| "capability_index CapCardinalityRange = 6"
| "capability_index CapLinearComparison = 7"
| "capability_index CapReifiedLinearComparison = 8"
| "capability_index CapAllDifferent = 9"
| "capability_index CapAllowedTable = 10"
| "capability_index CapForbiddenTable = 11"
| "capability_index CapElement = 12"
| "capability_index CapMin = 13"
| "capability_index CapMax = 14"
| "capability_index CapEquality = 15"
| "capability_index CapAbsDifference = 16"
| "capability_index CapNoOverlap = 17"
| "capability_index CapCumulative = 18"
| "capability_index OptionalIntervals = 19"
| "capability_index ObjectivePenalty = 20"
| "capability_index ObjectiveReward = 21"
| "capability_index Assumptions = 22"
| "capability_index BooleanProjection = 23"
| "capability_index IntegerProjection = 24"
| "capability_index IntervalProjection = 25"
| "capability_index AbsentProjection = 26"

definition capabilities :: "capability list" where
  "capabilities = [CapBoolOr, CapBoolAnd, CapImplication, CapEquivalence, CapAtMostOne,
     CapExactlyOne, CapCardinalityRange, CapLinearComparison, CapReifiedLinearComparison,
     CapAllDifferent, CapAllowedTable, CapForbiddenTable, CapElement, CapMin, CapMax, CapEquality,
     CapAbsDifference, CapNoOverlap, CapCumulative, OptionalIntervals, ObjectivePenalty,
     ObjectiveReward, Assumptions, BooleanProjection, IntegerProjection, IntervalProjection,
     AbsentProjection]"

lemma capabilities_index: "capabilities ! capability_index c = c"
  by (cases c) (simp_all add: capabilities_def)

instantiation capability :: linorder
begin

definition less_eq_capability :: "capability \<Rightarrow> capability \<Rightarrow> bool" where
  "less_eq_capability a b \<longleftrightarrow> capability_index a \<le> capability_index b"

definition less_capability :: "capability \<Rightarrow> capability \<Rightarrow> bool" where
  "less_capability a b \<longleftrightarrow> capability_index a < capability_index b"

instance
proof
  fix a b :: capability
  assume "a \<le> b" and "b \<le> a"
  then have "capability_index a = capability_index b" by (simp add: less_eq_capability_def)
  then have "capabilities ! capability_index a = capabilities ! capability_index b"
    by (rule arg_cong)
  then show "a = b" by (simp only: capabilities_index)
qed (unfold less_eq_capability_def less_capability_def, linarith+)

end

subsection \<open>The manifest\<close>

record feature_usage_manifest =
  capability_counts :: "(capability, u64) btree_map"
  optional_interval_count :: u64
  global_interval_constraint_count :: u64
  table_row_count :: u64
  table_cell_count :: u64
  linear_term_count :: u64
  literal_reference_count :: u64

definition manifest_default :: feature_usage_manifest where
  "manifest_default = \<lparr>capability_counts = [], optional_interval_count = 0,
     global_interval_constraint_count = 0, table_row_count = 0, table_cell_count = 0,
     linear_term_count = 0, literal_reference_count = 0\<rparr>"

definition manifest_add :: "capability \<Rightarrow> feature_usage_manifest \<Rightarrow> feature_usage_manifest" where
  "manifest_add c usage =
     (let entry = (case bt_get (capability_counts usage) c of None \<Rightarrow> 0 | Some n \<Rightarrow> n)
      in usage\<lparr>capability_counts :=
           bt_insert c (u64_saturating_add entry 1) (capability_counts usage)\<rparr>)"

definition required_capabilities :: "feature_usage_manifest \<Rightarrow> capability set" where
  "required_capabilities usage = set (map fst (capability_counts usage))"

definition add_literals :: "u64 \<Rightarrow> feature_usage_manifest \<Rightarrow> feature_usage_manifest" where
  "add_literals n usage = usage\<lparr>literal_reference_count :=
     u64_saturating_add (literal_reference_count usage) n\<rparr>"

definition add_terms :: "u64 \<Rightarrow> feature_usage_manifest \<Rightarrow> feature_usage_manifest" where
  "add_terms n usage = usage\<lparr>linear_term_count :=
     u64_saturating_add (linear_term_count usage) n\<rparr>"

definition add_table :: "u64 \<Rightarrow> u64 \<Rightarrow> feature_usage_manifest \<Rightarrow> feature_usage_manifest" where
  "add_table columns rows usage =
     usage\<lparr>table_row_count := u64_saturating_add (table_row_count usage) rows,
           table_cell_count := u64_saturating_add (table_cell_count usage)
             (u64_saturating_mul columns rows)\<rparr>"

definition add_global :: "feature_usage_manifest \<Rightarrow> feature_usage_manifest" where
  "add_global usage = usage\<lparr>global_interval_constraint_count :=
     u64_saturating_add (global_interval_constraint_count usage) 1\<rparr>"

fun constraint_capability :: "constraint \<Rightarrow> capability" where
  "constraint_capability (BoolOr _) = CapBoolOr"
| "constraint_capability (BoolAnd _) = CapBoolAnd"
| "constraint_capability (Implication _ _) = CapImplication"
| "constraint_capability (Equivalence _ _) = CapEquivalence"
| "constraint_capability (AtMostOne _) = CapAtMostOne"
| "constraint_capability (ExactlyOne _) = CapExactlyOne"
| "constraint_capability (CardinalityRange _ _ _) = CapCardinalityRange"
| "constraint_capability (LinearComparison _) = CapLinearComparison"
| "constraint_capability (ReifiedLinearComparison _ _) = CapReifiedLinearComparison"
| "constraint_capability (AllDifferent _) = CapAllDifferent"
| "constraint_capability (AllowedTable _ _) = CapAllowedTable"
| "constraint_capability (ForbiddenTable _ _) = CapForbiddenTable"
| "constraint_capability (Element _ _ _) = CapElement"
| "constraint_capability (Min _ _) = CapMin"
| "constraint_capability (Max _ _) = CapMax"
| "constraint_capability (Equality _ _) = CapEquality"
| "constraint_capability (AbsDifference _ _ _) = CapAbsDifference"
| "constraint_capability (NoOverlap _) = CapNoOverlap"
| "constraint_capability (Cumulative _ _ _) = CapCumulative"

subsection \<open>One loop body per kind of element\<close>

fun usage_variable :: "variable \<Rightarrow> feature_usage_manifest \<Rightarrow> feature_usage_manifest" where
  "usage_variable (VInterval interval) usage =
     (if interval_presence interval = None then usage
      else
        let usage = manifest_add OptionalIntervals usage;
            usage = usage\<lparr>optional_interval_count :=
              u64_saturating_add (optional_interval_count usage) 1\<rparr>
        in add_literals 1 usage)"
| "usage_variable (VBoolean _) usage = usage"
| "usage_variable (VInteger _) usage = usage"

fun usage_body :: "constraint \<Rightarrow> feature_usage_manifest \<Rightarrow> feature_usage_manifest" where
  "usage_body (BoolOr literals) usage = add_literals (length literals) usage"
| "usage_body (BoolAnd literals) usage = add_literals (length literals) usage"
| "usage_body (AtMostOne literals) usage = add_literals (length literals) usage"
| "usage_body (ExactlyOne literals) usage = add_literals (length literals) usage"
| "usage_body (CardinalityRange literals _ _) usage = add_literals (length literals) usage"
| "usage_body (Implication _ _) usage = add_literals 2 usage"
| "usage_body (Equivalence _ _) usage = add_literals 2 usage"
| "usage_body (LinearComparison comparison) usage =
     add_terms (length (expr_terms (comparison_expression comparison))) usage"
| "usage_body (ReifiedLinearComparison _ comparison) usage =
     add_terms (length (expr_terms (comparison_expression comparison))) (add_literals 1 usage)"
| "usage_body (AllowedTable vs rows) usage = add_table (length vs) (length rows) usage"
| "usage_body (ForbiddenTable vs rows) usage = add_table (length vs) (length rows) usage"
| "usage_body (NoOverlap _) usage = add_global usage"
| "usage_body (Cumulative _ _ _) usage = add_global usage"
| "usage_body (AllDifferent _) usage = usage"
| "usage_body (Element _ _ _) usage = usage"
| "usage_body (Min _ _) usage = usage"
| "usage_body (Max _ _) usage = usage"
| "usage_body (Equality _ _) usage = usage"
| "usage_body (AbsDifference _ _ _) usage = usage"

definition usage_record :: "constraint_record \<Rightarrow> feature_usage_manifest \<Rightarrow> feature_usage_manifest" where
  "usage_record record usage =
     usage_body (body record)
       (manifest_add (constraint_capability (body record))
         (add_literals (length (enforcement record)) usage))"

fun objective_capability :: "objective_term_kind \<Rightarrow> capability" where
  "objective_capability Penalty = ObjectivePenalty"
| "objective_capability Reward = ObjectiveReward"

definition usage_term :: "objective_term \<Rightarrow> feature_usage_manifest \<Rightarrow> feature_usage_manifest" where
  "usage_term t usage =
     add_terms (length (expr_terms (objective_expression t)))
       (manifest_add (objective_capability (objective_kind t)) usage)"

fun constant_capability :: "assignment_value \<Rightarrow> capability" where
  "constant_capability (ABoolean _) = BooleanProjection"
| "constant_capability (AInteger _) = IntegerProjection"
| "constant_capability (AInterval _) = IntervalProjection"
| "constant_capability Absent = AbsentProjection"

fun usage_projection :: "projection_expression \<Rightarrow> feature_usage_manifest \<Rightarrow> feature_usage_manifest" where
  "usage_projection (EBoolean _) usage = manifest_add BooleanProjection usage"
| "usage_projection (EInteger _) usage = manifest_add IntegerProjection usage"
| "usage_projection (ELinear expression) usage =
     add_terms (length (expr_terms expression)) (manifest_add IntegerProjection usage)"
| "usage_projection (EInterval _) usage = manifest_add IntervalProjection usage"
| "usage_projection (EConstant v) usage = manifest_add (constant_capability v) usage"

text \<open>Each element costs one visit before it is counted.\<close>

definition visiting ::
    "('a \<Rightarrow> 's \<Rightarrow> 's) \<Rightarrow> 'a \<Rightarrow> 's \<Rightarrow> (planning_preparation_error, 's) prep" where
  "visiting f x s = then_p visit (ret (f x s))"

definition feature_usage_inner ::
    "planning_problem \<Rightarrow> (planning_preparation_error, feature_usage_manifest) prep" where
  "feature_usage_inner problem =
     bind_p (each_p (visiting usage_variable) (variables problem) manifest_default) (\<lambda>usage.
     bind_p (each_p (visiting usage_record) (constraints problem) usage) (\<lambda>usage.
     bind_p (each_p (\<lambda>level usage.
               then_p visit (each_p (visiting usage_term) (level_terms level) usage))
             (levels (objectives problem)) usage) (\<lambda>usage.
     bind_p (if assumptions problem = [] then ret usage
             else then_p visit
               (ret (add_literals (length (assumptions problem)) (manifest_add Assumptions usage))))
       (\<lambda>usage.
     each_p (visiting (\<lambda>projection. usage_projection (projection_expression projection)))
       (projections problem) usage))))"

text \<open>\<open>feature_usage\<close>, whose \<open>expect\<close> is the \<open>Abort\<close> of the model.\<close>

definition feature_usage :: "planning_problem \<Rightarrow> (planning_preparation_error, feature_usage_manifest) outcome"
  where
  "feature_usage problem =
     (case uncontrolled (feature_usage_inner problem) of Ok u \<Rightarrow> Ok u | _ \<Rightarrow> Abort)"

definition feature_usage_with_budget :: "planning_problem \<Rightarrow> feature_usage_manifest charged" where
  "feature_usage_with_budget problem = controlled (feature_usage_inner problem)"

subsection \<open>Agreement and accounting\<close>

lemma agrees_visiting [agrees_intro]: "agrees (visiting f x s)"
  unfolding visiting_def by (intro agrees_intro)

lemma holds_visiting [holds_intro]: "balanced (visiting f x s)"
  unfolding visiting_def by (intro holds_intro agrees_intro) simp

lemma uncontrolled_visiting [simp]: "uncontrolled (visiting f x s) = Ok (f x s)"
  by (simp add: visiting_def)

lemma each_o_Ok: "each_o (\<lambda>x s. Ok (f x s)) xs s = Ok (fold f xs s)"
  by (induction xs arbitrary: s) auto

lemma agrees_feature_usage_inner [agrees_intro]: "agrees (feature_usage_inner problem)"
  unfolding feature_usage_inner_def by (intro agrees_intro) (auto intro: agrees_intro)

lemma holds_feature_usage_inner [holds_intro]: "balanced (feature_usage_inner problem)"
  unfolding feature_usage_inner_def
  by (intro agrees_intro holds_intro) (auto intro: agrees_intro holds_intro)

definition usage_of :: "planning_problem \<Rightarrow> feature_usage_manifest" where
  "usage_of problem =
     (let usage = fold usage_variable (variables problem) manifest_default;
          usage = fold usage_record (constraints problem) usage;
          usage = fold (\<lambda>level. fold usage_term (level_terms level)) (levels (objectives problem)) usage;
          usage = (if assumptions problem = [] then usage
                   else add_literals (length (assumptions problem)) (manifest_add Assumptions usage))
      in fold (\<lambda>projection. usage_projection (projection_expression projection))
           (projections problem) usage)"

lemma uncontrolled_feature_usage_inner:
  "uncontrolled (feature_usage_inner problem) = Ok (usage_of problem)"
  by (simp add: feature_usage_inner_def usage_of_def Let_def each_o_Ok)

subsection \<open>What a problem uses\<close>

text \<open>
  The specification goes from a capability to the elements that call for it, where the code goes from
  an element to its capability.
\<close>

fun constraint_shows :: "capability \<Rightarrow> constraint \<Rightarrow> bool" where
  "constraint_shows CapBoolOr c = (case c of BoolOr _ \<Rightarrow> True | _ \<Rightarrow> False)"
| "constraint_shows CapBoolAnd c = (case c of BoolAnd _ \<Rightarrow> True | _ \<Rightarrow> False)"
| "constraint_shows CapImplication c = (case c of Implication _ _ \<Rightarrow> True | _ \<Rightarrow> False)"
| "constraint_shows CapEquivalence c = (case c of Equivalence _ _ \<Rightarrow> True | _ \<Rightarrow> False)"
| "constraint_shows CapAtMostOne c = (case c of AtMostOne _ \<Rightarrow> True | _ \<Rightarrow> False)"
| "constraint_shows CapExactlyOne c = (case c of ExactlyOne _ \<Rightarrow> True | _ \<Rightarrow> False)"
| "constraint_shows CapCardinalityRange c = (case c of CardinalityRange _ _ _ \<Rightarrow> True | _ \<Rightarrow> False)"
| "constraint_shows CapLinearComparison c = (case c of LinearComparison _ \<Rightarrow> True | _ \<Rightarrow> False)"
| "constraint_shows CapReifiedLinearComparison c = (case c of ReifiedLinearComparison _ _ \<Rightarrow> True | _ \<Rightarrow> False)"
| "constraint_shows CapAllDifferent c = (case c of AllDifferent _ \<Rightarrow> True | _ \<Rightarrow> False)"
| "constraint_shows CapAllowedTable c = (case c of AllowedTable _ _ \<Rightarrow> True | _ \<Rightarrow> False)"
| "constraint_shows CapForbiddenTable c = (case c of ForbiddenTable _ _ \<Rightarrow> True | _ \<Rightarrow> False)"
| "constraint_shows CapElement c = (case c of Element _ _ _ \<Rightarrow> True | _ \<Rightarrow> False)"
| "constraint_shows CapMin c = (case c of Min _ _ \<Rightarrow> True | _ \<Rightarrow> False)"
| "constraint_shows CapMax c = (case c of Max _ _ \<Rightarrow> True | _ \<Rightarrow> False)"
| "constraint_shows CapEquality c = (case c of Equality _ _ \<Rightarrow> True | _ \<Rightarrow> False)"
| "constraint_shows CapAbsDifference c = (case c of AbsDifference _ _ _ \<Rightarrow> True | _ \<Rightarrow> False)"
| "constraint_shows CapNoOverlap c = (case c of NoOverlap _ \<Rightarrow> True | _ \<Rightarrow> False)"
| "constraint_shows CapCumulative c = (case c of Cumulative _ _ _ \<Rightarrow> True | _ \<Rightarrow> False)"
| "constraint_shows _ c = False"

fun objective_shows :: "capability \<Rightarrow> objective_term_kind \<Rightarrow> bool" where
  "objective_shows ObjectivePenalty k = (k = Penalty)"
| "objective_shows ObjectiveReward k = (k = Reward)"
| "objective_shows _ k = False"

fun projection_shows :: "capability \<Rightarrow> projection_expression \<Rightarrow> bool" where
  "projection_shows BooleanProjection e = 
     (case e of EBoolean _ \<Rightarrow> True | EConstant (ABoolean _) \<Rightarrow> True | _ \<Rightarrow> False)"
| "projection_shows IntegerProjection e = 
     (case e of EInteger _ \<Rightarrow> True | ELinear _ \<Rightarrow> True | EConstant (AInteger _) \<Rightarrow> True | _ \<Rightarrow> False)"
| "projection_shows IntervalProjection e = 
     (case e of EInterval _ \<Rightarrow> True | EConstant (AInterval _) \<Rightarrow> True | _ \<Rightarrow> False)"
| "projection_shows AbsentProjection e = (e = EConstant Absent)"
| "projection_shows _ e = False"

fun presence_literals :: "variable \<Rightarrow> literal list" where
  "presence_literals (VInterval interval) =
     (case interval_presence interval of None \<Rightarrow> [] | Some l \<Rightarrow> [l])"
| "presence_literals _ = []"

definition occurrences :: "planning_problem \<Rightarrow> capability \<Rightarrow> nat" where
  "occurrences problem c =
     length (filter (\<lambda>v. c = OptionalIntervals \<and> presence_literals v \<noteq> []) (variables problem)) +
     length (filter (\<lambda>r. constraint_shows c (body r)) (constraints problem)) +
     (\<Sum>level \<leftarrow> levels (objectives problem).
        length (filter (\<lambda>t. objective_shows c (objective_kind t)) (level_terms level))) +
     (if c = Assumptions \<and> assumptions problem \<noteq> [] then 1 else 0) +
     length (filter (\<lambda>p. projection_shows c (projection_expression p)) (projections problem))"

definition used_capabilities :: "planning_problem \<Rightarrow> capability set" where
  "used_capabilities problem = {c. 0 < occurrences problem c}"

fun body_literals :: "constraint \<Rightarrow> literal list" where
  "body_literals (BoolOr literals) = literals"
| "body_literals (BoolAnd literals) = literals"
| "body_literals (AtMostOne literals) = literals"
| "body_literals (ExactlyOne literals) = literals"
| "body_literals (CardinalityRange literals _ _) = literals"
| "body_literals (Implication a c) = [a, c]"
| "body_literals (Equivalence l r) = [l, r]"
| "body_literals (ReifiedLinearComparison l _) = [l]"
| "body_literals _ = []"

text \<open>Every literal, table and linear expression the problem mentions, in the order of the traversal.\<close>

definition all_literal_references :: "planning_problem \<Rightarrow> literal list" where
  "all_literal_references problem =
     concat (map presence_literals (variables problem)) @
     concat (map (\<lambda>r. enforcement r @ body_literals (body r)) (constraints problem)) @
     map assumption_literal (assumptions problem)"

fun body_tables :: "constraint \<Rightarrow> (int_variable_id list \<times> i64 list list) list" where
  "body_tables (AllowedTable vs rows) = [(vs, rows)]"
| "body_tables (ForbiddenTable vs rows) = [(vs, rows)]"
| "body_tables _ = []"

definition all_tables :: "planning_problem \<Rightarrow> (int_variable_id list \<times> i64 list list) list" where
  "all_tables problem = concat (map (\<lambda>r. body_tables (body r)) (constraints problem))"

fun constraint_expressions :: "constraint \<Rightarrow> linear_expression list" where
  "constraint_expressions (LinearComparison comparison) = [comparison_expression comparison]"
| "constraint_expressions (ReifiedLinearComparison _ comparison) = [comparison_expression comparison]"
| "constraint_expressions _ = []"

fun projected_expressions :: "projection_expression \<Rightarrow> linear_expression list" where
  "projected_expressions (ELinear e) = [e]"
| "projected_expressions _ = []"

definition problem_expressions :: "planning_problem \<Rightarrow> linear_expression list" where
  "problem_expressions problem =
     concat (map (\<lambda>r. constraint_expressions (body r)) (constraints problem)) @
     concat (map (\<lambda>level. map objective_expression (level_terms level)) (levels (objectives problem))) @
     concat (map (\<lambda>p. projected_expressions (projection_expression p)) (projections problem))"

subsection \<open>Saturating counters\<close>

lemma u64_saturating_add_assoc:
  "u64_saturating_add (u64_saturating_add a b) c = u64_saturating_add a (b + c)"
  by (auto simp: u64_saturating_add_def min_def)

lemma saturating_bounded [simp]:
  "a \<le> u64_max \<Longrightarrow> u64_saturating_add a 0 = a"
  "u64_saturating_add a b \<le> u64_max"
  by (simp_all add: u64_saturating_add_def)

definition counts :: "('s \<Rightarrow> u64) \<Rightarrow> ('a \<Rightarrow> 's \<Rightarrow> 's) \<Rightarrow> ('a \<Rightarrow> nat) \<Rightarrow> bool" where
  "counts cnt f g \<longleftrightarrow> (\<forall>x u. cnt u \<le> u64_max \<longrightarrow> cnt (f x u) = u64_saturating_add (cnt u) (g x))"

lemma counts_fold:
  assumes "counts cnt f g"
  shows "counts cnt (\<lambda>y. fold f (xs y)) (\<lambda>y. \<Sum>x \<leftarrow> xs y. g x)"
proof -
  have "cnt (fold f ys u) = u64_saturating_add (cnt u) (\<Sum>x \<leftarrow> ys. g x)" if "cnt u \<le> u64_max" for ys u
    using that
  proof (induction ys arbitrary: u)
    case (Cons x ys)
    have "cnt (f x u) = u64_saturating_add (cnt u) (g x)" using assms Cons.prems by (simp add: counts_def)
    with Cons.IH [of "f x u"] show ?case by (simp add: u64_saturating_add_assoc)
  qed simp
  then show ?thesis by (simp add: counts_def)
qed

text \<open>A counter that every loop body raises by its own amount ends at the saturated total.\<close>

lemma counter_total:
  assumes "cnt manifest_default = 0" "counts cnt usage_variable gv" "counts cnt usage_record gr" "counts cnt usage_term gt"
    and "counts cnt (\<lambda>n u. add_literals n (manifest_add Assumptions u)) ga"
    and "counts cnt usage_projection gp"
  shows "cnt (usage_of problem) = min
    ((\<Sum>v \<leftarrow> variables problem. gv v) + (\<Sum>r \<leftarrow> constraints problem. gr r) +
     (\<Sum>level \<leftarrow> levels (objectives problem). \<Sum>t \<leftarrow> level_terms level. gt t) +
     (if assumptions problem = [] then 0 else ga (length (assumptions problem))) +
     (\<Sum>p \<leftarrow> projections problem. gp (projection_expression p))) u64_max"
proof -
  have p: "counts cnt (\<lambda>p. usage_projection (projection_expression p)) (\<lambda>p. gp (projection_expression p))"
    using assms(6) by (simp add: counts_def)
  note folds = counts_fold [OF assms(2), where xs = "\<lambda>_. variables problem"]
    counts_fold [OF assms(3), where xs = "\<lambda>_. constraints problem"]
    counts_fold [OF counts_fold [OF assms(4), where xs = level_terms], where xs = "\<lambda>_. levels (objectives problem)"]
    counts_fold [OF p, where xs = "\<lambda>_. projections problem"]
  show ?thesis
    using folds assms(1,5) by (simp add: usage_of_def Let_def counts_def u64_saturating_add_assoc)
      (simp add: u64_saturating_add_def add.assoc)
qed

subsection \<open>Capability counters\<close>

definition capability_count :: "capability \<Rightarrow> feature_usage_manifest \<Rightarrow> nat" where
  "capability_count c usage = (case bt_get (capability_counts usage) c of None \<Rightarrow> 0 | Some n \<Rightarrow> n)"

lemma bt_get_bt_insert: "bt_get (bt_insert k v m) = (bt_get m)(k \<mapsto> v)"
  unfolding bt_get_def [abs_def] by (induction k v m rule: bt_insert.induct) (auto simp: fun_eq_iff)

lemma capability_count_simps [simp]:
  "capability_count c (manifest_add d u) =
     (if c = d then u64_saturating_add (capability_count c u) 1 else capability_count c u)"
  "capability_count c (add_literals n u) = capability_count c u"
  "capability_count c (add_terms n u) = capability_count c u"
  "capability_count c (add_table n k u) = capability_count c u"
  "capability_count c (add_global u) = capability_count c u"
  "capability_count c (u\<lparr>optional_interval_count := n\<rparr>) = capability_count c u"
  by (simp_all add: capability_count_def manifest_add_def add_literals_def add_terms_def add_table_def
      add_global_def Let_def bt_get_bt_insert)

lemma capability_tables:
  "constraint_shows c b \<longleftrightarrow> constraint_capability b = c"
  "objective_shows c k \<longleftrightarrow> objective_capability k = c"
  by (cases b; cases c; simp) (cases k; cases c; simp)

lemma usage_body_capability [simp]: "capability_count c (usage_body b u) = capability_count c u"
  by (cases b) simp_all

lemma capability_count_counts:
  "counts (capability_count c) usage_variable (\<lambda>v. of_bool (c = OptionalIntervals \<and> presence_literals v \<noteq> []))"
  "counts (capability_count c) usage_record (\<lambda>r. of_bool (constraint_shows c (body r)))"
  "counts (capability_count c) usage_term (\<lambda>t. of_bool (objective_shows c (objective_kind t)))"
  "counts (capability_count c) (\<lambda>n u. add_literals n (manifest_add Assumptions u)) (\<lambda>n. of_bool (c = Assumptions))"
  "counts (capability_count c) usage_projection (\<lambda>e. of_bool (projection_shows c e))"
proof -
  show "counts (capability_count c) usage_variable (\<lambda>v. of_bool (c = OptionalIntervals \<and> presence_literals v \<noteq> []))"
    unfolding counts_def
  proof (intro allI impI)
    fix v u assume "capability_count c u \<le> u64_max"
    then show "capability_count c (usage_variable v u) =
        u64_saturating_add (capability_count c u) (of_bool (c = OptionalIntervals \<and> presence_literals v \<noteq> []))"
      by (cases v) (auto simp: Let_def split: option.split)
  qed
  show "counts (capability_count c) usage_projection (\<lambda>e. of_bool (projection_shows c e))"
    unfolding counts_def
  proof (intro allI impI)
    fix e u assume u: "capability_count c u \<le> u64_max"
    show "capability_count c (usage_projection e u) = u64_saturating_add (capability_count c u) (of_bool (projection_shows c e))"
    proof (cases e)
      case (EConstant x)
      with u show ?thesis by (cases x; cases c; simp)
    qed (use u in \<open>cases c; simp\<close>)+
  qed
qed (auto simp: counts_def usage_record_def usage_term_def capability_tables)

lemma sum_of_bool_filter: "(\<Sum>x \<leftarrow> xs. of_bool (P x)) = length (filter P xs)"
  by (induction xs) simp_all

lemma capability_count_usage_of: "capability_count c (usage_of problem) = min (occurrences problem c) u64_max"
  by (subst counter_total [OF _ capability_count_counts])
    (auto simp: capability_count_def manifest_default_def bt_get_def occurrences_def sum_of_bool_filter)

text \<open>An entry exists only where something was counted.\<close>

definition entries_positive :: "feature_usage_manifest \<Rightarrow> bool" where
  "entries_positive usage \<longleftrightarrow> (\<forall>c. bt_get (capability_counts usage) c \<noteq> Some 0)"

lemma entries_positive_simps [simp]:
  "entries_positive manifest_default"
  "entries_positive u \<Longrightarrow> entries_positive (manifest_add c u)"
  "entries_positive (add_literals n u) = entries_positive u"
  "entries_positive (add_terms n u) = entries_positive u"
  "entries_positive (add_table n k u) = entries_positive u"
  "entries_positive (add_global u) = entries_positive u"
  "entries_positive (u\<lparr>optional_interval_count := n\<rparr>) = entries_positive u"
  by (auto simp: entries_positive_def manifest_default_def manifest_add_def add_literals_def add_terms_def add_table_def
      add_global_def Let_def bt_get_bt_insert u64_saturating_add_def u64_max_def bt_get_def [of "[]"])

lemma entries_positive_steps:
  assumes "entries_positive u"
  shows "entries_positive (usage_variable v u)" "entries_positive (usage_body b u)" "entries_positive (usage_record r u)"
    "entries_positive (usage_term t u)" "entries_positive (usage_projection e u)"
proof -
  have b: "entries_positive (usage_body b u)" if "entries_positive u" for b u using that by (cases b) simp_all
  then show "entries_positive (usage_body b u)" "entries_positive (usage_record r u)"
    using assms by (simp_all add: usage_record_def)
  show "entries_positive (usage_variable v u)" using assms by (cases v) (simp_all add: Let_def)
  show "entries_positive (usage_term t u)" using assms by (simp add: usage_term_def)
  show "entries_positive (usage_projection e u)" using assms by (cases e) simp_all
qed

lemma entries_positive_usage_of: "entries_positive (usage_of problem)"
proof -
  have f: "entries_positive (fold f xs u)" if "entries_positive u" "\<And>x u. entries_positive u \<Longrightarrow> entries_positive (f x u)"
    for f :: "'x \<Rightarrow> _" and xs u
    using that(1) by (induction xs arbitrary: u) (auto intro: that(2))
  show ?thesis unfolding usage_of_def Let_def by (auto intro!: f entries_positive_steps entries_positive_simps(1,2))
qed

lemma bt_get_usage_of:
  "bt_get (capability_counts (usage_of problem)) c =
     (if occurrences problem c = 0 then None else Some (min (occurrences problem c) u64_max))"
proof (cases "bt_get (capability_counts (usage_of problem)) c")
  case (Some n)
  then have "0 < n" using entries_positive_usage_of [of problem] by (cases n) (auto simp: entries_positive_def)
  with Some capability_count_usage_of [of c problem] show ?thesis by (auto simp: capability_count_def)
qed (use capability_count_usage_of [of c problem] in \<open>auto simp: capability_count_def u64_max_def min_def split: if_splits\<close>)

lemma required_usage_of: "required_capabilities (usage_of problem) = used_capabilities problem"
proof -
  have "c \<in> required_capabilities (usage_of problem) \<longleftrightarrow> bt_get (capability_counts (usage_of problem)) c \<noteq> None" for c
    by (simp add: required_capabilities_def bt_get_notin)
  then show ?thesis by (auto simp: used_capabilities_def bt_get_usage_of split: if_splits)
qed

subsection \<open>The other counters\<close>

text \<open>
  Each of the other counters ignores capabilities, and is raised by a constraint, a term, a literal
  list and a projection independently.
\<close>

lemma counter_totalI:
  assumes "cnt manifest_default = 0" and cap: "\<And>c u. cnt (manifest_add c u) = cnt u"
    and var: "\<And>v u. cnt u \<le> u64_max \<Longrightarrow> cnt (usage_variable v u) = u64_saturating_add (cnt u) (gv v)"
    and body: "\<And>b u. cnt u \<le> u64_max \<Longrightarrow> cnt (usage_body b u) = u64_saturating_add (cnt u) (gb b)"
    and lits: "\<And>n u. cnt u \<le> u64_max \<Longrightarrow> cnt (add_literals n u) = u64_saturating_add (cnt u) (n * w)"
    and trms: "\<And>n u. cnt u \<le> u64_max \<Longrightarrow> cnt (add_terms n u) = u64_saturating_add (cnt u) (n * z)"
  shows "cnt (usage_of problem) = min
    ((\<Sum>v \<leftarrow> variables problem. gv v) +
     (\<Sum>r \<leftarrow> constraints problem. length (enforcement r) * w + gb (body r)) +
     (\<Sum>level \<leftarrow> levels (objectives problem). \<Sum>t \<leftarrow> level_terms level. length (expr_terms (objective_expression t)) * z) +
     (if assumptions problem = [] then 0 else length (assumptions problem) * w) +
     (\<Sum>p \<leftarrow> projections problem.
        (\<Sum>e \<leftarrow> projected_expressions (projection_expression p). length (expr_terms e) * z))) u64_max"
proof (rule counter_total)
  show "cnt manifest_default = 0" by (rule assms(1))
  show "counts cnt usage_projection (\<lambda>e. \<Sum>x \<leftarrow> projected_expressions e. length (expr_terms x) * z)"
    unfolding counts_def
  proof (intro allI impI)
    fix e u assume "cnt u \<le> u64_max"
    then show "cnt (usage_projection e u) =
        u64_saturating_add (cnt u) (\<Sum>x \<leftarrow> projected_expressions e. length (expr_terms x) * z)"
      by (cases e) (simp_all add: cap trms)
  qed
qed (simp_all add: counts_def usage_record_def usage_term_def cap var body lits trms u64_saturating_add_assoc)

lemma saturating_mul_absorb [simp]:
  "u64_saturating_add a (u64_saturating_mul n k) = u64_saturating_add a (n * k)"
  by (auto simp: u64_saturating_add_def u64_saturating_mul_def min_def)

lemma sum_list_concat_map: "(\<Sum>x \<leftarrow> concat (map f xs). g x) = (\<Sum>y \<leftarrow> xs. \<Sum>x \<leftarrow> f y. g x)"
  by (induction xs) simp_all

lemma counter_fields [simp]:
  "literal_reference_count (add_literals n u) = u64_saturating_add (literal_reference_count u) n"
  "linear_term_count (add_terms n u) = u64_saturating_add (linear_term_count u) n"
  "table_row_count (add_table k n u) = u64_saturating_add (table_row_count u) n"
  "table_cell_count (add_table k n u) = u64_saturating_add (table_cell_count u) (k * n)"
  "global_interval_constraint_count (add_global u) = u64_saturating_add (global_interval_constraint_count u) 1"
  by (simp_all add: add_literals_def add_terms_def add_table_def add_global_def)

lemma counter_frames [simp]:
  "literal_reference_count (manifest_add c u) = literal_reference_count u"
  "literal_reference_count (add_terms n u) = literal_reference_count u"
  "literal_reference_count (add_table k n u) = literal_reference_count u"
  "literal_reference_count (add_global u) = literal_reference_count u"
  "linear_term_count (manifest_add c u) = linear_term_count u"
  "linear_term_count (add_literals n u) = linear_term_count u"
  "linear_term_count (add_table k n u) = linear_term_count u"
  "linear_term_count (add_global u) = linear_term_count u"
  "table_row_count (manifest_add c u) = table_row_count u"
  "table_row_count (add_literals n u) = table_row_count u"
  "table_row_count (add_terms n u) = table_row_count u"
  "table_row_count (add_global u) = table_row_count u"
  "table_cell_count (manifest_add c u) = table_cell_count u"
  "table_cell_count (add_literals n u) = table_cell_count u"
  "table_cell_count (add_terms n u) = table_cell_count u"
  "table_cell_count (add_global u) = table_cell_count u"
  "global_interval_constraint_count (manifest_add c u) = global_interval_constraint_count u"
  "global_interval_constraint_count (add_literals n u) = global_interval_constraint_count u"
  "global_interval_constraint_count (add_terms n u) = global_interval_constraint_count u"
  "global_interval_constraint_count (add_table k n u) = global_interval_constraint_count u"
  "optional_interval_count (manifest_add c u) = optional_interval_count u"
  "optional_interval_count (add_literals n u) = optional_interval_count u"
  "optional_interval_count (add_terms n u) = optional_interval_count u"
  "optional_interval_count (add_table k n u) = optional_interval_count u"
  "optional_interval_count (add_global u) = optional_interval_count u"
  by (simp_all add: manifest_add_def add_literals_def add_terms_def add_table_def add_global_def Let_def)

lemma manifest_default_counters [simp]:
  "literal_reference_count manifest_default = 0" "linear_term_count manifest_default = 0"
  "table_row_count manifest_default = 0" "table_cell_count manifest_default = 0"
  "global_interval_constraint_count manifest_default = 0" "optional_interval_count manifest_default = 0"
  by (simp_all add: manifest_default_def)

lemma literal_reference_count_usage_of:
  "literal_reference_count (usage_of problem) = min (length (all_literal_references problem)) u64_max"
proof (subst counter_totalI [where w = 1 and z = 0 and gv = "\<lambda>v. length (presence_literals v)"
      and gb = "\<lambda>b. length (body_literals b)"])
  fix v and u :: feature_usage_manifest assume "literal_reference_count u \<le> u64_max"
  then show "literal_reference_count (usage_variable v u) =
      u64_saturating_add (literal_reference_count u) (length (presence_literals v))"
    by (cases v) (auto simp: Let_def split: option.split)
next
  fix b and u :: feature_usage_manifest assume "literal_reference_count u \<le> u64_max"
  then show "literal_reference_count (usage_body b u) =
      u64_saturating_add (literal_reference_count u) (length (body_literals b))"
    by (cases b) (simp_all add: numeral_2_eq_2)
qed (auto simp: all_literal_references_def length_concat comp_def)

lemma linear_term_count_usage_of:
  "linear_term_count (usage_of problem) = min (\<Sum>e \<leftarrow> problem_expressions problem. length (expr_terms e)) u64_max"
proof (subst counter_totalI [where w = 0 and z = 1 and gv = "\<lambda>v. 0"
      and gb = "\<lambda>b. \<Sum>e \<leftarrow> constraint_expressions b. length (expr_terms e)"])
  fix v and u :: feature_usage_manifest assume "linear_term_count u \<le> u64_max"
  then show "linear_term_count (usage_variable v u) = u64_saturating_add (linear_term_count u) 0"
    by (cases v) (auto simp: Let_def)
next
  fix b and u :: feature_usage_manifest assume "linear_term_count u \<le> u64_max"
  then show "linear_term_count (usage_body b u) =
      u64_saturating_add (linear_term_count u) (\<Sum>e \<leftarrow> constraint_expressions b. length (expr_terms e))"
    by (cases b) simp_all
qed (auto simp: problem_expressions_def sum_list_concat_map comp_def)

lemma table_counts_usage_of:
  "table_row_count (usage_of problem) = min (\<Sum>(vs, rows) \<leftarrow> all_tables problem. length rows) u64_max"
  "table_cell_count (usage_of problem) = min (\<Sum>(vs, rows) \<leftarrow> all_tables problem. length vs * length rows) u64_max"
proof -
  have v: "table_row_count (usage_variable v u) = table_row_count u" "table_cell_count (usage_variable v u) = table_cell_count u"
    for v u by (cases v; simp add: Let_def)+
  have r: "table_row_count (usage_body b u) =
      u64_saturating_add (table_row_count u) (\<Sum>(vs, rows) \<leftarrow> body_tables b. length rows)"
    if "table_row_count u \<le> u64_max" for b u using that by (cases b) simp_all
  have c: "table_cell_count (usage_body b u) =
      u64_saturating_add (table_cell_count u) (\<Sum>(vs, rows) \<leftarrow> body_tables b. length vs * length rows)"
    if "table_cell_count u \<le> u64_max" for b u using that by (cases b) simp_all
  show "table_row_count (usage_of problem) = min (\<Sum>(vs, rows) \<leftarrow> all_tables problem. length rows) u64_max"
    by (subst counter_totalI [where w = 0 and z = 0 and gv = "\<lambda>v. 0", OF _ _ _ r])
      (simp_all add: v all_tables_def sum_list_concat_map comp_def)
  show "table_cell_count (usage_of problem) = min (\<Sum>(vs, rows) \<leftarrow> all_tables problem. length vs * length rows) u64_max"
    by (subst counter_totalI [where w = 0 and z = 0 and gv = "\<lambda>v. 0", OF _ _ _ c])
      (simp_all add: v all_tables_def sum_list_concat_map comp_def)
qed

lemma length_presence_literals: "length (presence_literals v) = of_bool (presence_literals v \<noteq> [])"
  by (cases v) (auto split: option.split)

lemma interval_counts_usage_of:
  "optional_interval_count (usage_of problem) = min (occurrences problem OptionalIntervals) u64_max"
  "global_interval_constraint_count (usage_of problem) =
     min (occurrences problem CapNoOverlap + occurrences problem CapCumulative) u64_max"
proof -
  have v: "optional_interval_count (usage_variable v u) =
      u64_saturating_add (optional_interval_count u) (length (presence_literals v))"
    if "optional_interval_count u \<le> u64_max" for v u using that by (cases v) (auto simp: Let_def split: option.split)
  have b: "optional_interval_count (usage_body b u) = optional_interval_count u" for b u by (cases b) simp_all
  have v': "global_interval_constraint_count (usage_variable v u) = global_interval_constraint_count u"
    for v u by (cases v; simp add: Let_def)
  have b': "global_interval_constraint_count (usage_body b u) = u64_saturating_add (global_interval_constraint_count u)
      (of_bool (constraint_shows CapNoOverlap b) + of_bool (constraint_shows CapCumulative b))"
    if "global_interval_constraint_count u \<le> u64_max" for b u using that by (cases b) simp_all
  show "optional_interval_count (usage_of problem) = min (occurrences problem OptionalIntervals) u64_max"
    by (subst counter_totalI [where w = 0 and z = 0 and gb = "\<lambda>b. 0", OF _ _ v])
      (simp_all add: b occurrences_def length_presence_literals sum_of_bool_filter)
  show "global_interval_constraint_count (usage_of problem) =
     min (occurrences problem CapNoOverlap + occurrences problem CapCumulative) u64_max"
    by (subst counter_totalI [where w = 0 and z = 0 and gv = "\<lambda>v. 0", OF _ _ _ b'])
      (simp_all add: v' occurrences_def sum_list_addf sum_of_bool_filter)
qed

text \<open>
  With a budget, \<open>feature_usage_with_budget\<close> returns the inventory that \<open>feature_usage\<close>
  returns whenever it succeeds; on success and on error it leaves the transient bytes as they were,
  never lowers the work charged, and never panics.
\<close>

lemma feature_usage_budgeted:
  assumes "feature_usage_with_budget problem b = (r, b')"
  shows "r \<noteq> Abort \<and> transient_bytes b' = transient_bytes b \<and> work b \<le> work b' \<and>
    (\<forall>usage. r = Ok usage \<longrightarrow> feature_usage problem = Ok usage)"
proof -
  have c: "controlled (feature_usage_inner problem) b = (r, b')"
    using assms by (simp add: feature_usage_with_budget_def)
  note h = holdsD [OF holds_feature_usage_inner c]
  have "r \<noteq> Abort" using h(4) by (auto simp: uncontrolled_feature_usage_inner)
  moreover have "transient_bytes b' = transient_bytes b" using h(2,3,4) \<open>r \<noteq> Abort\<close> by (cases r) auto
  moreover have "work b \<le> work b'" using h(1) by (simp add: spends_def)
  moreover have "feature_usage problem = Ok usage" if "r = Ok usage" for usage
    using agreesD [OF agrees_feature_usage_inner] c that by (simp add: feature_usage_def)
  ultimately show ?thesis by blast
qed

subsection \<open>Properties\<close>


end
