(* ===== verification/Validation.thy ===== *)
theory Validation
  imports Validation_Checks Feature_Usage Component_Budget
begin

section \<open>Validation of a planning problem\<close>

text \<open>
  The passes of \<open>crates/eutheto-planning-ir/src/validation.rs\<close> over a whole problem, in the order
  of \<open>validate_core\<close>, and its three entry points. The two loops over provenance run on fuel:
  the chain of parents stops at the latest when every record is on the path, the worklist when
  every parent has been pushed once; exhausted fuel is \<open>Abort\<close>. \<open>serde_json::from_slice\<close> is not
  part of the sources; it is the parameter \<open>from_slice\<close>.
\<close>

subsection \<open>Admission and order of the root\<close>

definition validate_root_admission :: "planning_problem \<Rightarrow> planning_ir_limits \<Rightarrow> unit checked" where
  "validate_root_admission problem limits =
     (if schema_version problem \<noteq> planning_ir_schema_version
      then reject UnsupportedVersion ''schemaVersion''
      else
        bind_o (check_limit (length (variables problem)) (max_variables limits) ''variables'') (\<lambda>_.
        bind_o (check_limit (length (constraints problem)) (max_constraints limits) ''constraints'') (\<lambda>_.
        bind_o (check_limit (length (assumptions problem)) (max_assumptions limits) ''assumptions'') (\<lambda>_.
        bind_o (check_limit (length (levels (objectives problem))) (max_objective_levels limits)
                  ''objectives.levels'') (\<lambda>_.
        bind_o (check_limit (length (projections problem)) (max_projections limits) ''projections'') (\<lambda>_.
        check_limit (length (provenance problem)) (max_provenance_records limits) ''provenance''))))))"

definition validate_root_order :: "planning_problem \<Rightarrow> unit checks" where
  "validate_root_order problem =
     then_p (strict_by_with_context canonical_id (variables problem) ''variables'')
    (then_p (strict_by_with_context record_id (constraints problem) ''constraints'')
    (then_p (strict_by_with_context assumption_id (assumptions problem) ''assumptions'')
    (then_p (strict_by_with_context projection_id (projections problem) ''projections'')
       (strict_by_with_context provenance_record_id (provenance problem) ''provenance''))))"

definition validate_root :: "planning_problem \<Rightarrow> planning_ir_limits \<Rightarrow> unit checks" where
  "validate_root problem limits =
     then_p visit_v (then_p (lift_v (validate_root_admission problem limits))
       (validate_root_order problem))"

subsection \<open>Variables\<close>

text \<open>The mutable locals of the loop: the index sets, all identifiers, and the reference total.\<close>

type_synonym variable_state = "variable_references \<times> string set \<times> u64"

definition declare_variable ::
    "nat \<Rightarrow> string \<Rightarrow> provenance_id \<Rightarrow> variable_state \<Rightarrow> variable_state checked" where
  "declare_variable index v p st =
     (case st of (refs, all_ids, total_refs) \<Rightarrow>
        if v \<in> all_ids then duplicate (indexed ''variables'' index ''.id'')
        else bind_o (require_provenance p (ref_provenance refs) (indexed ''variables'' index '''')) (\<lambda>_.
          Ok (refs, insert v all_ids, total_refs)))"

fun validate_variable ::
    "planning_ir_limits \<Rightarrow> nat \<times> variable \<Rightarrow> variable_state \<Rightarrow> variable_state checks" where
  "validate_variable limits (index, VBoolean v) (refs, all_ids, total_refs) =
     then_p visit_v (lift_v
       (if bool_id v \<in> ref_bools refs then duplicate (indexed ''variables'' index ''.id'')
        else declare_variable index (bool_id v) (bool_provenance v)
          (refs\<lparr>ref_bools := insert (bool_id v) (ref_bools refs)\<rparr>, all_ids, total_refs)))"
| "validate_variable limits (index, VInteger v) (refs, all_ids, total_refs) =
     then_p visit_v
    (then_p (validate_domain (variable_domain v) limits (indexed ''variables'' index ''.domain''))
    (lift_v
       (if bt_get (ref_ints refs) (int_id v) \<noteq> None then duplicate (indexed ''variables'' index ''.id'')
        else declare_variable index (int_id v) (int_provenance v)
          (refs\<lparr>ref_ints := bt_insert (int_id v) (variable_domain v) (ref_ints refs)\<rparr>, all_ids,
           total_refs))))"
| "validate_variable limits (index, VInterval v) (refs, all_ids, total_refs) =
     then_p visit_v (lift_v
       (if interval_id v \<in> ref_intervals refs then duplicate (indexed ''variables'' index ''.id'')
        else bind_o (add_refs total_refs 4 limits) (\<lambda>total_refs.
          declare_variable index (interval_id v) (interval_provenance v)
            (refs\<lparr>ref_intervals := insert (interval_id v) (ref_intervals refs)\<rparr>, all_ids,
             total_refs))))"

fun validate_interval_variable :: "variable_references \<Rightarrow> nat \<times> variable \<Rightarrow> unit checks" where
  "validate_interval_variable refs (index, VInterval interval) =
     then_p visit_v
    (bind_p (lift_v (require_int (interval_start interval) (ref_ints refs)
        (indexed ''variables'' index ''.start''))) (\<lambda>start.
     bind_p (lift_v (require_int (interval_duration interval) (ref_ints refs)
        (indexed ''variables'' index ''.duration''))) (\<lambda>duration.
     bind_p (lift_v (require_int (interval_end interval) (ref_ints refs)
        (indexed ''variables'' index ''.end''))) (\<lambda>end_domain.
     then_p (lift_v (case interval_presence interval of
          Some l \<Rightarrow> require_literal l (ref_bools refs) (indexed ''variables'' index ''.presence'')
        | None \<Rightarrow>
            if list_ex (\<lambda>rng. range_start rng < 0) (inclusive_ranges duration)
            then reject InvalidDomain (indexed ''variables'' index ''.duration'') else Ok ()))
       (validate_interval_equation start duration end_domain index)))))"
| "validate_interval_variable refs (index, VBoolean _) = visit_v"
| "validate_interval_variable refs (index, VInteger _) = visit_v"

definition validate_interval_variables ::
    "planning_problem \<Rightarrow> variable_references \<Rightarrow> unit checks" where
  "validate_interval_variables problem refs =
     check_each (validate_interval_variable refs) (enumerate 0 (variables problem))"

definition empty_references :: "provenance_id set \<Rightarrow> variable_references" where
  "empty_references ps =
     \<lparr>ref_provenance = ps, ref_bools = {}, ref_ints = [], ref_intervals = {}\<rparr>"

definition validate_variables ::
    "planning_problem \<Rightarrow> planning_ir_limits \<Rightarrow> (variable_references \<times> u64) checks" where
  "validate_variables problem limits =
     bind_p (each_p (\<lambda>record known. then_p visit_v (ret (insert (provenance_record_id record) known)))
       (provenance problem) {}) (\<lambda>known.
     bind_p (each_p (validate_variable limits) (enumerate 0 (variables problem))
       (empty_references known, {}, 0)) (\<lambda>(refs, all_ids, total_refs).
     then_p (validate_interval_variables problem refs) (ret (refs, total_refs))))"

subsection \<open>Constraints\<close>

fun constraint_node_count :: "constraint \<Rightarrow> usize" where
  "constraint_node_count (BoolOr literals) = length literals"
| "constraint_node_count (BoolAnd literals) = length literals"
| "constraint_node_count (AtMostOne literals) = length literals"
| "constraint_node_count (ExactlyOne literals) = length literals"
| "constraint_node_count (CardinalityRange literals _ _) = length literals"
| "constraint_node_count (Implication _ _) = 2"
| "constraint_node_count (Equivalence _ _) = 2"
| "constraint_node_count (Element _ _ _) = 2"
| "constraint_node_count (Equality _ _) = 2"
| "constraint_node_count (LinearComparison c) = length (expr_terms (comparison_expression c))"
| "constraint_node_count (ReifiedLinearComparison _ c) =
     u64_saturating_add (length (expr_terms (comparison_expression c))) 1"
| "constraint_node_count (AllDifferent vs) = length vs"
| "constraint_node_count (AllowedTable vs _) = length vs"
| "constraint_node_count (ForbiddenTable vs _) = length vs"
| "constraint_node_count (Min _ inputs) = u64_saturating_add (length inputs) 1"
| "constraint_node_count (Max _ inputs) = u64_saturating_add (length inputs) 1"
| "constraint_node_count (AbsDifference _ _ _) = 3"
| "constraint_node_count (NoOverlap intervals) = length intervals"
| "constraint_node_count (Cumulative intervals _ _) = length intervals"

fun projection_node_count :: "projection_expression \<Rightarrow> usize" where
  "projection_node_count (EBoolean _) = 1"
| "projection_node_count (EInteger _) = 1"
| "projection_node_count (EInterval _) = 1"
| "projection_node_count (ELinear e) = length (expr_terms e)"
| "projection_node_count (EConstant _) = 0"

definition validate_record ::
    "variable_references \<Rightarrow> planning_ir_limits \<Rightarrow> nat \<times> constraint_record
       \<Rightarrow> planning_constraint_id set \<times> u64 \<Rightarrow> (planning_constraint_id set \<times> u64) checks" where
  "validate_record refs limits entry st =
     (case entry of (index, record) \<Rightarrow> case st of (constraint_ids, total_refs) \<Rightarrow>
      then_p visit_v
     (then_p (lift_v (if record_id record \<in> constraint_ids
          then duplicate (indexed ''constraints'' index ''.id'') else Ok ()))
     (then_p (lift_v (require_provenance (record_provenance record) (ref_provenance refs)
          (indexed ''constraints'' index '''')))
     (then_p (lift_v (check_limit (length (enforcement record)) (max_enforcement_literals limits)
          (indexed ''constraints'' index ''.enforcement'')))
     (then_p (lift_v (check_limit (length (tags record)) (max_tags limits)
          (indexed ''constraints'' index ''.tags'')))
     (then_p (strict_with_context (enforcement record) (indexed ''constraints'' index ''.enforcement''))
     (then_p (strict_with_context (tags record) (indexed ''constraints'' index ''.tags''))
     (then_p (check_each (\<lambda>l. then_p visit_v (lift_v (require_literal l (ref_bools refs)
          (indexed ''constraints'' index ''.enforcement'')))) (enforcement record))
     (then_p (lift_v (check_limit (constraint_node_count (body record)) (max_refs_per_node limits)
          (indexed ''constraints'' index ''.body'')))
     (bind_p (lift_v (add_refs total_refs (constraint_node_count (body record)) limits)) (\<lambda>total_refs.
      then_p (validate_constraint (body record) refs limits (indexed ''constraints'' index ''.body''))
        (ret (insert (record_id record) constraint_ids, total_refs)))))))))))))"

definition validate_constraints ::
    "planning_problem \<Rightarrow> variable_references \<Rightarrow> planning_ir_limits \<Rightarrow> u64 \<Rightarrow> u64 checks" where
  "validate_constraints problem refs limits total_refs =
     bind_p (each_p (validate_record refs limits) (enumerate 0 (constraints problem)) ({}, total_refs))
       (\<lambda>(constraint_ids, total_refs). ret total_refs)"

subsection \<open>Objectives\<close>

text \<open>The locals of the term loop: the term counter, the two exact bounds, the reference total.\<close>

definition validate_objective_term ::
    "variable_references \<Rightarrow> planning_ir_limits \<Rightarrow> nat \<Rightarrow> objective_term
       \<Rightarrow> u64 \<times> i64 \<times> i64 \<times> u64 \<Rightarrow> (u64 \<times> i64 \<times> i64 \<times> u64) checks" where
  "validate_objective_term refs limits level_index t st =
     (case st of (term_count, exact_min, exact_max, total_refs) \<Rightarrow>
      then_p visit_v
     (bind_p (lift_v (checked_v (u64_checked_add term_count 1) ''objectives.terms'')) (\<lambda>term_count.
      then_p (lift_v (require_provenance (objective_term_provenance t) (ref_provenance refs)
          ''objectives.term''))
     (bind_p (expression_bounds (objective_expression t) (ref_ints refs) limits ''objectives.term'')
        (\<lambda>(mn, mx).
      then_p (lift_v (if mn < 0
          then reject InvalidObjectiveBounds (indexed ''objectives.levels'' level_index ''.terms'')
          else Ok ()))
     (bind_p (lift_v (checked_v (i64_checked_add exact_min mn) ''objectives.lowerBound'')) (\<lambda>exact_min.
      bind_p (lift_v (checked_v (i64_checked_add exact_max mx) ''objectives.upperBound'')) (\<lambda>exact_max.
      bind_p (lift_v (add_refs total_refs (length (expr_terms (objective_expression t))) limits))
        (\<lambda>total_refs. ret (term_count, exact_min, exact_max, total_refs))))))))))"

definition validate_level ::
    "variable_references \<Rightarrow> planning_ir_limits \<Rightarrow> nat \<times> objective_level
       \<Rightarrow> objective_level_id set \<times> u64 \<times> u64 \<Rightarrow> (objective_level_id set \<times> u64 \<times> u64) checks" where
  "validate_level refs limits entry st =
     (case entry of (level_index, level) \<Rightarrow> case st of (level_ids, term_count, total_refs) \<Rightarrow>
      then_p visit_v
     (then_p (lift_v (if level_id level \<in> level_ids
          then duplicate (indexed ''objectives.levels'' level_index ''.id'') else Ok ()))
     (then_p (lift_v (require_provenance (level_provenance level) (ref_provenance refs)
          (indexed ''objectives.levels'' level_index '''')))
     (then_p (lift_v (if lower_bound level > upper_bound level
          then reject InvalidObjectiveBounds (indexed ''objectives.levels'' level_index '''') else Ok ()))
     (then_p (lift_v (check_value (lower_bound level) limits ''objectives.lowerBound''))
     (then_p (lift_v (check_value (upper_bound level) limits ''objectives.upperBound''))
     (then_p (strict_by_with_context objective_term_id (level_terms level) ''objectives.terms'')
     (bind_p (each_p (validate_objective_term refs limits level_index) (level_terms level)
          (term_count, 0, 0, total_refs)) (\<lambda>(term_count, exact_min, exact_max, total_refs).
      then_p (lift_v (if exact_min \<noteq> lower_bound level \<or> exact_max \<noteq> upper_bound level
          then reject InvalidObjectiveBounds (indexed ''objectives.levels'' level_index '''') else Ok ()))
        (ret (insert (level_id level) level_ids, term_count, total_refs)))))))))))"

definition validate_objectives ::
    "planning_problem \<Rightarrow> variable_references \<Rightarrow> planning_ir_limits \<Rightarrow> u64 \<Rightarrow> u64 checks" where
  "validate_objectives problem refs limits total_refs =
     bind_p (each_p (validate_level refs limits) (enumerate 0 (levels (objectives problem)))
       ({}, 0, total_refs)) (\<lambda>(level_ids, term_count, total_refs).
     then_p (lift_v (if term_count > max_objective_terms limits
         then reject LimitExceeded ''objectives.terms'' else Ok ()))
       (ret total_refs))"

subsection \<open>Assumptions\<close>

definition validate_assumption ::
    "variable_references \<Rightarrow> (provenance_id, provenance_record) btree_map \<Rightarrow> planning_ir_limits
       \<Rightarrow> nat \<times> assumption \<Rightarrow> rule_id set \<times> bool_variable_id set \<times> u64
       \<Rightarrow> (rule_id set \<times> bool_variable_id set \<times> u64) checks" where
  "validate_assumption refs provenance_records limits entry st =
     (case entry of (index, assumption) \<Rightarrow> case st of (rule_ids, literal_variables, total_refs) \<Rightarrow>
      let path = indexed ''assumptions'' index '''' in
      then_p visit_v
     (then_p (lift_v (if required_rules assumption = [] then shape (path @ ''.requiredRules'') else Ok ()))
     (bind_p (lift_v (checked_v (u64_checked_add (length (required_rules assumption)) 1)
          (path @ ''.references''))) (\<lambda>refs_count.
      then_p (lift_v (check_limit refs_count (max_refs_per_node limits) (path @ ''.references'')))
     (bind_p (lift_v (add_refs total_refs refs_count limits)) (\<lambda>total_refs.
      then_p (strict_with_context (required_rules assumption) (path @ ''.requiredRules''))
     (then_p (lift_v (if lit_variable (assumption_literal assumption) \<in> literal_variables
          then duplicate (path @ ''.literal.variable'') else Ok ()))
     (then_p (lift_v (require_literal (assumption_literal assumption) (ref_bools refs)
          (path @ ''.literal'')))
     (then_p (lift_v (require_provenance (assumption_provenance assumption) (ref_provenance refs)
          (path @ ''.provenance'')))
     (then_p (lift_v
          (case bt_get provenance_records (assumption_provenance assumption) of
             None \<Rightarrow> shape (path @ ''.provenance'')
           | Some record \<Rightarrow>
               if source_kind record \<noteq> RequiredRule then shape (path @ ''.provenance'') else Ok ()))
     (bind_p (each_p (\<lambda>(rule_index, rule_id) rule_ids. then_p visit_v (lift_v
          (if rule_id \<in> rule_ids
           then duplicate (indexed (path @ ''.requiredRules'') rule_index '''')
           else Ok (insert rule_id rule_ids))))
          (enumerate 0 (required_rules assumption)) rule_ids) (\<lambda>rule_ids.
      ret (rule_ids, insert (lit_variable (assumption_literal assumption)) literal_variables,
           total_refs)))))))))))))"

definition validate_assumptions ::
    "planning_problem \<Rightarrow> variable_references \<Rightarrow> planning_ir_limits \<Rightarrow> u64 \<Rightarrow> u64 checks" where
  "validate_assumptions problem refs limits total_refs =
     (if assumptions problem = [] then ret total_refs
      else
        bind_p (each_p (\<lambda>record records. then_p visit_v
            (ret (bt_insert (provenance_record_id record) record records))) (provenance problem) [])
          (\<lambda>provenance_records.
        bind_p (each_p (validate_assumption refs provenance_records limits)
            (enumerate 0 (assumptions problem)) ({}, {}, total_refs))
          (\<lambda>(rule_ids, literal_variables, total_refs). ret total_refs)))"

subsection \<open>Projections\<close>

fun validate_projection_expression ::
    "variable_references \<Rightarrow> planning_ir_limits \<Rightarrow> projection_expression \<Rightarrow> unit checks" where
  "validate_projection_expression refs limits (EBoolean v) =
     lift_v (require_bool v (ref_bools refs) ''projections.expression'')"
| "validate_projection_expression refs limits (EInteger v) =
     bind_p (lift_v (require_int v (ref_ints refs) ''projections.expression'')) (\<lambda>_. ret ())"
| "validate_projection_expression refs limits (ELinear e) =
     bind_p (expression_bounds e (ref_ints refs) limits ''projections.expression'') (\<lambda>_.
       check_each (\<lambda>_. visit_v) (expr_terms e))"
| "validate_projection_expression refs limits (EInterval v) =
     lift_v (require_interval v (ref_intervals refs) ''projections.expression'')"
| "validate_projection_expression refs limits (EConstant (AInterval interval)) =
     lift_v (if assigned_interval_validate interval then Ok ()
       else reject InvalidProjection ''projections.expression'')"
| "validate_projection_expression refs limits (EConstant _) = ret ()"

definition validate_projection ::
    "variable_references \<Rightarrow> planning_ir_limits \<Rightarrow> solution_projection
       \<Rightarrow> string set \<times> u64 \<Rightarrow> (string set \<times> u64) checks" where
  "validate_projection refs limits projection st =
     (case st of (assignments, total_refs) \<Rightarrow>
      then_p visit_v
     (then_p (lift_v (if assignment_id projection \<in> assignments
          then duplicate ''projections.assignmentId'' else Ok ()))
     (then_p (lift_v (require_provenance (projection_provenance projection) (ref_provenance refs)
          ''projections''))
     (then_p (validate_projection_expression refs limits (projection_expression projection))
     (then_p (lift_v (check_limit (projection_node_count (projection_expression projection))
          (max_refs_per_node limits) ''projections.expression''))
     (bind_p (lift_v (add_refs total_refs
          (projection_node_count (projection_expression projection)) limits)) (\<lambda>total_refs.
      then_p (lift_v (if max_projection_expression_depth limits < 1
          then reject LimitExceeded ''projections.expressionDepth'' else Ok ()))
        (ret (insert (assignment_id projection) assignments, total_refs)))))))))"

definition validate_projections ::
    "planning_problem \<Rightarrow> variable_references \<Rightarrow> planning_ir_limits \<Rightarrow> u64 \<Rightarrow> u64 checks" where
  "validate_projections problem refs limits total_refs =
     bind_p (each_p (validate_projection refs limits) (projections problem) ({}, total_refs))
       (\<lambda>(assignments, total_refs). ret total_refs)"

subsection \<open>Provenance\<close>

text \<open>
  \<open>binary_search_by\<close> on records whose identifiers ascend strictly, which \<open>validate_root_order\<close>
  has checked: the position of the only match.
\<close>

fun position :: "('a \<Rightarrow> bool) \<Rightarrow> 'a list \<Rightarrow> nat option" where
  "position P [] = None"
| "position P (x # xs) = (if P x then Some 0 else map_option Suc (position P xs))"

definition binary_search :: "provenance_record list \<Rightarrow> provenance_id \<Rightarrow> nat option" where
  "binary_search records v = position (\<lambda>r. provenance_record_id r = v) records"

text \<open>\<open>usize::BITS - leading_zeros()\<close>: the number of significant bits.\<close>

fun bit_length :: "nat \<Rightarrow> nat" where
  "bit_length n = (if n = 0 then 0 else Suc (bit_length (n div 2)))"

declare bit_length.simps [simp del]

definition trail_has ::
    "provenance_record list \<Rightarrow> provenance_id \<Rightarrow> usize list \<Rightarrow> unit checks" where
  "trail_has records v trail =
     check_each (\<lambda>index. then_p visit_v (lift_v
       (if index \<ge> length records then Abort
        else if provenance_record_id (records ! index) = v
        then reject ProvenanceCycle ''provenance.parent'' else Ok ()))) trail"

fun chain_up ::
    "nat \<Rightarrow> provenance_record list \<Rightarrow> u64 option list \<Rightarrow> u64 \<Rightarrow> usize list \<Rightarrow> provenance_id option
       \<Rightarrow> (usize list \<times> u64) checks" where
  "chain_up fuel records completed depth_limit trail None = ret (trail, 0)"
| "chain_up 0 records completed depth_limit trail (Some v) = lift_v Abort"
| "chain_up (Suc fuel) records completed depth_limit trail (Some v) =
     then_p (work_v 8)
    (then_p (trail_has records v trail)
    (bind_p (lift_v (checked_v (u64_checked_add (length trail) 1) ''provenance.depth'')) (\<lambda>partial_depth.
     then_p (lift_v (if partial_depth > depth_limit then reject LimitExceeded ''provenance.depth''
         else Ok ()))
    (then_p (work_v (bit_length (length records) + 1))
    (bind_p (lift_v (case binary_search records v of
         None \<Rightarrow> reject MissingReference ''provenance.parent'' | Some index \<Rightarrow> Ok index)) (\<lambda>index.
     if index \<ge> length completed \<or> index \<ge> length records then lift_v Abort
     else (case completed ! index of
         Some depth \<Rightarrow>
           bind_p (lift_v (checked_v (u64_checked_add (length trail) depth) ''provenance.depth''))
             (\<lambda>total_depth.
           then_p (lift_v (if total_depth > depth_limit then reject LimitExceeded ''provenance.depth''
               else Ok ()))
             (ret (trail, depth)))
       | None \<Rightarrow>
           chain_up fuel records completed depth_limit (trail @ [index])
             (parent (records ! index)))))))))"

definition unwind :: "usize list \<Rightarrow> u64 \<Rightarrow> u64 option list \<Rightarrow> u64 option list checks" where
  "unwind trail tail_depth completed =
     bind_p (each_p (\<lambda>index (tail_depth, completed).
         then_p visit_v
        (bind_p (lift_v (checked_v (u64_checked_add tail_depth 1) ''provenance.depth'')) (\<lambda>tail_depth.
         if index \<ge> length completed then lift_v Abort
         else ret (tail_depth, completed[index := Some tail_depth]))))
       (rev trail) (tail_depth, completed)) (\<lambda>(tail_depth, completed). ret completed)"

definition validate_provenance_chain ::
    "provenance_id \<Rightarrow> provenance_record list \<Rightarrow> u64 \<Rightarrow> u64 option list \<Rightarrow> u64 option list checks" where
  "validate_provenance_chain start records depth_limit completed =
     bind_p (chain_up (length records + 1) records completed depth_limit [] (Some start))
       (\<lambda>(trail, tail_depth). unwind trail tail_depth completed)"

definition validate_provenance_record ::
    "planning_ir_limits \<Rightarrow> provenance_record \<Rightarrow> unit checks" where
  "validate_provenance_record limits record =
     then_p visit_v
    (then_p (lift_v (check_limit (length (entity_refs record)) (max_entity_refs_per_record limits)
         ''provenance.entityRefs''))
    (then_p (lift_v (check_limit (length (parameters record)) (max_parameters_per_record limits)
         ''provenance.parameters''))
    (then_p (strict_with_context (entity_refs record) ''provenance.entityRefs'')
    (then_p (lift_v (check_text (source_id record) (max_metadata_text_bytes limits) ''provenance.sourceId''))
    (then_p (lift_v (check_text (message_key record) (max_metadata_text_bytes limits)
         ''provenance.messageKey''))
    (check_each (\<lambda>(key, v). then_p visit_v
       (then_p (lift_v (check_text key (max_parameter_text_bytes limits) ''provenance.parameters.key''))
          (lift_v (case v of
              PText txt \<Rightarrow> check_text txt (max_parameter_text_bytes limits) ''provenance.parameters.text''
            | _ \<Rightarrow> Ok ())))) (parameters record)))))))"

definition memo_reservation ::
    "u64 \<Rightarrow> u64 \<Rightarrow> (planning_preparation_error, transient_reservation option) prep" where
  "memo_reservation record_count path_capacity =
     reserving (bind_p (lift_o (ok_or PrepArithmeticOverflow
         (Option.bind (u64_checked_mul record_count 16) (\<lambda>bytes.
          Option.bind (u64_checked_mul path_capacity 8) (\<lambda>path_bytes.
            u64_checked_add bytes path_bytes))))) (\<lambda>bytes.
       bind_p (reserve_owned bytes) (\<lambda>reservation.
       then_p (holding [reservation] (if_budget (reserve_work record_count))) (ret reservation))))"

definition collect_used :: "('a \<Rightarrow> provenance_id) \<Rightarrow> 'a list \<Rightarrow> provenance_id set \<Rightarrow> provenance_id set checks"
  where
  "collect_used p xs used = each_p (\<lambda>x used. then_p visit_v (ret (insert (p x) used))) xs used"

definition directly_used :: "planning_problem \<Rightarrow> provenance_id set checks" where
  "directly_used problem =
     bind_p (collect_used variable_provenance (variables problem) {}) (\<lambda>used.
     bind_p (collect_used record_provenance (constraints problem) used) (\<lambda>used.
     bind_p (each_p (\<lambda>level used. then_p visit_v
         (collect_used objective_term_provenance (level_terms level)
            (insert (level_provenance level) used)))
       (levels (objectives problem)) used) (\<lambda>used.
     bind_p (collect_used assumption_provenance (assumptions problem) used) (\<lambda>used.
     collect_used projection_provenance (projections problem) used))))"

text \<open>The stack of pending identifiers, its top first.\<close>

fun cover ::
    "nat \<Rightarrow> provenance_record list \<Rightarrow> provenance_id list \<Rightarrow> provenance_id set \<Rightarrow> provenance_id set checks"
  where
  "cover fuel records [] used = ret used"
| "cover 0 records (v # pending) used = lift_v Abort"
| "cover (Suc fuel) records (v # pending) used =
     then_p visit_v
    (then_p (work_v (bit_length (length records) + 1))
    (bind_p (lift_v (case binary_search records v of
         None \<Rightarrow> reject MissingProvenance ''provenance'' | Some index \<Rightarrow> Ok index)) (\<lambda>index.
     case parent (records ! index) of
       None \<Rightarrow> cover fuel records pending used
     | Some p \<Rightarrow>
         if p \<in> used then cover fuel records pending used
         else cover fuel records (p # pending) (insert p used))))"

definition validate_provenance_coverage :: "planning_problem \<Rightarrow> unit checks" where
  "validate_provenance_coverage problem =
     bind_p (directly_used problem) (\<lambda>used.
     bind_p (each_p (\<lambda>v pending. then_p visit_v (ret (v # pending))) (sorted_list_of_set used) [])
       (\<lambda>pending.
     bind_p (cover (length pending + length (provenance problem) + 1) (provenance problem) pending used)
       (\<lambda>used.
     lift_v (if card used \<noteq> length (provenance problem) then reject OrphanProvenance ''provenance''
       else Ok ()))))"

definition validate_provenance :: "planning_problem \<Rightarrow> planning_ir_limits \<Rightarrow> unit checks" where
  "validate_provenance problem limits =
     (let record_count = length (provenance problem);
          path_capacity = min record_count (max_provenance_depth limits)
      in then_p
        (bind_p (map_err_p Preparation (memo_reservation record_count path_capacity)) (\<lambda>memo.
           bracket memo
             (bind_p (each_p (\<lambda>record completed.
                then_p (validate_provenance_record limits record)
                  (validate_provenance_chain (provenance_record_id record) (provenance problem)
                     (max_provenance_depth limits) completed))
                (provenance problem) (replicate record_count None)) (\<lambda>_. ret ()))))
        (validate_provenance_coverage problem))"

definition validate_metadata :: "planning_metadata \<Rightarrow> planning_ir_limits \<Rightarrow> unit checks" where
  "validate_metadata m limits =
     then_p (lift_v (check_text (compiler_version m) (max_metadata_text_bytes limits)
         ''metadata.compilerVersion''))
    (then_p (check_each (\<lambda>(key, v). then_p visit_v
       (then_p (lift_v (check_text key (max_id_bytes limits) ''metadata.compileMetadata.key''))
          (lift_v (case v of
              PText txt \<Rightarrow> check_text txt (max_metadata_text_bytes limits) ''metadata.compileMetadata.text''
            | _ \<Rightarrow> Ok ())))) (compile_metadata m))
    (check_each (\<lambda>(key, v). then_p visit_v
       (then_p (lift_v (check_text key (max_metadata_text_bytes limits) ''metadata.displayText.key''))
          (lift_v (check_text v (max_metadata_text_bytes limits) ''metadata.displayText.value''))))
       (display_text m)))"

subsection \<open>The entry points\<close>

definition validate_core ::
    "planning_problem \<Rightarrow> planning_ir_limits \<Rightarrow> (variable_references \<times> u64) checks" where
  "validate_core problem limits =
     then_p (validate_root problem limits)
    (bind_p (validate_variables problem limits) (\<lambda>(refs, total_refs).
     bind_p (validate_constraints problem refs limits total_refs) (\<lambda>total_refs.
     bind_p (validate_objectives problem refs limits total_refs) (\<lambda>total_refs.
     bind_p (validate_assumptions problem refs limits total_refs) (\<lambda>total_refs.
     bind_p (validate_projections problem refs limits total_refs) (\<lambda>total_refs.
     then_p (validate_provenance problem limits)
    (then_p (validate_metadata (metadata problem) limits) (ret (refs, total_refs)))))))))"

definition validate_features_and_components_with_analysis ::
    "planning_problem \<Rightarrow> u64 \<Rightarrow> planning_ir_limits \<Rightarrow> feature_usage_manifest \<Rightarrow> component_analysis
       \<Rightarrow> unit checked" where
  "validate_features_and_components_with_analysis problem total_refs limits usage analyzed =
     (if list_ex (\<lambda>c. c \<notin> declared_capabilities problem) (map fst (capability_counts usage))
      then reject UndeclaredCapability ''declaredCapabilities''
      else if table_row_count usage > max_table_rows limits \<or>
              table_cell_count usage > max_table_cells limits
      then reject LimitExceeded ''tables''
      else if total_refs > max_total_refs limits then reject LimitExceeded ''totalReferences''
      else
        bind_o (check_limit (length (components analyzed)) (max_component_nodes limits)
          ''components.nodes'') (\<lambda>_.
        if edge_count analyzed > max_component_edges limits
        then reject LimitExceeded ''components.edges''
        else case split_authorization problem of
            None \<Rightarrow> Ok ()
          | Some authorization \<Rightarrow>
              if authorized_component_hash authorization \<noteq> component_hash analyzed \<or>
                 domain_merge_contract authorization = [] \<or>
                 length (domain_merge_contract authorization) > max_metadata_text_bytes limits \<or>
                 \<not> projection_independent authorization
              then reject InvalidSplitAuthorization ''splitAuthorization''
              else Ok ()))"

definition validate_features_and_components ::
    "(string \<Rightarrow> string) \<Rightarrow> planning_problem \<Rightarrow> u64 \<Rightarrow> planning_ir_limits \<Rightarrow> unit checked" where
  "validate_features_and_components blake3 problem total_refs limits =
     (case feature_usage problem of
        Ok usage \<Rightarrow>
          (case analyze_components blake3 problem of
             Ok analyzed \<Rightarrow>
               validate_features_and_components_with_analysis problem total_refs limits usage analyzed
           | _ \<Rightarrow> Abort)
      | _ \<Rightarrow> Abort)"

text \<open>\<open>validate\<close>, whose \<open>unreachable!\<close> is the \<open>Abort\<close> on a preparation error.\<close>

definition validate ::
    "(string \<Rightarrow> string) \<Rightarrow> planning_problem \<Rightarrow> planning_ir_limits \<Rightarrow> unit checked" where
  "validate blake3 problem limits =
     (case uncontrolled (validate_core problem limits) of
        Ok (refs, total_refs) \<Rightarrow> validate_features_and_components blake3 problem total_refs limits
      | Err (Invalid e) \<Rightarrow> Err e
      | Err (Preparation _) \<Rightarrow> Abort
      | Abort \<Rightarrow> Abort)"

definition parse_and_validate ::
    "(string \<Rightarrow> planning_problem option) \<Rightarrow> (string \<Rightarrow> string) \<Rightarrow> string \<Rightarrow> planning_ir_limits
       \<Rightarrow> planning_problem checked" where
  "parse_and_validate from_slice blake3 bytes limits =
     (if length bytes > max_ir_bytes limits then reject LimitExceeded ''bytes''
      else case from_slice bytes of
          None \<Rightarrow> reject MalformedJson ''json''
        | Some problem \<Rightarrow> bind_o (validate blake3 problem limits) (\<lambda>_. Ok problem))"

definition add_units :: "usize \<Rightarrow> u64 \<Rightarrow> (planning_preparation_error, u64) prep" where
  "add_units n units = lift_o (ok_or PrepArithmeticOverflow (u64_checked_add units n))"

definition validation_scratch_bytes :: "planning_problem \<Rightarrow> (planning_preparation_error, u64) prep" where
  "validation_scratch_bytes problem =
     bind_p (each_p (\<lambda>n units. then_p visit (add_units n units))
       [length (variables problem), length (constraints problem), length (assumptions problem),
        length (levels (objectives problem)), length (projections problem),
        length (provenance problem)] 0) (\<lambda>units.
     bind_p (each_p (\<lambda>record units. then_p visit (each_p add_units
         [constraint_node_count (body record), length (enforcement record), length (tags record)] units))
       (constraints problem) units) (\<lambda>units.
     bind_p (each_p (\<lambda>assumption units. then_p visit (add_units (length (required_rules assumption)) units))
       (assumptions problem) units) (\<lambda>units.
     bind_p (each_p (\<lambda>projection units. then_p visit
         (add_units (projection_node_count (projection_expression projection)) units))
       (projections problem) units) (\<lambda>units.
     bind_p (each_p (\<lambda>level units. then_p visit
         (bind_p (add_units (length (level_terms level)) units) (\<lambda>units.
            each_p (\<lambda>t units. then_p visit
              (add_units (length (expr_terms (objective_expression t))) units)) (level_terms level) units)))
       (levels (objectives problem)) units) (\<lambda>units.
     lift_o (ok_or PrepArithmeticOverflow
       (Option.bind (u64_checked_mul units 128) (\<lambda>v. u64_checked_add v 4096))))))))"

definition validate_budgeted ::
    "(string \<Rightarrow> string) \<Rightarrow> planning_problem \<Rightarrow> planning_ir_limits
       \<Rightarrow> (feature_usage_manifest \<times> budgeted_component_analysis) checks" where
  "validate_budgeted blake3 problem limits =
     then_p (map_err_p Preparation (if_budget budget_check))
    (then_p (lift_v (validate_root_admission problem limits))
    (bind_p (map_err_p Preparation (validation_scratch_bytes problem)) (\<lambda>scratch.
     bind_p (bind_p (map_err_p Preparation (reserve_owned scratch)) (\<lambda>scratch_reservation.
       bracket scratch_reservation (validate_core problem limits))) (\<lambda>(refs, total_refs).
     bind_p (map_err_p Preparation (feature_usage_inner problem)) (\<lambda>manifest.
     bind_p (map_err_p Preparation (analyze_components_inner blake3 problem)) (\<lambda>analyzed.
     then_p (holding [reservation analyzed]
         (then_p (lift_v (validate_features_and_components_with_analysis problem total_refs limits
            manifest (analysis analyzed)))
           (map_err_p Preparation (if_budget budget_check))))
       (ret (manifest, analyzed))))))))"

definition validate_with_budget ::
    "(string \<Rightarrow> string) \<Rightarrow> planning_problem \<Rightarrow> planning_ir_limits \<Rightarrow> budget
       \<Rightarrow> (budgeted_validation_error, feature_usage_manifest \<times> budgeted_component_analysis) outcome
            \<times> budget" where
  "validate_with_budget blake3 problem limits = controlled (validate_budgeted blake3 problem limits)"

end
