(* ===== verification/Validation_Safety.thy ===== *)
theory Validation_Safety
  imports Validation Component_Correctness
begin

section \<open>Validation terminates, never panics and keeps the budget\<close>

text \<open>
  One predicate carries the contract of every check: the two sides agree, the transient bytes
  balance, and without a budget the only error is an invalid model. It is closed under the way
  checks are put together, so each function has it by its text; only the provenance loops and the
  two-sided table check need an argument of their own.
\<close>

named_theorems wb_intro \<open>introduction rules for well-behaved checks\<close>

fun admissible :: "(budgeted_validation_error, 'a) outcome \<Rightarrow> bool" where
  "admissible (Ok _) = True"
| "admissible (Err (Invalid _)) = True"
| "admissible (Err (Preparation _)) = False"
| "admissible Abort = False"

definition well_behaved :: "'a checks \<Rightarrow> bool" where
  "well_behaved m \<longleftrightarrow> agrees m \<and> balanced m \<and> admissible (uncontrolled m)"

definition no_panic :: "('e, 'a) outcome \<Rightarrow> bool" where
  "no_panic r \<longleftrightarrow> r \<noteq> Abort"

lemma well_behavedD:
  "well_behaved m \<Longrightarrow> agrees m" "well_behaved m \<Longrightarrow> balanced m"
  "well_behaved m \<Longrightarrow> admissible (uncontrolled m)"
  by (simp_all add: well_behaved_def)

subsection \<open>Closure\<close>

lemma wb_ret [wb_intro]: "well_behaved (ret x)"
  by (auto simp: well_behaved_def intro!: agrees_intro holds_intro)

lemma wb_lift_v [wb_intro]: "no_panic r \<Longrightarrow> well_behaved (lift_v r)"
  unfolding well_behaved_def lift_v_def no_panic_def
  by (cases r) (auto intro!: agrees_intro holds_intro)

lemma wb_work_v [wb_intro]: "well_behaved (work_v n)"
  unfolding well_behaved_def work_v_def by (auto intro!: agrees_intro holds_intro)

lemma wb_visit_v [wb_intro]: "well_behaved visit_v"
  unfolding well_behaved_def visit_v_def by (auto intro!: agrees_intro holds_intro)

lemma admissible_bind:
  "admissible r \<Longrightarrow> (\<And>x. r = Ok x \<Longrightarrow> admissible (f x)) \<Longrightarrow> admissible (bind_o r f)"
  by (cases r rule: admissible.cases) simp_all

lemma wb_bind [wb_intro]:
  assumes "well_behaved m" and "\<And>x. uncontrolled m = Ok x \<Longrightarrow> well_behaved (f x)"
  shows "well_behaved (bind_p m f)"
  using assms unfolding well_behaved_def
  by (auto intro!: agrees_bind_p holds_bind_balanced admissible_bind)

lemma wb_then_Ok:
  "well_behaved m \<Longrightarrow> (uncontrolled m = Ok () \<Longrightarrow> well_behaved n) \<Longrightarrow> well_behaved (then_p m n)"
  unfolding then_p_bind by (rule wb_bind) simp_all

lemma wb_then [wb_intro]: "well_behaved m \<Longrightarrow> well_behaved n \<Longrightarrow> well_behaved (then_p m n)"
  by (rule wb_then_Ok)

lemma wb_if [wb_intro]:
  "(c \<Longrightarrow> well_behaved m) \<Longrightarrow> (\<not> c \<Longrightarrow> well_behaved n) \<Longrightarrow> well_behaved (if c then m else n)"
  by simp

lemma wb_each_inv:
  assumes "I s" and "\<And>x s. x \<in> set xs \<Longrightarrow> I s \<Longrightarrow> well_behaved (f x s)"
    and "\<And>x s s'. x \<in> set xs \<Longrightarrow> I s \<Longrightarrow> uncontrolled (f x s) = Ok s' \<Longrightarrow> I s'"
  shows "well_behaved (each_p f xs s)"
  using assms
proof (induction xs arbitrary: s)
  case (Cons x xs)
  show ?case unfolding each_p.simps
  proof (rule wb_bind)
    show "well_behaved (f x s)" using Cons.prems by simp
    fix s' assume "uncontrolled (f x s) = Ok s'"
    then have "I s'" using Cons.prems(1,3) by (meson list.set_intros(1))
    then show "well_behaved (each_p f xs s')" using Cons.IH Cons.prems(2,3) by (meson list.set_intros(2))
  qed
qed (simp add: wb_ret)

lemma wb_each [wb_intro]: "(\<And>x s. x \<in> set xs \<Longrightarrow> well_behaved (f x s)) \<Longrightarrow> well_behaved (each_p f xs s)"
  by (rule wb_each_inv [where I = "\<lambda>_. True"]) auto

lemma wb_check_each [wb_intro]: "(\<And>x. x \<in> set xs \<Longrightarrow> well_behaved (f x)) \<Longrightarrow> well_behaved (check_each f xs)"
  unfolding check_each_def by (rule wb_each)

subsection \<open>Pure checks do not panic\<close>

lemma no_panic_Ok [wb_intro]: "no_panic (Ok x)"
  by (simp add: no_panic_def)

lemma no_panic_bind [wb_intro]:
  "no_panic r \<Longrightarrow> (\<And>x. r = Ok x \<Longrightarrow> no_panic (f x)) \<Longrightarrow> no_panic (bind_o r f)"
  by (cases r) (simp_all add: no_panic_def)

lemma no_panic_if [wb_intro]: "no_panic r \<Longrightarrow> no_panic q \<Longrightarrow> no_panic (if c then r else q)"
  by simp

lemma no_panic_option [wb_intro]:
  "no_panic r \<Longrightarrow> (\<And>x. no_panic (f x)) \<Longrightarrow> no_panic (case v of None \<Rightarrow> r | Some x \<Rightarrow> f x)"
  by (cases v) simp_all

lemma no_panic_checks [wb_intro]:
  "no_panic (reject c p)" "no_panic (duplicate p)" "no_panic (noncanonical p)" "no_panic (shape p)"
  "no_panic (checked_v w p)" "no_panic (check_value v limits p)" "no_panic (check_text t n p)"
  "no_panic (check_limit k n p)" "no_panic (require_bool bv bs p)" "no_panic (require_literal l bs p)"
  "no_panic (require_int iv ints p)" "no_panic (require_interval tv ts p)"
  "no_panic (require_provenance pv ps p)" "no_panic (map_err h (int_domain_new rs))"
  by (simp_all add: no_panic_def reject_def duplicate_def noncanonical_def shape_def checked_v_def
      check_value_def check_text_def check_limit_def require_bool_def require_literal_def
      require_int_def require_interval_def require_provenance_def int_domain_new_def Let_def
      split: option.split)

lemma no_panic_binds [wb_intro]:
  "no_panic (add_refs n k limits)" "no_panic (prove_abs_bounds l r p)"
  "no_panic (term_bounds t ints limits p b)" "no_panic (validate_root_admission problem limits)"
  "no_panic (declare_variable index v q st)"
  unfolding add_refs_def prove_abs_bounds_def term_bounds_def validate_root_admission_def
    declare_variable_def case_prod_unfold
  by (intro wb_intro)+

subsection \<open>Checks of one value\<close>

lemma wb_strict [wb_intro]:
  "well_behaved (strict_by_with_context key xs p)" "well_behaved (strict_with_context ys p)"
  unfolding strict_by_with_context_def strict_with_context_def
  by (auto intro!: wb_intro split: prod.split)

lemma wb_validate_domain [wb_intro]: "well_behaved (validate_domain d limits p)"
  unfolding validate_domain_def by (auto intro!: wb_intro)

lemma wb_expression_bounds [wb_intro]: "well_behaved (expression_bounds e ints limits p)"
  unfolding expression_bounds_def by (auto intro!: wb_intro)

lemma wb_validate_comparison [wb_intro]: "well_behaved (validate_comparison c ints limits p)"
  unfolding validate_comparison_def by (auto intro!: wb_intro)

lemma wb_interval_equation [wb_intro]: "well_behaved (validate_interval_equation s d e i)"
  unfolding validate_interval_equation_def interval_scan_def Let_def
  by (auto intro!: wb_intro split: prod.split)

lemma wb_require_ints [wb_intro]: "well_behaved (require_ints vs ints p)"
  unfolding require_ints_def by (auto intro!: wb_intro)

lemma wb_validate_literals [wb_intro]: "well_behaved (validate_literals ls bs p)"
  unfolding validate_literals_def by (auto intro!: wb_intro)

lemma wb_integer_aggregate [wb_intro]: "well_behaved (validate_integer_aggregate t vs ints p)"
  unfolding validate_integer_aggregate_def by (auto intro!: wb_intro)

lemma wb_validate_cumulative [wb_intro]: "well_behaved (validate_cumulative vs ds c ts limits p)"
  unfolding validate_cumulative_def by (auto intro!: wb_intro split: prod.split)

subsection \<open>The table check and its two orders of work\<close>

lemma wb_first_difference [wb_intro]: "well_behaved (first_difference ps)"
  by (induction ps rule: first_difference.induct) (auto intro!: wb_intro)

lemma wb_strict_table_rows [wb_intro]: "well_behaved (strict_table_rows_with_context rows p)"
  unfolding strict_table_rows_with_context_def by (auto intro!: wb_intro split: prod.split)

fun row_difference :: "(i64 \<times> i64) list \<Rightarrow> ordering option" where
  "row_difference [] = None"
| "row_difference ((l, r) # ps) = (if l \<noteq> r then Some (cmp l r) else row_difference ps)"

lemma uncontrolled_visit_v [simp]: "uncontrolled visit_v = Ok ()" "uncontrolled (work_v n) = Ok ()"
  by (simp_all add: visit_v_def work_v_def)

lemma uncontrolled_lift_v [simp]: "uncontrolled (lift_v r) = map_err Invalid r"
  by (simp add: lift_v_def)

lemma uncontrolled_first_difference [simp]: "uncontrolled (first_difference ps) = Ok (row_difference ps)"
  by (induction ps rule: first_difference.induct) simp_all

lemma cmp_Less [simp]: "cmp a b = OrdLess \<longleftrightarrow> a < b"
  by (simp add: cmp_def)

lemma row_order:
  "(case row_difference (zip a b) of None \<Rightarrow> cmp (length a) (length b) | Some o' \<Rightarrow> o') = OrdLess
     \<longleftrightarrow> a < b"
proof (induction a arbitrary: b)
  case Nil
  then show ?case by (cases b) simp_all
next
  case (Cons x a)
  then show ?case
  proof (cases b)
    case (Cons y b')
    with Cons.IH [of b'] show ?thesis by (auto simp: cmp_def split: option.splits)
  qed (simp add: cmp_def)
qed

lemma rejected_not_Ok [simp]:
  "reject c p \<noteq> Ok x" "duplicate p \<noteq> Ok x" "noncanonical p \<noteq> Ok x" "shape p \<noteq> Ok x"
  by (simp_all add: noncanonical_def shape_def reject_def duplicate_def)

lemma if_reject_Ok [simp]:
  "(if c then reject e p else Ok x) = Ok y \<longleftrightarrow> \<not> c \<and> x = y"
  "(if c then duplicate p else Ok x) = Ok y \<longleftrightarrow> \<not> c \<and> x = y"
  "(if c then noncanonical p else Ok x) = Ok y \<longleftrightarrow> \<not> c \<and> x = y"
  "(if c then shape p else Ok x) = Ok y \<longleftrightarrow> \<not> c \<and> x = y"
  by simp_all

lemma strict_by_Ok:
  "uncontrolled (strict_by_with_context key xs p) = Ok () \<longleftrightarrow> strictly_sorted (map key xs)"
proof -
  have "uncontrolled (strict_by_with_context key xs p) = Ok ()
      \<longleftrightarrow> (\<forall>q \<in> set (windows2 xs). key (fst q) < key (snd q))"
    unfolding strict_by_with_context_def uncontrolled_check_each case_prod_unfold
    by (simp add: not_le)
  then show ?thesis by (simp only: strictly_sorted_by_windows)
qed

lemma strict_Ok: "uncontrolled (strict_with_context xs p) = Ok () \<longleftrightarrow> strictly_sorted xs"
  using strict_by_Ok [of "\<lambda>x. x" xs p] by (simp add: strict_with_context_def strict_by_with_context_def)

lemma strict_table_rows_Ok:
  "uncontrolled (strict_table_rows_with_context rows p) = Ok () \<longleftrightarrow> strictly_sorted rows"
proof -
  have "uncontrolled (strict_table_rows_with_context rows p) = Ok ()
      \<longleftrightarrow> (\<forall>q \<in> set (windows2 rows). fst q < snd q)"
    unfolding strict_table_rows_with_context_def uncontrolled_check_each case_prod_unfold
    by (simp add: row_order)
  then show ?thesis by (simp only: strictly_sorted_windows)
qed

lemma checked_v_Ok [simp]: "checked_v v p = Ok x \<longleftrightarrow> v = Some x"
  by (simp add: checked_v_def reject_def split: option.split)

lemma count_cells:
  assumes "each_o (\<lambda>row cells. map_err Invalid (if length row \<noteq> arity then shape p
      else checked_v (u64_checked_add cells (length row)) p)) rows n = Ok cells"
  shows "(\<forall>row \<in> set rows. length row = arity) \<and> cells = n + length rows * arity \<and>
    (n \<le> u64_max \<longrightarrow> cells \<le> u64_max)"
  using assms
proof (induction rows arbitrary: n)
  case (Cons row rows)
  let ?f = "\<lambda>row cells. map_err Invalid (if length row \<noteq> arity then shape p
      else checked_v (u64_checked_add cells (length row)) p)"
  from Cons.prems obtain k where k: "?f row n = Ok k" and r: "each_o ?f rows k = Ok cells" by auto
  from k have "length row = arity" "k = n + arity" "k \<le> u64_max" by (auto split: if_splits)
  with Cons.IH [OF r] show ?case by simp
qed simp

lemma wb_branch:
  assumes "well_behaved m" "admissible (uncontrolled n)"
    and "\<And>x. uncontrolled m = Ok x \<Longrightarrow> uncontrolled n = Ok x"
  shows "well_behaved (branch_p m n)"
  unfolding well_behaved_def
proof (intro conjI)
  show "agrees (branch_p m n)"
    by (rule agrees_branch_p) (use assms agreesD [OF well_behavedD(1) [OF assms(1)]] in blast)
  show "balanced (branch_p m n)"
    using well_behavedD(2,3) [OF assms(1)] by (intro holds_branch_p) auto
  show "admissible (uncontrolled (branch_p m n))" using assms(2) by simp
qed

lemma wb_validate_table [wb_intro]: "well_behaved (validate_table vs rows ints limits p)"
proof -
  let ?m = "then_p (require_ints vs ints p)
        (bind_p (each_p (\<lambda>row cells. then_p visit_v
             (lift_v (if length row \<noteq> length vs then shape p
                      else checked_v (u64_checked_add cells (length row)) p))) rows 0) (\<lambda>cells.
         then_p (lift_v (if cells > max_table_cells limits then reject LimitExceeded p else Ok ()))
        (strict_table_rows_with_context rows p)))"
  let ?n = "then_p (strict_with_context rows p)
        (then_p (require_ints vs ints p)
        (then_p (lift_v (if list_ex (\<lambda>row. length row \<noteq> length vs) rows then shape p else Ok ()))
        (bind_p (lift_v (checked_v (u64_checked_mul (length rows) (length vs)) p)) (\<lambda>cells.
         lift_v (if cells > max_table_cells limits then reject LimitExceeded p else Ok ())))))"
  have "well_behaved (branch_p ?m ?n)"
  proof (rule wb_branch)
    show "well_behaved ?m" by (intro wb_intro)
    have "well_behaved ?n" by (intro wb_intro)
    then show "admissible (uncontrolled ?n)" by (rule well_behavedD)
    fix x assume m: "uncontrolled ?m = Ok x"
    then obtain cells where r: "uncontrolled (require_ints vs ints p) = Ok ()"
      and c: "each_o (\<lambda>row cells. map_err Invalid (if length row \<noteq> length vs then shape p
        else checked_v (u64_checked_add cells (length row)) p)) rows 0 = Ok cells"
      and l: "\<not> cells > max_table_cells limits"
      and s: "uncontrolled (strict_table_rows_with_context rows p) = Ok ()"
      by (auto simp del: uncontrolled_each_p simp add: uncontrolled_each_p [abs_def])
    note count_cells [OF c]
    with r l s show "uncontrolled ?n = Ok x"
      by (simp add: strict_table_rows_Ok strict_Ok list_ex_iff)
  qed
  then show ?thesis unfolding validate_table_def by (intro wb_intro)
qed

lemma wb_validate_constraint [wb_intro]: "well_behaved (validate_constraint c refs limits p)"
  by (cases c) (auto intro!: wb_intro)

subsection \<open>The passes over a problem\<close>

lemma wb_validate_root [wb_intro]: "well_behaved (validate_root problem limits)"
  unfolding validate_root_def validate_root_order_def by (intro wb_intro)

lemma wb_validate_variable [wb_intro]: "well_behaved (validate_variable limits x st)"
  by (cases "(limits, x, st)" rule: validate_variable.cases) (auto intro!: wb_intro)

lemma wb_validate_interval_variable [wb_intro]: "well_behaved (validate_interval_variable refs x)"
  by (cases "(refs, x)" rule: validate_interval_variable.cases) (auto intro!: wb_intro)

lemma wb_validate_variables [wb_intro]: "well_behaved (validate_variables problem limits)"
  unfolding validate_variables_def validate_interval_variables_def case_prod_unfold
  by (intro wb_intro)

lemma wb_validate_constraints [wb_intro]: "well_behaved (validate_constraints problem refs limits n)"
  unfolding validate_constraints_def validate_record_def case_prod_unfold by (intro wb_intro)

lemma wb_validate_objectives [wb_intro]: "well_behaved (validate_objectives problem refs limits n)"
  unfolding validate_objectives_def validate_level_def validate_objective_term_def case_prod_unfold
  by (intro wb_intro)

lemma wb_validate_assumptions [wb_intro]: "well_behaved (validate_assumptions problem refs limits n)"
  unfolding validate_assumptions_def validate_assumption_def case_prod_unfold Let_def
  by (intro wb_intro)

lemma wb_validate_projection_expression [wb_intro]:
  "well_behaved (validate_projection_expression refs limits e)"
  by (cases "(refs, limits, e)" rule: validate_projection_expression.cases) (auto intro!: wb_intro)

lemma wb_validate_projections [wb_intro]: "well_behaved (validate_projections problem refs limits n)"
  unfolding validate_projections_def validate_projection_def case_prod_unfold by (intro wb_intro)

lemma no_panic_parameter [wb_intro]:
  "(\<And>t. no_panic (f t)) \<Longrightarrow> no_panic (case v of PText t \<Rightarrow> f t | _ \<Rightarrow> Ok ())"
  by (cases v) (simp_all add: no_panic_Ok)

lemma wb_validate_metadata [wb_intro]: "well_behaved (validate_metadata m limits)"
  unfolding validate_metadata_def case_prod_unfold by (intro wb_intro)

lemma wb_validate_provenance_record [wb_intro]: "well_behaved (validate_provenance_record limits r)"
  unfolding validate_provenance_record_def case_prod_unfold by (intro wb_intro)

subsection \<open>Provenance chains end\<close>

lemma position_Some:
  "position P xs = Some i \<Longrightarrow> i < length xs \<and> P (xs ! i)"
proof (induction xs arbitrary: i)
  case (Cons x xs)
  then show ?case by (cases i) (auto split: if_splits)
qed simp

lemma position_None: "position P xs = None \<longleftrightarrow> (\<forall>x \<in> set xs. \<not> P x)"
  by (induction xs) auto

lemma binary_search_Some:
  "binary_search records v = Some i \<Longrightarrow> i < length records \<and> provenance_record_id (records ! i) = v"
  unfolding binary_search_def by (drule position_Some) simp

text \<open>A walk up the parents: distinct positions, each the position of the parent before it.\<close>

definition trail_ok :: "provenance_record list \<Rightarrow> usize list \<Rightarrow> bool" where
  "trail_ok records trail \<longleftrightarrow> distinct trail \<and> set trail \<subseteq> {..<length records}"

lemma trail_ok_length: "trail_ok records trail \<Longrightarrow> length trail \<le> length records"
  unfolding trail_ok_def
  by (metis card_lessThan card_mono distinct_card finite_lessThan)

lemma trail_has_Ok:
  "uncontrolled (trail_has records v trail) = Ok () \<longleftrightarrow>
     (\<forall>i \<in> set trail. i < length records \<and> provenance_record_id (records ! i) \<noteq> v)"
  unfolding trail_has_def uncontrolled_check_each by (auto simp: not_le)

lemma wb_trail_has:
  assumes "trail_ok records trail"
  shows "well_behaved (trail_has records v trail)"
  unfolding trail_has_def
proof (rule wb_check_each)
  fix index assume "index \<in> set trail"
  then have "index < length records" using assms by (auto simp: trail_ok_def)
  then show "well_behaved (then_p visit_v (lift_v
       (if index \<ge> length records then Abort
        else if provenance_record_id (records ! index) = v
        then reject ProvenanceCycle ''provenance.parent'' else Ok ())))"
    by (auto intro!: wb_intro)
qed

lemma trail_ok_snoc:
  assumes "trail_ok records trail" "uncontrolled (trail_has records v trail) = Ok ()"
    and "binary_search records v = Some i"
  shows "trail_ok records (trail @ [i])"
proof -
  from binary_search_Some [OF assms(3)] have i: "i < length records"
    "provenance_record_id (records ! i) = v" by simp_all
  from assms(2) i have "i \<notin> set trail" unfolding trail_has_Ok by blast
  with assms(1) i show ?thesis by (simp add: trail_ok_def)
qed

lemma wb_search:
  "well_behaved (lift_v (case binary_search records v of None \<Rightarrow> reject c p | Some index \<Rightarrow> Ok index))"
  by (intro wb_intro)

lemma wb_chain_up:
  assumes "trail_ok records trail" "length completed = length records"
    and "length records < fuel + length trail"
  shows "well_behaved (chain_up fuel records completed depth_limit trail v)"
  using assms
proof (induction fuel records completed depth_limit trail v rule: chain_up.induct)
  case (1 fuel records completed depth_limit trail)
  show ?case by (simp add: wb_ret)
next
  case (2 records completed depth_limit trail v)
  then show ?case using trail_ok_length [OF 2(1)] by simp
next
  case (3 fuel records completed depth_limit trail v)
  have next_step: "well_behaved (if index \<ge> length completed \<or> index \<ge> length records then lift_v Abort
     else (case completed ! index of
         Some depth \<Rightarrow>
           bind_p (lift_v (checked_v (u64_checked_add (length trail) depth) ''provenance.depth''))
             (\<lambda>total_depth.
           then_p (lift_v (if total_depth > depth_limit then reject LimitExceeded ''provenance.depth''
               else Ok ()))
             (ret (trail, depth)))
       | None \<Rightarrow>
           chain_up fuel records completed depth_limit (trail @ [index])
             (parent (records ! index))))"
    if t: "uncontrolled (trail_has records v trail) = Ok ()" and i: "binary_search records v = Some index"
    for index
  proof (cases "completed ! index")
    case None
    have "well_behaved (chain_up fuel records completed depth_limit (trail @ [index])
        (parent (records ! index)))"
      using "3.prems" binary_search_Some [OF i] trail_ok_snoc [OF "3.prems"(1) t i] None
      by (intro "3.IH") simp_all
    with None binary_search_Some [OF i] "3.prems"(2) show ?thesis by simp
  next
    case (Some depth)
    with binary_search_Some [OF i] "3.prems"(2) show ?thesis by (auto intro!: wb_intro)
  qed
  show ?case unfolding chain_up.simps
    by (intro wb_then wb_bind wb_then_Ok [OF wb_trail_has [OF "3.prems"(1)]] wb_search next_step wb_intro)
      (auto split: option.splits)
qed

lemma chain_up_trail:
  assumes "uncontrolled (chain_up fuel records completed depth_limit trail v) = Ok (trail', n)"
    and "trail_ok records trail"
  shows "trail_ok records trail'"
  using assms
proof (induction fuel records completed depth_limit trail v rule: chain_up.induct)
  case (3 fuel records completed depth_limit trail v)
  from "3.prems"(1) obtain i where t: "uncontrolled (trail_has records v trail) = Ok ()"
    and i: "binary_search records v = Some i"
    by (auto split: option.splits)
  with "3.prems" "3.IH" trail_ok_snoc [OF "3.prems"(2) t i] show ?case
    by (auto split: option.splits if_splits)
qed (simp_all add: map_err_def)

lemma wb_unwind:
  assumes "set trail \<subseteq> {..<length completed}"
  shows "well_behaved (unwind trail n completed)"
  unfolding unwind_def case_prod_unfold
proof (intro wb_bind wb_ret)
  show "well_behaved (each_p (\<lambda>index st. then_p visit_v
      (bind_p (lift_v (checked_v (u64_checked_add (fst st) 1) ''provenance.depth'')) (\<lambda>n.
         if index \<ge> length (snd st) then lift_v Abort else ret (n, (snd st)[index := Some n]))))
      (rev trail) (n, completed))"
  proof (rule wb_each_inv [where I = "\<lambda>st. length (snd st) = length completed"])
    fix index and st :: "u64 \<times> u64 option list"
    assume "index \<in> set (rev trail)" "length (snd st) = length completed"
    then have "index < length (snd st)" using assms by auto
    then show "well_behaved (then_p visit_v
        (bind_p (lift_v (checked_v (u64_checked_add (fst st) 1) ''provenance.depth'')) (\<lambda>n.
         if index \<ge> length (snd st) then lift_v Abort else ret (n, (snd st)[index := Some n]))))"
      by (auto intro!: wb_intro)
  qed (auto split: if_splits)
qed

lemma length_unwind:
  assumes "uncontrolled (unwind trail n completed) = Ok c"
  shows "length c = length completed"
proof -
  have "length (snd st') = length (snd st)"
    if "each_o (\<lambda>index st. bind_o (map_err Invalid (checked_v (u64_checked_add (fst st) 1) p)) (\<lambda>n.
         uncontrolled (if index \<ge> length (snd st) then lift_v Abort else ret (n, (snd st)[index := Some n]))))
      xs st = Ok st'" for xs st st' p
    using that
  proof (induction xs arbitrary: st)
    case (Cons x xs)
    then show ?case by (fastforce split: if_splits)
  qed simp
  with assms show ?thesis unfolding unwind_def case_prod_unfold by fastforce
qed

lemma wb_validate_provenance_chain:
  assumes "length completed = length records"
  shows "well_behaved (validate_provenance_chain start records depth_limit completed)"
  unfolding validate_provenance_chain_def case_prod_unfold
proof (rule wb_bind)
  have nil: "trail_ok records []" by (simp add: trail_ok_def)
  show "well_behaved (chain_up (length records + 1) records completed depth_limit [] (Some start))"
    by (rule wb_chain_up [OF nil]) (simp_all add: assms)
  fix x assume "uncontrolled (chain_up (length records + 1) records completed depth_limit [] (Some start)) = Ok x"
  then have "trail_ok records (fst x)" using nil by (cases x) (simp only: fst_conv chain_up_trail)
  then show "well_behaved (unwind (fst x) (snd x) completed)"
    using assms by (intro wb_unwind) (simp add: trail_ok_def)
qed

lemma length_validate_provenance_chain:
  "uncontrolled (validate_provenance_chain start records depth_limit completed) = Ok c \<Longrightarrow>
    length c = length completed"
  unfolding validate_provenance_chain_def case_prod_unfold by (auto dest: length_unwind)

subsection \<open>The worklist ends\<close>

definition parents_of :: "provenance_record list \<Rightarrow> provenance_id set" where
  "parents_of records = {p. \<exists>r \<in> set records. parent r = Some p}"

lemma finite_parents_of [simp]: "finite (parents_of records)"
proof -
  have "parents_of records \<subseteq> (\<lambda>r. the (parent r)) ` set records" by (force simp: parents_of_def)
  then show ?thesis by (rule finite_subset) simp
qed

lemma card_parents_of: "card (parents_of records) \<le> length records"
proof -
  have "parents_of records \<subseteq> (\<lambda>r. the (parent r)) ` set records" by (force simp: parents_of_def)
  then have "card (parents_of records) \<le> card ((\<lambda>r. the (parent r)) ` set records)"
    by (intro card_mono) simp_all
  also have "\<dots> \<le> length records" by (meson card_image_le card_length finite_set le_trans)
  finally show ?thesis .
qed

lemma wb_cover:
  assumes "length pending + card (parents_of records - used) < fuel"
  shows "well_behaved (cover fuel records pending used)"
  using assms
proof (induction fuel records pending used rule: cover.induct)
  case (1 fuel records used)
  show ?case by (simp add: wb_ret)
next
  case (2 records v pending used)
  then show ?case by simp
next
  case (3 fuel records v pending used)
  have next_step: "well_behaved (case parent (records ! index) of
       None \<Rightarrow> cover fuel records pending used
     | Some p \<Rightarrow>
         if p \<in> used then cover fuel records pending used
         else cover fuel records (p # pending) (insert p used))"
    if i: "binary_search records v = Some index" for index
  proof (cases "parent (records ! index)")
    case None
    then show ?thesis using "3.IH"(1) "3.prems" by simp
  next
    case (Some p)
    show ?thesis
    proof (cases "p \<in> used")
      case True
      then show ?thesis using "3.IH"(2) [OF Some] "3.prems" Some by simp
    next
      case False
      have "p \<in> parents_of records"
        using Some binary_search_Some [OF i] by (auto simp: parents_of_def)
      with False have "card (parents_of records - insert p used) < card (parents_of records - used)"
        by (intro psubset_card_mono) auto
      then show ?thesis using "3.IH"(3) [OF Some False] "3.prems" Some False by simp
    qed
  qed
  show ?case unfolding cover.simps
    by (intro wb_then wb_bind wb_search next_step wb_intro) (auto split: option.splits)
qed

lemma wb_directly_used [wb_intro]: "well_behaved (directly_used problem)"
  unfolding directly_used_def collect_used_def by (intro wb_intro)

lemma wb_validate_provenance_coverage [wb_intro]: "well_behaved (validate_provenance_coverage problem)"
  unfolding validate_provenance_coverage_def
proof (intro wb_bind wb_cover)
  fix used pending
  have "card (parents_of (provenance problem) - used) \<le> length (provenance problem)"
    by (rule le_trans [OF card_mono card_parents_of]) auto
  then show "length pending + card (parents_of (provenance problem) - used)
      < length pending + length (provenance problem) + 1" by simp
qed (intro wb_intro)+

subsection \<open>The core and the entry points\<close>

lemma memo_reservation:
  "uncontrolled (memo_reservation n k) = Ok None" "holds 0 (memo_reservation n k) bytes_of"
proof -
  show "uncontrolled (memo_reservation n k) = Ok None" by (simp add: memo_reservation_def)
  have "holds (bytes_of r + 0) (then_p (holding [r] (if_budget (reserve_work n))) (ret r)) bytes_of" for r
    unfolding then_p_bind
    by (rule holds_step) (auto intro: holds_intro agrees_intro)
  then have "holds 0 (bind_p (reserve_owned bytes) (\<lambda>r.
      then_p (holding [r] (if_budget (reserve_work n))) (ret r))) bytes_of" for bytes
    using holds_reserved by (intro holds_bind_reserving [where k = 0]) simp_all
  note h = holds_bind_balanced [OF holds_lift_o agrees_lift_o this]
  show "holds 0 (memo_reservation n k) bytes_of"
    unfolding memo_reservation_def by (rule holds_reserving [OF h]) (simp add: bind_o_Abort_iff)
qed

lemma wb_scoped:
  assumes "uncontrolled res = Ok None" "holds 0 res bytes_of" "well_behaved m"
  shows "well_behaved (bind_p (map_err_p Preparation res) (\<lambda>r. bracket r m))"
  using assms well_behavedD [OF assms(3)] unfolding well_behaved_def
  by (auto intro!: agrees_scoped holds_scoped holds_map_err_p)

lemma wb_validate_provenance [wb_intro]: "well_behaved (validate_provenance problem limits)"
  unfolding validate_provenance_def Let_def
proof (intro wb_then wb_scoped memo_reservation wb_bind wb_ret wb_validate_provenance_coverage)
  show "well_behaved (each_p (\<lambda>record completed.
      then_p (validate_provenance_record limits record)
        (validate_provenance_chain (provenance_record_id record) (provenance problem)
           (max_provenance_depth limits) completed))
      (provenance problem) (replicate (length (provenance problem)) None))"
    by (rule wb_each_inv [where I = "\<lambda>c. length c = length (provenance problem)"])
      (auto intro!: wb_intro wb_validate_provenance_chain dest: length_validate_provenance_chain)
qed

lemma wb_validate_core: "well_behaved (validate_core problem limits)"
  unfolding validate_core_def case_prod_unfold by (intro wb_intro)

lemma validation_scratch_bytes:
  "agrees (validation_scratch_bytes problem)" "balanced (validation_scratch_bytes problem)"
  "uncontrolled (validation_scratch_bytes problem) \<noteq> Abort"
proof -
  have u: "agrees (add_units n k)" "balanced (add_units n k)" for n k
    by (auto simp: add_units_def intro: agrees_intro holds_intro)
  show "agrees (validation_scratch_bytes problem)" "balanced (validation_scratch_bytes problem)"
    unfolding validation_scratch_bytes_def by (auto intro!: agrees_intro holds_intro u)
  have e: "each_o f xs s \<noteq> Abort" if "\<And>x s. f x s \<noteq> Abort"
    for f :: "'x \<Rightarrow> u64 \<Rightarrow> (planning_preparation_error, u64) outcome" and xs s
    using that by (induction xs arbitrary: s) (auto simp: bind_o_Abort_iff)
  show "uncontrolled (validation_scratch_bytes problem) \<noteq> Abort"
    unfolding validation_scratch_bytes_def
    by (auto simp: bind_o_Abort_iff add_units_def dest!: e [THEN notE, rotated])
qed

lemma no_panic_features [wb_intro]:
  "no_panic (validate_features_and_components_with_analysis problem n limits usage analyzed)"
  unfolding validate_features_and_components_with_analysis_def by (intro wb_intro)

lemma wb_budget_check [wb_intro]: "well_behaved (map_err_p Preparation (if_budget budget_check))"
  unfolding well_behaved_def by (auto intro!: agrees_intro holds_intro)

definition manifest_and_analysis ::
    "feature_usage_manifest \<times> budgeted_component_analysis \<Rightarrow> feature_usage_manifest \<times> component_analysis"
  where
  "manifest_and_analysis r = (fst r, analysis (snd r))"

text \<open>The last stretch: the final checks while the result's reservation is alive.\<close>

definition final_checks ::
    "planning_problem \<Rightarrow> u64 \<Rightarrow> planning_ir_limits \<Rightarrow> feature_usage_manifest \<Rightarrow> budgeted_component_analysis
       \<Rightarrow> (feature_usage_manifest \<times> budgeted_component_analysis) checks" where
  "final_checks problem total_refs limits manifest analyzed =
     then_p (holding [reservation analyzed]
         (then_p (lift_v (validate_features_and_components_with_analysis problem total_refs limits
            manifest (analysis analyzed)))
           (map_err_p Preparation (if_budget budget_check))))
       (ret (manifest, analyzed))"

lemma final_checks:
  "agrees (final_checks problem n limits manifest analyzed)"
  "holds (bytes_of (reservation analyzed)) (final_checks problem n limits manifest analyzed)
     (\<lambda>r. bytes_of (reservation (snd r)))"
  "admissible (uncontrolled (final_checks problem n limits manifest analyzed))"
proof -
  let ?m = "then_p (lift_v (validate_features_and_components_with_analysis problem n limits
            manifest (analysis analyzed))) (map_err_p Preparation (if_budget budget_check))"
  have wb: "well_behaved ?m" by (intro wb_intro)
  show "agrees (final_checks problem n limits manifest analyzed)"
    unfolding final_checks_def
    by (intro agrees_then_p agrees_holding agrees_ret well_behavedD(1) [OF wb])
  show "admissible (uncontrolled (final_checks problem n limits manifest analyzed))"
    using well_behavedD(3) [OF wb] unfolding final_checks_def
    by (simp del: uncontrolled_simps(4) add: uncontrolled_simps(4) [of _ "ret _"] admissible_bind)
  show "holds (bytes_of (reservation analyzed)) (final_checks problem n limits manifest analyzed)
     (\<lambda>r. bytes_of (reservation (snd r)))"
    unfolding final_checks_def then_p_bind [of "holding _ _"]
    by (rule holds_step [OF well_behavedD(2,1) [OF wb]]) (simp_all add: holds_ret)
qed

lemma validate_budgeted_eq:
  "validate_budgeted blake3 problem limits =
     then_p (map_err_p Preparation (if_budget budget_check))
    (then_p (lift_v (validate_root_admission problem limits))
    (bind_p (map_err_p Preparation (validation_scratch_bytes problem)) (\<lambda>scratch.
     bind_p (bind_p (map_err_p Preparation (reserve_owned scratch)) (\<lambda>scratch_reservation.
       bracket scratch_reservation (validate_core problem limits))) (\<lambda>x.
     bind_p (map_err_p Preparation (feature_usage_inner problem)) (\<lambda>manifest.
     bind_p (map_err_p Preparation (analyze_components_inner blake3 problem))
       (final_checks problem (snd x) limits manifest))))))"
  by (simp add: validate_budgeted_def final_checks_def [abs_def] case_prod_unfold)

lemma wb_core_scoped:
  "well_behaved (bind_p (map_err_p Preparation (reserve_owned scratch)) (\<lambda>r.
     bracket r (validate_core problem limits)))"
  by (rule wb_scoped) (simp_all add: holds_reserved wb_validate_core)

lemma agrees_on_agrees: "agrees m \<Longrightarrow> agrees_on q m"
  unfolding agrees_on_def agrees_def by (metis map_ok_simps(1))

lemma agrees_on_map_err: "agrees_on q m \<Longrightarrow> agrees_on q (map_err_p h m)"
  unfolding agrees_on_def
proof (intro allI impI)
  fix b x b' assume a: "\<forall>b x b'. controlled m b = (Ok x, b') \<longrightarrow> map_ok q (uncontrolled m) = Ok (q x)"
    and "controlled (map_err_p h m) b = (Ok x, b')"
  then have "controlled m b = (Ok x, b')" by (auto simp: controlled_simps split: prod.splits)
  with a have "map_ok q (uncontrolled m) = Ok (q x)" by blast
  then show "map_ok q (uncontrolled (map_err_p h m)) = Ok (q x)"
    by (cases "uncontrolled m") (simp_all add: map_ok_def)
qed

lemma agrees_on_validate_budgeted:
  "agrees_on manifest_and_analysis (validate_budgeted blake3 problem limits)"
  unfolding validate_budgeted_eq
  apply (rule agrees_on_then [OF well_behavedD(1) [OF wb_budget_check]])
  apply (rule agrees_on_then [OF well_behavedD(1)], intro wb_intro)
  apply (rule agrees_on_bind [OF agrees_map_err_p [OF validation_scratch_bytes(1)]])
  apply (rule agrees_on_bind [OF well_behavedD(1) [OF wb_core_scoped]])
  apply (rule agrees_on_bind [OF agrees_map_err_p [OF agrees_feature_usage_inner]])
  apply (rule agrees_on_bind_on [OF agrees_on_map_err [OF agrees_on_analyze]])
   apply (rule agrees_on_agrees [OF final_checks(1)])
  apply (simp add: final_checks_def manifest_and_analysis_def)
  done

lemma holds_validate_budgeted:
  "holds 0 (validate_budgeted blake3 problem limits) (\<lambda>r. bytes_of (reservation (snd r)))"
  unfolding validate_budgeted_eq
  apply (rule holds_then_p [OF well_behavedD(2,1) [OF wb_budget_check]])
  apply (rule holds_then_p [OF well_behavedD(2,1)], intro wb_intro, intro wb_intro)
  apply (rule holds_bind_balanced [OF holds_map_err_p [OF validation_scratch_bytes(2)]
        agrees_map_err_p [OF validation_scratch_bytes(1)]])
  apply (rule holds_bind_balanced [OF well_behavedD(2,1) [OF wb_core_scoped]])
  apply (rule holds_bind_balanced [OF holds_map_err_p [OF holds_feature_usage_inner]
        agrees_map_err_p [OF agrees_feature_usage_inner]])
  apply (rule holds_bind_total [OF holds_map_err_p [OF holds_analyze] final_checks(2)])
  apply (use final_checks(3) in \<open>metis admissible.simps(4)\<close>)
  done

subsection \<open>What a caller sees\<close>

lemma validate_features_eq:
  assumes "length (variables problem) \<le> u64_max"
  shows "\<exists>a. analyze_components blake3 problem = Ok a \<and>
    validate_features_and_components blake3 problem n limits =
      validate_features_and_components_with_analysis problem n limits (usage_of problem) a"
  using analyze_components_eq [OF assms, of blake3]
  by (simp add: validate_features_and_components_def feature_usage_def uncontrolled_feature_usage_inner)

lemma validate_not_Abort:
  assumes "length (variables problem) \<le> u64_max"
  shows "validate blake3 problem limits \<noteq> Abort"
proof -
  have "admissible (uncontrolled (validate_core problem limits))"
    by (rule well_behavedD(3) [OF wb_validate_core])
  moreover have "validate_features_and_components blake3 problem n limits \<noteq> Abort" for n
    using validate_features_eq [OF assms, of blake3 n limits] no_panic_features
    unfolding no_panic_def by metis
  ultimately show ?thesis
    unfolding validate_def
    by (cases "uncontrolled (validate_core problem limits)" rule: admissible.cases)
      (simp_all split: prod.split)
qed

lemma uncontrolled_validate_budgeted:
  assumes "uncontrolled (analyze_components_inner blake3 problem) = Ok a"
  shows "uncontrolled (validate_budgeted blake3 problem limits) =
    bind_o (map_err Invalid (validate_root_admission problem limits)) (\<lambda>_.
    bind_o (map_err Preparation (uncontrolled (validation_scratch_bytes problem))) (\<lambda>_.
    bind_o (uncontrolled (validate_core problem limits)) (\<lambda>x.
    bind_o (map_err Invalid (validate_features_and_components_with_analysis problem (snd x) limits
      (usage_of problem) (analysis a))) (\<lambda>_. Ok (usage_of problem, a)))))"
  unfolding validate_budgeted_eq by (simp add: assms final_checks_def uncontrolled_feature_usage_inner)

lemma validate_budgeted_cases:
  assumes "length (variables problem) \<le> u64_max"
    and "controlled (validate_budgeted blake3 problem limits) b = (r, b')"
  shows "spends b b' \<and> (case r of
      Ok (manifest, analyzed) \<Rightarrow>
        validate blake3 problem limits = Ok () \<and> feature_usage problem = Ok manifest \<and>
        analyze_components blake3 problem = Ok (analysis analyzed) \<and>
        transient_bytes b' = transient_bytes b + bytes_of (reservation analyzed)
    | Err e \<Rightarrow> transient_bytes b' = transient_bytes b
    | Abort \<Rightarrow> False)"
proof -
  let ?m = "validate_budgeted blake3 problem limits"
  note c = assms(2)
  note H = holdsD [OF holds_validate_budgeted c]
  from analyze_components_eq [OF assms(1), of blake3] obtain a
    where a: "uncontrolled (analyze_components_inner blake3 problem) = Ok a"
    by (auto simp: analyze_components_def split: outcome.splits)
  then have A: "analyze_components blake3 problem = Ok (analysis a)" by (simp add: analyze_components_def)
  show ?thesis
  proof (cases r)
    case (Ok x)
    obtain manifest analyzed where x: "x = (manifest, analyzed)" by (cases x)
    from Ok c have "map_ok manifest_and_analysis (uncontrolled ?m) = Ok (manifest_and_analysis x)"
      by (intro agrees_onD [OF agrees_on_validate_budgeted]) simp
    then obtain y where y: "uncontrolled ?m = Ok y" "manifest_and_analysis y = manifest_and_analysis x"
      by (cases "uncontrolled ?m") (simp_all add: map_ok_def)
    from y(1) [unfolded uncontrolled_validate_budgeted [OF a]] obtain z
      where core: "uncontrolled (validate_core problem limits) = Ok z"
      and f: "validate_features_and_components_with_analysis problem (snd z) limits (usage_of problem)
        (analysis a) = Ok ()" and "y = (usage_of problem, a)"
      by (elim bind_o_Ok_iff [THEN iffD1, elim_format] exE conjE) simp
    with y(2) x have r: "manifest = usage_of problem" "analysis analyzed = analysis a"
      by (simp_all add: manifest_and_analysis_def)
    have "feature_usage problem = Ok manifest"
      by (simp add: feature_usage_def uncontrolled_feature_usage_inner r)
    moreover have "validate blake3 problem limits = Ok ()"
      using core f A by (simp add: validate_def validate_features_and_components_def feature_usage_def
          uncontrolled_feature_usage_inner case_prod_unfold)
    ultimately show ?thesis using H(1,2) Ok x r A by simp
  next
    case (Err e)
    with H(1,3) show ?thesis by simp
  next
    case Abort
    have "uncontrolled ?m \<noteq> Abort"
      using validation_scratch_bytes(3) well_behavedD(3) [OF wb_validate_core, of problem limits]
        no_panic_binds(4) no_panic_features
      by (auto simp: uncontrolled_validate_budgeted [OF a] bind_o_Abort_iff no_panic_def)
    with Abort H(4) show ?thesis by simp
  qed
qed

text \<open>
  C22: Validation always returns, without and with a preparation budget: whatever the problem, the
  limits and the budget, the loops over provenance stop within their fuel, no index is out of range,
  and neither the \<open>unreachable!\<close> nor an \<open>expect\<close> of the two analyses is reached.
\<close>

theorem validate_returns:
  assumes "length (variables problem) \<le> u64_max"
  shows "(validate blake3 problem limits = Ok () \<or> (\<exists>e. validate blake3 problem limits = Err e)) \<and>
    (\<forall>b. (\<exists>x. fst (validate_with_budget blake3 problem limits b) = Ok x) \<or>
         (\<exists>e. fst (validate_with_budget blake3 problem limits b) = Err e))"
proof -
  have "validate blake3 problem limits = Ok () \<or> (\<exists>e. validate blake3 problem limits = Err e)"
    using validate_not_Abort [OF assms, of blake3 limits] by (cases "validate blake3 problem limits") simp_all
  moreover have "fst (validate_with_budget blake3 problem limits b) \<noteq> Abort" for b
  proof -
    obtain r b' where e: "controlled (validate_budgeted blake3 problem limits) b = (r, b')" by (rule prod.exhaust)
    from validate_budgeted_cases [OF assms e] have "r \<noteq> Abort" by (cases r) simp_all
    with e show ?thesis by (simp add: validate_with_budget_def)
  qed
  ultimately show ?thesis by (metis outcome.exhaust)
qed

text \<open>On the sample: accepted, refused for a wrong schema version, and stopped by an exhausted budget.\<close>

theorem validate_returns_witness:
  "validate (\<lambda>bytes. ''digest'') sample_problem default_limits = Ok () \<and>
   (\<exists>e. validate (\<lambda>bytes. ''digest'') (sample_problem\<lparr>schema_version := 0\<rparr>) default_limits = Err e) \<and>
   (\<exists>e. fst (validate_with_budget (\<lambda>bytes. ''digest'') sample_problem default_limits
      ((budget_uncontrolled default_limits)\<lparr>work := u64_max\<rparr>)) = Err e)"
proof -
  have n: "length (variables sample_problem) \<le> u64_max"
    "length (variables (sample_problem\<lparr>schema_version := 0\<rparr>)) \<le> u64_max" by code_simp+
  have v: "validate (\<lambda>bytes. ''digest'') sample_problem default_limits = Ok ()" by code_simp
  have w: "validate (\<lambda>bytes. ''digest'') (sample_problem\<lparr>schema_version := 0\<rparr>) default_limits \<noteq> Ok ()" by code_simp
  have "map_ok (\<lambda>x. ()) (fst (validate_with_budget (\<lambda>bytes. ''digest'') sample_problem default_limits
      ((budget_uncontrolled default_limits)\<lparr>work := u64_max\<rparr>))) \<noteq> Ok ()" by code_simp
  then have "\<nexists>x. fst (validate_with_budget (\<lambda>bytes. ''digest'') sample_problem default_limits
      ((budget_uncontrolled default_limits)\<lparr>work := u64_max\<rparr>)) = Ok x" by (auto simp: map_ok_def)
  with validate_returns [OF n(1), of "\<lambda>bytes. ''digest''" default_limits]
    validate_returns [OF n(2), of "\<lambda>bytes. ''digest''" default_limits] v w
  show ?thesis by blast
qed

text \<open>
  C13: Validation under a preparation budget never panics. When it succeeds, plain validation of the
  same problem succeeds, the returned inventory and analysis are those computed without a budget,
  and the only transient bytes left are those of the reservation the result owns; when it fails,
  for whatever reason, every byte has been given back. Work and peak stay below their ceilings.
\<close>

theorem validate_with_budget_sound:
  assumes "length (variables problem) \<le> u64_max"
    and "validate_with_budget blake3 problem limits b = (r, b')"
  shows "spends b b' \<and> (case r of
      Ok (manifest, analyzed) \<Rightarrow>
        validate blake3 problem limits = Ok () \<and> feature_usage problem = Ok manifest \<and>
        analyze_components blake3 problem = Ok (analysis analyzed) \<and>
        transient_bytes b' = transient_bytes b + bytes_of (reservation analyzed)
    | Err e \<Rightarrow> transient_bytes b' = transient_bytes b
    | Abort \<Rightarrow> False)"
  using validate_budgeted_cases [OF assms(1), of blake3 limits b r b'] assms(2) unfolding validate_with_budget_def .

theorem validate_with_budget_sound_witness:
  "\<exists>manifest analyzed b'. validate_with_budget (\<lambda>bytes. ''digest'') sample_problem default_limits
      (budget_uncontrolled default_limits) = (Ok (manifest, analyzed), b') \<and>
    validate (\<lambda>bytes. ''digest'') sample_problem default_limits = Ok () \<and>
    bytes_of (reservation analyzed) = 12288 \<and>
    transient_bytes b' = transient_bytes (budget_uncontrolled default_limits) + 12288"
proof -
  let ?c = "validate_with_budget (\<lambda>bytes. ''digest'') sample_problem default_limits
    (budget_uncontrolled default_limits)"
  have "map_ok (\<lambda>x. bytes_of (reservation (snd x))) (fst ?c) = Ok 12288" by code_simp
  then obtain manifest analyzed where x: "fst ?c = Ok (manifest, analyzed)"
    and r: "bytes_of (reservation analyzed) = 12288"
    by (cases "fst ?c") (auto simp: map_ok_def)
  have e: "?c = (Ok (manifest, analyzed), snd ?c)" using x by (simp only: prod_eq_iff fst_conv snd_conv)
  have "length (variables sample_problem) \<le> u64_max" by code_simp
  from validate_with_budget_sound [OF this e] r e show ?thesis
    by (simp only: outcome.case prod.case) blast
qed

end
