(* ===== verification/Validation_Soundness.thy ===== *)
theory Validation_Soundness
  imports Validation_Safety
begin

section \<open>What a validated problem satisfies\<close>

text \<open>
  The declarative reading of the checks: identifiers are unique and in order, every reference
  resolves, shapes fit, domains are normal. The index structures the passes build are the
  declarations of the problem.
\<close>

subsection \<open>The checks, read as facts\<close>

definition small_value :: "planning_ir_limits \<Rightarrow> i64 \<Rightarrow> bool" where
  "small_value limits v \<longleftrightarrow> unsigned_abs v \<le> cast_unsigned (max_abs_value limits)"

definition small_coefficient :: "planning_ir_limits \<Rightarrow> i64 \<Rightarrow> bool" where
  "small_coefficient limits v \<longleftrightarrow> v \<noteq> 0 \<and> unsigned_abs v \<le> cast_unsigned (max_abs_coefficient limits)"

lemma checks_Ok [simp]:
  "check_value v limits p = Ok u \<longleftrightarrow> small_value limits v"
  "check_text t n p = Ok u \<longleftrightarrow> t \<noteq> [] \<and> length t \<le> n"
  "check_limit k n p = Ok u \<longleftrightarrow> k \<le> n"
  "require_bool bv bools p = Ok u \<longleftrightarrow> bv \<in> bools"
  "require_literal l bools p = Ok u \<longleftrightarrow> lit_variable l \<in> bools"
  "require_int iv ints p = Ok d \<longleftrightarrow> bt_get ints iv = Some d"
  "require_interval tv intervals p = Ok u \<longleftrightarrow> tv \<in> intervals"
  "require_provenance pv known p = Ok u \<longleftrightarrow> pv \<in> known"
  by (auto simp: check_value_def check_text_def check_limit_def require_bool_def require_literal_def
      require_int_def require_interval_def require_provenance_def small_value_def not_less
      split: option.split)

lemma add_refs_Ok [simp]:
  "add_refs n k limits = Ok m \<longleftrightarrow> m = n + k \<and> m \<le> u64_max \<and> m \<le> max_total_refs limits"
  by (auto simp: add_refs_def not_less)

subsection \<open>Declarations\<close>

definition bool_ids :: "planning_problem \<Rightarrow> bool_variable_id set" where
  "bool_ids p = {bool_id v | v. VBoolean v \<in> set (variables p)}"

definition interval_ids :: "planning_problem \<Rightarrow> interval_variable_id set" where
  "interval_ids p = {interval_id v | v. VInterval v \<in> set (variables p)}"

definition provenance_ids :: "planning_problem \<Rightarrow> provenance_id set" where
  "provenance_ids p = provenance_record_id ` set (provenance p)"

fun int_entry :: "variable \<Rightarrow> (int_variable_id \<times> int_domain) option" where
  "int_entry (VInteger v) = Some (int_id v, variable_domain v)"
| "int_entry _ = None"

definition int_entries :: "variable list \<Rightarrow> (int_variable_id \<times> int_domain) list" where
  "int_entries vs = List.map_filter int_entry vs"

definition domain_of :: "planning_problem \<Rightarrow> int_variable_id \<Rightarrow> int_domain option" where
  "domain_of p = map_of (int_entries (variables p))"

lemma set_int_entries:
  "(x, d) \<in> set (int_entries vs) \<longleftrightarrow> (\<exists>v. VInteger v \<in> set vs \<and> int_id v = x \<and> variable_domain v = d)"
proof (induction vs)
  case (Cons v vs)
  then show ?case by (cases v) (auto simp: int_entries_def List.map_filter_simps)
qed (simp add: int_entries_def List.map_filter_simps)

lemma int_entries_simps [simp]:
  "int_entries [] = []"
  "int_entries (VInteger v # vs) = (int_id v, variable_domain v) # int_entries vs"
  "int_entries (VBoolean b # vs) = int_entries vs"
  "int_entries (VInterval i # vs) = int_entries vs"
  by (simp_all add: int_entries_def List.map_filter_simps)

lemma distinct_int_entries:
  assumes "distinct (map canonical_id vs)"
  shows "distinct (map fst (int_entries vs))"
  using assms
proof (induction vs)
  case (Cons v vs)
  have "fst x \<in> canonical_id ` set vs" if "x \<in> set (int_entries vs)" for x
    using that set_int_entries [of "fst x" "snd x" vs] by force
  with Cons show ?case by (cases v) auto
qed simp

subsection \<open>The index structures\<close>

fun add_variable :: "variable \<Rightarrow> variable_references \<Rightarrow> variable_references" where
  "add_variable (VBoolean v) refs = refs\<lparr>ref_bools := insert (bool_id v) (ref_bools refs)\<rparr>"
| "add_variable (VInteger v) refs =
     refs\<lparr>ref_ints := bt_insert (int_id v) (variable_domain v) (ref_ints refs)\<rparr>"
| "add_variable (VInterval v) refs =
     refs\<lparr>ref_intervals := insert (interval_id v) (ref_intervals refs)\<rparr>"

definition references_of :: "planning_problem \<Rightarrow> variable_references" where
  "references_of p = fold add_variable (variables p) (empty_references (provenance_ids p))"

lemma references_of_fields:
  assumes "distinct (map canonical_id (variables p))"
  shows "ref_provenance (references_of p) = provenance_ids p"
    and "ref_bools (references_of p) = bool_ids p"
    and "ref_intervals (references_of p) = interval_ids p"
    and "bt_get (ref_ints (references_of p)) = domain_of p"
proof -
  have *: "ref_provenance (fold add_variable vs refs) = ref_provenance refs \<and>
      ref_bools (fold add_variable vs refs) = ref_bools refs \<union> {bool_id v | v. VBoolean v \<in> set vs} \<and>
      ref_intervals (fold add_variable vs refs)
        = ref_intervals refs \<union> {interval_id v | v. VInterval v \<in> set vs} \<and>
      ref_ints (fold add_variable vs refs)
        = fold (\<lambda>(k, v). bt_insert k v) (int_entries vs) (ref_ints refs)" for vs refs
  proof (induction vs arbitrary: refs)
    case (Cons v vs)
    show ?case by (cases v) (auto simp: Cons.IH)
  qed simp
  show "ref_provenance (references_of p) = provenance_ids p"
    "ref_bools (references_of p) = bool_ids p"
    "ref_intervals (references_of p) = interval_ids p"
    by (simp_all add: references_of_def * empty_references_def bool_ids_def interval_ids_def)
  have "bt_get (ref_ints (references_of p)) = map_of (rev (int_entries (variables p)))"
    by (simp add: references_of_def * empty_references_def bt_collect [unfolded bt_collect_def])
  also have "\<dots> = domain_of p"
    unfolding domain_of_def
    by (rule map_of_inject_set [THEN iffD2])
      (simp_all add: rev_map [symmetric] distinct_int_entries [OF assms])
  finally show "bt_get (ref_ints (references_of p)) = domain_of p" .
qed

text \<open>What the variable loop has checked of one variable.\<close>

fun variable_checked :: "planning_ir_limits \<Rightarrow> provenance_id set \<Rightarrow> variable \<Rightarrow> bool" where
  "variable_checked limits known (VInteger v) \<longleftrightarrow>
     int_provenance v \<in> known \<and> int_domain_new (inclusive_ranges (variable_domain v)) = Ok (variable_domain v) \<and>
     list_all (\<lambda>rng. small_value limits (range_start rng) \<and> small_value limits (range_end rng))
       (inclusive_ranges (variable_domain v))"
| "variable_checked limits known (VBoolean v) \<longleftrightarrow> bool_provenance v \<in> known"
| "variable_checked limits known (VInterval v) \<longleftrightarrow> interval_provenance v \<in> known"

lemma each_o_skip [simp]: "each_o (\<lambda>x. Ok) xs s = Ok s"
  by (induction xs) simp_all

lemma validate_domain_Ok:
  "uncontrolled (validate_domain d limits p) = Ok () \<longleftrightarrow>
     length (inclusive_ranges d) \<le> max_domain_ranges limits \<and>
     int_domain_new (inclusive_ranges d) = Ok d \<and>
     (\<forall>rng \<in> set (inclusive_ranges d).
        small_value limits (range_start rng) \<and> small_value limits (range_end rng))"
  unfolding validate_domain_def
  by (auto simp: uncontrolled_check_each check_each_def each_o_check_iff)

lemma declare_variable_Ok:
  "declare_variable index v p (refs, ids, n) = Ok st \<longleftrightarrow>
     v \<notin> ids \<and> p \<in> ref_provenance refs \<and> st = (refs, insert v ids, n)"
  by (auto simp: declare_variable_def)

lemma validate_variable_Ok:
  assumes "uncontrolled (validate_variable limits (index, v) (refs, ids, n)) = Ok (refs', ids', n')"
  shows "refs' = add_variable v refs \<and> variable_checked limits (ref_provenance refs) v"
proof (cases v)
  case (VBoolean b)
  with assms show ?thesis by (auto simp: declare_variable_Ok split: if_splits)
next
  case (VInteger i)
  with assms show ?thesis
    by (auto simp: declare_variable_Ok validate_domain_Ok list_all_iff split: if_splits)
next
  case (VInterval i)
  with assms show ?thesis by (auto simp: declare_variable_Ok split: if_splits)
qed

lemma ref_provenance_add [simp]: "ref_provenance (add_variable v refs) = ref_provenance refs"
  by (cases v) simp_all

lemma validate_variable_loop:
  assumes "each_o (\<lambda>x s. uncontrolled (validate_variable limits x s)) (enumerate k vs) (refs, ids, n)
      = Ok (refs', ids', n')"
  shows "refs' = fold add_variable vs refs \<and> (\<forall>v \<in> set vs. variable_checked limits (ref_provenance refs) v)"
  using assms
proof (induction vs arbitrary: k refs ids n)
  case (Cons v vs)
  from Cons.prems obtain st where v: "uncontrolled (validate_variable limits (k, v) (refs, ids, n)) = Ok st"
    and r: "each_o (\<lambda>x s. uncontrolled (validate_variable limits x s)) (enumerate (Suc k) vs) st
      = Ok (refs', ids', n')" by auto
  obtain refs1 ids1 n1 where st: "st = (refs1, ids1, n1)" by (cases st)
  from validate_variable_Ok [OF v [unfolded st]] Cons.IH [OF r [unfolded st]] show ?case by simp
qed simp

lemma each_o_insert:
  "each_o (\<lambda>x s. Ok (insert (f x) s)) xs A = Ok (A \<union> f ` set xs)"
  by (induction xs arbitrary: A) auto

lemma validate_variables_Ok:
  assumes "uncontrolled (validate_variables p limits) = Ok (refs, n)"
  shows "refs = references_of p"
    and "\<forall>v \<in> set (variables p). variable_checked limits (provenance_ids p) v"
    and "\<forall>x \<in> set (enumerate 0 (variables p)).
      uncontrolled (validate_interval_variable (references_of p) x) = Ok ()"
proof -
  from assms obtain ids where l: "each_o (\<lambda>x s. uncontrolled (validate_variable limits x s))
      (enumerate 0 (variables p)) (empty_references (provenance_ids p), {}, 0) = Ok (refs, ids, n)"
    and i: "uncontrolled (validate_interval_variables p refs) = Ok ()"
    by (auto simp: validate_variables_def each_o_insert provenance_ids_def)
  from validate_variable_loop [OF l] show r: "refs = references_of p"
    and "\<forall>v \<in> set (variables p). variable_checked limits (provenance_ids p) v"
    by (simp_all add: references_of_def empty_references_def)
  from i show "\<forall>x \<in> set (enumerate 0 (variables p)).
      uncontrolled (validate_interval_variable (references_of p) x) = Ok ()"
    unfolding validate_interval_variables_def uncontrolled_check_each r .
qed

subsection \<open>Well-typed expressions and constraints\<close>

definition literal_ok :: "planning_problem \<Rightarrow> literal \<Rightarrow> bool" where
  "literal_ok p l \<longleftrightarrow> lit_variable l \<in> bool_ids p"

definition int_ok :: "planning_problem \<Rightarrow> int_variable_id \<Rightarrow> bool" where
  "int_ok p v \<longleftrightarrow> domain_of p v \<noteq> None"

definition interval_ok :: "planning_problem \<Rightarrow> interval_variable_id \<Rightarrow> bool" where
  "interval_ok p v \<longleftrightarrow> v \<in> interval_ids p"

definition expression_ok :: "planning_problem \<Rightarrow> linear_expression \<Rightarrow> bool" where
  "expression_ok p e \<longleftrightarrow> strictly_sorted (map term_variable (expr_terms e)) \<and>
     (\<forall>t \<in> set (expr_terms e). coefficient t \<noteq> 0 \<and> int_ok p (term_variable t))"

definition literals_ok :: "planning_problem \<Rightarrow> literal list \<Rightarrow> bool" where
  "literals_ok p ls \<longleftrightarrow> strictly_sorted ls \<and> (\<forall>l \<in> set ls. literal_ok p l)"

definition ints_ok :: "planning_problem \<Rightarrow> int_variable_id list \<Rightarrow> bool" where
  "ints_ok p vs \<longleftrightarrow> (\<forall>v \<in> set vs. int_ok p v)"

definition table_ok :: "planning_problem \<Rightarrow> int_variable_id list \<Rightarrow> i64 list list \<Rightarrow> bool" where
  "table_ok p vs rows \<longleftrightarrow> ints_ok p vs \<and> strictly_sorted rows \<and> (\<forall>row \<in> set rows. length row = length vs)"

fun constraint_ok :: "planning_problem \<Rightarrow> constraint \<Rightarrow> bool" where
  "constraint_ok p (BoolOr ls) \<longleftrightarrow> literals_ok p ls"
| "constraint_ok p (BoolAnd ls) \<longleftrightarrow> literals_ok p ls"
| "constraint_ok p (AtMostOne ls) \<longleftrightarrow> literals_ok p ls"
| "constraint_ok p (ExactlyOne ls) \<longleftrightarrow> literals_ok p ls"
| "constraint_ok p (CardinalityRange ls mn mx) \<longleftrightarrow> literals_ok p ls \<and> mn \<le> mx \<and> mx \<le> length ls"
| "constraint_ok p (Implication a c) \<longleftrightarrow> literal_ok p a \<and> literal_ok p c"
| "constraint_ok p (Equivalence l r) \<longleftrightarrow> literal_ok p l \<and> literal_ok p r"
| "constraint_ok p (LinearComparison c) \<longleftrightarrow> expression_ok p (comparison_expression c)"
| "constraint_ok p (ReifiedLinearComparison l c) \<longleftrightarrow>
     literal_ok p l \<and> expression_ok p (comparison_expression c)"
| "constraint_ok p (AllDifferent vs) \<longleftrightarrow> strictly_sorted vs \<and> ints_ok p vs"
| "constraint_ok p (AllowedTable vs rows) \<longleftrightarrow> table_ok p vs rows"
| "constraint_ok p (ForbiddenTable vs rows) \<longleftrightarrow> table_ok p vs rows"
| "constraint_ok p (Element i vs t) \<longleftrightarrow> int_ok p i \<and> int_ok p t"
| "constraint_ok p (Min t vs) \<longleftrightarrow> int_ok p t \<and> vs \<noteq> [] \<and> strictly_sorted vs \<and> ints_ok p vs"
| "constraint_ok p (Max t vs) \<longleftrightarrow> int_ok p t \<and> vs \<noteq> [] \<and> strictly_sorted vs \<and> ints_ok p vs"
| "constraint_ok p (Equality l r) \<longleftrightarrow> int_ok p l \<and> int_ok p r"
| "constraint_ok p (AbsDifference t l r) \<longleftrightarrow> int_ok p t \<and> int_ok p l \<and> int_ok p r"
| "constraint_ok p (NoOverlap vs) \<longleftrightarrow> strictly_sorted vs \<and> (\<forall>v \<in> set vs. interval_ok p v)"
| "constraint_ok p (Cumulative vs ds c) \<longleftrightarrow>
     length vs = length ds \<and> 0 \<le> c \<and> (\<forall>d \<in> set ds. 0 \<le> d) \<and> strictly_sorted vs \<and>
     (\<forall>v \<in> set vs. interval_ok p v)"

definition resolves :: "planning_problem \<Rightarrow> variable_references \<Rightarrow> bool" where
  "resolves p refs \<longleftrightarrow> ref_bools refs = bool_ids p \<and> ref_intervals refs = interval_ids p \<and>
     bt_get (ref_ints refs) = domain_of p \<and> ref_provenance refs = provenance_ids p"

lemma term_bounds_Ok:
  assumes "term_bounds t ints limits path b = Ok b'"
  shows "coefficient t \<noteq> 0" "bt_get ints (term_variable t) \<noteq> None"
  using assms by (auto simp: term_bounds_def split: if_splits)

lemma expression_bounds_ok:
  assumes "uncontrolled (expression_bounds e ints limits path) = Ok b" and "bt_get ints = domain_of p"
  shows "expression_ok p e"
proof -
  have "\<forall>t \<in> set ts. coefficient t \<noteq> 0 \<and> int_ok p (term_variable t)"
    if "each_o (\<lambda>t b. map_err Invalid (term_bounds t ints limits path b)) ts b0 = Ok b" for ts b0
    using that
  proof (induction ts arbitrary: b0)
    case (Cons t ts)
    then obtain b1 where t: "term_bounds t ints limits path b0 = Ok b1"
      and r: "each_o (\<lambda>t b. map_err Invalid (term_bounds t ints limits path b)) ts b1 = Ok b" by auto
    from Cons.IH [OF r] term_bounds_Ok [OF t] assms(2) show ?case by (simp add: int_ok_def)
  qed simp
  with assms(1) show ?thesis
    by (auto simp: expression_bounds_def strict_by_Ok expression_ok_def)
qed

lemma require_ints_Ok:
  "uncontrolled (require_ints vs ints path) = Ok () \<longleftrightarrow> (\<forall>v \<in> set vs. bt_get ints v \<noteq> None)"
  unfolding require_ints_def uncontrolled_check_each by auto

lemma validate_table_ok:
  assumes "uncontrolled (validate_table vs rows ints limits path) = Ok ()" "bt_get ints = domain_of p"
  shows "table_ok p vs rows"
  using assms
  by (auto simp: validate_table_def table_ok_def ints_ok_def int_ok_def strict_Ok require_ints_Ok list_ex_iff)

lemma cumulative_demands:
  assumes "each_o (\<lambda>x s. bind_o (map_err Invalid (require_interval (fst x) intervals path)) (\<lambda>_.
       bind_o (map_err Invalid (if snd x < 0 then shape path else Ok ())) (\<lambda>_.
       bind_o (map_err Invalid (check_value (snd x) limits path)) (\<lambda>_.
         map_err Invalid (checked_v (i64_checked_add s (snd x)) path))))) ps t = Ok t'"
  shows "\<forall>x \<in> set ps. fst x \<in> intervals \<and> 0 \<le> snd x"
  using assms
proof (induction ps arbitrary: t)
  case (Cons x ps)
  then show ?case by (fastforce simp: not_less)
qed simp

lemma validate_cumulative_Ok:
  assumes "uncontrolled (validate_cumulative vs ds k intervals limits path) = Ok ()"
  shows "length vs = length ds" "0 \<le> k" "strictly_sorted vs" "set vs \<subseteq> intervals" "\<forall>d \<in> set ds. 0 \<le> d"
proof -
  from assms obtain t where l: "length vs = length ds" "0 \<le> k" "strictly_sorted vs"
    and e: "each_o (\<lambda>x s. bind_o (map_err Invalid (require_interval (fst x) intervals path)) (\<lambda>_.
       bind_o (map_err Invalid (if snd x < 0 then shape path else Ok ())) (\<lambda>_.
       bind_o (map_err Invalid (check_value (snd x) limits path)) (\<lambda>_.
         map_err Invalid (checked_v (i64_checked_add s (snd x)) path))))) (zip vs ds) 0 = Ok t"
    by (auto simp: validate_cumulative_def case_prod_unfold strict_Ok not_less)
  from cumulative_demands [OF e] have z: "\<forall>x \<in> set (zip vs ds). fst x \<in> intervals \<and> 0 \<le> snd x" .
  show "length vs = length ds" "0 \<le> k" "strictly_sorted vs" by (fact l)+
  show "set vs \<subseteq> intervals" using z l(1) by (metis in_set_impl_in_set_zip1 fst_conv subsetI)
  show "\<forall>d \<in> set ds. 0 \<le> d" using z l(1) by (metis in_set_impl_in_set_zip2 snd_conv)
qed

lemma validate_constraint_ok:
  assumes "uncontrolled (validate_constraint c refs limits path) = Ok ()" and "resolves p refs"
  shows "constraint_ok p c"
proof -
  have refs: "ref_bools refs = bool_ids p" "ref_intervals refs = interval_ids p"
    "bt_get (ref_ints refs) = domain_of p" using assms(2) by (simp_all add: resolves_def)
  have lits: "literals_ok p ls" if "uncontrolled (validate_literals ls (ref_bools refs) path) = Ok ()" for ls
    using that refs by (auto simp: validate_literals_def strict_Ok uncontrolled_check_each literals_ok_def
        literal_ok_def)
  have cmp: "expression_ok p (comparison_expression k)"
    if "uncontrolled (validate_comparison k (ref_ints refs) limits path) = Ok ()" for k
    using that expression_bounds_ok [OF _ refs(3)] by (auto simp: validate_comparison_def)
  have agg: "int_ok p t \<and> vs \<noteq> [] \<and> strictly_sorted vs \<and> ints_ok p vs"
    if "uncontrolled (validate_integer_aggregate t vs (ref_ints refs) path) = Ok ()" for t vs
    using that refs by (auto simp: validate_integer_aggregate_def strict_Ok require_ints_Ok int_ok_def ints_ok_def)
  show ?thesis
  proof (cases c)
    case (Cumulative vs ds k)
    with assms(1) have "uncontrolled (validate_cumulative vs ds k (ref_intervals refs) limits path) = Ok ()"
      by simp
    from validate_cumulative_Ok [OF this] refs(2) Cumulative show ?thesis by (auto simp: interval_ok_def)
  qed (use assms(1) refs lits cmp agg validate_table_ok [OF _ refs(3)] in
      \<open>auto simp: not_less literal_ok_def int_ok_def ints_ok_def interval_ok_def strict_Ok require_ints_Ok
        uncontrolled_check_each\<close>)
qed

subsection \<open>Well-typed problems\<close>

fun variable_ok :: "planning_problem \<Rightarrow> variable \<Rightarrow> bool" where
  "variable_ok p (VBoolean v) \<longleftrightarrow> bool_provenance v \<in> provenance_ids p"
| "variable_ok p (VInteger v) \<longleftrightarrow> int_provenance v \<in> provenance_ids p \<and>
     int_domain_new (inclusive_ranges (variable_domain v)) = Ok (variable_domain v)"
| "variable_ok p (VInterval v) \<longleftrightarrow> interval_provenance v \<in> provenance_ids p \<and>
     int_ok p (interval_start v) \<and> int_ok p (interval_duration v) \<and> int_ok p (interval_end v) \<and>
     (case interval_presence v of None \<Rightarrow> True | Some l \<Rightarrow> literal_ok p l)"

definition record_ok :: "planning_problem \<Rightarrow> constraint_record \<Rightarrow> bool" where
  "record_ok p r \<longleftrightarrow> record_provenance r \<in> provenance_ids p \<and> literals_ok p (enforcement r) \<and>
     strictly_sorted (tags r) \<and> constraint_ok p (body r)"

definition level_ok :: "planning_problem \<Rightarrow> objective_level \<Rightarrow> bool" where
  "level_ok p l \<longleftrightarrow> level_provenance l \<in> provenance_ids p \<and>
     strictly_sorted (map objective_term_id (level_terms l)) \<and>
     (\<forall>t \<in> set (level_terms l). objective_term_provenance t \<in> provenance_ids p \<and>
        expression_ok p (objective_expression t))"

definition assumption_ok :: "planning_problem \<Rightarrow> assumption \<Rightarrow> bool" where
  "assumption_ok p a \<longleftrightarrow> required_rules a \<noteq> [] \<and> strictly_sorted (required_rules a) \<and>
     literal_ok p (assumption_literal a) \<and>
     (\<exists>r \<in> set (provenance p). provenance_record_id r = assumption_provenance a \<and>
        source_kind r = RequiredRule)"

fun projection_ok :: "planning_problem \<Rightarrow> projection_expression \<Rightarrow> bool" where
  "projection_ok p (EBoolean v) \<longleftrightarrow> v \<in> bool_ids p"
| "projection_ok p (EInteger v) \<longleftrightarrow> int_ok p v"
| "projection_ok p (ELinear e) \<longleftrightarrow> expression_ok p e"
| "projection_ok p (EInterval v) \<longleftrightarrow> interval_ok p v"
| "projection_ok p (EConstant (AInterval i)) \<longleftrightarrow> assigned_interval_validate i"
| "projection_ok p (EConstant _) \<longleftrightarrow> True"

definition root_ok :: "planning_problem \<Rightarrow> bool" where
  "root_ok p \<longleftrightarrow> schema_version p = planning_ir_schema_version \<and>
     strictly_sorted (map canonical_id (variables p)) \<and>
     strictly_sorted (map record_id (constraints p)) \<and>
     strictly_sorted (map assumption_id (assumptions p)) \<and>
     strictly_sorted (map projection_id (projections p)) \<and>
     strictly_sorted (map provenance_record_id (provenance p))"

definition well_typed :: "planning_problem \<Rightarrow> bool" where
  "well_typed p \<longleftrightarrow> root_ok p \<and>
     (\<forall>v \<in> set (variables p). variable_ok p v) \<and>
     (\<forall>r \<in> set (constraints p). record_ok p r) \<and>
     distinct (map level_id (levels (objectives p))) \<and>
     (\<forall>l \<in> set (levels (objectives p)). level_ok p l) \<and>
     distinct (map (\<lambda>a. lit_variable (assumption_literal a)) (assumptions p)) \<and>
     (\<forall>a \<in> set (assumptions p). assumption_ok p a) \<and>
     distinct (map assignment_id (projections p)) \<and>
     (\<forall>q \<in> set (projections p). projection_provenance q \<in> provenance_ids p \<and>
        projection_ok p (projection_expression q)) \<and>
     (\<forall>r \<in> set (provenance p). strictly_sorted (entity_refs r))"

lemma each_o_forall:
  assumes "each_o f xs s = Ok s'" and "\<And>x s s'. x \<in> set xs \<Longrightarrow> f x s = Ok s' \<Longrightarrow> P x"
  shows "\<forall>x \<in> set xs. P x"
  using assms
proof (induction xs arbitrary: s)
  case (Cons x xs)
  then obtain s1 where "f x s = Ok s1" "each_o f xs s1 = Ok s'" by auto
  with Cons.IH [of s1] Cons.prems(2) show ?case by auto
qed simp

lemma each_o_distinct:
  assumes "each_o f xs s = Ok s'"
    and "\<And>x s s'. x \<in> set xs \<Longrightarrow> f x s = Ok s' \<Longrightarrow> key x \<notin> K s \<and> K s' = insert (key x) (K s)"
  shows "distinct (map key xs) \<and> K s \<inter> key ` set xs = {}"
  using assms
proof (induction xs arbitrary: s)
  case (Cons x xs)
  then obtain s1 where x: "f x s = Ok s1" and r: "each_o f xs s1 = Ok s'" by auto
  from Cons.prems(2) [OF _ x] have k: "key x \<notin> K s" "K s1 = insert (key x) (K s)" by simp_all
  have "distinct (map key xs) \<and> K s1 \<inter> key ` set xs = {}"
    by (rule Cons.IH [OF r]) (use Cons.prems(2) in auto)
  with k show ?case by auto
qed simp

lemma forall_enumerate: "(\<forall>x \<in> set (enumerate n xs). P (snd x)) \<longleftrightarrow> (\<forall>x \<in> set xs. P x)"
proof -
  have "set xs = snd ` set (enumerate n xs)"
    by (metis list.set_map map_snd_enumerate)
  then show ?thesis by auto
qed

lemma root_ok:
  assumes "uncontrolled (validate_root p limits) = Ok ()"
  shows "root_ok p" "length (variables p) \<le> max_variables limits"
  using assms
  by (auto simp: validate_root_def validate_root_order_def validate_root_admission_def strict_by_Ok
      root_ok_def split: if_splits)

lemma resolves_references_of: "root_ok p \<Longrightarrow> resolves p (references_of p)"
  using references_of_fields [of p] by (auto simp: resolves_def root_ok_def dest: strictly_sorted_distinct)

lemma validated_variable_ok:
  assumes "resolves p refs" "variable_checked limits (provenance_ids p) v"
    and "uncontrolled (validate_interval_variable refs (k, v)) = Ok ()"
  shows "variable_ok p v"
  using assms
  by (cases v) (auto simp: resolves_def int_ok_def literal_ok_def split: option.splits)

lemma validated_record_ok:
  assumes "resolves p refs" "uncontrolled (validate_record refs limits x st) = Ok st'"
  shows "record_ok p (snd x)"
proof -
  obtain i r where x: "x = (i, r)" by (cases x)
  obtain ids n where st: "st = (ids, n)" by (cases st)
  from assms(2) have "record_provenance r \<in> ref_provenance refs" "strictly_sorted (enforcement r)"
    "strictly_sorted (tags r)" "\<forall>l \<in> set (enforcement r). lit_variable l \<in> ref_bools refs"
    and c: "uncontrolled (validate_constraint (body r) refs limits (indexed ''constraints'' i ''.body'')) = Ok ()"
    unfolding validate_record_def x st by (auto simp: strict_Ok uncontrolled_check_each)
  with assms(1) validate_constraint_ok [OF c assms(1)] x show ?thesis
    by (simp add: record_ok_def literals_ok_def literal_ok_def resolves_def)
qed

lemma validated_level_ok:
  assumes "resolves p refs" "uncontrolled (validate_level refs limits x st) = Ok st'"
  shows "level_ok p (snd x)" "level_id (snd x) \<notin> fst st" "fst st' = insert (level_id (snd x)) (fst st)"
proof -
  obtain i l where x: "x = (i, l)" by (cases x)
  obtain ids k n where st: "st = (ids, k, n)" by (cases st)
  from assms(2) obtain q where b: "level_provenance l \<in> ref_provenance refs"
    "strictly_sorted (map objective_term_id (level_terms l))" "level_id l \<notin> ids"
    "fst st' = insert (level_id l) ids"
    and t: "each_o (\<lambda>t s. uncontrolled (validate_objective_term refs limits i t s)) (level_terms l)
      (k, 0, 0, n) = Ok q"
    unfolding validate_level_def x st by (auto simp: strict_by_Ok)
  have "\<forall>t \<in> set (level_terms l). objective_term_provenance t \<in> provenance_ids p \<and>
      expression_ok p (objective_expression t)"
  proof (rule each_o_forall [OF t])
    fix t s s' assume "uncontrolled (validate_objective_term refs limits i t s) = Ok s'"
    then obtain y where "objective_term_provenance t \<in> ref_provenance refs"
      and "uncontrolled (expression_bounds (objective_expression t) (ref_ints refs) limits
        ''objectives.term'') = Ok y"
      unfolding validate_objective_term_def case_prod_unfold by auto
    with assms(1) expression_bounds_ok show "objective_term_provenance t \<in> provenance_ids p \<and>
      expression_ok p (objective_expression t)" by (auto simp: resolves_def)
  qed
  with assms(1) b x show "level_ok p (snd x)" by (simp add: level_ok_def resolves_def)
  from b x st show "level_id (snd x) \<notin> fst st" "fst st' = insert (level_id (snd x)) (fst st)" by simp_all
qed

lemma bt_insert_fold_get:
  "bt_get (fold (\<lambda>r. bt_insert (f r) r) rs m) k = Some r \<Longrightarrow> bt_invar m \<Longrightarrow>
    bt_get m k = Some r \<or> r \<in> set rs \<and> f r = k"
proof (induction rs arbitrary: m)
  case (Cons x rs)
  have "bt_invar (bt_insert (f x) x m)" using Cons.prems(2) by (rule bt.invar_put)
  with Cons.IH [of "bt_insert (f x) x m"] Cons.prems bt.get_put [OF Cons.prems(2), of "f x" x]
  show ?case by (auto split: if_splits)
qed simp

lemma validated_assumption_ok:
  assumes "resolves p refs"
    and "uncontrolled (validate_assumption refs records limits x st) = Ok st'"
    and "\<And>k r. bt_get records k = Some r \<Longrightarrow> r \<in> set (provenance p) \<and> provenance_record_id r = k"
  shows "assumption_ok p (snd x)"
    "lit_variable (assumption_literal (snd x)) \<notin> fst (snd st)"
    "fst (snd st') = insert (lit_variable (assumption_literal (snd x))) (fst (snd st))"
proof -
  obtain i a where x: "x = (i, a)" by (cases x)
  obtain rules ls n where st: "st = (rules, ls, n)" by (cases st)
  from assms(2) have b: "required_rules a \<noteq> []" "strictly_sorted (required_rules a)"
    "lit_variable (assumption_literal a) \<in> ref_bools refs" "lit_variable (assumption_literal a) \<notin> ls"
    "fst (snd st') = insert (lit_variable (assumption_literal a)) ls"
    and k: "\<exists>r. bt_get records (assumption_provenance a) = Some r \<and> source_kind r = RequiredRule"
    unfolding validate_assumption_def x st by (auto simp: strict_Ok Let_def split: option.splits if_splits)
  from k assms(3) show "assumption_ok p (snd x)"
    using b assms(1) x by (auto simp: assumption_ok_def literal_ok_def resolves_def)
  from b x st show "lit_variable (assumption_literal (snd x)) \<notin> fst (snd st)"
    "fst (snd st') = insert (lit_variable (assumption_literal (snd x))) (fst (snd st))" by simp_all
qed

lemma validated_projection_ok:
  assumes "resolves p refs" "uncontrolled (validate_projection refs limits q st) = Ok st'"
  shows "projection_provenance q \<in> provenance_ids p" "projection_ok p (projection_expression q)"
    "assignment_id q \<notin> fst st" "fst st' = insert (assignment_id q) (fst st)"
proof -
  obtain ids n where st: "st = (ids, n)" by (cases st)
  from assms(2) have b: "projection_provenance q \<in> ref_provenance refs"
    "assignment_id q \<notin> ids" "fst st' = insert (assignment_id q) ids"
    and e: "uncontrolled (validate_projection_expression refs limits (projection_expression q)) = Ok ()"
    unfolding validate_projection_def st by auto
  show "projection_provenance q \<in> provenance_ids p" using b assms(1) by (simp add: resolves_def)
  show "projection_ok p (projection_expression q)"
    using e assms(1) expression_bounds_ok
    by (cases "(p, projection_expression q)" rule: projection_ok.cases)
      (auto simp: resolves_def int_ok_def interval_ok_def split: if_splits)
  from b st show "assignment_id q \<notin> fst st" "fst st' = insert (assignment_id q) (fst st)" by simp_all
qed

lemma each_o_records:
  "each_o (\<lambda>r m. Ok (bt_insert (f r) r m)) rs m = Ok (fold (\<lambda>r. bt_insert (f r) r) rs m)"
  by (induction rs arbitrary: m) simp_all

lemma validated_assumptions:
  assumes "resolves p refs" "uncontrolled (validate_assumptions p refs limits n) = Ok m"
  shows "distinct (map (\<lambda>a. lit_variable (assumption_literal a)) (assumptions p)) \<and>
    (\<forall>a \<in> set (assumptions p). assumption_ok p a)"
proof (cases "assumptions p = []")
  case False
  define records where "records = fold (\<lambda>r. bt_insert (provenance_record_id r) r) (provenance p) []"
  have R: "r \<in> set (provenance p) \<and> provenance_record_id r = k" if "bt_get records k = Some r" for k r
    using bt_insert_fold_get [OF that [unfolded records_def] bt.invar_empty] by (simp add: bt_get_def)
  from assms(2) False obtain st where
    l: "each_o (\<lambda>x s. uncontrolled (validate_assumption refs records limits x s))
      (enumerate 0 (assumptions p)) ({}, {}, n) = Ok st"
    by (auto simp: validate_assumptions_def each_o_records records_def case_prod_unfold)
  note ok = validated_assumption_ok [OF assms(1) _ R]
  have "\<forall>x \<in> set (enumerate 0 (assumptions p)). assumption_ok p (snd x)"
    by (rule each_o_forall [OF l]) (rule ok(1))
  moreover have "distinct (map (\<lambda>x. lit_variable (assumption_literal (snd x))) (enumerate 0 (assumptions p)))"
    using each_o_distinct [OF l, where key = "\<lambda>x. lit_variable (assumption_literal (snd x))"
        and K = "\<lambda>s. fst (snd s)"] ok(2,3) by blast
  moreover have "map (\<lambda>x. lit_variable (assumption_literal (snd x))) (enumerate 0 (assumptions p))
      = map (\<lambda>a. lit_variable (assumption_literal a)) (assumptions p)"
    by (metis (no_types) comp_apply map_map map_snd_enumerate map_cong)
  ultimately show ?thesis by (simp add: forall_enumerate)
qed simp

lemma validated_provenance_records:
  assumes "uncontrolled (validate_provenance p limits) = Ok ()"
  shows "\<forall>r \<in> set (provenance p). strictly_sorted (entity_refs r)"
proof -
  from assms obtain c where l: "each_o (\<lambda>r c. bind_o (uncontrolled (validate_provenance_record limits r)) (\<lambda>_.
      uncontrolled (validate_provenance_chain (provenance_record_id r) (provenance p)
        (max_provenance_depth limits) c))) (provenance p) (replicate (length (provenance p)) None) = Ok c"
    by (auto simp: validate_provenance_def Let_def)
  show ?thesis
    by (rule each_o_forall [OF l])
      (auto simp: validate_provenance_record_def strict_Ok)
qed

lemma validate_core_Ok:
  assumes "uncontrolled (validate_core p limits) = Ok (refs, n)"
  obtains n1 n2 n3 n4 n5 where
    "uncontrolled (validate_root p limits) = Ok ()"
    "uncontrolled (validate_variables p limits) = Ok (refs, n1)"
    "uncontrolled (validate_constraints p refs limits n1) = Ok n2"
    "uncontrolled (validate_objectives p refs limits n2) = Ok n3"
    "uncontrolled (validate_assumptions p refs limits n3) = Ok n4"
    "uncontrolled (validate_projections p refs limits n4) = Ok n5"
    "uncontrolled (validate_provenance p limits) = Ok ()"
    "uncontrolled (validate_metadata (metadata p) limits) = Ok ()"
  using assms by (auto simp: validate_core_def)

lemma validate_Ok_core:
  assumes "validate blake3 p limits = Ok ()"
  obtains refs n where "uncontrolled (validate_core p limits) = Ok (refs, n)"
    and "validate_features_and_components blake3 p n limits = Ok ()"
  using assms by (auto simp: validate_def split: outcome.splits budgeted_validation_error.splits)

lemma validate_core_well_typed:
  assumes "uncontrolled (validate_core p limits) = Ok (refs, n)"
  shows "well_typed p" "refs = references_of p" "resolves p refs"
proof -
  from assms obtain n1 n2 n3 n4 n5 where
    root: "uncontrolled (validate_root p limits) = Ok ()" and
    vars: "uncontrolled (validate_variables p limits) = Ok (refs, n1)" and
    cons: "uncontrolled (validate_constraints p refs limits n1) = Ok n2" and
    objs: "uncontrolled (validate_objectives p refs limits n2) = Ok n3" and
    asms: "uncontrolled (validate_assumptions p refs limits n3) = Ok n4" and
    prjs: "uncontrolled (validate_projections p refs limits n4) = Ok n5" and
    prov: "uncontrolled (validate_provenance p limits) = Ok ()" by (rule validate_core_Ok)
  note V = validate_variables_Ok [OF vars]
  show refs: "refs = references_of p" by (rule V(1))
  show res: "resolves p refs" unfolding refs by (rule resolves_references_of [OF root_ok(1) [OF root]])
  have "\<forall>v \<in> set (variables p). variable_ok p v"
  proof -
    have "\<forall>x \<in> set (enumerate 0 (variables p)). variable_ok p (snd x)"
    proof
      fix x assume x: "x \<in> set (enumerate 0 (variables p))"
      then have "snd x \<in> set (variables p)" by (metis image_eqI list.set_map map_snd_enumerate)
      with V(2) have "variable_checked limits (provenance_ids p) (snd x)" by blast
      moreover have "uncontrolled (validate_interval_variable refs (fst x, snd x)) = Ok ()"
        using V(3) x refs by simp
      ultimately show "variable_ok p (snd x)" by (rule validated_variable_ok [OF res])
    qed
    then show ?thesis by (simp only: forall_enumerate)
  qed
  moreover have "\<forall>r \<in> set (constraints p). record_ok p r"
  proof -
    from cons obtain st where "each_o (\<lambda>x s. uncontrolled (validate_record refs limits x s))
        (enumerate 0 (constraints p)) ({}, n1) = Ok st"
      by (auto simp: validate_constraints_def case_prod_unfold)
    then have "\<forall>x \<in> set (enumerate 0 (constraints p)). record_ok p (snd x)"
      by (rule each_o_forall) (rule validated_record_ok [OF res])
    then show ?thesis by (simp only: forall_enumerate)
  qed
  moreover have "distinct (map level_id (levels (objectives p))) \<and>
      (\<forall>l \<in> set (levels (objectives p)). level_ok p l)"
  proof -
    from objs obtain st where l: "each_o (\<lambda>x s. uncontrolled (validate_level refs limits x s))
        (enumerate 0 (levels (objectives p))) ({}, 0, n2) = Ok st"
      by (auto simp: validate_objectives_def case_prod_unfold)
    note ok = validated_level_ok [OF res]
    have "distinct (map (\<lambda>x. level_id (snd x)) (enumerate 0 (levels (objectives p))))"
      using each_o_distinct [OF l, where key = "\<lambda>x. level_id (snd x)" and K = fst] ok(2,3) by blast
    moreover have "map (\<lambda>x. level_id (snd x)) (enumerate 0 (levels (objectives p)))
        = map level_id (levels (objectives p))"
      by (metis (no_types) comp_apply map_map map_snd_enumerate map_cong)
    moreover have "\<forall>x \<in> set (enumerate 0 (levels (objectives p))). level_ok p (snd x)"
      by (rule each_o_forall [OF l]) (rule ok(1))
    ultimately show ?thesis by (simp only: forall_enumerate)
  qed
  moreover have "distinct (map assignment_id (projections p)) \<and>
      (\<forall>q \<in> set (projections p). projection_provenance q \<in> provenance_ids p \<and>
        projection_ok p (projection_expression q))"
  proof -
    from prjs obtain st where l: "each_o (\<lambda>x s. uncontrolled (validate_projection refs limits x s))
        (projections p) ({}, n4) = Ok st"
      by (auto simp: validate_projections_def case_prod_unfold)
    note ok = validated_projection_ok [OF res]
    have "distinct (map assignment_id (projections p))"
      using each_o_distinct [OF l, where key = assignment_id and K = fst] ok(3,4) by blast
    moreover have "\<forall>q \<in> set (projections p). projection_provenance q \<in> provenance_ids p"
      by (rule each_o_forall [OF l]) (rule ok(1))
    moreover have "\<forall>q \<in> set (projections p). projection_ok p (projection_expression q)"
      by (rule each_o_forall [OF l]) (rule ok(2))
    ultimately show ?thesis by blast
  qed
  ultimately show "well_typed p"
    using root_ok(1) [OF root] validated_assumptions [OF res asms] validated_provenance_records [OF prov]
    unfolding well_typed_def by blast
qed

end
