(* ===== verification/Validation_Bounds.thy ===== *)
theory Validation_Bounds
  imports Validation_Soundness
begin

section \<open>Arithmetic that validation rules out\<close>

text \<open>
  Validation computes interval bounds of linear expressions, of absolute differences and of
  interval equations. Here they are compared with the values: the bounds are attained, nothing an
  in-domain assignment evaluates overflows, and an interval equation is accepted exactly if it has
  a solution.
\<close>

subsection \<open>Normal domains\<close>

definition sane_limits :: "planning_ir_limits \<Rightarrow> bool" where
  "sane_limits limits \<longleftrightarrow> 0 \<le> max_abs_value limits \<and> max_abs_value limits \<le> i64_max \<and>
     0 \<le> max_abs_coefficient limits \<and> max_abs_coefficient limits \<le> i64_max"

definition normal_domain :: "int_domain \<Rightarrow> bool" where
  "normal_domain d \<longleftrightarrow> inclusive_ranges d \<noteq> [] \<and> canonical_ranges (inclusive_ranges d) \<and>
     domain_in_i64 (inclusive_ranges d)"

lemma small_value_in_i64:
  assumes "sane_limits limits" "small_value limits v"
  shows "in_i64 v"
proof -
  have "max_abs_value limits < 18446744073709551616"
    using assms(1) by (simp add: sane_limits_def i64_max_def)
  then have "\<bar>v\<bar> \<le> max_abs_value limits"
    using assms by (auto simp: sane_limits_def small_value_def cast_unsigned_def unsigned_abs_def)
  then show ?thesis using assms(1) by (auto simp: sane_limits_def in_i64_def i64_min_def i64_max_def)
qed

lemma checked_domain_normal:
  assumes "sane_limits limits" "variable_checked limits known (VInteger v)"
  shows "normal_domain (variable_domain v)"
proof -
  have i: "domain_in_i64 (inclusive_ranges (variable_domain v))"
    using assms small_value_in_i64 by (auto simp: domain_in_i64_def list_all_iff)
  with assms(2) int_domain_new_fixpoint [OF i] show ?thesis by (simp add: normal_domain_def)
qed

lemma normal_domain_bounds:
  assumes "normal_domain d"
  obtains lo hi where "domain_bounds d = Some (lo, hi)" "domain_contains d lo" "domain_contains d hi"
    "\<And>v. domain_contains d v \<Longrightarrow> lo \<le> v \<and> v \<le> hi" "in_i64 lo" "in_i64 hi"
proof -
  from assms obtain lo hi where b: "domain_bounds d = Some (lo, hi)"
    using domain_bounds_Some_iff [of d] by (auto simp: normal_domain_def)
  have c: "canonical_ranges (inclusive_ranges d)" and i: "domain_in_i64 (inclusive_ranges d)"
    using assms by (simp_all add: normal_domain_def)
  note B = domain_bounds_correct [OF c b]
  have "in_i64 v" if "domain_contains d v" for v
    using that i unfolding domain_contains_def list_ex_iff domain_in_i64_def
    by (meson in_i64_between)
  with B b that show ?thesis by blast
qed

subsection \<open>Linear expressions\<close>

text \<open>The checked evaluation of an expression, left to right.\<close>

definition checked_linear :: "(int_variable_id \<Rightarrow> i64) \<Rightarrow> linear_expression \<Rightarrow> i64 option" where
  "checked_linear f e = foldl (\<lambda>acc t. Option.bind acc (\<lambda>v.
     Option.bind (i64_checked_mul (coefficient t) (f (term_variable t))) (i64_checked_add v)))
     (Some (expr_constant e)) (expr_terms e)"

definition indexes_values ::
    "(int_variable_id, int_domain) btree_map \<Rightarrow> linear_expression \<Rightarrow> (int_variable_id \<Rightarrow> i64) \<Rightarrow> bool" where
  "indexes_values ints e f \<longleftrightarrow> (\<forall>t \<in> set (expr_terms e).
     \<exists>d. bt_get ints (term_variable t) = Some d \<and> domain_contains d (f (term_variable t)))"

definition normal_index :: "(int_variable_id, int_domain) btree_map \<Rightarrow> bool" where
  "normal_index ints \<longleftrightarrow> (\<forall>v d. bt_get ints v = Some d \<longrightarrow> normal_domain d)"

lemma mult_between:
  fixes c lo hi v :: int
  assumes "lo \<le> v" "v \<le> hi"
  shows "min (c * lo) (c * hi) \<le> c * v" "c * v \<le> max (c * lo) (c * hi)"
proof -
  have "c * lo \<le> c * v \<and> c * v \<le> c * hi \<or> c * hi \<le> c * v \<and> c * v \<le> c * lo"
    using assms by (metis linorder_linear mult_left_mono mult_left_mono_neg)
  then show "min (c * lo) (c * hi) \<le> c * v" "c * v \<le> max (c * lo) (c * hi)" by auto
qed

lemma term_bounds_step:
  assumes "term_bounds t ints limits path (mn, mx) = Ok (mn', mx')" "normal_index ints"
  obtains d lo hi where "bt_get ints (term_variable t) = Some d" "domain_contains d lo" "domain_contains d hi"
    "mn' = mn + coefficient t * lo" "mx' = mx + coefficient t * hi"
    "\<And>v. domain_contains d v \<Longrightarrow> coefficient t * lo \<le> coefficient t * v \<and>
      coefficient t * v \<le> coefficient t * hi"
    "in_i64 (coefficient t * lo)" "in_i64 (coefficient t * hi)" "in_i64 mn'" "in_i64 mx'"
proof -
  from assms(1) obtain d a b where d: "bt_get ints (term_variable t) = Some d"
    and ab: "domain_bounds d = Some (a, b)"
    and r: "mn' = mn + min (coefficient t * a) (coefficient t * b)"
      "mx' = mx + max (coefficient t * a) (coefficient t * b)"
    and i: "in_i64 (coefficient t * a)" "in_i64 (coefficient t * b)" "in_i64 mn'" "in_i64 mx'"
    by (auto simp: term_bounds_def split: if_splits option.splits)
  from d assms(2) have "normal_domain d" by (simp add: normal_index_def)
  then have B: "domain_contains d a" "domain_contains d b"
    "\<And>v. domain_contains d v \<Longrightarrow> a \<le> v \<and> v \<le> b"
    using ab by (auto elim!: normal_domain_bounds)
  let ?lo = "if coefficient t * a \<le> coefficient t * b then a else b"
  let ?hi = "if coefficient t * a \<le> coefficient t * b then b else a"
  have lo: "coefficient t * ?lo = min (coefficient t * a) (coefficient t * b)"
    and hi: "coefficient t * ?hi = max (coefficient t * a) (coefficient t * b)" by auto
  show ?thesis
  proof (rule that [OF d, of ?lo ?hi])
    show "coefficient t * ?lo \<le> coefficient t * v \<and> coefficient t * v \<le> coefficient t * ?hi"
      if "domain_contains d v" for v
      unfolding lo hi using B(3) [OF that] mult_between by blast
  qed (use B r i lo hi in \<open>auto simp: min_def max_def\<close>)
qed

lemma terms_bounds_sound:
  assumes "each_o (\<lambda>t b. map_err Invalid (term_bounds t ints limits path b)) ts (mn, mx) = Ok (mn', mx')"
    and "normal_index ints" and "mn \<le> v" "v \<le> mx" "in_i64 mn" "in_i64 mx"
    and "\<forall>t \<in> set ts. \<exists>d. bt_get ints (term_variable t) = Some d \<and> domain_contains d (f (term_variable t))"
  shows "mn' \<le> v + terms_value ts f \<and> v + terms_value ts f \<le> mx' \<and>
    foldl (\<lambda>acc t. Option.bind acc (\<lambda>v.
     Option.bind (i64_checked_mul (coefficient t) (f (term_variable t))) (i64_checked_add v)))
     (Some v) ts = Some (v + terms_value ts f)"
  using assms
proof (induction ts arbitrary: mn mx v)
  case (Cons t ts)
  from Cons.prems(1) obtain b1 where t: "term_bounds t ints limits path (mn, mx) = Ok b1"
    and r: "each_o (\<lambda>t b. map_err Invalid (term_bounds t ints limits path b)) ts b1 = Ok (mn', mx')"
    by auto
  obtain mn1 mx1 where b1: "b1 = (mn1, mx1)" by (cases b1)
  from term_bounds_step [OF t [unfolded b1] Cons.prems(2)] obtain d lo hi where
    d: "bt_get ints (term_variable t) = Some d" and
    s: "mn1 = mn + coefficient t * lo" "mx1 = mx + coefficient t * hi"
      "\<And>v. domain_contains d v \<Longrightarrow> coefficient t * lo \<le> coefficient t * v \<and>
      coefficient t * v \<le> coefficient t * hi" and
    i: "in_i64 (coefficient t * lo)" "in_i64 (coefficient t * hi)" "in_i64 mn1" "in_i64 mx1" by metis
  let ?p = "coefficient t * f (term_variable t)"
  from Cons.prems(7) d have c: "coefficient t * lo \<le> ?p" "?p \<le> coefficient t * hi" using s(3) by auto
  have b: "mn1 \<le> v + ?p" "v + ?p \<le> mx1" using Cons.prems(3,4) c s(1,2) by simp_all
  have p: "in_i64 ?p" using in_i64_between [OF i(1,2) c] .
  have q: "in_i64 (v + ?p)" using in_i64_between [OF i(3,4) b] .
  from Cons.IH [OF r [unfolded b1] Cons.prems(2) b i(3,4)] Cons.prems(7) p q
  show ?case by (simp add: i64_checked_mul_def i64_checked_add_def add.assoc)
qed simp

text \<open>An assignment attaining one of the two bounds, chosen variable by variable.\<close>

lemma terms_bounds_attained:
  assumes "each_o (\<lambda>t b. map_err Invalid (term_bounds t ints limits path b)) ts (mn, mx) = Ok (mn', mx')"
    and "normal_index ints" and "distinct (map term_variable ts)"
  shows "\<exists>f g. (\<forall>t \<in> set ts. \<exists>d. bt_get ints (term_variable t) = Some d \<and>
      domain_contains d (f (term_variable t)) \<and> domain_contains d (g (term_variable t))) \<and>
    mn' = mn + terms_value ts f \<and> mx' = mx + terms_value ts g"
  using assms
proof (induction ts arbitrary: mn mx)
  case (Cons t ts)
  from Cons.prems(1) obtain b1 where t: "term_bounds t ints limits path (mn, mx) = Ok b1"
    and r: "each_o (\<lambda>t b. map_err Invalid (term_bounds t ints limits path b)) ts b1 = Ok (mn', mx')"
    by auto
  obtain mn1 mx1 where b1: "b1 = (mn1, mx1)" by (cases b1)
  from term_bounds_step [OF t [unfolded b1] Cons.prems(2)] obtain d lo hi where
    d: "bt_get ints (term_variable t) = Some d" "domain_contains d lo" "domain_contains d hi"
      "mn1 = mn + coefficient t * lo" "mx1 = mx + coefficient t * hi" by metis
  from Cons.IH [OF r [unfolded b1] Cons.prems(2)] Cons.prems(3) obtain f g where
    fg: "\<forall>t \<in> set ts. \<exists>d. bt_get ints (term_variable t) = Some d \<and>
      domain_contains d (f (term_variable t)) \<and> domain_contains d (g (term_variable t))"
      "mn' = mn1 + terms_value ts f" "mx' = mx1 + terms_value ts g" by auto
  have other: "term_variable u \<noteq> term_variable t" if "u \<in> set ts" for u
    using Cons.prems(3) that by (metis distinct.simps(2) image_eqI list.set_map list.simps(9))
  have upd: "terms_value ts (h(term_variable t := x)) = terms_value ts h" for h x
    using other by (induction ts) auto
  have v: "terms_value (t # ts) (h(term_variable t := x)) = coefficient t * x + terms_value ts h" for h x
    using upd by (simp del: fun_upd_apply) simp
  show ?case
    by (rule exI [of _ "f(term_variable t := lo)"], rule exI [of _ "g(term_variable t := hi)"], unfold v)
      (use fg d other in auto)
qed simp

lemma expression_bounds_terms:
  assumes "uncontrolled (expression_bounds e ints limits path) = Ok (mn, mx)"
  shows "each_o (\<lambda>t b. map_err Invalid (term_bounds t ints limits path b)) (expr_terms e)
      (expr_constant e, expr_constant e) = Ok (mn, mx)"
    and "strictly_sorted (map term_variable (expr_terms e))" "small_value limits (expr_constant e)"
  using assms by (auto simp: expression_bounds_def strict_by_Ok)

lemma expression_bounds_sound:
  assumes "sane_limits limits" "normal_index ints"
    and "uncontrolled (expression_bounds e ints limits path) = Ok (mn, mx)"
    and "indexes_values ints e f"
  shows "mn \<le> expr_value e f" "expr_value e f \<le> mx" "checked_linear f e = Some (expr_value e f)"
proof -
  note E = expression_bounds_terms [OF assms(3)]
  have c: "in_i64 (expr_constant e)" using small_value_in_i64 [OF assms(1) E(3)] .
  from terms_bounds_sound [OF E(1) assms(2) order_refl order_refl c c assms(4) [unfolded indexes_values_def]]
  show "mn \<le> expr_value e f" "expr_value e f \<le> mx" "checked_linear f e = Some (expr_value e f)"
    by (simp_all add: expr_value_def checked_linear_def)
qed

text \<open>
  C23: When \<open>expression_bounds\<close> succeeds, its result is the exact range of the expression over the
  domains: every in-domain assignment evaluates without overflow to a value between the bounds,
  and both bounds are attained.
\<close>

theorem expression_bounds_exact:
  assumes "sane_limits limits" "normal_index ints"
    and "uncontrolled (expression_bounds e ints limits path) = Ok (mn, mx)"
  shows "(\<forall>f. indexes_values ints e f \<longrightarrow>
      mn \<le> expr_value e f \<and> expr_value e f \<le> mx \<and> checked_linear f e = Some (expr_value e f)) \<and>
    (\<exists>f. indexes_values ints e f \<and> expr_value e f = mn) \<and>
    (\<exists>f. indexes_values ints e f \<and> expr_value e f = mx)"
proof -
  note E = expression_bounds_terms [OF assms(3)]
  from terms_bounds_attained [OF E(1) assms(2) strictly_sorted_distinct [OF E(2)]] obtain f g where
    "indexes_values ints e f" "indexes_values ints e g" "expr_value e f = mn" "expr_value e g = mx"
    unfolding indexes_values_def expr_value_def by metis
  with expression_bounds_sound [OF assms] show ?thesis by blast
qed

theorem expression_bounds_exact_witness:
  "sane_limits default_limits \<and>
   normal_index [(''x'', one_range 0 5), (''y'', one_range (-2) 4)] \<and>
   uncontrolled (expression_bounds \<lparr>expr_terms = [\<lparr>term_variable = ''x'', coefficient = 2\<rparr>,
       \<lparr>term_variable = ''y'', coefficient = -3\<rparr>], expr_constant = 1\<rparr>
     [(''x'', one_range 0 5), (''y'', one_range (-2) 4)] default_limits ''path'') = Ok (-11, 17) \<and>
   (\<exists>f. indexes_values [(''x'', one_range 0 5), (''y'', one_range (-2) 4)]
       \<lparr>expr_terms = [\<lparr>term_variable = ''x'', coefficient = 2\<rparr>,
         \<lparr>term_variable = ''y'', coefficient = -3\<rparr>], expr_constant = 1\<rparr> f \<and>
     expr_value \<lparr>expr_terms = [\<lparr>term_variable = ''x'', coefficient = 2\<rparr>,
         \<lparr>term_variable = ''y'', coefficient = -3\<rparr>], expr_constant = 1\<rparr> f = 17)"
proof -
  have s: "sane_limits default_limits" by code_simp
  have n: "normal_index [(''x'', one_range 0 5), (''y'', one_range (-2) 4)]"
    by (auto simp: normal_index_def bt_get_def normal_domain_def one_range_def canonical_ranges_def
        domain_in_i64_def in_i64_def i64_min_def i64_max_def split: if_splits)
  have e: "uncontrolled (expression_bounds \<lparr>expr_terms = [\<lparr>term_variable = ''x'', coefficient = 2\<rparr>,
       \<lparr>term_variable = ''y'', coefficient = -3\<rparr>], expr_constant = 1\<rparr>
     [(''x'', one_range 0 5), (''y'', one_range (-2) 4)] default_limits ''path'') = Ok (-11, 17)" by code_simp
  from expression_bounds_exact [OF s n e] s n e show ?thesis by (intro conjI) (simp_all only: simp_thms)
qed

subsection \<open>Interval equations\<close>

lemma takeWhile_sorted:
  assumes "sorted_wrt (\<lambda>a b. P b \<longrightarrow> P a) xs"
  shows "set (takeWhile P xs) = {x \<in> set xs. P x}"
  using assms by (induction xs) auto

lemma domain_intersects_range_iff:
  assumes "canonical_ranges (inclusive_ranges d)" "lo \<le> hi"
  shows "domain_intersects_range d lo hi \<longleftrightarrow> (\<exists>v. domain_contains d v \<and> lo \<le> v \<and> v \<le> hi)"
proof -
  let ?rs = "inclusive_ranges d"
  let ?before = "takeWhile (\<lambda>r. range_start r \<le> hi) ?rs"
  have ends: "range_start r \<le> range_end r" if "r \<in> set ?rs" for r
    using assms(1) that by (simp add: canonical_ranges_def)
  have "sorted_wrt (\<lambda>a b. range_start b \<le> hi \<longrightarrow> range_start a \<le> hi) ?rs"
    using assms(1) unfolding canonical_ranges_def
    by (elim conjE, elim sorted_wrt_mono_rel [rotated]) force
  then have before: "set ?before = {r \<in> set ?rs. range_start r \<le> hi}" by (rule takeWhile_sorted)
  have canonical: "canonical_ranges ?before"
    using assms(1) before by (auto simp: canonical_ranges_def sorted_wrt_takeWhile)
  have "take (length ?before) ?rs = ?before" by (rule takeWhile_eq_take [symmetric])
  then have test: "domain_intersects_range d lo hi \<longleftrightarrow> ?before \<noteq> [] \<and> lo \<le> range_end (last ?before)"
    unfolding domain_intersects_range_def partition_point_def Let_def
    by (cases ?before rule: rev_cases) simp_all
  show ?thesis
  proof
    assume "domain_intersects_range d lo hi"
    then have "last ?before \<in> set ?before" "lo \<le> range_end (last ?before)" by (simp_all add: test)
    then obtain q where "q \<in> set ?rs" "range_start q \<le> hi" "lo \<le> range_end q"
      using before by blast
    then show "\<exists>v. domain_contains d v \<and> lo \<le> v \<and> v \<le> hi"
      using assms(2) ends unfolding domain_contains_def list_ex_iff
      by (intro exI [of _ "max lo (range_start q)"] conjI bexI [of _ q]) auto
  next
    assume "\<exists>v. domain_contains d v \<and> lo \<le> v \<and> v \<le> hi"
    then obtain v r where r: "r \<in> set ?rs" "range_start r \<le> v" "v \<le> range_end r" "lo \<le> v" "v \<le> hi"
      by (auto simp: domain_contains_def list_ex_iff)
    then have "r \<in> set ?before" using before by simp
    with canonical_end_le_last [OF canonical this] r show "domain_intersects_range d lo hi"
      unfolding test by auto
  qed
qed

definition range_equation :: "int_domain \<Rightarrow> inclusive_range \<Rightarrow> inclusive_range \<Rightarrow> bool" where
  "range_equation ends s d \<longleftrightarrow> (\<exists>x \<in> range_values s. \<exists>y \<in> range_values d. 0 \<le> y \<and> domain_contains ends (x + y))"

definition range_representable :: "inclusive_range \<Rightarrow> inclusive_range \<Rightarrow> bool" where
  "range_representable s d \<longleftrightarrow> (\<exists>x \<in> range_values s. \<exists>y \<in> range_values d. 0 \<le> y \<and> in_i64 (x + y))"

lemma sums_of_ranges:
  fixes a b c d :: int
  assumes "a \<le> b" "c \<le> d" "a + c \<le> v" "v \<le> b + d"
  obtains x y where "a \<le> x" "x \<le> b" "c \<le> y" "y \<le> d" "x + y = v"
proof (cases "v - c \<le> b")
  case True
  then show ?thesis using assms by (intro that [of "v - c" c]) auto
next
  case False
  then show ?thesis using assms by (intro that [of b "v - b"]) auto
qed

lemma interval_pair_correct:
  assumes "normal_domain ends" "in_i64 (range_start s)" "in_i64 (range_end s)"
    and "range_start s \<le> range_end s" "range_start d \<le> range_end d"
  shows "interval_pair ends s d (r, False) = (r \<or> range_representable s d, range_equation ends s d)"
proof -
  let ?m = "max (range_start d) 0"
  have ends: "canonical_ranges (inclusive_ranges ends)" and ends_i64: "in_i64 v" if "domain_contains ends v" for v
    using assms(1) that in_i64_between
    by (auto simp: normal_domain_def domain_contains_def list_ex_iff domain_in_i64_def)
  have canonical: "canonical_ranges (inclusive_ranges ends)" using assms(1) by (simp add: normal_domain_def)
  have rep: "range_representable s d \<longleftrightarrow> ?m \<le> range_end d \<and> in_i64 (range_start s + ?m)"
  proof
    assume "range_representable s d"
    then obtain x y where "range_start s \<le> x" "range_start d \<le> y" "y \<le> range_end d" "0 \<le> y" "in_i64 (x + y)"
      by (auto simp: range_representable_def range_values_def)
    then show "?m \<le> range_end d \<and> in_i64 (range_start s + ?m)"
      using in_i64_between [of "range_start s" "x + y" "range_start s + ?m"] assms(2) by auto
  next
    assume "?m \<le> range_end d \<and> in_i64 (range_start s + ?m)"
    then show "range_representable s d"
      unfolding range_representable_def range_values_def using assms(4)
      by (intro bexI [of _ "range_start s"] bexI [of _ ?m]) auto
  qed
  show ?thesis
  proof (cases "range_representable s d")
    case False
    have "\<not> range_equation ends s d"
      using False ends_i64 unfolding range_equation_def range_representable_def by blast
    moreover have "\<not> in_i64 (range_start s + ?m)" if "?m \<le> range_end d" using False rep that by blast
    ultimately show ?thesis using False
      unfolding interval_pair_def Let_def i64_checked_add_def by (simp del: max.bounded_iff)
  next
    case True
    let ?hi = "range_end s + range_end d"
    let ?top = "if in_i64 ?hi then ?hi else i64_max"
    have m: "?m \<le> range_end d" "in_i64 (range_start s + ?m)" using True rep by simp_all
    have le: "range_start s + ?m \<le> ?hi" using m(1) assms(4) by linarith
    have top: "range_start s + ?m \<le> ?top" using le m(2) by (auto simp: in_i64_def)
    have cap: "v \<le> ?top" if "v \<le> ?hi" "in_i64 v" for v using that by (auto simp: in_i64_def)
    have low: "?top \<le> ?hi" using le m(2) by (auto simp: in_i64_def)
    have "domain_intersects_range ends (range_start s + ?m) ?top \<longleftrightarrow> range_equation ends s d"
      unfolding domain_intersects_range_iff [OF canonical top]
    proof
      assume "\<exists>v. domain_contains ends v \<and> range_start s + ?m \<le> v \<and> v \<le> ?top"
      then obtain v where v: "domain_contains ends v" "range_start s + ?m \<le> v" "v \<le> ?hi"
        using low by auto
      from sums_of_ranges [OF assms(4) m(1) v(2,3)] obtain x y where
        "range_start s \<le> x" "x \<le> range_end s" "?m \<le> y" "y \<le> range_end d" "x + y = v" .
      with v(1) show "range_equation ends s d"
        unfolding range_equation_def range_values_def
        by (intro bexI [of _ x] bexI [of _ y]) auto
    next
      assume "range_equation ends s d"
      then obtain x y where xy: "range_start s \<le> x" "x \<le> range_end s" "range_start d \<le> y" "y \<le> range_end d"
        "0 \<le> y" "domain_contains ends (x + y)"
        by (auto simp: range_equation_def range_values_def)
      with cap [of "x + y"] ends_i64 show "\<exists>v. domain_contains ends v \<and> range_start s + ?m \<le> v \<and> v \<le> ?top"
        by (intro exI [of _ "x + y"]) auto
    qed
    moreover have "(case i64_checked_add (range_end s) (range_end d) of None \<Rightarrow> i64_max | Some v \<Rightarrow> v) = ?top"
      by (simp add: i64_checked_add_def)
    ultimately show ?thesis using m True
      unfolding interval_pair_def Let_def by (simp add: i64_checked_add_def del: max.bounded_iff)
  qed
qed

text \<open>The two nested loops stop at the first pair that has a solution.\<close>

definition scans :: "('x \<Rightarrow> bool \<times> bool \<Rightarrow> bool \<times> bool) \<Rightarrow> ('x \<Rightarrow> bool) \<Rightarrow> ('x \<Rightarrow> bool) \<Rightarrow> 'x \<Rightarrow> bool" where
  "scans g R Q x \<longleftrightarrow> (\<forall>r. (snd (g x (r, False)) \<longleftrightarrow> Q x) \<and>
     (\<not> Q x \<longrightarrow> (fst (g x (r, False)) \<longleftrightarrow> r \<or> R x)))"

lemma scans_fold:
  assumes "\<forall>x \<in> set xs. scans g R Q x"
  shows "scans (\<lambda>xs. fold (\<lambda>x st. if snd st then st else g x st) xs) (\<lambda>xs. \<exists>x \<in> set xs. R x)
    (\<lambda>xs. \<exists>x \<in> set xs. Q x) xs"
  using assms
proof (induction xs)
  case (Cons x xs)
  have stop: "fold (\<lambda>x st. if snd st then st else g x st) xs (r, True) = (r, True)" for r
    by (induction xs) simp_all
  have "snd (g x (r, False)) \<longleftrightarrow> Q x" "\<not> Q x \<Longrightarrow> fst (g x (r, False)) \<longleftrightarrow> r \<or> R x" for r
    using Cons.prems by (simp_all add: scans_def)
  then have step: "g x (r, False) = (if Q x then (fst (g x (r, False)), True) else (r \<or> R x, False))" for r
    by (simp add: prod_eq_iff)
  from Cons.IH Cons.prems have rest: "scans (\<lambda>xs. fold (\<lambda>x st. if snd st then st else g x st) xs)
      (\<lambda>xs. \<exists>x \<in> set xs. R x) (\<lambda>xs. \<exists>x \<in> set xs. Q x) xs" by simp
  show ?case
  proof (cases "Q x")
    case True
    with step have "g x (r, False) = (fst (g x (r, False)), True)" for r by presburger
    with stop have "snd (fold (\<lambda>x st. if snd st then st else g x st) xs (g x (r, False)))" for r
      by (metis snd_conv)
    with True show ?thesis by (simp add: scans_def)
  next
    case False
    with step have "g x (r, False) = (r \<or> R x, False)" for r by presburger
    with False rest show ?thesis by (simp add: scans_def disj_ac)
  qed
qed (simp add: scans_def)

lemma domain_contains_ranges:
  "domain_contains d v \<longleftrightarrow> (\<exists>r \<in> set (inclusive_ranges d). v \<in> range_values r)"
  by (auto simp: domain_contains_def list_ex_iff range_values_def)

lemma uncontrolled_interval_scan:
  "uncontrolled (interval_scan s d ends) = Ok (fold (\<lambda>x st. if snd st then st else
     fold (\<lambda>y st. if snd st then st else interval_pair ends x y st) (inclusive_ranges d) st)
     (inclusive_ranges s) (False, False))"
proof -
  have "(\<lambda>y st. uncontrolled (if snd st then ret st else then_p visit_v (ret (interval_pair ends x y st))))
      = (\<lambda>y st. Ok (if snd st then st else interval_pair ends x y st))" for x
    by (intro ext) simp
  then have "(\<lambda>x st. uncontrolled (if snd st then ret st else then_p visit_v
         (each_p (\<lambda>y st. if snd st then ret st else then_p visit_v (ret (interval_pair ends x y st)))
          (inclusive_ranges d) st)))
      = (\<lambda>x st. Ok (if snd st then st else
     fold (\<lambda>y st. if snd st then st else interval_pair ends x y st) (inclusive_ranges d) st))"
    by (intro ext) (simp add: each_o_Ok)
  then show ?thesis unfolding interval_scan_def uncontrolled_each_p by (simp add: each_o_Ok)
qed

lemma interval_scan_correct:
  assumes "normal_domain s" "normal_domain d" "normal_domain ends"
    and "uncontrolled (interval_scan s d ends) = Ok (representable, found)"
  shows "found \<longleftrightarrow> (\<exists>x y. domain_contains s x \<and> domain_contains d y \<and> 0 \<le> y \<and> domain_contains ends (x + y))"
    and "\<not> found \<Longrightarrow> representable \<longleftrightarrow>
      (\<exists>x y. domain_contains s x \<and> domain_contains d y \<and> 0 \<le> y \<and> in_i64 (x + y))"
proof -
  let ?pair = "\<lambda>x y st. interval_pair ends x y st"
  let ?row = "\<lambda>x. fold (\<lambda>y st. if snd st then st else ?pair x y st) (inclusive_ranges d)"
  have pair: "scans (?pair x) (range_representable x) (range_equation ends x) y"
    if "x \<in> set (inclusive_ranges s)" "y \<in> set (inclusive_ranges d)" for x y
    using interval_pair_correct [OF assms(3)] assms(1,2) that
    by (simp add: scans_def normal_domain_def canonical_ranges_def domain_in_i64_def)
  have row: "scans ?row (\<lambda>x. \<exists>y \<in> set (inclusive_ranges d). range_representable x y)
      (\<lambda>x. \<exists>y \<in> set (inclusive_ranges d). range_equation ends x y) x"
    if "x \<in> set (inclusive_ranges s)" for x
    using scans_fold [of "inclusive_ranges d" "?pair x" "range_representable x" "range_equation ends x"]
      pair [OF that] unfolding scans_def by simp
  have all: "scans (\<lambda>xs. fold (\<lambda>x st. if snd st then st else ?row x st) xs)
      (\<lambda>xs. \<exists>x \<in> set xs. \<exists>y \<in> set (inclusive_ranges d). range_representable x y)
      (\<lambda>xs. \<exists>x \<in> set xs. \<exists>y \<in> set (inclusive_ranges d). range_equation ends x y) (inclusive_ranges s)"
    by (rule scans_fold) (use row in blast)
  from assms(4) have e: "fold (\<lambda>x st. if snd st then st else ?row x st) (inclusive_ranges s) (False, False)
      = (representable, found)" unfolding uncontrolled_interval_scan by simp
  from all [unfolded scans_def, THEN spec, of False, unfolded e fst_conv snd_conv] have f: "found \<longleftrightarrow> (\<exists>x \<in> set (inclusive_ranges s). \<exists>y \<in> set (inclusive_ranges d). range_equation ends x y)"
    and r: "\<not> found \<Longrightarrow> representable \<longleftrightarrow>
      (\<exists>x \<in> set (inclusive_ranges s). \<exists>y \<in> set (inclusive_ranges d). range_representable x y)"
    by simp_all
  show "found \<longleftrightarrow> (\<exists>x y. domain_contains s x \<and> domain_contains d y \<and> 0 \<le> y \<and> domain_contains ends (x + y))"
    unfolding f range_equation_def domain_contains_ranges [of s] domain_contains_ranges [of d] by blast
  show "representable \<longleftrightarrow> (\<exists>x y. domain_contains s x \<and> domain_contains d y \<and> 0 \<le> y \<and> in_i64 (x + y))"
    if "\<not> found"
    unfolding r [OF that] range_representable_def domain_contains_ranges by blast
qed

text \<open>
  C24: An interval whose start, duration and end have normal domains is accepted exactly if some
  start and some nonnegative duration add up to an end. Otherwise the error is an overflow exactly
  if there are nonnegative durations and every sum with one exceeds the integer range.
\<close>

theorem interval_equation_decides:
  assumes "normal_domain s" "normal_domain d" "normal_domain ends"
  shows "uncontrolled (validate_interval_equation s d ends i) =
    (if \<exists>x y. domain_contains s x \<and> domain_contains d y \<and> 0 \<le> y \<and> domain_contains ends (x + y) then Ok ()
     else Err (Invalid \<lparr>code =
       if (\<exists>y. domain_contains d y \<and> 0 \<le> y) \<and>
          \<not> (\<exists>x y. domain_contains s x \<and> domain_contains d y \<and> 0 \<le> y \<and> in_i64 (x + y))
       then ValidationOverflow else InvalidDomain, error_path = indexed ''variables'' i ''''\<rparr>))"
proof -
  have nonneg: "list_ex (\<lambda>r. range_end r \<ge> 0) (inclusive_ranges d) \<longleftrightarrow> (\<exists>y. domain_contains d y \<and> 0 \<le> y)"
  proof
    assume "list_ex (\<lambda>r. range_end r \<ge> 0) (inclusive_ranges d)"
    then obtain r where "r \<in> set (inclusive_ranges d)" "0 \<le> range_end r" by (auto simp: list_ex_iff)
    with assms(2) show "\<exists>y. domain_contains d y \<and> 0 \<le> y"
      by (intro exI [of _ "range_end r"])
        (auto simp: domain_contains_ranges range_values_def normal_domain_def canonical_ranges_def)
  qed (force simp: domain_contains_def list_ex_iff)
  obtain st' where "uncontrolled (interval_scan s d ends) = Ok st'"
    by (rule that [OF uncontrolled_interval_scan])
  then obtain representable found where
    st: "uncontrolled (interval_scan s d ends) = Ok (representable, found)" by (cases st') simp
  note S = interval_scan_correct [OF assms st]
  show ?thesis
  proof (cases found)
    case True
    show ?thesis unfolding S(1) [symmetric] validate_interval_equation_def using st True by simp
  next
    case False
    show ?thesis unfolding S(1) [symmetric] S(2) [OF False, symmetric] validate_interval_equation_def
        nonneg [symmetric] using st False by (simp add: reject_def)
  qed
qed

theorem interval_equation_decides_witness:
  "normal_domain (one_range 0 10) \<and> normal_domain (one_range (-5) (-1)) \<and>
   (uncontrolled (validate_interval_equation (one_range 0 10) (one_range (-5) (-1)) (one_range 0 10) 3) =
     Err (Invalid \<lparr>code = InvalidDomain, error_path = ''variables[3]''\<rparr>))"
proof -
  have n: "normal_domain (one_range 0 10)" "normal_domain (one_range (-5) (-1))"
    by (simp_all add: normal_domain_def one_range_def canonical_ranges_def domain_in_i64_def in_i64_def
        i64_min_def i64_max_def)
  have d: "domain_contains (one_range (-5) (-1)) y \<Longrightarrow> \<not> 0 \<le> y" for y
    by (simp add: domain_contains_def one_range_def)
  have i: "indexed ''variables'' 3 '''' = ''variables[3]''" by code_simp
  show ?thesis
    unfolding interval_equation_decides [OF n n(1)] i using n d by auto
qed

subsection \<open>Whole problems\<close>

definition in_domains :: "planning_problem \<Rightarrow> (int_variable_id \<Rightarrow> i64) \<Rightarrow> bool" where
  "in_domains p f \<longleftrightarrow> (\<forall>v d. domain_of p v = Some d \<longrightarrow> domain_contains d (f v))"

definition level_value :: "objective_level \<Rightarrow> (int_variable_id \<Rightarrow> i64) \<Rightarrow> int" where
  "level_value l f = (\<Sum>t \<leftarrow> level_terms l. expr_value (objective_expression t) f)"

definition bounded_level :: "(int_variable_id \<Rightarrow> i64) \<Rightarrow> objective_level \<Rightarrow> bool" where
  "bounded_level f l \<longleftrightarrow> lower_bound l \<le> level_value l f \<and> level_value l f \<le> upper_bound l \<and>
     (\<forall>t \<in> set (level_terms l). 0 \<le> expr_value (objective_expression t) f)"

definition evaluates :: "(int_variable_id \<Rightarrow> i64) \<Rightarrow> linear_expression \<Rightarrow> bool" where
  "evaluates f e \<longleftrightarrow> checked_linear f e = Some (expr_value e f)"

definition safe_difference :: "(int_variable_id \<Rightarrow> i64) \<Rightarrow> constraint \<Rightarrow> bool" where
  "safe_difference f c \<longleftrightarrow> (case c of AbsDifference t l r \<Rightarrow>
     Option.bind (i64_checked_sub (f l) (f r)) i64_checked_abs = Some \<bar>f l - f r\<bar> | _ \<Rightarrow> True)"

lemma in_domains_indexes:
  assumes "in_domains p f" "resolves p refs" "expression_ok p e"
  shows "indexes_values (ref_ints refs) e f"
  using assms by (auto simp: indexes_values_def in_domains_def resolves_def expression_ok_def int_ok_def)

lemma validated_index_normal:
  assumes "sane_limits limits" "uncontrolled (validate_variables p limits) = Ok (refs, n)" "resolves p refs"
  shows "normal_index (ref_ints refs)"
proof -
  have "normal_domain d" if "domain_of p v = Some d" for v d
  proof -
    from that have "(v, d) \<in> set (int_entries (variables p))" by (auto simp: domain_of_def dest: map_of_SomeD)
    then obtain x where "VInteger x \<in> set (variables p)" "variable_domain x = d" by (auto simp: set_int_entries)
    with validate_variables_Ok(2) [OF assms(2)] checked_domain_normal [OF assms(1)] show ?thesis by blast
  qed
  with assms(3) show ?thesis by (simp add: normal_index_def resolves_def)
qed

lemma prove_abs_bounds_sound:
  assumes "prove_abs_bounds l r path = Ok ()" "normal_domain l" "normal_domain r"
    and "domain_contains l x" "domain_contains r y"
  shows "Option.bind (i64_checked_sub x y) i64_checked_abs = Some \<bar>x - y\<bar>"
proof -
  from normal_domain_bounds [OF assms(2)] obtain a b where
    l: "domain_bounds l = Some (a, b)" "\<And>v. domain_contains l v \<Longrightarrow> a \<le> v \<and> v \<le> b" by metis
  from normal_domain_bounds [OF assms(3)] obtain c d where
    r: "domain_bounds r = Some (c, d)" "\<And>v. domain_contains r v \<Longrightarrow> c \<le> v \<and> v \<le> d" by metis
  from assms(1) l(1) r(1) have i: "in_i64 (a - d)" "in_i64 \<bar>a - d\<bar>" "in_i64 (b - c)" "in_i64 \<bar>b - c\<bar>"
    by (auto simp: prove_abs_bounds_def i64_checked_sub_def i64_checked_abs_def split: if_splits)
  have "a - d \<le> x - y" "x - y \<le> b - c" using l(2) [OF assms(4)] r(2) [OF assms(5)] by auto
  then have "in_i64 (x - y)" "in_i64 \<bar>x - y\<bar>" using i by (auto simp: in_i64_def)
  then show ?thesis by (simp add: i64_checked_sub_def i64_checked_abs_def)
qed

text \<open>What the passes over constraints, objectives and projections establish for an assignment.\<close>

definition arithmetic_context ::
    "planning_problem \<Rightarrow> planning_ir_limits \<Rightarrow> variable_references \<Rightarrow> (int_variable_id \<Rightarrow> i64) \<Rightarrow> bool" where
  "arithmetic_context p limits refs f \<longleftrightarrow>
     sane_limits limits \<and> resolves p refs \<and> normal_index (ref_ints refs) \<and> in_domains p f"

lemma context_bounds:
  assumes "arithmetic_context p limits refs f"
    and "uncontrolled (expression_bounds e (ref_ints refs) limits path) = Ok (mn, mx)"
  shows "evaluates f e" "mn \<le> expr_value e f" "expr_value e f \<le> mx"
proof -
  have c: "sane_limits limits" "resolves p refs" "normal_index (ref_ints refs)" "in_domains p f"
    using assms(1) by (simp_all add: arithmetic_context_def)
  then have "bt_get (ref_ints refs) = domain_of p" by (simp add: resolves_def)
  from in_domains_indexes [OF c(4,2) expression_bounds_ok [OF assms(2) this]]
  have "indexes_values (ref_ints refs) e f" .
  from expression_bounds_sound [OF c(1,3) assms(2) this]
  show "evaluates f e" "mn \<le> expr_value e f" "expr_value e f \<le> mx" by (simp_all add: evaluates_def)
qed

lemma context_constraint:
  assumes "arithmetic_context p limits refs f"
    and "uncontrolled (validate_constraint c refs limits path) = Ok ()"
  shows "\<forall>e \<in> set (constraint_expressions c). evaluates f e" "safe_difference f c"
proof -
  note B = context_bounds(1) [OF assms(1)]
  show "\<forall>e \<in> set (constraint_expressions c). evaluates f e"
    using assms(2) B by (cases c) (auto simp: validate_comparison_def)
  show "safe_difference f c"
  proof (cases c)
    case (AbsDifference t l r)
    with assms(2) obtain dl dr where d: "bt_get (ref_ints refs) l = Some dl" "bt_get (ref_ints refs) r = Some dr"
      and b: "prove_abs_bounds dl dr path = Ok ()" by auto
    with assms(1) have "normal_domain dl" "normal_domain dr" "domain_contains dl (f l)" "domain_contains dr (f r)"
      by (auto simp: arithmetic_context_def normal_index_def resolves_def in_domains_def)
    from prove_abs_bounds_sound [OF b this] AbsDifference show ?thesis by (simp add: safe_difference_def)
  qed (simp_all add: safe_difference_def)
qed

lemma context_terms:
  assumes "arithmetic_context p limits refs f"
    and "each_o (\<lambda>t s. uncontrolled (validate_objective_term refs limits i t s)) ts (k, a, b, n)
      = Ok (k', a', b', n')"
  shows "a' - a \<le> (\<Sum>t \<leftarrow> ts. expr_value (objective_expression t) f) \<and>
    (\<Sum>t \<leftarrow> ts. expr_value (objective_expression t) f) \<le> b' - b \<and>
    (\<forall>t \<in> set ts. evaluates f (objective_expression t) \<and> 0 \<le> expr_value (objective_expression t) f)"
  using assms(2)
proof (induction ts arbitrary: k a b n)
  case (Cons t ts)
  from Cons.prems obtain mn mx k1 n1 where
    e: "uncontrolled (expression_bounds (objective_expression t) (ref_ints refs) limits ''objectives.term'')
      = Ok (mn, mx)" "0 \<le> mn"
    and r: "each_o (\<lambda>t s. uncontrolled (validate_objective_term refs limits i t s)) ts
      (k1, a + mn, b + mx, n1) = Ok (k', a', b', n')"
    by (auto simp: validate_objective_term_def checked_v_Ok i64_checked_add_def not_less split: if_splits)
  from Cons.IH [OF r] context_bounds [OF assms(1) e(1)] e(2) show ?case by auto
qed simp

lemma context_level:
  assumes "arithmetic_context p limits refs f"
    and "uncontrolled (validate_level refs limits x st) = Ok st'"
  shows "bounded_level f (snd x) \<and>
    (\<forall>t \<in> set (level_terms (snd x)). evaluates f (objective_expression t))"
proof -
  obtain i l where x: "x = (i, l)" by (cases x)
  obtain ids k n where st: "st = (ids, k, n)" by (cases st)
  from assms(2) obtain k' n' where
    "each_o (\<lambda>t s. uncontrolled (validate_objective_term refs limits i t s)) (level_terms l)
      (k, 0, 0, n) = Ok (k', lower_bound l, upper_bound l, n')"
    unfolding validate_level_def x st by (auto simp: strict_by_Ok)
  from context_terms [OF assms(1) this] show ?thesis
    by (simp add: x bounded_level_def level_value_def)
qed

lemma validate_context:
  assumes "validate blake3 p limits = Ok ()" "sane_limits limits" "in_domains p f"
  obtains refs n where "arithmetic_context p limits refs f" "uncontrolled (validate_core p limits) = Ok (refs, n)"
proof -
  from assms(1) obtain refs n where c: "uncontrolled (validate_core p limits) = Ok (refs, n)"
    by (rule validate_Ok_core)
  note r = validate_core_well_typed(3) [OF c]
  from c obtain n1 where "uncontrolled (validate_variables p limits) = Ok (refs, n1)" by (rule validate_core_Ok)
  from validated_index_normal [OF assms(2) this r] r assms have "arithmetic_context p limits refs f"
    by (simp add: arithmetic_context_def)
  with c show ?thesis by (rule that [rotated])
qed

lemma context_constraints:
  assumes "arithmetic_context p limits refs f"
    and "uncontrolled (validate_constraints p refs limits n) = Ok m"
  shows "\<forall>r \<in> set (constraints p). (\<forall>e \<in> set (constraint_expressions (body r)). evaluates f e) \<and>
    safe_difference f (body r)"
proof -
  from assms(2) obtain st where l: "each_o (\<lambda>x s. uncontrolled (validate_record refs limits x s))
      (enumerate 0 (constraints p)) ({}, n) = Ok st"
    by (auto simp: validate_constraints_def case_prod_unfold)
  have "\<forall>x \<in> set (enumerate 0 (constraints p)). (\<lambda>r. (\<forall>e \<in> set (constraint_expressions (body r)).
      evaluates f e) \<and> safe_difference f (body r)) (snd x)"
  proof (rule each_o_forall [OF l])
    fix x s s' assume "uncontrolled (validate_record refs limits x s) = Ok s'"
    then obtain path where "uncontrolled (validate_constraint (body (snd x)) refs limits path) = Ok ()"
      unfolding validate_record_def case_prod_unfold by auto
    from context_constraint [OF assms(1) this] show "(\<lambda>r. (\<forall>e \<in> set (constraint_expressions (body r)).
      evaluates f e) \<and> safe_difference f (body r)) (snd x)" by blast
  qed
  then show ?thesis by (rule forall_enumerate [THEN iffD1])
qed

lemma context_objectives:
  assumes "arithmetic_context p limits refs f"
    and "uncontrolled (validate_objectives p refs limits n) = Ok m"
  shows "\<forall>l \<in> set (levels (objectives p)). bounded_level f l \<and>
    (\<forall>t \<in> set (level_terms l). evaluates f (objective_expression t))"
proof -
  from assms(2) obtain st where "each_o (\<lambda>x s. uncontrolled (validate_level refs limits x s))
      (enumerate 0 (levels (objectives p))) ({}, 0, n) = Ok st"
    by (auto simp: validate_objectives_def case_prod_unfold)
  then have "\<forall>x \<in> set (enumerate 0 (levels (objectives p))). (\<lambda>l. bounded_level f l \<and>
      (\<forall>t \<in> set (level_terms l). evaluates f (objective_expression t))) (snd x)"
    by (rule each_o_forall) (rule context_level [OF assms(1)])
  then show ?thesis by (rule forall_enumerate [THEN iffD1])
qed

lemma context_projections:
  assumes "arithmetic_context p limits refs f"
    and "uncontrolled (validate_projections p refs limits n) = Ok m"
  shows "\<forall>q \<in> set (projections p). \<forall>e \<in> set (projected_expressions (projection_expression q)). evaluates f e"
proof -
  from assms(2) obtain st where l: "each_o (\<lambda>x s. uncontrolled (validate_projection refs limits x s))
      (projections p) ({}, n) = Ok st"
    by (auto simp: validate_projections_def case_prod_unfold)
  show ?thesis
  proof (rule each_o_forall [OF l])
    fix x s s' assume "uncontrolled (validate_projection refs limits x s) = Ok s'"
    then have "uncontrolled (validate_projection_expression refs limits (projection_expression x)) = Ok ()"
      unfolding validate_projection_def case_prod_unfold by auto
    then show "\<forall>e \<in> set (projected_expressions (projection_expression x)). evaluates f e"
      using context_bounds(1) [OF assms(1)] by (cases "projection_expression x") auto
  qed
qed

text \<open>
  C6: For a validated problem no in-domain assignment makes arithmetic overflow: every linear
  expression of a constraint, an objective term or a projection evaluates in checked arithmetic to
  its exact value, every absolute difference is representable, and the value of every objective
  level lies between its declared bounds with nonnegative terms.
\<close>

theorem validated_arithmetic_safe:
  assumes "validate blake3 problem limits = Ok ()" "sane_limits limits" "in_domains problem f"
  shows "(\<forall>e \<in> set (problem_expressions problem). checked_linear f e = Some (expr_value e f)) \<and>
    (\<forall>r \<in> set (constraints problem). safe_difference f (body r)) \<and>
    (\<forall>l \<in> set (levels (objectives problem)). bounded_level f l)"
proof -
  from assms obtain refs n where ctx: "arithmetic_context problem limits refs f"
    and core: "uncontrolled (validate_core problem limits) = Ok (refs, n)" by (rule validate_context)
  from core obtain n1 n2 n3 n4 n5 where
    cons: "uncontrolled (validate_constraints problem refs limits n1) = Ok n2" and
    objs: "uncontrolled (validate_objectives problem refs limits n2) = Ok n3" and
    prjs: "uncontrolled (validate_projections problem refs limits n4) = Ok n5" by (rule validate_core_Ok)
  show ?thesis
    using context_constraints [OF ctx cons] context_objectives [OF ctx objs] context_projections [OF ctx prjs]
    unfolding problem_expressions_def evaluates_def by auto
qed

definition sample_values :: "int_variable_id \<Rightarrow> i64" where
  "sample_values v = (if v = ''int.d'' then 2 else if v = ''int.s'' then 4 else if v = ''int.e'' then 6
     else if v = ''int.x'' then 5 else 8)"

lemma sample_in_domains: "in_domains sample_problem sample_values"
  by (auto simp: in_domains_def domain_of_def sample_problem_def sample_variables_def sample_int_def
      sample_bool_def one_range_def sample_values_def domain_contains_def split: if_splits)

theorem validated_arithmetic_safe_witness:
  "validate (\<lambda>bytes. ''digest'') sample_problem default_limits = Ok () \<and> sane_limits default_limits \<and>
   in_domains sample_problem sample_values \<and>
   checked_linear sample_values (comparison_expression sample_comparison) = Some (-13) \<and>
   bounded_level sample_values sample_level"
proof -
  have v: "validate (\<lambda>bytes. ''digest'') sample_problem default_limits = Ok ()" by code_simp
  have s: "sane_limits default_limits" by code_simp
  have m: "comparison_expression sample_comparison \<in> set (problem_expressions sample_problem)"
    by (simp add: problem_expressions_def sample_problem_def sample_constraints_def sample_record_def)
  have l: "sample_level \<in> set (levels (objectives sample_problem))" by (simp add: sample_problem_def)
  have e: "expr_value (comparison_expression sample_comparison) sample_values = -13"
    by (simp add: sample_comparison_def expr_value_def sample_values_def)
  note V = validated_arithmetic_safe [OF v s sample_in_domains]
  show ?thesis
    using V m l v s sample_in_domains unfolding e [symmetric] by (intro conjI) simp_all
qed

end
