(* ===== verification/Validation_Provenance.thy ===== *)
theory Validation_Provenance
  imports Validation_Soundness
begin

section \<open>Provenance of a validated problem\<close>

text \<open>
  Validation walks the parent chain of every provenance record with a memo of finished depths, and
  then checks that every record is used. Here the memo is compared with the depth as an inductive
  relation, and the worklist with reachability.
\<close>

subsection \<open>Depth\<close>

text \<open>The number of records on the chain that starts at an optional identifier.\<close>

inductive ancestry :: "provenance_record list \<Rightarrow> provenance_id option \<Rightarrow> nat \<Rightarrow> bool" for records where
  ancestry_root: "ancestry records None 0"
| ancestry_step: "r \<in> set records \<Longrightarrow> ancestry records (parent r) n \<Longrightarrow>
    ancestry records (Some (provenance_record_id r)) (Suc n)"

inductive_cases ancestry_NoneE [elim!]: "ancestry records None n"
inductive_cases ancestry_SomeE: "ancestry records (Some v) n"

lemma ancestry_unique:
  assumes "distinct (map provenance_record_id records)"
  shows "ancestry records v n \<Longrightarrow> ancestry records v m \<Longrightarrow> n = m"
proof (induction arbitrary: m rule: ancestry.induct)
  case (ancestry_step r n)
  from ancestry_step.prems obtain s k where s: "s \<in> set records" "provenance_record_id s = provenance_record_id r"
    and k: "ancestry records (parent s) k" "m = Suc k" by (auto elim: ancestry_SomeE)
  with ancestry_step.hyps(1) assms have "s = r" by (simp add: distinct_map inj_on_def)
  with ancestry_step.IH k show ?case by simp
qed auto

fun leads :: "provenance_record list \<Rightarrow> provenance_id option \<Rightarrow> usize list \<Rightarrow> nat \<Rightarrow> bool" where
  "leads records v [] n \<longleftrightarrow> ancestry records v n"
| "leads records v (i # is) n \<longleftrightarrow> (\<exists>w. v = Some w \<and> binary_search records w = Some i \<and>
     leads records (parent (records ! i)) is n)"

definition memo_ok :: "u64 \<Rightarrow> provenance_record list \<Rightarrow> u64 option list \<Rightarrow> bool" where
  "memo_ok limit records completed \<longleftrightarrow> length completed = length records \<and>
     (\<forall>i < length records. \<forall>d. completed ! i = Some d \<longrightarrow>
        d \<le> limit \<and> ancestry records (Some (provenance_record_id (records ! i))) d)"

definition finished :: "u64 option list \<Rightarrow> nat set" where
  "finished completed = {i. i < length completed \<and> completed ! i \<noteq> None}"

lemma ancestry_search:
  assumes "binary_search records v = Some i" "ancestry records (parent (records ! i)) n"
  shows "ancestry records (Some v) (Suc n)"
  using binary_search_Some [OF assms(1)] ancestry_step [OF nth_mem assms(2)] by auto

lemma chain_up_leads:
  assumes "uncontrolled (chain_up fuel records completed limit trail v) = Ok (trail', n)"
    and "memo_ok limit records completed" "length trail \<le> limit"
  shows "\<exists>ext. trail' = trail @ ext \<and> leads records v ext n \<and> length trail' + n \<le> limit \<and>
    (\<forall>w. v = Some w \<longrightarrow> (\<exists>i. binary_search records w = Some i \<and> (i \<in> set ext \<or> i \<in> finished completed)))"
  using assms
proof (induction fuel records completed limit trail v rule: chain_up.induct)
  case (1 fuel records completed limit trail)
  then show ?case by (auto intro: ancestry_root)
next
  case (3 fuel records completed limit trail v)
  from "3.prems"(1) obtain i where i: "binary_search records v = Some i" "i < length completed"
      "i < length records" "Suc (length trail) \<le> limit"
    and r: "uncontrolled (case completed ! i of
         Some depth \<Rightarrow>
           bind_p (lift_v (checked_v (u64_checked_add (length trail) depth) ''provenance.depth''))
             (\<lambda>total_depth.
           then_p (lift_v (if total_depth > limit then reject LimitExceeded ''provenance.depth''
               else Ok ()))
             (ret (trail, depth)))
       | None \<Rightarrow>
           chain_up fuel records completed limit (trail @ [i]) (parent (records ! i))) = Ok (trail', n)"
    by (auto simp: checked_v_Ok u64_checked_add_def split: if_splits option.splits)
  show ?case
  proof (cases "completed ! i")
    case (Some d)
    with r have "trail' = trail" "n = d" "length trail + d \<le> limit"
      by (auto simp: checked_v_Ok u64_checked_add_def split: if_splits)
    moreover have "ancestry records (Some v) d"
      using "3.prems"(2) i Some binary_search_Some [OF i(1)] unfolding memo_ok_def by auto
    ultimately show ?thesis using i Some by (auto simp: finished_def)
  next
    case None
    with r have c: "uncontrolled (chain_up fuel records completed limit (trail @ [i]) (parent (records ! i)))
      = Ok (trail', n)" by simp
    have ok: "\<not> (length completed \<le> i \<or> length records \<le> i)" "length (trail @ [i]) \<le> limit" using i by simp_all
    from "3.IH" [OF ok(1) None c "3.prems"(2) ok(2)] obtain ext where "trail' = (trail @ [i]) @ ext"
      "leads records (parent (records ! i)) ext n" "length trail' + n \<le> limit" by blast
    then show ?thesis using i by (intro exI [of _ "i # ext"]) auto
  qed
qed simp_all

definition unwind_step ::
    "usize \<Rightarrow> u64 \<times> u64 option list \<Rightarrow> (budgeted_validation_error, u64 \<times> u64 option list) outcome" where
  "unwind_step i st = bind_o (map_err Invalid (checked_v (u64_checked_add (fst st) 1) ''provenance.depth''))
     (\<lambda>d. if i \<ge> length (snd st) then Abort else Ok (d, (snd st)[i := Some d]))"

lemma uncontrolled_unwind:
  "uncontrolled (unwind trail n completed) = bind_o (each_o unwind_step (rev trail) (n, completed)) (\<lambda>st. Ok (snd st))"
proof -
  have "(\<lambda>i st. uncontrolled (case st of (tail_depth, completed) \<Rightarrow> then_p visit_v
        (bind_p (lift_v (checked_v (u64_checked_add tail_depth 1) ''provenance.depth'')) (\<lambda>tail_depth.
         if i \<ge> length completed then lift_v Abort
         else ret (tail_depth, completed[i := Some tail_depth]))))) = unwind_step"
    by (intro ext) (simp add: unwind_step_def case_prod_unfold if_distrib [of uncontrolled] cong: if_cong)
  then show ?thesis by (simp add: unwind_def case_prod_unfold)
qed

lemma memo_ok_update:
  assumes "memo_ok limit records c" "binary_search records v = Some i" "ancestry records (Some v) d" "d \<le> limit"
  shows "memo_ok limit records (c[i := Some d])"
  using assms binary_search_Some [OF assms(2)] by (auto simp: memo_ok_def nth_list_update)

lemma unwind_leads:
  assumes "each_o unwind_step (rev ext) (n, c) = Ok (m, c')"
    and "leads records v ext n" "memo_ok limit records c" "length ext + n \<le> limit"
  shows "m = length ext + n" "ancestry records v m" "memo_ok limit records c'"
    "finished c \<union> set ext \<subseteq> finished c'"
proof -
  have "m = length ext + n \<and> ancestry records v m \<and> memo_ok limit records c' \<and> finished c \<union> set ext \<subseteq> finished c'"
    using assms
  proof (induction ext arbitrary: v m c')
    case (Cons i ext)
    from Cons.prems(2) obtain w where w: "v = Some w" "binary_search records w = Some i"
      "leads records (parent (records ! i)) ext n" by auto
    from Cons.prems(1) obtain m1 c1 where
      r: "each_o unwind_step (rev ext) (n, c) = Ok (m1, c1)" and "unwind_step i (m1, c1) = Ok (m, c')"
      by (auto simp: each_o_append)
    then have m: "m = Suc m1" "c' = c1[i := Some (Suc m1)]" "i < length c1"
      by (auto simp: unwind_step_def checked_v_Ok u64_checked_add_def split: if_splits)
    from Cons.IH [OF r w(3) Cons.prems(3)] Cons.prems(4)
    have ih: "m1 = length ext + n" "ancestry records (parent (records ! i)) m1" "memo_ok limit records c1"
      "finished c \<union> set ext \<subseteq> finished c1" by auto
    have a: "ancestry records v m" using ancestry_search [OF w(2) ih(2)] w(1) m(1) by simp
    moreover have "memo_ok limit records c'"
      unfolding m(2) using memo_ok_update [OF ih(3) w(2)] a Cons.prems(4) ih(1) m(1) w(1) by simp
    moreover have "finished c1 \<union> {i} \<subseteq> finished c'"
      using m(2,3) by (auto simp: finished_def nth_list_update)
    ultimately show ?case using ih m(1) by auto
  qed simp
  then show "m = length ext + n" "ancestry records v m" "memo_ok limit records c'"
    "finished c \<union> set ext \<subseteq> finished c'" by blast+
qed

lemma validate_provenance_chain_memo:
  assumes "uncontrolled (validate_provenance_chain v records limit c) = Ok c'" "memo_ok limit records c"
  shows "memo_ok limit records c'" "finished c \<subseteq> finished c'"
    "\<exists>i. binary_search records v = Some i \<and> i \<in> finished c'"
proof -
  from assms(1) obtain trail n where
    u: "uncontrolled (chain_up (length records + 1) records c limit [] (Some v)) = Ok (trail, n)"
    and w: "uncontrolled (unwind trail n c) = Ok c'"
    by (auto simp: validate_provenance_chain_def simp del: chain_up.simps)
  from chain_up_leads [OF u assms(2)] have l: "leads records (Some v) trail n" "length trail + n \<le> limit"
    and i: "\<exists>i. binary_search records v = Some i \<and> (i \<in> set trail \<or> i \<in> finished c)" by auto
  from w obtain m where e: "each_o unwind_step (rev trail) (n, c) = Ok (m, c')"
    by (auto simp: uncontrolled_unwind)
  note U = unwind_leads [OF e l(1) assms(2) l(2)]
  from U(3) show "memo_ok limit records c'" .
  from U(4) show "finished c \<subseteq> finished c'" by blast
  from U(4) i show "\<exists>i. binary_search records v = Some i \<and> i \<in> finished c'" by blast
qed

lemma binary_search_unique:
  assumes "distinct (map provenance_record_id records)" "r \<in> set records"
    and "binary_search records (provenance_record_id r) = Some i"
  shows "records ! i = r"
  using binary_search_Some [OF assms(3)] assms(1,2) by (metis distinct_map inj_on_eq_iff nth_mem)

lemma chains_memo:
  assumes "each_o (\<lambda>r c. bind_o (uncontrolled (validate_provenance_record limits r)) (\<lambda>_.
      uncontrolled (validate_provenance_chain (provenance_record_id r) records limit c))) rs c = Ok c'"
    and "memo_ok limit records c"
  shows "memo_ok limit records c' \<and> finished c \<subseteq> finished c' \<and>
    (\<forall>r \<in> set rs. \<exists>i. binary_search records (provenance_record_id r) = Some i \<and> i \<in> finished c')"
  using assms
proof (induction rs arbitrary: c)
  case (Cons r rs)
  then obtain c1 where
    "uncontrolled (validate_provenance_chain (provenance_record_id r) records limit c) = Ok c1"
    and l: "each_o (\<lambda>r c. bind_o (uncontrolled (validate_provenance_record limits r)) (\<lambda>_.
      uncontrolled (validate_provenance_chain (provenance_record_id r) records limit c))) rs c1 = Ok c'" by auto
  from validate_provenance_chain_memo [OF this(1) Cons.prems(2)] Cons.IH [OF l] show ?case by auto
qed simp

lemma provenance_depths:
  assumes "uncontrolled (validate_provenance p limits) = Ok ()" "distinct (map provenance_record_id (provenance p))"
    and "r \<in> set (provenance p)"
  shows "\<exists>d \<le> max_provenance_depth limits. ancestry (provenance p) (Some (provenance_record_id r)) d"
proof -
  from assms(1) obtain c where l: "each_o (\<lambda>r c. bind_o (uncontrolled (validate_provenance_record limits r)) (\<lambda>_.
      uncontrolled (validate_provenance_chain (provenance_record_id r) (provenance p)
        (max_provenance_depth limits) c))) (provenance p) (replicate (length (provenance p)) None) = Ok c"
    by (auto simp: validate_provenance_def Let_def)
  have "memo_ok (max_provenance_depth limits) (provenance p) (replicate (length (provenance p)) None)"
    by (simp add: memo_ok_def)
  from chains_memo [OF l this] assms(3) obtain i where c: "memo_ok (max_provenance_depth limits) (provenance p) c"
    and i: "binary_search (provenance p) (provenance_record_id r) = Some i" "i \<in> finished c" by blast
  then obtain d where "c ! i = Some d" "i < length (provenance p)" by (auto simp: finished_def memo_ok_def)
  with c binary_search_unique [OF assms(2,3) i(1)] show ?thesis by (auto simp: memo_ok_def)
qed

subsection \<open>Use\<close>

definition direct_ids :: "planning_problem \<Rightarrow> provenance_id set" where
  "direct_ids p = variable_provenance ` set (variables p) \<union> record_provenance ` set (constraints p) \<union>
     (\<Union>l \<in> set (levels (objectives p)). insert (level_provenance l) (objective_term_provenance ` set (level_terms l))) \<union>
     assumption_provenance ` set (assumptions p) \<union> projection_provenance ` set (projections p)"

text \<open>An identifier explains something: an object names it, or a record that explains something has it as parent.\<close>

inductive explains :: "planning_problem \<Rightarrow> provenance_id \<Rightarrow> bool" for p where
  explains_direct: "v \<in> direct_ids p \<Longrightarrow> explains p v"
| explains_parent: "r \<in> set (provenance p) \<Longrightarrow> explains p (provenance_record_id r) \<Longrightarrow> parent r = Some v \<Longrightarrow>
    explains p v"

lemma uncontrolled_collect_used:
  "uncontrolled (collect_used f xs used) = Ok (f ` set xs \<union> used)"
  unfolding collect_used_def by (induction xs arbitrary: used) simp_all

lemma uncontrolled_directly_used: "uncontrolled (directly_used p) = Ok (direct_ids p)"
proof -
  have l: "each_o (\<lambda>level used. uncontrolled (then_p visit_v (collect_used objective_term_provenance (level_terms level)
        (insert (level_provenance level) used)))) ls used
      = Ok ((\<Union>l \<in> set ls. insert (level_provenance l) (objective_term_provenance ` set (level_terms l))) \<union> used)"
    for ls used
    by (induction ls arbitrary: used) (simp_all add: uncontrolled_collect_used Un_ac)
  show ?thesis
    unfolding directly_used_def uncontrolled_simps(3) uncontrolled_each_p uncontrolled_collect_used
      bind_o_simps l by (simp add: direct_ids_def Un_ac)
qed

lemma cover_sound:
  assumes "uncontrolled (cover fuel (provenance p) pending used) = Ok used'"
    and "set pending \<subseteq> used" "\<forall>v \<in> used. explains p v" "finite used"
    and "used \<subseteq> set pending \<union> provenance_ids p"
  shows "(\<forall>v \<in> used'. explains p v) \<and> used' \<subseteq> provenance_ids p \<and> finite used'"
  using assms
proof (induction fuel "provenance p" pending used rule: cover.induct)
  case (3 fuel v pending used)
  from "3.prems"(1) obtain i where i: "binary_search (provenance p) v = Some i"
    and r: "uncontrolled (case parent (provenance p ! i) of
       None \<Rightarrow> cover fuel (provenance p) pending used
     | Some q \<Rightarrow>
         if q \<in> used then cover fuel (provenance p) pending used
         else cover fuel (provenance p) (q # pending) (insert q used)) = Ok used'"
    by (auto split: option.splits)
  note b = binary_search_Some [OF i]
  then have v: "v \<in> provenance_ids p" by (auto simp: provenance_ids_def)
  show ?case
  proof (cases "parent (provenance p ! i)")
    case None
    with r have c: "uncontrolled (cover fuel (provenance p) pending used) = Ok used'" by simp
    show ?thesis by (rule "3.hyps"(1) [OF None c]) (use "3.prems" v in auto)
  next
    case (Some q)
    show ?thesis
    proof (cases "q \<in> used")
      case True
      with r Some have c: "uncontrolled (cover fuel (provenance p) pending used) = Ok used'" by simp
      show ?thesis by (rule "3.hyps"(2) [OF Some True c]) (use "3.prems" v in auto)
    next
      case False
      with r Some have c: "uncontrolled (cover fuel (provenance p) (q # pending) (insert q used)) = Ok used'" by simp
      have "explains p (provenance_record_id (provenance p ! i))" using "3.prems"(2,3) b by simp
      with b Some have e: "explains p q" by (metis explains_parent nth_mem)
      show ?thesis by (rule "3.hyps"(3) [OF Some False c]) (use "3.prems" v e in auto)
    qed
  qed
qed auto

lemma provenance_covered:
  assumes "uncontrolled (validate_provenance p limits) = Ok ()" "distinct (map provenance_record_id (provenance p))"
    and "r \<in> set (provenance p)"
  shows "explains p (provenance_record_id r)"
proof -
  have fin: "finite (direct_ids p)" by (simp add: direct_ids_def)
  have push: "each_o (\<lambda>v pending. Ok (v # pending)) vs ps = Ok (rev vs @ ps)" for vs ps :: "string list"
    by (induction vs arbitrary: ps) simp_all
  from assms(1) obtain fuel used where
    c: "uncontrolled (cover fuel (provenance p) (rev (sorted_list_of_set (direct_ids p))) (direct_ids p)) = Ok used"
    and n: "card used = length (provenance p)"
    by (auto simp: validate_provenance_def Let_def validate_provenance_coverage_def uncontrolled_directly_used
        push simp del: cover.simps split: if_splits)
  have "(\<forall>v \<in> used. explains p v) \<and> used \<subseteq> provenance_ids p \<and> finite used"
    by (rule cover_sound [OF c]) (use fin in \<open>auto intro: explains_direct\<close>)
  moreover have "card (provenance_ids p) = length (provenance p)"
    using assms(2) by (metis distinct_card length_map list.set_map provenance_ids_def)
  ultimately have "used = provenance_ids p"
    using n by (metis List.finite_set card_subset_eq finite_imageI provenance_ids_def)
  with \<open>(\<forall>v \<in> used. explains p v) \<and> _\<close> assms(3) show ?thesis by (auto simp: provenance_ids_def)
qed

text \<open>
  C25: In a validated problem every provenance record heads a parent chain that ends, has exactly
  one depth, and that depth is within the limit. Every record explains something: a variable, a
  constraint, an objective, an assumption or a projection reaches it through parents.
\<close>

theorem validated_provenance:
  assumes "validate blake3 problem limits = Ok ()"
  shows "(\<forall>r \<in> set (provenance problem).
      \<exists>!d. ancestry (provenance problem) (Some (provenance_record_id r)) d) \<and>
    (\<forall>r \<in> set (provenance problem). \<forall>d.
      ancestry (provenance problem) (Some (provenance_record_id r)) d \<longrightarrow> d \<le> max_provenance_depth limits) \<and>
    (\<forall>r \<in> set (provenance problem). explains problem (provenance_record_id r))"
proof -
  from assms obtain refs n where c: "uncontrolled (validate_core problem limits) = Ok (refs, n)"
    by (rule validate_Ok_core)
  from validate_core_well_typed(1) [OF c] have d: "distinct (map provenance_record_id (provenance problem))"
    by (simp add: well_typed_def root_ok_def strictly_sorted_distinct)
  from c have p: "uncontrolled (validate_provenance problem limits) = Ok ()" by (rule validate_core_Ok)
  show ?thesis
    using provenance_depths [OF p d] provenance_covered [OF p d] ancestry_unique [OF d] by blast
qed

theorem validated_provenance_witness:
  "validate (\<lambda>bytes. ''digest'') sample_problem default_limits = Ok () \<and>
   explains sample_problem ''prov.rule'' \<and>
   (\<exists>!d. ancestry (provenance sample_problem) (Some ''prov.fact'') d)"
proof -
  have v: "validate (\<lambda>bytes. ''digest'') sample_problem default_limits = Ok ()" by code_simp
  have r: "sample_provenance ''prov.fact'' Fact (Some ''prov.rule'') \<in> set (provenance sample_problem)"
    "sample_provenance ''prov.rule'' RequiredRule None \<in> set (provenance sample_problem)"
    by (simp_all add: sample_problem_def)
  have i: "provenance_record_id (sample_provenance x k q) = x" for x k q by (simp add: sample_provenance_def)
  note V = validated_provenance [OF v]
  from V [THEN conjunct1, THEN bspec, OF r(1)] V [THEN conjunct2, THEN conjunct2, THEN bspec, OF r(2)] v
  show ?thesis unfolding i by (intro conjI)
qed

subsection \<open>Types\<close>

lemma ancestry_parent:
  assumes "ancestry records (Some (provenance_record_id r)) n" "r \<in> set records"
    and "distinct (map provenance_record_id records)" "parent r = Some v"
  shows "v \<in> provenance_record_id ` set records"
proof -
  from assms(1) obtain s k where "s \<in> set records" "provenance_record_id s = provenance_record_id r"
    and k: "ancestry records (parent s) k" by (auto elim: ancestry_SomeE)
  with assms(2,3) have "s = r" by (simp add: distinct_map inj_on_def)
  with k assms(4) show ?thesis by (auto elim: ancestry_SomeE)
qed

text \<open>
  C15: A problem that passes \<open>validate\<close> is well-typed. The identifiers of variables, constraints,
  assumptions, projections and provenance records and those of the terms of a level ascend strictly;
  level and assignment identifiers and assumption variables are distinct. Every variable, literal,
  interval and provenance reference in variables, constraints, objectives, assumptions and projections
  resolves to a declaration of its kind, and so does the parent of every provenance record. Domains
  are in normal form, tables are rectangular, and cumulative vectors have equal lengths.
\<close>

theorem validate_well_typed:
  assumes "validate blake3 problem limits = Ok ()"
  shows "well_typed problem \<and>
    (\<forall>r \<in> set (provenance problem). \<forall>v. parent r = Some v \<longrightarrow> v \<in> provenance_ids problem)"
proof -
  from assms obtain refs n where c: "uncontrolled (validate_core problem limits) = Ok (refs, n)"
    by (rule validate_Ok_core)
  note wt = validate_core_well_typed(1) [OF c]
  then have d: "distinct (map provenance_record_id (provenance problem))"
    by (simp add: well_typed_def root_ok_def strictly_sorted_distinct)
  from c have p: "uncontrolled (validate_provenance problem limits) = Ok ()" by (rule validate_core_Ok)
  show ?thesis
    using wt provenance_depths [OF p d] ancestry_parent [OF _ _ d] unfolding provenance_ids_def by blast
qed

theorem validate_well_typed_witness:
  "validate (\<lambda>bytes. ''digest'') sample_problem default_limits = Ok () \<and> well_typed sample_problem \<and>
   parent (sample_provenance ''prov.fact'' Fact (Some ''prov.rule'')) = Some ''prov.rule'' \<and>
   ''prov.rule'' \<in> provenance_ids sample_problem"
proof -
  have v: "validate (\<lambda>bytes. ''digest'') sample_problem default_limits = Ok ()" by code_simp
  have r: "sample_provenance ''prov.fact'' Fact (Some ''prov.rule'') \<in> set (provenance sample_problem)"
    by (simp add: sample_problem_def)
  have q: "parent (sample_provenance ''prov.fact'' Fact (Some ''prov.rule'')) = Some ''prov.rule''"
    by (simp add: sample_provenance_def)
  note V = validate_well_typed [OF v]
  from V [THEN conjunct2, THEN bspec, OF r] q have "''prov.rule'' \<in> provenance_ids sample_problem" by blast
  with V [THEN conjunct1] v q show ?thesis by (intro conjI)
qed

end
