(* ===== verification/Domain_Contracts.thy ===== *)
theory Domain_Contracts
  imports Planning_Model
begin

section \<open>Conflict evidence\<close>

text \<open>
  \<open>crates/eutheto-domain-ir\<close>: the contract errors of \<open>src/lib.rs\<close> and the conflict evidence of
  \<open>src/explanation.rs\<close>, with the checks that each record makes of itself.
\<close>

datatype domain_contract_error =
    DcUnsupportedVersion nat
  | DcMalformedJson string
  | DcCanonicalSerialization string
  | DcInvalidInterval
  | DcNonCanonicalAssignments
  | DcDuplicateAssignment string
  | DcNonCanonicalEvidence
  | DcNegativeFeasibility
  | DcDuplicateScoreLevel
  | DcScoreShapeMismatch
  | DcInvalidBlake3
  | DcChecksumMismatch
  | DcPortableJsonViolation string
  | DcInvalidSolveOptions
  | DcRunInputBackendMismatch
  | DcInvalidObjectiveContext string
  | DcInvalidNativeObservations string
  | DcRequestHashMismatch
  | DcInvalidRunVersion string
  | DcZeroVersion string
  | DcInvalidRunDiagnosticCode
  | DcInvalidRunOutcomeStatus
  | DcInvalidRunTiming
  | DcPortableResultBindingMismatch string
  | DcLimitExceeded string
  | DcInvalidMessageKey
  | DcInvalidVerificationText
  | DcInvalidMetricRatio
  | DcNonCanonicalRequiredRules
  | DcDuplicateRequiredRule rule_id
  | DcNonCanonicalRuleEvaluations
  | DcDuplicateRuleEvaluation rule_id
  | DcNonCanonicalAffectedEntities
  | DcDuplicateAffectedEntity
  | DcNonCanonicalVerificationEvidence
  | DcDuplicateVerificationEvidence
  | DcNonCanonicalVerificationWarnings
  | DcDuplicateVerificationWarning
  | DcInconsistentVerification
  | DcVerificationBindingMismatch
  | DcNotVerifiedFeasible
  | DcInvalidExplanationContract string
  | DcNonCanonicalExplanationCollection string

type_synonym 'a contract = "(domain_contract_error, 'a) outcome"

definition explanation_error :: "string \<Rightarrow> 'a contract" where
  "explanation_error invariant = Err (DcInvalidExplanationContract invariant)"

definition strictly_sorted_unique :: "'a::linorder list \<Rightarrow> bool" where
  "strictly_sorted_unique values = list_all (\<lambda>(a, b). a < b) (windows2 values)"

definition strictly_sorted_unique_by :: "('a \<Rightarrow> 'k::linorder) \<Rightarrow> 'a list \<Rightarrow> bool" where
  "strictly_sorted_unique_by key values = list_all (\<lambda>(a, b). key a < key b) (windows2 values)"

definition validate_bounded_strict :: "'a::linorder list \<Rightarrow> usize \<Rightarrow> string \<Rightarrow> unit contract" where
  "validate_bounded_strict values maximum label =
     (if length values > maximum then Err (DcLimitExceeded label)
      else if \<not> strictly_sorted_unique values then Err (DcNonCanonicalExplanationCollection label)
      else Ok ())"

definition max_verification_rules :: usize where
  "max_verification_rules = 100000"

definition max_explanation_records :: usize where
  "max_explanation_records = 100000"

subsection \<open>Groups\<close>

record conflict_group =
  group_id :: string
  group_rules :: "rule_id list"

instantiation conflict_group_ext :: (linorder) linorder
begin

definition less_eq_conflict_group_ext :: "'a conflict_group_ext \<Rightarrow> 'a conflict_group_ext \<Rightarrow> bool" where
  "less_eq_conflict_group_ext a b \<longleftrightarrow>
     group_id a < group_id b \<or> group_id a = group_id b \<and>
     (group_rules a < group_rules b \<or> group_rules a = group_rules b \<and>
        conflict_group.more a \<le> conflict_group.more b)"

definition less_conflict_group_ext :: "'a conflict_group_ext \<Rightarrow> 'a conflict_group_ext \<Rightarrow> bool" where
  "less_conflict_group_ext a b \<longleftrightarrow> a \<le> b \<and> \<not> b \<le> a"

instance
  by standard (auto simp: less_conflict_group_ext_def less_eq_conflict_group_ext_def)

end

definition conflict_group_validate :: "conflict_group \<Rightarrow> unit contract" where
  "conflict_group_validate g =
     (if group_rules g = [] then explanation_error ''empty conflict group''
      else validate_bounded_strict (group_rules g) max_verification_rules ''conflict required rules'')"

subsection \<open>Shrink summaries\<close>

datatype conflict_minimality = Sufficient | ProvenMinimal

datatype conflict_shrink_stop_reason =
  ShrinkCompleted | NotAttempted | TrialLimit | ShrinkBudgetExpired | ShrinkCancelled | ShrinkInconclusive

record conflict_shrink_summary =
  summary_initial :: nat
  summary_remaining :: nat
  summary_attempted :: nat
  summary_max :: nat
  summary_reason :: conflict_shrink_stop_reason

definition shrink_summary_validate :: "conflict_shrink_summary \<Rightarrow> unit contract" where
  "shrink_summary_validate s =
     (let counts_valid = summary_initial s > 0 \<and> summary_remaining s > 0 \<and>
            summary_remaining s \<le> summary_initial s;
          stop_valid = (case summary_reason s of
              ShrinkCompleted \<Rightarrow> summary_attempted s = summary_initial s \<and> summary_attempted s \<le> summary_max s
            | NotAttempted \<Rightarrow> summary_max s = 0 \<and> summary_attempted s = 0 \<and>
                summary_remaining s = summary_initial s
            | TrialLimit \<Rightarrow> summary_max s > 0 \<and> summary_attempted s = summary_max s \<and>
                summary_attempted s < summary_initial s
            | _ \<Rightarrow> summary_attempted s \<le> summary_max s)
      in if \<not> counts_valid \<or> \<not> stop_valid then explanation_error ''conflict shrink summary'' else Ok ())"

subsection \<open>Evidence\<close>

datatype conflict_unavailable_reason =
    AssumptionsUnavailable
  | FoundationalInfeasibility
  | ConflictNotReturned
  | InvalidAssumptionCore
  | NotRequested
  | NotRecorded
  | UnsupportedDomainPack
  | UnavailableBudgetExpired
  | UnavailableCancelled
  | ResourceLimitExceeded
  | DiagnosticFailed

datatype infeasibility_evidence =
    Conflict "conflict_group list" conflict_minimality conflict_shrink_summary
  | Unavailable conflict_unavailable_reason

fun infeasibility_evidence_validate :: "infeasibility_evidence \<Rightarrow> unit contract" where
  "infeasibility_evidence_validate (Conflict groups minimality shrink) =
     (if groups = [] then explanation_error ''empty infeasibility conflict''
      else
        bind_o (validate_bounded_strict groups max_explanation_records ''conflict groups'') (\<lambda>_.
        bind_o (each_o (\<lambda>g _. conflict_group_validate g) groups ()) (\<lambda>_.
        bind_o (shrink_summary_validate shrink) (\<lambda>_.
        if (minimality = ProvenMinimal) \<noteq> (summary_reason shrink = ShrinkCompleted)
        then explanation_error ''conflict minimality''
        else if summary_remaining shrink \<noteq> length groups
        then explanation_error ''conflict remaining group count''
        else Ok ()))))"
| "infeasibility_evidence_validate (Unavailable _) = Ok ()"

subsection \<open>What the checks accept\<close>

lemma strictly_sorted_unique_iff: "strictly_sorted_unique xs \<longleftrightarrow> strictly_sorted xs"
  by (simp add: strictly_sorted_unique_def strictly_sorted_windows [symmetric] list_all_iff case_prod_unfold)

lemma strictly_sorted_unique_by_iff: "strictly_sorted_unique_by key xs \<longleftrightarrow> strictly_sorted (map key xs)"
  by (simp add: strictly_sorted_unique_by_def strictly_sorted_by_windows [symmetric] list_all_iff case_prod_unfold)

lemma validate_bounded_strict_Ok [simp]:
  "validate_bounded_strict xs n l = Ok () \<longleftrightarrow> length xs \<le> n \<and> strictly_sorted xs"
  by (simp add: validate_bounded_strict_def strictly_sorted_unique_iff not_less)

lemma conflict_group_validate_Ok [simp]:
  "conflict_group_validate g = Ok () \<longleftrightarrow>
     group_rules g \<noteq> [] \<and> length (group_rules g) \<le> max_verification_rules \<and> strictly_sorted (group_rules g)"
  by (simp add: conflict_group_validate_def explanation_error_def)

lemma infeasibility_evidence_Ok:
  "infeasibility_evidence_validate (Conflict gs m s) = Ok () \<longleftrightarrow>
     gs \<noteq> [] \<and> length gs \<le> max_explanation_records \<and> strictly_sorted gs \<and>
     (\<forall>g \<in> set gs. conflict_group_validate g = Ok ()) \<and> shrink_summary_validate s = Ok () \<and>
     (m = ProvenMinimal \<longleftrightarrow> summary_reason s = ShrinkCompleted) \<and> summary_remaining s = length gs"
  by (auto simp: explanation_error_def each_o_check_iff)

end
