(* ===== verification/Solve_Budget.thy ===== *)
theory Solve_Budget
  imports Budget
begin

section \<open>Cancellation and the parent deadline\<close>

text \<open>
  \<open>crates/eutheto-types/src/budget.rs\<close>. A \<open>Duration\<close> is its number of nanoseconds. A
  cancellation token is a node with an immutable parent; the cancelled flags are shared and live in
  a store. The clock is an argument: the instant an operation observes.
\<close>

subsection \<open>Durations\<close>

type_synonym duration = nat

definition duration_max :: duration where
  "duration_max = u64_max * 1000000000 + 999999999"

definition duration_checked_add :: "duration \<Rightarrow> duration \<Rightarrow> duration option" where
  "duration_checked_add a b = (if a + b \<le> duration_max then Some (a + b) else None)"

definition duration_checked_sub :: "duration \<Rightarrow> duration \<Rightarrow> duration option" where
  "duration_checked_sub a b = (if b \<le> a then Some (a - b) else None)"

definition duration_millis_max_v1 :: u64 where
  "duration_millis_max_v1 = 9007199254740991"

datatype duration_millis_error = AboveMaximum | SubMillisecondPrecision

definition duration_millis_new :: "u64 \<Rightarrow> (duration_millis_error, u64) outcome" where
  "duration_millis_new v = (if v > duration_millis_max_v1 then Err AboveMaximum else Ok v)"

definition to_duration :: "u64 \<Rightarrow> duration" where
  "to_duration v = v * 1000000"

definition from_duration_floor_saturating :: "duration \<Rightarrow> u64" where
  "from_duration_floor_saturating d = min (d div 1000000) duration_millis_max_v1"

definition duration_millis_try_from :: "duration \<Rightarrow> (duration_millis_error, u64) outcome" where
  "duration_millis_try_from d =
     (let milliseconds = d div 1000000 in
      if milliseconds > duration_millis_max_v1 then Err AboveMaximum
      else if (d mod 1000000000) mod 1000000 \<noteq> 0 then Err SubMillisecondPrecision
      else duration_millis_new milliseconds)"

subsection \<open>Cancellation tokens\<close>

datatype cancellation_token = Token (node: nat) (token_parent: "cancellation_token option")

record cancellation_store =
  next_node :: nat
  cancelled_nodes :: "nat set"

definition empty_store :: cancellation_store where
  "empty_store = \<lparr>next_node = 0, cancelled_nodes = {}\<rparr>"

definition token_new :: "cancellation_store \<Rightarrow> cancellation_token \<times> cancellation_store" where
  "token_new st = (Token (next_node st) None, st\<lparr>next_node := Suc (next_node st)\<rparr>)"

definition token_child ::
    "cancellation_token \<Rightarrow> cancellation_store \<Rightarrow> cancellation_token \<times> cancellation_store" where
  "token_child t st = (Token (next_node st) (Some t), st\<lparr>next_node := Suc (next_node st)\<rparr>)"

definition token_cancel :: "cancellation_token \<Rightarrow> cancellation_store \<Rightarrow> cancellation_store" where
  "token_cancel t st = st\<lparr>cancelled_nodes := insert (node t) (cancelled_nodes st)\<rparr>"

fun is_cancelled :: "cancellation_store \<Rightarrow> cancellation_token \<Rightarrow> bool" where
  "is_cancelled st (Token n p) =
     (if n \<in> cancelled_nodes st then True
      else (case p of None \<Rightarrow> False | Some q \<Rightarrow> is_cancelled st q))"

subsection \<open>The fixed clock\<close>

datatype fixed_clock_error = WouldMoveBackwards | ClockOverflow

definition fixed_clock_set :: "duration \<Rightarrow> duration \<Rightarrow> (fixed_clock_error, duration) outcome" where
  "fixed_clock_set current now = (if now < current then Err WouldMoveBackwards else Ok now)"

definition fixed_clock_advance :: "duration \<Rightarrow> duration \<Rightarrow> (fixed_clock_error, duration) outcome" where
  "fixed_clock_advance current elapsed = ok_or ClockOverflow (duration_checked_add current elapsed)"

subsection \<open>The parent budget and its views\<close>

datatype parent_solve_budget_error = DeadlineOverflow

record solve_budget_state =
  started_at :: duration
  deadline :: duration
  cancellation :: cancellation_token

record solve_budget_view =
  view_state :: solve_budget_state
  view_deadline :: duration

definition remaining_duration_until :: "duration \<Rightarrow> duration \<Rightarrow> duration \<times> bool" where
  "remaining_duration_until limit now =
     (if now \<ge> limit then (0, True)
      else (case duration_checked_sub limit now of Some r \<Rightarrow> (r, False) | None \<Rightarrow> (0, True)))"

definition snapshot_until ::
    "solve_budget_state \<Rightarrow> duration \<Rightarrow> cancellation_store \<Rightarrow> duration \<Rightarrow> remaining_solve_budget" where
  "snapshot_until state limit st now =
     (case remaining_duration_until limit now of (remaining, over) \<Rightarrow>
        \<lparr>remaining_milliseconds = from_duration_floor_saturating remaining, expired = over,
         cancelled = is_cancelled st (cancellation state)\<rparr>)"

definition parent_budget_new ::
    "u64 \<Rightarrow> duration \<Rightarrow> cancellation_token \<Rightarrow> (parent_solve_budget_error, solve_budget_state) outcome" where
  "parent_budget_new time_limit now token =
     bind_o (ok_or DeadlineOverflow (duration_checked_add now (to_duration time_limit))) (\<lambda>limit.
       Ok \<lparr>started_at = now, deadline = limit, cancellation = token\<rparr>)"

definition parent_phase_view :: "solve_budget_state \<Rightarrow> solve_budget_view" where
  "parent_phase_view b = \<lparr>view_state = b, view_deadline = deadline b\<rparr>"

definition parent_snapshot ::
    "solve_budget_state \<Rightarrow> cancellation_store \<Rightarrow> duration \<Rightarrow> remaining_solve_budget" where
  "parent_snapshot b st now = snapshot_until b (deadline b) st now"

definition checked_elapsed :: "solve_budget_state \<Rightarrow> duration \<Rightarrow> duration option" where
  "checked_elapsed b now = duration_checked_sub now (started_at b)"

definition parent_remaining_duration :: "solve_budget_state \<Rightarrow> duration \<Rightarrow> duration" where
  "parent_remaining_duration b now = fst (remaining_duration_until (deadline b) now)"

definition parent_is_expired :: "solve_budget_state \<Rightarrow> duration \<Rightarrow> bool" where
  "parent_is_expired b now = snd (remaining_duration_until (deadline b) now)"

definition view_phase_view :: "solve_budget_view \<Rightarrow> solve_budget_view" where
  "view_phase_view v = v"

definition capped_phase_view :: "solve_budget_view \<Rightarrow> duration \<Rightarrow> duration \<Rightarrow> solve_budget_view" where
  "capped_phase_view v cap now =
     (let cap_deadline = (case duration_checked_add now cap of None \<Rightarrow> duration_max | Some d \<Rightarrow> d)
      in \<lparr>view_state = view_state v, view_deadline = min (view_deadline v) cap_deadline\<rparr>)"

definition view_snapshot ::
    "solve_budget_view \<Rightarrow> cancellation_store \<Rightarrow> duration \<Rightarrow> remaining_solve_budget" where
  "view_snapshot v st now = snapshot_until (view_state v) (view_deadline v) st now"

definition view_remaining_duration :: "solve_budget_view \<Rightarrow> duration \<Rightarrow> duration" where
  "view_remaining_duration v now = fst (remaining_duration_until (view_deadline v) now)"

definition view_is_expired :: "solve_budget_view \<Rightarrow> duration \<Rightarrow> bool" where
  "view_is_expired v now = snd (remaining_duration_until (view_deadline v) now)"

datatype operation_control = ControlCancellation cancellation_token | ControlSolve solve_budget_view

datatype operation_interruption = InterruptedCancelled | DeadlineExceeded

fun control_cancellation :: "operation_control \<Rightarrow> cancellation_token" where
  "control_cancellation (ControlCancellation t) = t"
| "control_cancellation (ControlSolve v) = cancellation (view_state v)"

fun operation_check ::
    "operation_control \<Rightarrow> cancellation_store \<Rightarrow> duration \<Rightarrow> (operation_interruption, unit) outcome" where
  "operation_check (ControlCancellation t) st now =
     (if is_cancelled st t then Err InterruptedCancelled else Ok ())"
| "operation_check (ControlSolve v) st now =
     (let remaining = view_snapshot v st now in
      if cancelled remaining then Err InterruptedCancelled
      else if expired remaining \<or> remaining_milliseconds remaining = 0 then Err DeadlineExceeded
      else Ok ())"

subsection \<open>Tokens observe exactly their ancestors\<close>

inductive ancestor_or_self :: "cancellation_token \<Rightarrow> cancellation_token \<Rightarrow> bool" for t where
  ancestor_self: "ancestor_or_self t t"
| ancestor_up: "ancestor_or_self t p \<Longrightarrow> ancestor_or_self t (Token n (Some p))"

inductive_simps ancestor_root [simp]: "ancestor_or_self t (Token n None)"
inductive_simps ancestor_child [simp]: "ancestor_or_self t (Token n (Some p))"

lemma is_cancelled_iff:
  "is_cancelled st u \<longleftrightarrow> (\<exists>t. ancestor_or_self t u \<and> node t \<in> cancelled_nodes st)"
proof (induction st u rule: is_cancelled.induct)
  case (1 st n p)
  then show ?case
  proof (cases p)
    case (Some q)
    with 1 show ?thesis by (cases "n \<in> cancelled_nodes st") auto
  qed auto
qed

text \<open>
  Tokens that operations have handed out. Node numbers are fresh, so a node number determines its
  token.
\<close>

inductive issued :: "cancellation_token list \<Rightarrow> cancellation_store \<Rightarrow> bool" where
  issued_empty: "issued [] empty_store"
| issued_new: "issued ts st \<Longrightarrow> token_new st = (t, st') \<Longrightarrow> issued (t # ts) st'"
| issued_child: "issued ts st \<Longrightarrow> p \<in> set ts \<Longrightarrow> token_child p st = (t, st') \<Longrightarrow> issued (t # ts) st'"
| issued_cancel: "issued ts st \<Longrightarrow> t \<in> set ts \<Longrightarrow> issued ts (token_cancel t st)"

lemma issued_fresh:
  assumes "issued ts st"
  shows "\<forall>t \<in> set ts. node t < next_node st" "\<forall>t \<in> set ts. \<forall>u. ancestor_or_self u t \<longrightarrow> u \<in> set ts"
    and "inj_on node (set ts)" "cancelled_nodes st \<subseteq> node ` set ts"
proof -
  have "(\<forall>t \<in> set ts. node t < next_node st) \<and> (\<forall>t \<in> set ts. \<forall>u. ancestor_or_self u t \<longrightarrow> u \<in> set ts) \<and>
    inj_on node (set ts) \<and> cancelled_nodes st \<subseteq> node ` set ts"
    using assms
  proof (induction rule: issued.induct)
    case (issued_new ts st t st')
    then show ?case by (auto simp: token_new_def less_Suc_eq inj_on_def)
  next
    case (issued_child ts st p t st')
    then show ?case by (auto simp: token_child_def less_Suc_eq inj_on_def)
  qed (auto simp: empty_store_def token_cancel_def)
  then show "\<forall>t \<in> set ts. node t < next_node st" "\<forall>t \<in> set ts. \<forall>u. ancestor_or_self u t \<longrightarrow> u \<in> set ts"
    "inj_on node (set ts)" "cancelled_nodes st \<subseteq> node ` set ts" by blast+
qed

text \<open>
  C35: Cancelling a token cancels exactly its descendants and itself. No other token changes, and
  what was cancelled before stays cancelled.
\<close>

theorem token_cancel_descendants:
  assumes "issued ts st" "t \<in> set ts" "u \<in> set ts"
  shows "is_cancelled (token_cancel t st) u \<longleftrightarrow> is_cancelled st u \<or> ancestor_or_self t u"
proof -
  have "a = t" if "ancestor_or_self a u" "node a = node t" for a
    using issued_fresh(2,3) [OF assms(1)] assms(2,3) that by (auto dest: inj_onD)
  then show ?thesis unfolding is_cancelled_iff by (auto simp: token_cancel_def)
qed

theorem token_cancel_descendants_witness:
  "\<exists>root child sibling st.
     issued [sibling, child, root] st \<and>
     is_cancelled (token_cancel child st) child \<and> \<not> is_cancelled (token_cancel child st) sibling"
proof -
  define root child sibling where "root = Token 0 None" and "child = Token 1 (Some root)"
    and "sibling = Token 2 (Some root)"
  define st where "st = \<lparr>next_node = 3, cancelled_nodes = {}\<rparr>"
  have "issued [root] \<lparr>next_node = 1, cancelled_nodes = {}\<rparr>"
    by (rule issued_new [OF issued_empty]) (simp add: token_new_def empty_store_def root_def)
  then have "issued [child, root] \<lparr>next_node = 2, cancelled_nodes = {}\<rparr>"
    by (rule issued_child [of _ _ root]) (simp_all add: token_child_def child_def)
  then have i: "issued [sibling, child, root] st"
    by (rule issued_child [of _ _ root]) (simp_all add: token_child_def sibling_def st_def)
  have "is_cancelled (token_cancel child st) child"
    using token_cancel_descendants [OF i, of child child] by (simp add: ancestor_self)
  moreover have "\<not> is_cancelled (token_cancel child st) sibling"
    using token_cancel_descendants [OF i, of child sibling]
    by (simp add: st_def root_def child_def sibling_def)
  ultimately show ?thesis using i by blast
qed

subsection \<open>Views stay within their parent\<close>

text \<open>Views made from a parent by any nesting, each cap anchored at the instant it was taken.\<close>

inductive derived_view :: "solve_budget_state \<Rightarrow> solve_budget_view \<Rightarrow> bool" for b where
  derived_phase: "derived_view b (parent_phase_view b)"
| derived_same: "derived_view b v \<Longrightarrow> derived_view b (view_phase_view v)"
| derived_capped: "derived_view b v \<Longrightarrow> derived_view b (capped_phase_view v cap now)"

lemma remaining_duration_until_eq:
  "remaining_duration_until limit now = (limit - now, limit \<le> now)"
  by (simp add: remaining_duration_until_def duration_checked_sub_def)

lemma derived_view_bounds:
  "derived_view b v \<Longrightarrow> view_state v = b \<and> view_deadline v \<le> deadline b"
  by (induction rule: derived_view.induct)
    (auto simp: parent_phase_view_def view_phase_view_def capped_phase_view_def Let_def)

definition later :: "cancellation_store \<Rightarrow> cancellation_store \<Rightarrow> bool" where
  "later st st' \<longleftrightarrow> cancelled_nodes st \<subseteq> cancelled_nodes st'"

lemma is_cancelled_later: "later st st' \<Longrightarrow> is_cancelled st t \<Longrightarrow> is_cancelled st' t"
  unfolding is_cancelled_iff later_def by blast

text \<open>
  C36: A view of a solve budget, however nested and capped, never outlives its parent: at every
  instant it has at most the remaining time of the parent, it is expired whenever the parent is, it
  sees the parent's cancellation, and a view that was once expired or cancelled stays so as the
  clock and the store move on. A cap leaves at most that much time from the instant it is taken.
\<close>

theorem derived_view_within_parent:
  assumes "derived_view b v" "now \<le> now'" "later st st'"
  shows "remaining_milliseconds (view_snapshot v st now) \<le> remaining_milliseconds (parent_snapshot b st now) \<and>
    (expired (parent_snapshot b st now) \<longrightarrow> expired (view_snapshot v st now)) \<and>
    cancelled (view_snapshot v st now) = cancelled (parent_snapshot b st now) \<and>
    (expired (view_snapshot v st now) \<longrightarrow> expired (view_snapshot v st' now')) \<and>
    (cancelled (view_snapshot v st now) \<longrightarrow> cancelled (view_snapshot v st' now')) \<and>
    view_remaining_duration (capped_phase_view v cap now) now' \<le> cap"
proof -
  note d = derived_view_bounds [OF assms(1)]
  have "(view_deadline v - now) div 1000000 \<le> (deadline b - now) div 1000000"
    using d by (intro div_le_mono diff_le_mono) simp
  then have "remaining_milliseconds (view_snapshot v st now) \<le> remaining_milliseconds (parent_snapshot b st now)"
    by (simp add: view_snapshot_def parent_snapshot_def snapshot_until_def remaining_duration_until_eq
        from_duration_floor_saturating_def min_le_iff_disj)
  moreover have "view_remaining_duration (capped_phase_view v cap now) now' \<le> cap"
    using assms(2) by (auto simp: view_remaining_duration_def remaining_duration_until_eq capped_phase_view_def
        duration_checked_add_def Let_def min_def split: option.splits)
  ultimately show ?thesis
    using d assms(2) is_cancelled_later [OF assms(3)]
    by (simp add: view_snapshot_def parent_snapshot_def snapshot_until_def remaining_duration_until_eq)
qed

theorem derived_view_within_parent_witness:
  "derived_view \<lparr>started_at = 0, deadline = 5000000000, cancellation = Token 0 None\<rparr>
     (capped_phase_view (parent_phase_view
        \<lparr>started_at = 0, deadline = 5000000000, cancellation = Token 0 None\<rparr>) 2000000000 1000000000) \<and>
   view_remaining_duration (capped_phase_view (capped_phase_view (parent_phase_view
        \<lparr>started_at = 0, deadline = 5000000000, cancellation = Token 0 None\<rparr>) 2000000000 1000000000)
        700000000 1500000000) 1500000001 \<le> 700000000"
proof -
  have d: "derived_view \<lparr>started_at = 0, deadline = 5000000000, cancellation = Token 0 None\<rparr>
     (capped_phase_view (parent_phase_view
        \<lparr>started_at = 0, deadline = 5000000000, cancellation = Token 0 None\<rparr>) 2000000000 1000000000)"
    by (intro derived_capped derived_phase)
  have l: "later empty_store empty_store" by (simp add: later_def)
  have n: "1500000000 \<le> (1500000001 :: nat)" by simp
  from derived_view_within_parent [OF d n l, of 700000000] d show ?thesis by blast
qed

subsection \<open>Milliseconds\<close>

text \<open>
  C38: Strict conversion from durations accepts exactly the whole milliseconds within the bound, and
  inverts the conversion to durations; the saturating one agrees with it where it succeeds.
\<close>

theorem duration_millis_roundtrip:
  "duration_millis_try_from d = Ok m \<longleftrightarrow> m \<le> duration_millis_max_v1 \<and> d = to_duration m"
proof -
  have "(d mod 1000000000) mod 1000000 = d mod 1000000" by (simp add: mod_mod_cancel)
  then show ?thesis
    by (auto simp: duration_millis_try_from_def duration_millis_new_def to_duration_def Let_def split: if_splits)
qed

lemma operation_check_cancelled:
  "operation_check c st now = Err InterruptedCancelled \<longleftrightarrow> is_cancelled st (control_cancellation c)"
  by (cases c) (simp_all add: Let_def view_snapshot_def snapshot_until_def split: prod.split)

lemma operation_check_deadline:
  "operation_check (ControlSolve v) st now = Ok () \<longleftrightarrow>
     \<not> is_cancelled st (cancellation (view_state v)) \<and> now + 1000000 \<le> view_deadline v"
  by (auto simp: Let_def view_snapshot_def snapshot_until_def remaining_duration_until_def
      duration_checked_sub_def from_duration_floor_saturating_def duration_millis_max_v1_def
      div_eq_0_iff min_def)

end
