(* ===== verification/Conflict_Shrink.thy ===== *)
theory Conflict_Shrink
  imports Domain_Contracts Solve_Budget "HOL-Library.Sublist"
begin

section \<open>Conflict shrinking\<close>

text \<open>
  \<open>crates/eutheto-explain/src/shrink.rs\<close>: a state machine that removes one group of a sufficient
  conflict at a time and asks its caller whether the rest is still infeasible. The snapshot of the
  budget that \<open>next_trial\<close> and \<open>complete_trial\<close> take is an argument.
\<close>

subsection \<open>The machine\<close>

datatype conflict_trial_outcome = ProvenInfeasible | ProvenFeasible | Inconclusive

datatype conflict_shrink_transition = PendingTrial | DoubleCompletion | MissingTrial | PrematureResult

datatype conflict_shrink_error =
    InvalidGroups
  | InvalidGroup domain_contract_error
  | CountOverflow
  | InvalidTransition conflict_shrink_transition

record conflict_shrinker =
  retained :: "conflict_group list"
  pending_trial :: "(usize \<times> conflict_group) option"
  initial_group_count :: nat
  attempted_trials :: nat
  max_trials :: nat
  trial_index :: usize
  stop_reason :: "conflict_shrink_stop_reason option"
  foundational :: bool

definition u32_max :: nat where
  "u32_max = 4294967295"

definition validate_groups :: "conflict_group list \<Rightarrow> (conflict_shrink_error, unit) outcome" where
  "validate_groups groups =
     (if groups = [] \<or> length groups > max_explanation_records \<or>
         \<not> list_all (\<lambda>(a, b). a < b) (windows2 groups)
      then Err InvalidGroups
      else each_o (\<lambda>g _. map_err InvalidGroup (conflict_group_validate g)) groups ())"

definition shrinker_new ::
    "conflict_group list \<Rightarrow> nat \<Rightarrow> (conflict_shrink_error, conflict_shrinker) outcome" where
  "shrinker_new groups trials =
     bind_o (validate_groups groups) (\<lambda>_.
       if length groups > u32_max then Err CountOverflow
       else Ok \<lparr>retained = groups, pending_trial = None, initial_group_count = length groups,
         attempted_trials = 0, max_trials = trials, trial_index = 0,
         stop_reason = (if trials = 0 then Some NotAttempted else None), foundational = False\<rparr>)"

text \<open>\<open>Vec::remove\<close> and \<open>Vec::insert\<close>, which panic beyond the length.\<close>

definition vec_remove :: "nat \<Rightarrow> 'a list \<Rightarrow> ('a \<times> 'a list) option" where
  "vec_remove i xs = (if i < length xs then Some (xs ! i, take i xs @ drop (Suc i) xs) else None)"

definition vec_insert :: "nat \<Rightarrow> 'a \<Rightarrow> 'a list \<Rightarrow> 'a list option" where
  "vec_insert i x xs = (if i \<le> length xs then Some (take i xs @ x # drop i xs) else None)"

type_synonym 'a shrink_call = "(conflict_shrink_error, 'a) outcome \<times> conflict_shrinker"

definition next_trial ::
    "conflict_shrinker \<Rightarrow> remaining_solve_budget \<Rightarrow> conflict_group list option shrink_call" where
  "next_trial s snap =
     (if pending_trial s \<noteq> None then (Err (InvalidTransition PendingTrial), s)
      else if stop_reason s \<noteq> None \<or> foundational s then (Ok None, s)
      else if max_trials s = 0 then (Ok None, s\<lparr>stop_reason := Some NotAttempted\<rparr>)
      else if attempted_trials s \<ge> initial_group_count s
      then (Ok None, s\<lparr>stop_reason := Some ShrinkCompleted\<rparr>)
      else if attempted_trials s \<ge> max_trials s then (Ok None, s\<lparr>stop_reason := Some TrialLimit\<rparr>)
      else if cancelled snap then (Ok None, s\<lparr>stop_reason := Some ShrinkCancelled\<rparr>)
      else if expired snap then (Ok None, s\<lparr>stop_reason := Some ShrinkBudgetExpired\<rparr>)
      else (case vec_remove (trial_index s) (retained s) of
          None \<Rightarrow> (Abort, s)
        | Some (removed, rest) \<Rightarrow>
            if attempted_trials s + 1 > u32_max then (Abort, s\<lparr>retained := rest\<rparr>)
            else (Ok (Some rest), s\<lparr>retained := rest, attempted_trials := attempted_trials s + 1,
              pending_trial := Some (trial_index s, removed)\<rparr>)))"

definition finish_after_trial :: "conflict_shrinker \<Rightarrow> conflict_shrinker" where
  "finish_after_trial s =
     (if attempted_trials s \<ge> initial_group_count s then s\<lparr>stop_reason := Some ShrinkCompleted\<rparr>
      else if attempted_trials s \<ge> max_trials s then s\<lparr>stop_reason := Some TrialLimit\<rparr>
      else s)"

definition restore :: "usize \<times> conflict_group \<Rightarrow> (conflict_shrinker \<Rightarrow> conflict_shrinker)
    \<Rightarrow> conflict_shrinker \<Rightarrow> unit shrink_call" where
  "restore p k s =
     (case vec_insert (fst p) (snd p) (retained s) of
        None \<Rightarrow> (Abort, s)
      | Some groups \<Rightarrow> (Ok (), k (s\<lparr>retained := groups\<rparr>)))"

definition complete_trial ::
    "conflict_shrinker \<Rightarrow> remaining_solve_budget \<Rightarrow> conflict_trial_outcome \<Rightarrow> unit shrink_call" where
  "complete_trial s snap result =
     (case pending_trial s of
        None \<Rightarrow> (Err (InvalidTransition
          (if attempted_trials s = 0 then MissingTrial else DoubleCompletion)), s)
      | Some p \<Rightarrow>
          let s = s\<lparr>pending_trial := None\<rparr> in
          if cancelled snap then restore p (\<lambda>s. s\<lparr>stop_reason := Some ShrinkCancelled\<rparr>) s
          else if expired snap then restore p (\<lambda>s. s\<lparr>stop_reason := Some ShrinkBudgetExpired\<rparr>) s
          else (case result of
              ProvenInfeasible \<Rightarrow>
                (Ok (), if retained s = [] then s\<lparr>foundational := True\<rparr> else finish_after_trial s)
            | ProvenFeasible \<Rightarrow>
                restore p (\<lambda>s. finish_after_trial (s\<lparr>trial_index := trial_index s + 1\<rparr>)) s
            | Inconclusive \<Rightarrow> restore p (\<lambda>s. s\<lparr>stop_reason := Some ShrinkInconclusive\<rparr>) s))"

definition conflict_result ::
    "conflict_group list \<Rightarrow> nat \<Rightarrow> nat \<Rightarrow> nat \<Rightarrow> conflict_shrink_stop_reason
       \<Rightarrow> (conflict_shrink_error, infeasibility_evidence) outcome" where
  "conflict_result groups initial attempted trials reason =
     (if length groups > u32_max then Err CountOverflow
      else
        let shrink = \<lparr>summary_initial = initial, summary_remaining = length groups,
          summary_attempted = attempted, summary_max = trials, summary_reason = reason\<rparr>
        in bind_o (map_err InvalidGroup (shrink_summary_validate shrink)) (\<lambda>_.
          Ok (Conflict groups (if reason = ShrinkCompleted then ProvenMinimal else Sufficient) shrink)))"

definition into_result :: "conflict_shrinker \<Rightarrow> (conflict_shrink_error, infeasibility_evidence) outcome" where
  "into_result s =
     (if pending_trial s \<noteq> None then Err (InvalidTransition PrematureResult)
      else if foundational s then Ok (Unavailable FoundationalInfeasibility)
      else (case stop_reason s of
          None \<Rightarrow> Err (InvalidTransition PrematureResult)
        | Some reason \<Rightarrow> conflict_result (retained s) (initial_group_count s) (attempted_trials s)
            (max_trials s) reason))"

subsection \<open>Calls\<close>

text \<open>
  A caller makes any sequence of calls, in any order; what it reports about a pending trial is
  true.
\<close>

definition truthful :: "(conflict_group set \<Rightarrow> bool) \<Rightarrow> conflict_shrinker \<Rightarrow> conflict_trial_outcome \<Rightarrow> bool" where
  "truthful infeasible s result \<longleftrightarrow>
     (result = ProvenInfeasible \<longrightarrow> infeasible (set (retained s))) \<and>
     (result = ProvenFeasible \<longrightarrow> \<not> infeasible (set (retained s)))"

inductive shrink_reach ::
    "(conflict_group set \<Rightarrow> bool) \<Rightarrow> conflict_group list \<Rightarrow> nat \<Rightarrow> conflict_shrinker \<Rightarrow> bool"
  for infeasible groups trials where
  reach_new: "shrinker_new groups trials = Ok s \<Longrightarrow> shrink_reach infeasible groups trials s"
| reach_next: "shrink_reach infeasible groups trials s \<Longrightarrow> next_trial s snap = (r, s') \<Longrightarrow>
    shrink_reach infeasible groups trials s'"
| reach_complete: "shrink_reach infeasible groups trials s \<Longrightarrow> truthful infeasible s result \<Longrightarrow>
    complete_trial s snap result = (r, s') \<Longrightarrow> shrink_reach infeasible groups trials s'"

subsection \<open>Invariant\<close>

text \<open>The admitted conflict: during a trial, the candidate with the removed group back in place.\<close>

definition admitted :: "conflict_shrinker \<Rightarrow> conflict_group list" where
  "admitted s = (case pending_trial s of None \<Rightarrow> retained s
     | Some (i, g) \<Rightarrow> take i (retained s) @ g # drop i (retained s))"

definition necessary :: "(conflict_group set \<Rightarrow> bool) \<Rightarrow> conflict_group list \<Rightarrow> nat \<Rightarrow> bool" where
  "necessary infeasible gs n \<longleftrightarrow> (\<forall>j < n. \<not> infeasible (set gs - {gs ! j}))"

definition upward_closed :: "(conflict_group set \<Rightarrow> bool) \<Rightarrow> bool" where
  "upward_closed infeasible \<longleftrightarrow> (\<forall>A B. A \<subseteq> B \<longrightarrow> infeasible A \<longrightarrow> infeasible B)"

definition counts_ok :: "conflict_shrinker \<Rightarrow> bool" where
  "counts_ok s \<longleftrightarrow>
     attempted_trials s \<le> initial_group_count s \<and> attempted_trials s \<le> max_trials s \<and>
     (case pending_trial s of
        None \<Rightarrow> True
      | Some (i, g) \<Rightarrow> i = trial_index s \<and> trial_index s \<le> length (retained s) \<and> attempted_trials s > 0 \<and>
          stop_reason s = None \<and> \<not> foundational s) \<and>
     (\<not> foundational s \<longrightarrow> length (admitted s) \<ge> trial_index s \<and>
        (stop_reason s \<in> {None, Some ShrinkCompleted, Some TrialLimit, Some NotAttempted} \<longrightarrow>
         length (admitted s) - trial_index s =
           initial_group_count s - attempted_trials s + (if pending_trial s = None then 0 else 1))) \<and>
     (foundational s \<longrightarrow> retained s = [] \<and> stop_reason s = None) \<and>
     (case stop_reason s of
        Some ShrinkCompleted \<Rightarrow> attempted_trials s = initial_group_count s
      | Some NotAttempted \<Rightarrow> max_trials s = 0
      | Some TrialLimit \<Rightarrow> attempted_trials s = max_trials s \<and> attempted_trials s < initial_group_count s \<and>
          0 < max_trials s
      | None \<Rightarrow> 0 < max_trials s
      | _ \<Rightarrow> True)"

definition shrink_inv ::
    "(conflict_group set \<Rightarrow> bool) \<Rightarrow> conflict_group list \<Rightarrow> nat \<Rightarrow> conflict_shrinker \<Rightarrow> bool" where
  "shrink_inv infeasible groups trials s \<longleftrightarrow>
     counts_ok s \<and> initial_group_count s = length groups \<and> max_trials s = trials \<and>
     (if foundational s then infeasible {} \<and> pending_trial s = None
      else subseq (admitted s) groups \<and> admitted s \<noteq> [] \<and> infeasible (set (admitted s)) \<and>
        necessary infeasible (admitted s) (trial_index s))"

lemma validate_groups_Ok:
  "validate_groups gs = Ok () \<longleftrightarrow> gs \<noteq> [] \<and> length gs \<le> max_explanation_records \<and> strictly_sorted gs \<and>
     (\<forall>g \<in> set gs. conflict_group_validate g = Ok ())"
  by (auto simp: validate_groups_def each_o_check_iff strictly_sorted_unique_iff [unfolded strictly_sorted_unique_def])

lemma shrinker_new_Ok:
  assumes "shrinker_new groups trials = Ok s"
  shows "validate_groups groups = Ok ()"
    and "s = \<lparr>retained = groups, pending_trial = None, initial_group_count = length groups,
         attempted_trials = 0, max_trials = trials, trial_index = 0,
         stop_reason = (if trials = 0 then Some NotAttempted else None), foundational = False\<rparr>"
  using assms by (auto simp: shrinker_new_def split: if_splits)

lemma shrink_inv_new:
  assumes "shrinker_new groups trials = Ok s" "infeasible (set groups)"
  shows "shrink_inv infeasible groups trials s"
  using assms(2) shrinker_new_Ok(1) [OF assms(1), unfolded validate_groups_Ok]
  unfolding shrinker_new_Ok(2) [OF assms(1)]
  by (simp add: shrink_inv_def counts_ok_def admitted_def necessary_def)

text \<open>The stops that \<open>next_trial\<close> makes, with what each of them says about the counters.\<close>

definition stops_with ::
    "conflict_shrinker \<Rightarrow> remaining_solve_budget \<Rightarrow> conflict_shrink_stop_reason \<Rightarrow> bool" where
  "stops_with s snap x \<longleftrightarrow> (case x of
      NotAttempted \<Rightarrow> max_trials s = 0
    | ShrinkCompleted \<Rightarrow> attempted_trials s \<ge> initial_group_count s
    | TrialLimit \<Rightarrow> attempted_trials s \<ge> max_trials s \<and> attempted_trials s < initial_group_count s \<and> max_trials s > 0
    | ShrinkCancelled \<Rightarrow> cancelled snap
    | ShrinkBudgetExpired \<Rightarrow> expired snap
    | ShrinkInconclusive \<Rightarrow> False)"

lemma next_trial_cases:
  assumes "next_trial s snap = (r, s')"
  obtains (same) "s' = s" "r \<noteq> Abort" "pending_trial s \<noteq> None \<or> stop_reason s \<noteq> None \<or> foundational s"
  | (stop) x where "pending_trial s = None" "stop_reason s = None" "\<not> foundational s" "stops_with s snap x"
      "s' = s\<lparr>stop_reason := Some x\<rparr>" "r = Ok None"
  | (trial) "pending_trial s = None" "stop_reason s = None" "\<not> foundational s"
      "attempted_trials s < initial_group_count s" "attempted_trials s < max_trials s"
      "\<not> cancelled snap" "\<not> expired snap"
proof -
  consider "pending_trial s \<noteq> None \<or> stop_reason s \<noteq> None \<or> foundational s"
    | "pending_trial s = None" "stop_reason s = None" "\<not> foundational s" by blast
  then show ?thesis
  proof cases
    case 1
    with assms have "s' = s" "r \<noteq> Abort" by (auto simp: next_trial_def split: if_splits)
    then show ?thesis using 1 by (rule same)
  next
    case running: 2
    consider "max_trials s = 0" | "max_trials s > 0" "attempted_trials s \<ge> initial_group_count s"
      | "max_trials s > 0" "attempted_trials s < initial_group_count s" "attempted_trials s \<ge> max_trials s"
      | "attempted_trials s < initial_group_count s" "attempted_trials s < max_trials s" by linarith
    then show ?thesis
    proof cases
      case 1
      with assms running show ?thesis by (intro stop [of NotAttempted]) (simp_all add: next_trial_def stops_with_def)
    next
      case 2
      with assms running show ?thesis by (intro stop [of ShrinkCompleted]) (simp_all add: next_trial_def stops_with_def)
    next
      case 3
      with assms running show ?thesis by (intro stop [of TrialLimit]) (simp_all add: next_trial_def stops_with_def)
    next
      case 4
      consider "cancelled snap" | "\<not> cancelled snap" "expired snap" | "\<not> cancelled snap" "\<not> expired snap" by blast
      then show ?thesis
      proof cases
        case 1
        with 4 assms running show ?thesis
          by (intro stop [of ShrinkCancelled]) (simp_all add: next_trial_def stops_with_def)
      next
        case 2
        with 4 assms running show ?thesis
          by (intro stop [of ShrinkBudgetExpired]) (simp_all add: next_trial_def stops_with_def)
      next
        case 3
        with 4 running show ?thesis by (intro trial)
      qed
    qed
  qed
qed

lemma shrink_inv_stop:
  assumes "shrink_inv infeasible groups trials s" "pending_trial s = None" "stop_reason s = None"
    and "\<not> foundational s" "stops_with s snap x"
  shows "shrink_inv infeasible groups trials (s\<lparr>stop_reason := Some x\<rparr>)"
  using assms by (cases x) (simp_all add: shrink_inv_def counts_ok_def admitted_def stops_with_def)

lemma next_trial_step:
  assumes "shrink_inv infeasible groups trials s" "length groups \<le> max_explanation_records"
    and "pending_trial s = None" "stop_reason s = None" "\<not> foundational s"
    and "attempted_trials s < initial_group_count s" "attempted_trials s < max_trials s"
    and "\<not> cancelled snap" "\<not> expired snap"
  obtains g rest where
    "next_trial s snap = (Ok (Some rest), s\<lparr>retained := rest, attempted_trials := attempted_trials s + 1,
        pending_trial := Some (trial_index s, g)\<rparr>)"
    "retained s = take (trial_index s) rest @ g # drop (trial_index s) rest" "trial_index s \<le> length rest"
proof -
  note inv = assms(1) [unfolded shrink_inv_def counts_ok_def]
  from assms(3-5) inv have "length (retained s) - trial_index s = initial_group_count s - attempted_trials s"
    by (simp add: admitted_def)
  with assms(6) have i: "trial_index s < length (retained s)" by linarith
  let ?rest = "take (trial_index s) (retained s) @ drop (Suc (trial_index s)) (retained s)"
  have "attempted_trials s + 1 \<le> u32_max"
    using assms(2,6) inv by (simp add: u32_max_def max_explanation_records_def)
  then have "next_trial s snap = (Ok (Some ?rest), s\<lparr>retained := ?rest,
      attempted_trials := attempted_trials s + 1,
      pending_trial := Some (trial_index s, retained s ! trial_index s)\<rparr>)"
    using assms i by (simp add: next_trial_def vec_remove_def)
  moreover have "retained s = take (trial_index s) ?rest @ retained s ! trial_index s # drop (trial_index s) ?rest"
    using i by (simp add: id_take_nth_drop [symmetric])
  moreover have "trial_index s \<le> length ?rest" using i by simp
  ultimately show ?thesis by (rule that)
qed

lemma next_trial_inv:
  assumes "shrink_inv infeasible groups trials s" "next_trial s snap = (r, s')"
    and "length groups \<le> max_explanation_records"
  shows "shrink_inv infeasible groups trials s'" "r \<noteq> Abort"
proof -
  have "shrink_inv infeasible groups trials s' \<and> r \<noteq> Abort"
    using assms(2)
  proof (cases rule: next_trial_cases)
    case trial
    from next_trial_step [OF assms(1,3) trial] obtain g rest where
      n: "next_trial s snap = (Ok (Some rest), s\<lparr>retained := rest, attempted_trials := attempted_trials s + 1,
          pending_trial := Some (trial_index s, g)\<rparr>)"
      and g: "retained s = take (trial_index s) rest @ g # drop (trial_index s) rest" "trial_index s \<le> length rest"
      by metis
    from n assms(2) have s': "s' = s\<lparr>retained := rest, attempted_trials := attempted_trials s + 1,
        pending_trial := Some (trial_index s, g)\<rparr>" and r: "r = Ok (Some rest)" by simp_all
    have a: "admitted s' = admitted s" using g(1) trial(1) by (simp add: s' admitted_def)
    note inv = assms(1) [unfolded shrink_inv_def counts_ok_def]
    have "counts_ok s'" unfolding counts_ok_def a using inv trial g(2) by (simp add: s')
    with a inv trial r show ?thesis by (simp add: shrink_inv_def s')
  qed (use assms(1) shrink_inv_stop [OF assms(1)] in simp_all)
  then show "shrink_inv infeasible groups trials s'" "r \<noteq> Abort" by blast+
qed

lemma subseq_sorted_wrt: "subseq xs ys \<Longrightarrow> sorted_wrt P ys \<Longrightarrow> sorted_wrt P xs"
proof (induction rule: list_emb.induct)
  case (list_emb_Cons2 x y xs ys)
  then show ?case by (auto dest: subseq_order.order_trans list_emb_set)
qed simp_all

lemma pending_admitted:
  assumes "shrink_inv infeasible groups trials s" "pending_trial s = Some (i, g)" "strictly_sorted groups"
  shows "i = trial_index s" "i \<le> length (retained s)" "admitted s = take i (retained s) @ g # drop i (retained s)"
    "set (retained s) = set (admitted s) - {g}" "admitted s ! i = g" "stop_reason s = None" "\<not> foundational s"
    "length (admitted s) = Suc (length (retained s))"
proof -
  note inv = assms(1) [unfolded shrink_inv_def counts_ok_def]
  show i: "i = trial_index s" "i \<le> length (retained s)" "stop_reason s = None" and f: "\<not> foundational s"
    using inv assms(2) by simp_all
  show a: "admitted s = take i (retained s) @ g # drop i (retained s)" using assms(2) by (simp add: admitted_def)
  have "subseq (admitted s) groups" using inv f by simp
  then have "distinct (take i (retained s) @ g # drop i (retained s))"
    unfolding a using assms(3) subseq_sorted_wrt strictly_sorted_distinct by blast
  then have "g \<notin> set (take i (retained s))" "g \<notin> set (drop i (retained s))" by auto
  moreover have "set (retained s) = set (take i (retained s)) \<union> set (drop i (retained s))"
    by (metis append_take_drop_id set_append)
  ultimately show "set (retained s) = set (admitted s) - {g}" unfolding a by auto
  show "admitted s ! i = g" using i(2) by (simp add: a nth_append)
  show "length (admitted s) = Suc (length (retained s))" using i(2) by (simp add: a)
qed

lemma restore_pending:
  assumes "shrink_inv infeasible groups trials s" "pending_trial s = Some (i, g)" "strictly_sorted groups"
  shows "restore (i, g) k (s\<lparr>pending_trial := None\<rparr>) =
    (Ok (), k (s\<lparr>pending_trial := None, retained := admitted s\<rparr>))"
  using pending_admitted [OF assms] by (simp add: restore_def vec_insert_def)

lemma shrink_inv_restored:
  assumes "shrink_inv infeasible groups trials s" "pending_trial s = Some (i, g)" "strictly_sorted groups"
    and "x \<in> {ShrinkCancelled, ShrinkBudgetExpired, ShrinkInconclusive}"
  shows "shrink_inv infeasible groups trials
    (s\<lparr>pending_trial := None, retained := admitted s, stop_reason := Some x\<rparr>)"
proof -
  note P = pending_admitted [OF assms(1-3)]
  note inv = assms(1) [unfolded shrink_inv_def counts_ok_def]
  have "trial_index s \<le> length (admitted s)" using P(1,2,8) by simp
  then show ?thesis
    using inv P(6,7) assms(4) unfolding shrink_inv_def counts_ok_def by (auto simp: admitted_def)
qed

text \<open>A trial that leaves \<open>gs\<close> as the admitted conflict and \<open>n\<close> groups of it proved necessary.\<close>

lemma shrink_inv_advance:
  assumes "shrink_inv infeasible groups trials s" "pending_trial s = Some (i, g)" "strictly_sorted groups"
    and "subseq gs groups" "gs \<noteq> []" "infeasible (set gs)" "necessary infeasible gs n"
    and "n \<le> length gs" "Suc (length gs - n) = length (admitted s) - trial_index s"
  shows "shrink_inv infeasible groups trials (finish_after_trial
    (s\<lparr>pending_trial := None, retained := gs, trial_index := n\<rparr>))"
proof -
  note inv = assms(1) [unfolded shrink_inv_def counts_ok_def]
  have P: "stop_reason s = None" "\<not> foundational s" using pending_admitted [OF assms(1-3)] by simp_all
  have c: "attempted_trials s \<le> initial_group_count s" "attempted_trials s \<le> max_trials s" "0 < max_trials s"
    "initial_group_count s = length groups" "max_trials s = trials" using inv P by simp_all
  have "length (admitted s) - trial_index s = initial_group_count s - attempted_trials s + 1"
    using inv P assms(2) by simp
  with assms(9) have n: "length gs - n = initial_group_count s - attempted_trials s" by linarith
  show ?thesis
    using assms(4-8) P c n
    by (auto simp: shrink_inv_def counts_ok_def finish_after_trial_def admitted_def)
qed

lemma necessary_subset:
  assumes "necessary infeasible gs n" "n \<le> length hs" "set hs \<subseteq> set gs"
    and "upward_closed infeasible" "\<And>j. j < n \<Longrightarrow> hs ! j = gs ! j"
  shows "necessary infeasible hs n"
  unfolding necessary_def
proof (intro allI impI)
  fix j assume j: "j < n"
  then have "set hs - {hs ! j} \<subseteq> set gs - {gs ! j}" using assms(3,5) by auto
  with assms(1,4) j show "\<not> infeasible (set hs - {hs ! j})" unfolding necessary_def upward_closed_def by blast
qed

lemma trial_feasible_inv:
  assumes "shrink_inv infeasible groups trials s" "pending_trial s = Some (i, g)" "strictly_sorted groups"
    and "\<not> infeasible (set (retained s))"
  shows "shrink_inv infeasible groups trials (finish_after_trial
    (s\<lparr>pending_trial := None, retained := admitted s, trial_index := trial_index s + 1\<rparr>))"
proof -
  note P = pending_admitted [OF assms(1-3)]
  have adm: "subseq (admitted s) groups" "admitted s \<noteq> []" "infeasible (set (admitted s))"
    "necessary infeasible (admitted s) (trial_index s)"
    using assms(1) [unfolded shrink_inv_def] P(7) by simp_all
  have "\<not> infeasible (set (admitted s) - {admitted s ! trial_index s})"
    using assms(4) P(1,4,5) by simp
  then have "necessary infeasible (admitted s) (trial_index s + 1)"
    using adm(4) by (auto simp: necessary_def less_Suc_eq)
  moreover have "trial_index s < length (admitted s)" using P(1,2,8) by simp
  ultimately show ?thesis
    using shrink_inv_advance [OF assms(1-3) adm(1-3), of "trial_index s + 1"] by simp
qed

lemma trial_infeasible_inv:
  assumes "shrink_inv infeasible groups trials s" "pending_trial s = Some (i, g)" "strictly_sorted groups"
    and "infeasible (set (retained s))" "retained s \<noteq> []"
    and mono: "upward_closed infeasible"
  shows "shrink_inv infeasible groups trials (finish_after_trial
    (s\<lparr>pending_trial := None, retained := retained s, trial_index := trial_index s\<rparr>))"
proof -
  note P = pending_admitted [OF assms(1-3)]
  have adm: "subseq (admitted s) groups" "necessary infeasible (admitted s) (trial_index s)"
    using assms(1) [unfolded shrink_inv_def] P(7) by simp_all
  have "subseq (retained s) (admitted s)"
    unfolding P(3) by (subst append_take_drop_id [of i "retained s", symmetric])
      (intro list_emb_append_mono subseq_order.order_refl list_emb_Cons)
  then have "subseq (retained s) groups" using adm(1) subseq_order.order_trans by blast
  moreover have "necessary infeasible (retained s) (trial_index s)"
    by (rule necessary_subset [OF adm(2) _ _ mono]) (use P(1-4) in \<open>auto simp: nth_append\<close>)
  ultimately show ?thesis
    using shrink_inv_advance [OF assms(1-3) _ assms(5,4), of "trial_index s"] P(1,2,8)
    by (auto simp: Suc_diff_le)
qed

lemma complete_trial_inv:
  assumes "shrink_inv infeasible groups trials s" "complete_trial s snap result = (r, s')"
    and "truthful infeasible s result" "strictly_sorted groups"
    and mono: "upward_closed infeasible"
  shows "shrink_inv infeasible groups trials s' \<and> r \<noteq> Abort"
proof (cases "pending_trial s")
  case None
  with assms(1,2) show ?thesis by (auto simp: complete_trial_def)
next
  case (Some p)
  obtain i g where p: "pending_trial s = Some (i, g)" using Some by (cases p) simp
  note P = pending_admitted [OF assms(1) p assms(4)]
  note R = restore_pending [OF assms(1) p assms(4)]
  note stopped = shrink_inv_restored [OF assms(1) p assms(4)]
  consider "cancelled snap \<or> expired snap \<or> result = Inconclusive"
    | "\<not> cancelled snap" "\<not> expired snap" "result = ProvenFeasible"
    | "\<not> cancelled snap" "\<not> expired snap" "result = ProvenInfeasible" "retained s = []"
    | "\<not> cancelled snap" "\<not> expired snap" "result = ProvenInfeasible" "retained s \<noteq> []"
    by (cases result) auto
  then show ?thesis
  proof cases
    case 1
    then show ?thesis
      using assms(2) stopped p R by (auto simp: complete_trial_def Let_def split: if_splits)
  next
    case 2
    with assms(2,3) p R trial_feasible_inv [OF assms(1) p assms(4)] show ?thesis
      by (auto simp: complete_trial_def Let_def truthful_def)
  next
    case 3
    then have "infeasible {}" using assms(3) by (simp add: truthful_def)
    with 3 assms(1,2) p P(6,7) show ?thesis
      by (auto simp: complete_trial_def Let_def shrink_inv_def counts_ok_def)
  next
    case 4
    with assms(2,3) p trial_infeasible_inv [OF assms(1) p assms(4) _ 4(4) mono] show ?thesis
      by (auto simp: complete_trial_def Let_def truthful_def)
  qed
qed

subsection \<open>Results\<close>

lemma into_result_inv:
  assumes "shrink_inv infeasible groups trials s" "validate_groups groups = Ok ()"
    and "into_result s = Ok e"
  shows "infeasibility_evidence_validate e = Ok () \<and>
    (case e of
       Conflict gs m sm \<Rightarrow> gs = retained s \<and> subseq gs groups \<and> infeasible (set gs) \<and>
         (m = ProvenMinimal \<longrightarrow> (\<forall>g \<in> set gs. \<not> infeasible (set gs - {g})))
     | Unavailable reason \<Rightarrow> reason = FoundationalInfeasibility \<and> infeasible {})"
proof (cases "foundational s")
  case True
  with assms show ?thesis by (auto simp: into_result_def shrink_inv_def split: if_splits)
next
  case False
  note inv = assms(1) [unfolded shrink_inv_def counts_ok_def]
  from assms(3) False obtain x where p: "pending_trial s = None" and x: "stop_reason s = Some x"
    and r: "conflict_result (retained s) (initial_group_count s) (attempted_trials s) (max_trials s) x = Ok e"
    by (cases "pending_trial s"; cases "stop_reason s") (auto simp: into_result_def)
  from r have e: "e = Conflict (retained s) (if x = ShrinkCompleted then ProvenMinimal else Sufficient)
      \<lparr>summary_initial = initial_group_count s, summary_remaining = length (retained s),
       summary_attempted = attempted_trials s, summary_max = max_trials s, summary_reason = x\<rparr>"
    and v: "shrink_summary_validate \<lparr>summary_initial = initial_group_count s,
       summary_remaining = length (retained s), summary_attempted = attempted_trials s,
       summary_max = max_trials s, summary_reason = x\<rparr> = Ok ()"
    by (auto simp: conflict_result_def Let_def split: if_splits)
  have a: "admitted s = retained s" using p by (simp add: admitted_def)
  have s: "subseq (retained s) groups" "retained s \<noteq> []" "infeasible (set (retained s))"
    "necessary infeasible (retained s) (trial_index s)" using inv False a by simp_all
  have g: "length groups \<le> max_explanation_records" "strictly_sorted groups"
    "\<forall>g \<in> set groups. conflict_group_validate g = Ok ()" using assms(2) by (auto simp: validate_groups_Ok)
  have minimal: "\<forall>g \<in> set (retained s). \<not> infeasible (set (retained s) - {g})" if "x = ShrinkCompleted"
  proof -
    have "trial_index s = length (retained s)" using inv False a p x that by auto
    with s(4) show ?thesis by (auto simp: necessary_def in_set_conv_nth)
  qed
  have "infeasibility_evidence_validate e = Ok ()"
    unfolding e infeasibility_evidence_Ok
    using s(1,2) v g list_emb_length [OF s(1)] subseq_sorted_wrt [OF s(1) g(2)] list_emb_set [OF s(1)] by auto
  with s minimal show ?thesis by (simp add: e)
qed

lemma shrink_reach_inv:
  assumes "shrink_reach infeasible groups trials s" "infeasible (set groups)"
    and mono: "upward_closed infeasible"
  shows "shrink_inv infeasible groups trials s \<and> validate_groups groups = Ok ()"
  using assms(1)
proof (induction rule: shrink_reach.induct)
  case (reach_new s)
  then show ?case using shrink_inv_new [of groups trials s infeasible] shrinker_new_Ok(1) assms(2) by blast
next
  case (reach_next s snap r s')
  then show ?case using next_trial_inv(1) by (auto simp: validate_groups_Ok)
next
  case (reach_complete s result snap r s')
  then show ?case using complete_trial_inv [OF _ _ _ _ mono] by (auto simp: validate_groups_Ok)
qed

text \<open>
  C4: However the shrinker is called, in whatever order and with whatever budget snapshots, no call
  panics, and a result it gives is a proof: the retained groups are a well-formed sub-conflict that
  is still infeasible, every single group of one marked minimal is necessary, and foundational
  unavailability means that the empty set of groups is already infeasible. The caller's reports on
  trials are assumed true, and infeasibility monotone in the groups.
\<close>

theorem shrinker_results_proved:
  assumes "shrink_reach infeasible groups trials s" "infeasible (set groups)"
    and "upward_closed infeasible"
  shows "fst (next_trial s snap) \<noteq> Abort \<and>
    (truthful infeasible s result \<longrightarrow> fst (complete_trial s snap result) \<noteq> Abort) \<and>
    (\<forall>e. into_result s = Ok e \<longrightarrow> infeasibility_evidence_validate e = Ok () \<and>
       (case e of
          Conflict gs m sm \<Rightarrow> gs = retained s \<and> subseq gs groups \<and> infeasible (set gs) \<and>
            (m = ProvenMinimal \<longrightarrow> (\<forall>g \<in> set gs. \<not> infeasible (set gs - {g})))
        | Unavailable reason \<Rightarrow> reason = FoundationalInfeasibility \<and> infeasible {}))"
proof -
  from shrink_reach_inv [OF assms] have inv: "shrink_inv infeasible groups trials s"
    and v: "validate_groups groups = Ok ()" by blast+
  then have g: "length groups \<le> max_explanation_records" "strictly_sorted groups"
    by (simp_all add: validate_groups_Ok)
  obtain r s' where n: "next_trial s snap = (r, s')" by (cases "next_trial s snap")
  obtain q t where c: "complete_trial s snap result = (q, t)" by (cases "complete_trial s snap result")
  have "r \<noteq> Abort" using next_trial_inv(2) [OF inv n g(1)] .
  moreover have "truthful infeasible s result \<Longrightarrow> q \<noteq> Abort"
    using complete_trial_inv [OF inv c _ g(2) assms(3)] by blast
  ultimately show ?thesis using n c into_result_inv [OF inv v] by simp
qed

theorem shrinker_results_proved_witness:
  "\<exists>g h s. shrink_reach (\<lambda>A. g \<in> A) [g, h] 2 s \<and> upward_closed (\<lambda>A. g \<in> A) \<and>
     (\<exists>sm. into_result s = Ok (Conflict [g] ProvenMinimal sm)) \<and>
     infeasibility_evidence_validate (Conflict [g] ProvenMinimal
       \<lparr>summary_initial = 2, summary_remaining = 1, summary_attempted = 2, summary_max = 2,
        summary_reason = ShrinkCompleted\<rparr>) = Ok ()"
proof -
  define g h :: conflict_group where "g = \<lparr>group_id = ''a'', group_rules = [''r'']\<rparr>"
    and "h = \<lparr>group_id = ''b'', group_rules = [''r'']\<rparr>"
  define snap where "snap = \<lparr>remaining_milliseconds = 5, expired = False, cancelled = False\<rparr>"
  define s0 where "s0 = \<lparr>retained = [g, h], pending_trial = None, initial_group_count = 2,
    attempted_trials = 0, max_trials = 2, trial_index = 0, stop_reason = None, foundational = False\<rparr>"
  define s1 where "s1 = s0\<lparr>retained := [h], attempted_trials := 1, pending_trial := Some (0, g)\<rparr>"
  define s2 where "s2 = s0\<lparr>attempted_trials := 1, trial_index := 1\<rparr>"
  define s3 where "s3 = s2\<lparr>retained := [g], attempted_trials := 2, pending_trial := Some (1, h)\<rparr>"
  define s4 where "s4 = s3\<lparr>pending_trial := None, stop_reason := Some ShrinkCompleted\<rparr>"
  note defs = g_def h_def snap_def s0_def s1_def s2_def s3_def s4_def
  let ?inf = "\<lambda>A. g \<in> A"
  have "shrinker_new [g, h] 2 = Ok s0" unfolding defs by code_simp
  then have "shrink_reach ?inf [g, h] 2 s0" by (rule reach_new)
  moreover have "next_trial s0 snap = (Ok (Some [h]), s1)" unfolding defs by code_simp
  ultimately have "shrink_reach ?inf [g, h] 2 s1" by (rule reach_next)
  moreover have "truthful ?inf s1 ProvenFeasible" by (simp add: truthful_def defs)
  moreover have "complete_trial s1 snap ProvenFeasible = (Ok (), s2)" unfolding defs by code_simp
  ultimately have "shrink_reach ?inf [g, h] 2 s2" by (rule reach_complete)
  moreover have "next_trial s2 snap = (Ok (Some [g]), s3)" unfolding defs by code_simp
  ultimately have "shrink_reach ?inf [g, h] 2 s3" by (rule reach_next)
  moreover have "truthful ?inf s3 ProvenInfeasible" by (simp add: truthful_def defs)
  moreover have "complete_trial s3 snap ProvenInfeasible = (Ok (), s4)" unfolding defs by code_simp
  ultimately have r: "shrink_reach ?inf [g, h] 2 s4" by (rule reach_complete)
  have u: "upward_closed ?inf" by (auto simp: upward_closed_def)
  have e: "into_result s4 = Ok (Conflict [g] ProvenMinimal
    \<lparr>summary_initial = 2, summary_remaining = 1, summary_attempted = 2, summary_max = 2,
     summary_reason = ShrinkCompleted\<rparr>)" unfolding defs by code_simp
  have i: "?inf (set [g, h])" by simp
  from shrinker_results_proved [OF r i u, of snap Inconclusive] e
  have "infeasibility_evidence_validate (Conflict [g] ProvenMinimal
    \<lparr>summary_initial = 2, summary_remaining = 1, summary_attempted = 2, summary_max = 2,
     summary_reason = ShrinkCompleted\<rparr>) = Ok ()" by blast
  with r u e show ?thesis by blast
qed

subsection \<open>The pass ends\<close>

text \<open>
  The caller's loop: ask for a trial, decide it, report. The fuel counts the trials decided, and
  call \<open>k\<close> sees snapshot \<open>snaps k\<close>.
\<close>

fun shrink_loop ::
    "nat \<Rightarrow> (nat \<Rightarrow> remaining_solve_budget) \<Rightarrow> (conflict_group list \<Rightarrow> conflict_trial_outcome) \<Rightarrow> nat
       \<Rightarrow> conflict_shrinker \<Rightarrow> conflict_shrinker option" where
  "shrink_loop fuel snaps decide k s =
     (case next_trial s (snaps k) of
        (Ok None, s') \<Rightarrow> Some s'
      | (Ok (Some gs), s') \<Rightarrow>
          (case fuel of
             0 \<Rightarrow> None
           | Suc fuel' \<Rightarrow>
               (case complete_trial s' (snaps (k + 1)) (decide gs) of
                  (Ok _, s'') \<Rightarrow> shrink_loop fuel' snaps decide (k + 2) s''
                | _ \<Rightarrow> None))
      | _ \<Rightarrow> None)"

declare shrink_loop.simps [simp del]

definition trials_left :: "conflict_shrinker \<Rightarrow> nat" where
  "trials_left s = min (initial_group_count s) (max_trials s) - attempted_trials s"

definition ended :: "conflict_shrinker \<Rightarrow> bool" where
  "ended s \<longleftrightarrow> pending_trial s = None \<and> (foundational s \<or> stop_reason s \<noteq> None)"

definition uninterrupted :: "conflict_shrinker \<Rightarrow> bool" where
  "uninterrupted s \<longleftrightarrow> stop_reason s = None \<or> stop_reason s = Some ShrinkCompleted"

lemma complete_trial_pending:
  assumes "shrink_inv infeasible groups trials s" "strictly_sorted groups" "pending_trial s = Some p"
    and "complete_trial s snap result = (r, s')"
  shows "r = Ok ()" "pending_trial s' = None" "attempted_trials s' = attempted_trials s"
    "initial_group_count s' = initial_group_count s" "max_trials s' = max_trials s"
    "initial_group_count s \<le> max_trials s \<Longrightarrow> \<not> cancelled snap \<Longrightarrow> \<not> expired snap \<Longrightarrow>
      result \<noteq> Inconclusive \<Longrightarrow> uninterrupted s'"
proof -
  obtain i g where p: "p = (i, g)" by (cases p)
  note R = restore_pending [OF assms(1) assms(3) [unfolded p] assms(2)]
  have n: "stop_reason s = None" using pending_admitted(6) [OF assms(1) assms(3) [unfolded p] assms(2)] .
  show "r = Ok ()" "pending_trial s' = None" "attempted_trials s' = attempted_trials s"
    "initial_group_count s' = initial_group_count s" "max_trials s' = max_trials s"
    using assms(3,4) R unfolding p
    by (auto simp: complete_trial_def Let_def finish_after_trial_def
        split: if_splits conflict_trial_outcome.splits)
  show "uninterrupted s'" if "initial_group_count s \<le> max_trials s" "\<not> cancelled snap" "\<not> expired snap"
    "result \<noteq> Inconclusive"
    using assms(3,4) R that n unfolding p
    by (auto simp: complete_trial_def Let_def finish_after_trial_def uninterrupted_def
        split: if_splits conflict_trial_outcome.splits)
qed

definition decides :: "(conflict_group set \<Rightarrow> bool) \<Rightarrow> (conflict_group list \<Rightarrow> conflict_trial_outcome) \<Rightarrow> bool" where
  "decides infeasible decide \<longleftrightarrow>
     (\<forall>gs. (decide gs = ProvenInfeasible \<longrightarrow> infeasible (set gs)) \<and>
           (decide gs = ProvenFeasible \<longrightarrow> \<not> infeasible (set gs)))"

lemma next_trial_unless_pending:
  assumes "shrink_inv infeasible groups trials s" "groups \<noteq> []" "pending_trial s = None"
    and "next_trial s snap = (r, s')"
  obtains (ended) "r = Ok None" "ended s'"
      "length groups \<le> trials \<Longrightarrow> uninterrupted s \<Longrightarrow> \<not> cancelled snap \<Longrightarrow> \<not> expired snap \<Longrightarrow> uninterrupted s'"
  | (trial) "stop_reason s = None" "\<not> foundational s"
      "attempted_trials s < initial_group_count s" "attempted_trials s < max_trials s"
      "\<not> cancelled snap" "\<not> expired snap"
proof -
  have c: "initial_group_count s = length groups" "max_trials s = trials"
    using assms(1) by (simp_all add: shrink_inv_def)
  show ?thesis
    using assms(4)
  proof (cases rule: next_trial_cases)
    case same
    with assms(3,4) show ?thesis by (intro ended) (auto simp: next_trial_def ended_def)
  next
    case (stop x)
    then show ?thesis
    proof (intro ended)
      show "ended s'" using stop by (simp add: ended_def)
      show "uninterrupted s'" if "length groups \<le> trials" "\<not> cancelled snap" "\<not> expired snap"
        using stop that c assms(2) by (cases x) (auto simp: stops_with_def uninterrupted_def)
    qed
  qed (rule trial)
qed

text \<open>One round of the loop.\<close>

lemma shrink_round:
  assumes "shrink_inv infeasible groups trials s" "validate_groups groups = Ok ()" "upward_closed infeasible"
    and "decides infeasible decide" "pending_trial s = None"
    and "next_trial s snap = (Ok (Some gs), s1)" "complete_trial s1 snap' (decide gs) = (r, s2)"
  shows "r = Ok ()" "shrink_inv infeasible groups trials s2" "pending_trial s2 = None"
    "trials_left s = Suc (trials_left s2)"
    "length groups \<le> trials \<Longrightarrow> \<not> cancelled snap' \<Longrightarrow> \<not> expired snap' \<Longrightarrow> decide gs \<noteq> Inconclusive \<Longrightarrow>
      uninterrupted s2"
proof -
  have g: "groups \<noteq> []" "length groups \<le> max_explanation_records" "strictly_sorted groups"
    using assms(2) by (simp_all add: validate_groups_Ok)
  from next_trial_unless_pending [OF assms(1) g(1) assms(5,6)] have t: "stop_reason s = None"
    "\<not> foundational s" "attempted_trials s < initial_group_count s" "attempted_trials s < max_trials s"
    "\<not> cancelled snap" "\<not> expired snap" by (metis outcome.inject(1) option.distinct(1))+
  from next_trial_step [OF assms(1) g(2) assms(5) t] assms(6) obtain h where
    s1: "s1 = s\<lparr>retained := gs, attempted_trials := attempted_trials s + 1,
        pending_trial := Some (trial_index s, h)\<rparr>" by auto
  then have p: "pending_trial s1 = Some (trial_index s, h)" "retained s1 = gs" by simp_all
  note inv1 = next_trial_inv(1) [OF assms(1,6) g(2)]
  note C = complete_trial_pending [OF inv1 g(3) p(1) assms(7)]
  show "r = Ok ()" "pending_trial s2 = None" using C(1,2) by blast+
  have "truthful infeasible s1 (decide gs)" using assms(4) p(2) by (simp add: truthful_def decides_def)
  from complete_trial_inv [OF inv1 assms(7) this g(3) assms(3)] show "shrink_inv infeasible groups trials s2" by blast
  show "trials_left s = Suc (trials_left s2)" using C(3-5) t by (simp add: s1 trials_left_def)
  show "uninterrupted s2" if "length groups \<le> trials" "\<not> cancelled snap'" "\<not> expired snap'" "decide gs \<noteq> Inconclusive"
    using C(6) that assms(1) by (simp add: s1 shrink_inv_def)
qed

lemma shrink_loop_ends:
  assumes "shrink_inv infeasible groups trials s" "validate_groups groups = Ok ()" "upward_closed infeasible"
    and "decides infeasible decide" "pending_trial s = None" "trials_left s \<le> fuel"
  shows "\<exists>s'. shrink_loop fuel snaps decide k s = Some s' \<and> shrink_inv infeasible groups trials s' \<and> ended s' \<and>
    (length groups \<le> trials \<longrightarrow> uninterrupted s \<longrightarrow> (\<forall>k. \<not> cancelled (snaps k) \<and> \<not> expired (snaps k)) \<longrightarrow>
       (\<forall>gs. decide gs \<noteq> Inconclusive) \<longrightarrow> uninterrupted s')"
  using assms(1,5,6)
proof (induction fuel arbitrary: s k rule: less_induct)
  case (less fuel)
  have g: "groups \<noteq> []" "length groups \<le> max_explanation_records"
    using assms(2) by (simp_all add: validate_groups_Ok)
  obtain r s1 where n: "next_trial s (snaps k) = (r, s1)" by (cases "next_trial s (snaps k)")
  from less.prems(1) g(1) less.prems(2) n show ?case
  proof (cases rule: next_trial_unless_pending)
    case ended
    then show ?thesis
      using n next_trial_inv(1) [OF less.prems(1) n g(2)] by (subst shrink_loop.simps) auto
  next
    case trial
    from next_trial_step [OF less.prems(1) g(2) less.prems(2) trial] obtain gs where
      n1: "next_trial s (snaps k) = (Ok (Some gs), s1)" using n by auto
    obtain q s2 where c: "complete_trial s1 (snaps (k + 1)) (decide gs) = (q, s2)"
      by (cases "complete_trial s1 (snaps (k + 1)) (decide gs)")
    note S = shrink_round [OF less.prems(1) assms(2-4) less.prems(2) n1 c]
    from S(4) less.prems(3) obtain fuel' where f: "fuel = Suc fuel'" "trials_left s2 \<le> fuel'"
      by (cases fuel) auto
    have "shrink_loop fuel snaps decide k s = shrink_loop fuel' snaps decide (k + 2) s2"
      using n1 c S(1) f(1) by (subst shrink_loop.simps) simp
    with less.IH [OF _ S(2,3) f(2), of "k + 2"] f(1) S(5) show ?thesis by auto
  qed
qed

lemma ended_into_result:
  assumes "shrink_inv infeasible groups trials s" "validate_groups groups = Ok ()" "ended s"
  shows "\<exists>e. into_result s = Ok e"
proof (cases "foundational s")
  case True
  with assms(3) show ?thesis by (simp add: into_result_def ended_def)
next
  case False
  with assms(3) obtain x where p: "pending_trial s = None" and x: "stop_reason s = Some x"
    by (auto simp: ended_def)
  note inv = assms(1) [unfolded shrink_inv_def counts_ok_def]
  have a: "subseq (retained s) groups" "retained s \<noteq> []" using inv False p by (simp_all add: admitted_def)
  have l: "0 < length (retained s)" "length (retained s) \<le> length groups" "length groups \<le> u32_max"
    using a list_emb_length [OF a(1)] assms(2) by (simp_all add: validate_groups_Ok u32_max_def max_explanation_records_def)
  have "shrink_summary_validate \<lparr>summary_initial = initial_group_count s, summary_remaining = length (retained s),
      summary_attempted = attempted_trials s, summary_max = max_trials s, summary_reason = x\<rparr> = Ok ()"
    using inv False p x l by (cases x) (auto simp: shrink_summary_validate_def Let_def admitted_def)
  then show ?thesis using p x False l by (simp add: into_result_def conflict_result_def Let_def)
qed

text \<open>
  C11: The pass ends. With a caller that decides trials truthfully, at most as many trials are
  decided as there are groups and as the limit allows, and then a result is returned, whatever the
  budget does in between. If the limit admits one trial for each group, the budget never interrupts
  and every trial is decided, the result is a minimal conflict or foundational.
\<close>

theorem shrinker_ends:
  assumes "shrinker_new groups trials = Ok s" "infeasible (set groups)" "upward_closed infeasible"
    and "decides infeasible decide"
  shows "\<exists>s' e. shrink_loop (min (length groups) trials) snaps decide 0 s = Some s' \<and> into_result s' = Ok e \<and>
    (length groups \<le> trials \<and> (\<forall>k. \<not> cancelled (snaps k) \<and> \<not> expired (snaps k)) \<and>
       (\<forall>gs. decide gs \<noteq> Inconclusive) \<longrightarrow>
     e = Unavailable FoundationalInfeasibility \<or>
     (\<exists>gs sm. e = Conflict gs ProvenMinimal sm \<and> (\<forall>g \<in> set gs. \<not> infeasible (set gs - {g}))))"
proof -
  have v: "validate_groups groups = Ok ()" using shrinker_new_Ok(1) [OF assms(1)] .
  then have g: "groups \<noteq> []" by (simp add: validate_groups_Ok)
  note s = shrinker_new_Ok(2) [OF assms(1)]
  have p: "pending_trial s = None" "trials_left s \<le> min (length groups) trials" by (simp_all add: s trials_left_def)
  from shrink_loop_ends [OF shrink_inv_new [of groups trials s infeasible, OF assms(1,2)] v assms(3,4) p, of snaps 0] obtain s' where
    l: "shrink_loop (min (length groups) trials) snaps decide 0 s = Some s'" and
    i: "shrink_inv infeasible groups trials s'" and e: "ended s'" and
    u: "length groups \<le> trials \<longrightarrow> uninterrupted s \<longrightarrow> (\<forall>k. \<not> cancelled (snaps k) \<and> \<not> expired (snaps k)) \<longrightarrow>
       (\<forall>gs. decide gs \<noteq> Inconclusive) \<longrightarrow> uninterrupted s'" by blast
  from ended_into_result [OF i v e] obtain r where r: "into_result s' = Ok r" ..
  have "r = Unavailable FoundationalInfeasibility \<or>
     (\<exists>gs sm. r = Conflict gs ProvenMinimal sm \<and> (\<forall>g \<in> set gs. \<not> infeasible (set gs - {g})))"
    if "length groups \<le> trials" "\<forall>k. \<not> cancelled (snaps k) \<and> \<not> expired (snaps k)" "\<forall>gs. decide gs \<noteq> Inconclusive"
  proof -
    have "0 < trials" using that(1) g by (cases groups) auto
    then have "uninterrupted s" by (simp add: s uninterrupted_def)
    with u that have "uninterrupted s'" by blast
    with e r into_result_inv [OF i v r] show ?thesis
      by (auto simp: into_result_def ended_def uninterrupted_def conflict_result_def Let_def split: if_splits)
  qed
  with l r show ?thesis by blast
qed

theorem shrinker_ends_witness:
  "\<exists>g h s s' e. shrinker_new [g, h] 2 = Ok s \<and>
     shrink_loop 2 (\<lambda>k. \<lparr>remaining_milliseconds = 5, expired = False, cancelled = False\<rparr>)
       (\<lambda>gs. if g \<in> set gs then ProvenInfeasible else ProvenFeasible) 0 s = Some s' \<and> into_result s' = Ok e \<and>
     (e = Unavailable FoundationalInfeasibility \<or>
      (\<exists>gs sm. e = Conflict gs ProvenMinimal sm))"
proof -
  define g h :: conflict_group where "g = \<lparr>group_id = ''a'', group_rules = [''r'']\<rparr>"
    and "h = \<lparr>group_id = ''b'', group_rules = [''r'']\<rparr>"
  define s where "s = \<lparr>retained = [g, h], pending_trial = None, initial_group_count = 2,
    attempted_trials = 0, max_trials = 2, trial_index = 0, stop_reason = None, foundational = False\<rparr>"
  let ?inf = "\<lambda>A. g \<in> A"
  let ?decide = "\<lambda>gs. if g \<in> set gs then ProvenInfeasible else ProvenFeasible"
  let ?snaps = "\<lambda>k::nat. \<lparr>remaining_milliseconds = 5, expired = False, cancelled = False\<rparr>"
  have n: "shrinker_new [g, h] 2 = Ok s" unfolding g_def h_def s_def by code_simp
  have i: "?inf (set [g, h])" by simp
  have u: "upward_closed ?inf" by (auto simp: upward_closed_def)
  have d: "decides ?inf ?decide" by (simp add: decides_def)
  have m: "min (length [g, h]) 2 = 2" by simp
  have c: "length [g, h] \<le> 2 \<and> (\<forall>k. \<not> cancelled (?snaps k) \<and> \<not> expired (?snaps k)) \<and>
    (\<forall>gs. ?decide gs \<noteq> Inconclusive)" by simp
  from shrinker_ends [of "[g, h]" 2 s ?inf ?decide ?snaps, OF n i u d, unfolded m] c obtain s' e where
    l: "shrink_loop 2 ?snaps ?decide 0 s = Some s'" and r: "into_result s' = Ok e" and
    e: "e = Unavailable FoundationalInfeasibility \<or> (\<exists>gs sm. e = Conflict gs ProvenMinimal sm)" by blast
  show ?thesis by (rule exI [of _ g], rule exI [of _ h], rule exI [of _ s], rule exI [of _ s'], rule exI [of _ e])
    (intro conjI n l r e)
qed

end
