(* ===== verification/Assumption_Mapping.thy ===== *)
theory Assumption_Mapping
  imports Validation_Soundness Conflict_Shrink
begin

section \<open>From backend literals to conflict groups\<close>

text \<open>
  \<open>crates/eutheto-explain/src/assumption.rs\<close>. A backend returns the literals of an infeasible core;
  they are mapped to the conflict groups that the shrinker takes.
\<close>

subsection \<open>The mapping\<close>

datatype assumption_mapping_error =
    MapInvalidProblem validation_error
  | MapPreparation planning_preparation_error
  | MapEmpty
  | MapLimitExceeded
  | MapDuplicateLiteral literal
  | MapUnknownLiteral literal
  | MapWrongPolarity literal

fun mapping_validation_error :: "budgeted_validation_error \<Rightarrow> assumption_mapping_error" where
  "mapping_validation_error (Invalid e) = MapInvalidProblem e"
| "mapping_validation_error (Preparation e) = MapPreparation e"

definition mapping_validation ::
    "(string \<Rightarrow> string) \<Rightarrow> planning_problem \<Rightarrow> planning_ir_limits \<Rightarrow> (assumption_mapping_error, unit) prep" where
  "mapping_validation blake3 problem limits =
     branch_p
       (bind_p (map_err_p mapping_validation_error (validate_budgeted blake3 problem limits))
          (\<lambda>(manifest, analyzed). drop_owned (reservation analyzed)))
       (lift_o (map_err MapInvalidProblem (validate blake3 problem limits)))"

definition group_of :: "assumption \<Rightarrow> conflict_group" where
  "group_of a = \<lparr>group_id = assumption_id a, group_rules = required_rules a\<rparr>"

definition map_literal ::
    "(literal, assumption) btree_map \<Rightarrow> bool_variable_id set \<Rightarrow> literal \<Rightarrow> literal set \<times> conflict_group list
       \<Rightarrow> (assumption_mapping_error, literal set \<times> conflict_group list) outcome" where
  "map_literal by_literal known l st =
     (case st of (seen, mapped) \<Rightarrow>
        if l \<in> seen then Err (MapDuplicateLiteral l)
        else (case bt_get by_literal l of
            None \<Rightarrow> Err (if lit_variable l \<in> known then MapWrongPolarity l else MapUnknownLiteral l)
          | Some a \<Rightarrow> Ok (insert l seen, mapped @ [group_of a])))"

definition map_assumption_literals_impl ::
    "(string \<Rightarrow> string) \<Rightarrow> planning_problem \<Rightarrow> literal list \<Rightarrow> planning_ir_limits
       \<Rightarrow> (assumption_mapping_error, conflict_group list) prep" where
  "map_assumption_literals_impl blake3 problem literals limits =
     then_p (mapping_validation blake3 problem limits)
    (then_p (lift_o (if literals = [] then Err MapEmpty
         else if length literals > max_assumptions limits then Err MapLimitExceeded else Ok ()))
    (let assumptions_by_literal = bt_collect (map (\<lambda>a. (assumption_literal a, a)) (assumptions problem));
         assumption_variables = (\<lambda>a. lit_variable (assumption_literal a)) ` set (assumptions problem)
     in bind_p (each_p (\<lambda>l st.
           then_p (map_err_p MapPreparation (if_budget (reserve_work 1)))
             (lift_o (map_literal assumptions_by_literal assumption_variables l st))) literals ({}, []))
         (\<lambda>(seen, mapped).
        then_p (map_err_p MapPreparation (if_budget (reserve_work (length mapped))))
          (ret (sort mapped)))))"

definition map_assumption_literals ::
    "(string \<Rightarrow> string) \<Rightarrow> planning_problem \<Rightarrow> literal list \<Rightarrow> planning_ir_limits
       \<Rightarrow> (assumption_mapping_error, conflict_group list) outcome" where
  "map_assumption_literals blake3 problem literals limits =
     uncontrolled (map_assumption_literals_impl blake3 problem literals limits)"

record mapped_assumption_groups =
  mapped_groups :: "conflict_group list"
  mapped_bytes :: u64

text \<open>The charge: \<open>size_of::<RuleId>()\<close> is the 16 bytes of a UUID.\<close>

definition mapping_units :: "planning_problem \<Rightarrow> literal list \<Rightarrow> u64 option" where
  "mapping_units problem literals =
     foldl (\<lambda>acc n. Option.bind acc (\<lambda>u. u64_checked_add u n)) (Some 0)
       [length (variables problem), length (constraints problem), length (assumptions problem),
        length (projections problem), length (provenance problem), length literals]"

definition nested_rules :: "planning_problem \<Rightarrow> u64 option" where
  "nested_rules problem =
     foldl (\<lambda>acc a. Option.bind acc (\<lambda>u. u64_checked_add u (length (required_rules a)))) (Some 0)
       (assumptions problem)"

definition mapping_transient :: "u64 \<Rightarrow> u64 \<Rightarrow> u64 option" where
  "mapping_transient units nested =
     Option.bind (u64_checked_mul units 256) (\<lambda>bytes.
     Option.bind (u64_checked_mul nested (16 + 256)) (\<lambda>nested_bytes. u64_checked_add bytes nested_bytes))"

definition charge_mapping ::
    "u64 option list \<Rightarrow> planning_problem \<Rightarrow> literal list \<Rightarrow> planning_ir_limits
       \<Rightarrow> (planning_preparation_error, u64) prep" where
  "charge_mapping chunks problem literals limits =
     then_p (if_budget (\<lambda>b. (case precharge_serialized chunks (max_ir_bytes limits) b of
         (Ok _, b) \<Rightarrow> (Ok (), b) | (Err e, b) \<Rightarrow> (Err e, b) | (Abort, b) \<Rightarrow> (Abort, b))))
    (bind_p (lift_o (ok_or PrepArithmeticOverflow (mapping_units problem literals))) (\<lambda>units.
     bind_p (lift_o (ok_or PrepArithmeticOverflow (nested_rules problem))) (\<lambda>nested.
     bind_p (lift_o (ok_or PrepArithmeticOverflow (mapping_transient units nested))) (\<lambda>transient.
     bind_p (lift_o (ok_or PrepArithmeticOverflow (u64_checked_mul units 4))) (\<lambda>charge.
     then_p (if_budget (reserve_work charge))
    (then_p (if_budget (reserve_transient transient)) (ret transient)))))))"

definition map_assumption_literals_with_budget ::
    "(string \<Rightarrow> string) \<Rightarrow> u64 option list \<Rightarrow> planning_problem \<Rightarrow> literal list \<Rightarrow> planning_ir_limits \<Rightarrow> budget
       \<Rightarrow> (assumption_mapping_error, mapped_assumption_groups) outcome \<times> budget" where
  "map_assumption_literals_with_budget blake3 chunks problem literals limits b =
     (case controlled (map_err_p MapPreparation (charge_mapping chunks problem literals limits)) b of
        (Ok transient, b) \<Rightarrow>
          (case controlled (map_assumption_literals_impl blake3 problem literals limits) b of
             (Ok groups, b) \<Rightarrow> (Ok \<lparr>mapped_groups = groups, mapped_bytes = transient\<rparr>, b)
           | (Err e, b) \<Rightarrow> (Err e, snd (release_transient transient b))
           | (Abort, b) \<Rightarrow> (Abort, b))
      | (Err e, b) \<Rightarrow> (Err e, b)
      | (Abort, b) \<Rightarrow> (Abort, b))"

definition mapped_release ::
    "mapped_assumption_groups \<Rightarrow> budget \<Rightarrow> (assumption_mapping_error, unit) outcome \<times> budget" where
  "mapped_release m b = (case release_transient (mapped_bytes m) b of (r, b) \<Rightarrow> (map_err MapPreparation r, b))"

subsection \<open>What a core maps to\<close>

lemma map_literals_Ok:
  "each_o (map_literal m vs) ls (seen, mapped) = Ok st \<longleftrightarrow>
     distinct ls \<and> set ls \<inter> seen = {} \<and> (\<forall>l \<in> set ls. bt_get m l \<noteq> None) \<and>
     st = (seen \<union> set ls, mapped @ map (\<lambda>l. group_of (the (bt_get m l))) ls)"
proof (induction ls arbitrary: seen mapped)
  case (Cons l ls)
  show ?case
  proof (cases "l \<in> seen \<or> bt_get m l = None")
    case True
    then show ?thesis by (auto simp: map_literal_def split: option.splits)
  next
    case False
    then obtain a where a: "bt_get m l = Some a" "l \<notin> seen" by auto
    then have e: "each_o (map_literal m vs) (l # ls) (seen, mapped)
        = each_o (map_literal m vs) ls (insert l seen, mapped @ [group_of a])" by (simp add: map_literal_def)
    show ?thesis unfolding e Cons.IH using a by auto
  qed
qed auto

lemma uncontrolled_mapping:
  "uncontrolled (map_assumption_literals_impl blake3 p ls limits) = Ok gs \<longleftrightarrow>
     validate blake3 p limits = Ok () \<and> ls \<noteq> [] \<and> length ls \<le> max_assumptions limits \<and>
     (let m = bt_collect (map (\<lambda>a. (assumption_literal a, a)) (assumptions p)) in
        distinct ls \<and> (\<forall>l \<in> set ls. bt_get m l \<noteq> None) \<and>
        gs = sort (map (\<lambda>l. group_of (the (bt_get m l))) ls))"
  unfolding map_assumption_literals_impl_def mapping_validation_def Let_def
  by (auto simp: map_literals_Ok not_less case_prod_unfold split: if_splits)

lemma assumption_lookup:
  assumes "distinct (map (\<lambda>a. lit_variable (assumption_literal a)) as)"
  shows "bt_get (bt_collect (map (\<lambda>a. (assumption_literal a, a)) as)) l = Some a \<longleftrightarrow>
    a \<in> set as \<and> assumption_literal a = l"
proof -
  have "distinct (map assumption_literal as)"
    using assms by (auto simp: distinct_map inj_on_def)
  then have "distinct (map fst (rev (map (\<lambda>a. (assumption_literal a, a)) as)))"
    by (simp add: rev_map [symmetric] comp_def)
  then have "bt_get (bt_collect (map (\<lambda>a. (assumption_literal a, a)) as)) l = Some a \<longleftrightarrow>
      (l, a) \<in> set (rev (map (\<lambda>a. (assumption_literal a, a)) as))"
    unfolding bt_collect(2) by (rule map_of_eq_Some_iff)
  then show ?thesis by auto
qed

definition core_groups :: "planning_problem \<Rightarrow> literal list \<Rightarrow> conflict_group set" where
  "core_groups p ls = group_of ` set (filter (\<lambda>a. assumption_literal a \<in> set ls) (assumptions p))"

lemma core_lookup:
  assumes "distinct (map (\<lambda>a. lit_variable (assumption_literal a)) (assumptions p))"
    and "distinct (map assumption_id (assumptions p))"
    and "\<forall>l \<in> set ls. bt_get (bt_collect (map (\<lambda>a. (assumption_literal a, a)) (assumptions p))) l \<noteq> None"
  defines "g \<equiv> \<lambda>l. group_of (the (bt_get (bt_collect (map (\<lambda>a. (assumption_literal a, a)) (assumptions p))) l))"
  shows "g ` set ls = core_groups p ls" "inj_on g (set ls)"
proof -
  let ?m = "bt_collect (map (\<lambda>a. (assumption_literal a, a)) (assumptions p))"
  note L = assumption_lookup [OF assms(1)]
  have "g ` set ls \<subseteq> core_groups p ls" using assms(3) L by (fastforce simp: core_groups_def g_def)
  moreover have "core_groups p ls \<subseteq> g ` set ls"
  proof
    fix x assume "x \<in> core_groups p ls"
    then obtain a where "a \<in> set (assumptions p)" "assumption_literal a \<in> set ls" "x = group_of a"
      by (auto simp: core_groups_def)
    with L [of "assumption_literal a" a] show "x \<in> g ` set ls" by (auto simp: g_def intro!: image_eqI)
  qed
  ultimately show "g ` set ls = core_groups p ls" by blast
  show "inj_on g (set ls)"
  proof (rule inj_onI)
    fix k l assume k: "k \<in> set ls" "l \<in> set ls" and e: "g k = g l"
    from assms(3) k obtain a c where ac: "bt_get ?m k = Some a" "bt_get ?m l = Some c" by blast
    with e have "assumption_id a = assumption_id c" by (simp add: g_def group_of_def)
    with assms(2) ac L have "a = c" by (auto simp: distinct_map inj_on_def)
    with ac L show "k = l" by auto
  qed
qed

lemma sort_map_unique:
  fixes g :: "'a \<Rightarrow> 'b::linorder"
  assumes "inj_on g (set xs)" "distinct xs"
  shows "ys = sort (map g xs) \<longleftrightarrow> strictly_sorted ys \<and> set ys = g ` set xs"
proof -
  have "distinct (map g xs)" using assms by (simp add: distinct_map)
  then have "strictly_sorted (sort (map g xs))" by (simp add: strict_sorted_iff)
  moreover have "set (sort (map g xs)) = g ` set xs" by simp
  ultimately show ?thesis by (metis strict_sorted_equal)
qed

lemma mapping_exact:
  assumes "validate blake3 problem limits = Ok ()"
  shows "map_assumption_literals blake3 problem literals limits = Ok groups \<longleftrightarrow>
    literals \<noteq> [] \<and> length literals \<le> max_assumptions limits \<and> distinct literals \<and>
    set literals \<subseteq> assumption_literal ` set (assumptions problem) \<and>
    strictly_sorted groups \<and> set groups = core_groups problem literals"
proof -
  let ?m = "bt_collect (map (\<lambda>a. (assumption_literal a, a)) (assumptions problem))"
  have wt: "well_typed problem" using assms by (auto elim!: validate_Ok_core dest: validate_core_well_typed(1))
  then have d: "distinct (map (\<lambda>a. lit_variable (assumption_literal a)) (assumptions problem))"
    and i: "distinct (map assumption_id (assumptions problem))"
    by (simp_all add: well_typed_def root_ok_def strictly_sorted_distinct)
  have known: "(\<forall>l \<in> set literals. bt_get ?m l \<noteq> None) \<longleftrightarrow>
      set literals \<subseteq> assumption_literal ` set (assumptions problem)"
    using assumption_lookup [OF d] by (auto simp: image_iff subset_iff)
  have "groups = sort (map (\<lambda>l. group_of (the (bt_get ?m l))) literals) \<longleftrightarrow>
      strictly_sorted groups \<and> set groups = core_groups problem literals"
    if "\<forall>l \<in> set literals. bt_get ?m l \<noteq> None" "distinct literals"
    using sort_map_unique [OF core_lookup(2) [OF d i that(1)] that(2)] core_lookup(1) [OF d i that(1)] by simp
  then show ?thesis
    unfolding map_assumption_literals_def uncontrolled_mapping Let_def using assms known by auto
qed

lemma mapping_validated:
  "map_assumption_literals blake3 problem literals limits = Ok groups \<Longrightarrow> validate blake3 problem limits = Ok ()"
  by (simp add: map_assumption_literals_def uncontrolled_mapping Let_def)

text \<open>
  C9: A returned core is mapped exactly if the problem passes \<open>validate\<close> and the core is non-empty,
  within the limit, free of duplicates and made of the literals of assumptions; the result is then
  the strictly ordered list of the groups of these assumptions.
\<close>

theorem map_assumption_literals_exact:
  "map_assumption_literals blake3 problem literals limits = Ok groups \<longleftrightarrow>
    validate blake3 problem limits = Ok () \<and>
    literals \<noteq> [] \<and> length literals \<le> max_assumptions limits \<and> distinct literals \<and>
    set literals \<subseteq> assumption_literal ` set (assumptions problem) \<and>
    strictly_sorted groups \<and> set groups = core_groups problem literals"
  using mapping_exact [of blake3 problem limits literals groups] mapping_validated [of blake3 problem literals limits groups]
  by (cases "validate blake3 problem limits = Ok ()") auto

theorem map_assumption_literals_exact_witness:
  "validate (\<lambda>bytes. ''digest'') sample_problem default_limits = Ok () \<and>
   map_assumption_literals (\<lambda>bytes. ''digest'') sample_problem [literal_positive ''bool.b''] default_limits =
     Ok [\<lparr>group_id = ''assumption.r'', group_rules = [''rule.one'']\<rparr>]"
proof -
  have v: "validate (\<lambda>bytes. ''digest'') sample_problem default_limits = Ok ()" by code_simp
  have "core_groups sample_problem [literal_positive ''bool.b''] =
      {\<lparr>group_id = ''assumption.r'', group_rules = [''rule.one'']\<rparr>}"
  proof -
    have "assumptions sample_problem = [\<lparr>assumption_id = ''assumption.r'',
      assumption_literal = literal_positive ''bool.b'', required_rules = [''rule.one''],
      assumption_provenance = ''prov.rule''\<rparr>]" by (simp add: sample_problem_def)
    then show ?thesis by (simp add: core_groups_def group_of_def)
  qed
  with map_assumption_literals_exact [of "\<lambda>bytes. ''digest''" sample_problem "[literal_positive ''bool.b'']"
      default_limits "[\<lparr>group_id = ''assumption.r'', group_rules = [''rule.one'']\<rparr>]"] v
  show ?thesis by (simp add: sample_problem_def default_limits_def)
qed

subsection \<open>Mapped cores start the shrinker\<close>

lemma validated_assumption_rules:
  assumes "uncontrolled (validate_assumptions p refs limits n) = Ok m"
  shows "\<forall>a \<in> set (assumptions p). length (required_rules a) < max_refs_per_node limits"
proof (cases "assumptions p = []")
  case False
  from assms False obtain records st where
    l: "each_o (\<lambda>x s. uncontrolled (validate_assumption refs records limits x s))
      (enumerate 0 (assumptions p)) ({}, {}, n) = Ok st"
    by (auto simp: validate_assumptions_def case_prod_unfold)
  have "\<forall>x \<in> set (enumerate 0 (assumptions p)).
      (\<lambda>a. length (required_rules a) < max_refs_per_node limits) (snd x)"
  proof (rule each_o_forall [OF l])
    fix x s s' assume "uncontrolled (validate_assumption refs records limits x s) = Ok s'"
    then show "(\<lambda>a. length (required_rules a) < max_refs_per_node limits) (snd x)"
      unfolding validate_assumption_def case_prod_unfold Let_def
      by (auto simp: checked_v_Ok u64_checked_add_def split: if_splits)
  qed
  then show ?thesis by (rule forall_enumerate [THEN iffD1])
qed simp

text \<open>
  C21: The groups mapped from a core of a validated problem are always accepted by the shrinker,
  for limits that admit no more assumptions and rules than the evidence contract does.
\<close>

theorem mapped_core_starts_shrinker:
  assumes "map_assumption_literals blake3 problem literals limits = Ok groups"
    and "max_assumptions limits \<le> max_explanation_records" "max_refs_per_node limits \<le> Suc max_verification_rules"
  shows "\<exists>s. shrinker_new groups trials = Ok s"
proof -
  have v: "validate blake3 problem limits = Ok ()" using assms(1) by (rule mapping_validated)
  then obtain refs n where core: "uncontrolled (validate_core problem limits) = Ok (refs, n)"
    by (rule validate_Ok_core)
  have wt: "well_typed problem" using validate_core_well_typed(1) [OF core] .
  from core obtain k k' where "uncontrolled (validate_assumptions problem refs limits k) = Ok k'"
    by (rule validate_core_Ok)
  note R = validated_assumption_rules [OF this]
  have M: "literals \<noteq> []" "length literals \<le> max_assumptions limits" "strictly_sorted groups"
    "set groups = core_groups problem literals" "set literals \<subseteq> assumption_literal ` set (assumptions problem)"
    using assms(1) by (simp_all add: mapping_exact [OF v])
  have g: "conflict_group_validate g = Ok ()" if "g \<in> set groups" for g
  proof -
    from that M(4) obtain a where a: "a \<in> set (assumptions problem)" "g = group_of a" by (auto simp: core_groups_def)
    have "required_rules a \<noteq> []" "strictly_sorted (required_rules a)"
      using wt a(1) by (auto simp: well_typed_def assumption_ok_def)
    moreover have "length (required_rules a) < max_refs_per_node limits" using R a(1) by blast
    ultimately show ?thesis using a(2) assms(3) by (simp add: group_of_def)
  qed
  have "length groups = length literals"
    using assms(1) by (auto simp: map_assumption_literals_def uncontrolled_mapping Let_def)
  then have "groups \<noteq> []" "length groups \<le> max_explanation_records" using M(1,2) assms(2) by auto
  then show ?thesis
    using g M(3) by (auto simp: shrinker_new_def validate_groups_Ok u32_max_def max_explanation_records_def)
qed

theorem mapped_core_starts_shrinker_witness:
  "\<exists>groups s. map_assumption_literals (\<lambda>bytes. ''digest'') sample_problem [literal_positive ''bool.b'']
      default_limits = Ok groups \<and> shrinker_new groups 4 = Ok s"
proof -
  have m: "map_assumption_literals (\<lambda>bytes. ''digest'') sample_problem [literal_positive ''bool.b'']
      default_limits = Ok [\<lparr>group_id = ''assumption.r'', group_rules = [''rule.one'']\<rparr>]" by code_simp
  have "max_assumptions default_limits \<le> max_explanation_records"
    "max_refs_per_node default_limits \<le> Suc max_verification_rules"
    by (simp_all add: default_limits_def max_explanation_records_def max_verification_rules_def)
  from mapped_core_starts_shrinker [OF m this, of 4] m show ?thesis by blast
qed

subsection \<open>Under a preparation budget\<close>

lemma controlled_validation:
  assumes "length (variables p) \<le> u64_max" "controlled (mapping_validation blake3 p limits) b = (r, b')"
  shows "spends b b' \<and> transient_bytes b' = transient_bytes b \<and> r \<noteq> Abort \<and>
    (r = Ok () \<longrightarrow> validate blake3 p limits = Ok ())"
proof -
  obtain q b1 where v: "controlled (validate_budgeted blake3 p limits) b = (q, b1)" by fastforce
  note V = validate_budgeted_cases [OF assms(1) v]
  show ?thesis
  proof (cases q)
    case (Ok x)
    obtain manifest analyzed where x: "x = (manifest, analyzed)" by (cases x)
    have V': "spends b b1" "validate blake3 p limits = Ok ()"
      "transient_bytes b1 = transient_bytes b + bytes_of (reservation analyzed)" using V Ok x by simp_all
    from assms(2) v Ok x have d: "controlled (drop_owned (reservation analyzed)) b1 = (r, b')"
      by (simp add: mapping_validation_def controlled_simps)
    have "holds (bytes_of (reservation analyzed)) (drop_owned (reservation analyzed)) (\<lambda>_. 0)"
      using holds_drop_owned [of "reservation analyzed" "bytes_of (reservation analyzed)"] by simp
    from this [unfolded holds_def, rule_format, OF d] V' show ?thesis
      by (cases r) (auto intro: spends_trans)
  qed (use assms(2) v V in \<open>auto simp: mapping_validation_def controlled_simps\<close>)
qed

definition mapping_loop ::
    "planning_problem \<Rightarrow> literal list \<Rightarrow> planning_ir_limits \<Rightarrow> (assumption_mapping_error, conflict_group list) prep" where
  "mapping_loop problem literals limits =
     then_p (lift_o (if literals = [] then Err MapEmpty
         else if length literals > max_assumptions limits then Err MapLimitExceeded else Ok ()))
    (let assumptions_by_literal = bt_collect (map (\<lambda>a. (assumption_literal a, a)) (assumptions problem));
         assumption_variables = (\<lambda>a. lit_variable (assumption_literal a)) ` set (assumptions problem)
     in bind_p (each_p (\<lambda>l st.
           then_p (map_err_p MapPreparation (if_budget (reserve_work 1)))
             (lift_o (map_literal assumptions_by_literal assumption_variables l st))) literals ({}, []))
         (\<lambda>(seen, mapped).
        then_p (map_err_p MapPreparation (if_budget (reserve_work (length mapped))))
          (ret (sort mapped))))"

lemma mapping_impl_split:
  "map_assumption_literals_impl blake3 p ls limits =
     then_p (mapping_validation blake3 p limits) (mapping_loop p ls limits)"
  by (simp add: map_assumption_literals_impl_def mapping_loop_def)

lemma map_literal_not_Abort: "map_literal m vs l st \<noteq> Abort"
  by (simp add: map_literal_def split: prod.split option.split)

lemma mapping_loop_traversal:
  "agrees (mapping_loop p ls limits)" "balanced (mapping_loop p ls limits)"
  "uncontrolled (mapping_loop p ls limits) \<noteq> Abort"
proof -
  show "agrees (mapping_loop p ls limits)" unfolding mapping_loop_def Let_def case_prod_unfold by (intro agrees_intro)
  show "balanced (mapping_loop p ls limits)"
    unfolding mapping_loop_def Let_def case_prod_unfold by (intro holds_intro agrees_intro) simp
  have "each_o (map_literal m vs) ls st \<noteq> Abort" for m vs st
    by (induction ls arbitrary: st) (auto simp: bind_o_Abort_iff map_literal_not_Abort)
  then show "uncontrolled (mapping_loop p ls limits) \<noteq> Abort"
    unfolding mapping_loop_def Let_def by (auto simp: bind_o_Abort_iff)
qed

lemma precharge_not_Abort: "precharge_serialized chunks m b = (r, b') \<Longrightarrow> r \<noteq> Abort"
  by (rule budget_check_cases [of b]) (auto simp: precharge_serialized_def split: prod.splits option.splits if_splits)

lemma reserve_transient_cases:
  assumes "reserve_transient t b = (r, b')"
  shows "r \<noteq> Abort \<and>
    (r = Ok () \<longrightarrow> transient_bytes b' = transient_bytes b + t \<and> raw_transient_bytes b' = raw_transient_bytes b + t) \<and>
    (\<forall>e. r = Err e \<longrightarrow> transient_bytes b' = transient_bytes b \<and> raw_transient_bytes b' = raw_transient_bytes b)"
  using assms by (rule_tac budget_check_cases [of b])
    (auto simp: reserve_transient_def add_transient_def split: option.splits if_splits)

lemma charge_mapping_cases:
  assumes "controlled (charge_mapping chunks p ls limits) b = (r, b')"
  shows "r \<noteq> Abort \<and>
    (\<forall>t. r = Ok t \<longrightarrow> transient_bytes b' = transient_bytes b + t \<and> raw_transient_bytes b' = raw_transient_bytes b + t) \<and>
    (\<forall>e. r = Err e \<longrightarrow> transient_bytes b' = transient_bytes b \<and> raw_transient_bytes b' = raw_transient_bytes b)"
proof -
  obtain q b1 where q: "precharge_serialized chunks (max_ir_bytes limits) b = (q, b1)" by fastforce
  have same: "transient_bytes b1 = transient_bytes b" "raw_transient_bytes b1 = raw_transient_bytes b" "q \<noteq> Abort"
    using precharge_serialized_same [OF q] precharge_not_Abort [OF q] by (simp_all add: same_transient_def)
  show ?thesis
  proof (cases "\<exists>x units nested transient charge. q = Ok x \<and> mapping_units p ls = Some units \<and>
      nested_rules p = Some nested \<and> mapping_transient units nested = Some transient \<and>
      u64_checked_mul units 4 = Some charge")
    case True
    then obtain x units nested transient charge where c: "q = Ok x" "mapping_units p ls = Some units"
      "nested_rules p = Some nested" "mapping_transient units nested = Some transient"
      "u64_checked_mul units 4 = Some charge" by blast
    obtain w b2 where w: "reserve_work charge b1 = (w, b2)" by fastforce
    have same2: "transient_bytes b2 = transient_bytes b1" "raw_transient_bytes b2 = raw_transient_bytes b1" "w \<noteq> Abort"
      using reserve_work_same [OF w] reserve_work_not_Abort [OF w] by (simp_all add: same_transient_def)
    obtain t b3 where t: "reserve_transient transient b2 = (t, b3)" by fastforce
    from assms q c w t have "(r, b') = (case w of Ok _ \<Rightarrow> (case t of Ok _ \<Rightarrow> (Ok transient, b3) | Err e \<Rightarrow> (Err e, b3)
        | Abort \<Rightarrow> (Abort, b3)) | Err e \<Rightarrow> (Err e, b2) | Abort \<Rightarrow> (Abort, b2))"
      by (simp add: charge_mapping_def controlled_simps split: outcome.splits)
    with reserve_transient_cases [OF t] same same2 show ?thesis by (cases w; cases t) auto
  next
    case False
    then have "(\<exists>e. r = Err e) \<and> b' = b1"
      using assms q same(3) by (cases q)
        (auto simp: charge_mapping_def controlled_simps ok_or_def split: option.splits outcome.splits)
    with same show ?thesis by auto
  qed
qed

lemma mapping_impl_cases:
  assumes "length (variables p) \<le> u64_max"
    and "controlled (map_assumption_literals_impl blake3 p ls limits) b = (r, b')"
  shows "r \<noteq> Abort \<and> transient_bytes b' = transient_bytes b \<and> raw_transient_bytes b' = raw_transient_bytes b \<and>
    (\<forall>gs. r = Ok gs \<longrightarrow> map_assumption_literals blake3 p ls limits = Ok gs)"
proof -
  obtain v b1 where v: "controlled (mapping_validation blake3 p limits) b = (v, b1)" by fastforce
  note V = controlled_validation [OF assms(1) v]
  obtain x b2 where x: "controlled (mapping_loop p ls limits) b1 = (x, b2)" by fastforce
  note X = holdsD [OF mapping_loop_traversal(2) x]
  have impl: "(r, b') = (case v of Ok _ \<Rightarrow> (x, b2) | Err e \<Rightarrow> (Err e, b1) | Abort \<Rightarrow> (Abort, b1))"
    using assms(2) by (simp add: mapping_impl_split controlled_simps v x split: outcome.splits)
  show ?thesis
  proof (cases v)
    case (Ok u)
    with impl V X(1) have r: "r = x" "b' = b2" and l: "validate blake3 p limits = Ok ()"
      and s: "raw_transient_bytes b' = raw_transient_bytes b" by (auto simp: spends_def)
    have "map_assumption_literals blake3 p ls limits = Ok gs" if "x = Ok gs" for gs
      using agreesD [OF mapping_loop_traversal(1), of p ls limits b1 gs b2] x that l
      by (simp add: map_assumption_literals_def mapping_impl_split mapping_validation_def)
    moreover have "x \<noteq> Abort" using X(4) mapping_loop_traversal(3) by blast
    moreover have "transient_bytes b2 = transient_bytes b1" using X(2,3,4) mapping_loop_traversal(3) by (cases x) auto
    ultimately show ?thesis using r s V by auto
  qed (use impl V in \<open>auto simp: spends_def\<close>)
qed

text \<open>
  C19: Mapping a core under a preparation budget never panics. A success is what the mapping without
  a budget returns, and its owner can release exactly the bytes that were reserved for it; after a
  failure no byte is left reserved.
\<close>

theorem map_assumption_literals_with_budget_sound:
  assumes "length (variables problem) \<le> u64_max"
    and "map_assumption_literals_with_budget blake3 chunks problem literals limits b = (r, b')"
  shows "case r of
      Ok m \<Rightarrow> map_assumption_literals blake3 problem literals limits = Ok (mapped_groups m) \<and>
        transient_bytes b' = transient_bytes b + mapped_bytes m \<and>
        (\<exists>b''. mapped_release m b' = (Ok (), b'') \<and> transient_bytes b'' = transient_bytes b)
    | Err e \<Rightarrow> transient_bytes b' = transient_bytes b
    | Abort \<Rightarrow> False"
proof -
  obtain q b1 where q: "controlled (charge_mapping chunks problem literals limits) b = (q, b1)" by fastforce
  note Q = charge_mapping_cases [OF q]
  show ?thesis
  proof (cases q)
    case (Ok t)
    have t: "transient_bytes b1 = transient_bytes b + t" "raw_transient_bytes b1 = raw_transient_bytes b + t"
      using Q Ok by simp_all
    obtain x b2 where x: "controlled (map_assumption_literals_impl blake3 problem literals limits) b1 = (x, b2)"
      by fastforce
    note X = mapping_impl_cases [OF assms(1) x]
    have rel: "release_transient t b2 = (Ok (), b2\<lparr>transient_bytes := transient_bytes b,
        raw_transient_bytes := raw_transient_bytes b\<rparr>)"
      using X t by (simp add: release_transient_def u64_checked_sub_def)
    show ?thesis
    proof (cases x)
      case (Ok gs)
      with assms(2) q \<open>q = Ok t\<close> x have "r = Ok \<lparr>mapped_groups = gs, mapped_bytes = t\<rparr>" "b' = b2"
        by (simp_all add: map_assumption_literals_with_budget_def controlled_simps)
      with Ok X t rel show ?thesis by (simp add: mapped_release_def)
    qed (use assms(2) q Ok x X rel in \<open>auto simp: map_assumption_literals_with_budget_def controlled_simps\<close>)
  qed (use assms(2) q Q in \<open>auto simp: map_assumption_literals_with_budget_def controlled_simps\<close>)
qed

theorem map_assumption_literals_with_budget_sound_witness:
  "\<exists>m b'. map_assumption_literals_with_budget (\<lambda>bytes. ''digest'') [Some 100, Some 200] sample_problem
      [literal_positive ''bool.b''] default_limits (budget_uncontrolled default_limits) = (Ok m, b') \<and>
    mapped_bytes m = 4624 \<and>
    transient_bytes b' = transient_bytes (budget_uncontrolled default_limits) + mapped_bytes m"
proof -
  let ?c = "map_assumption_literals_with_budget (\<lambda>bytes. ''digest'') [Some 100, Some 200] sample_problem
      [literal_positive ''bool.b''] default_limits (budget_uncontrolled default_limits)"
  have "map_ok mapped_bytes (fst ?c) = Ok 4624" by code_simp
  then obtain m where x: "fst ?c = Ok m" and r: "mapped_bytes m = 4624"
    by (cases "fst ?c") (auto simp: map_ok_def)
  have e: "?c = (Ok m, snd ?c)" using x by (simp only: prod_eq_iff fst_conv snd_conv)
  have "length (variables sample_problem) \<le> u64_max" by code_simp
  from map_assumption_literals_with_budget_sound [OF this e]
  have "transient_bytes (snd ?c) = transient_bytes (budget_uncontrolled default_limits) + mapped_bytes m"
    by (simp only: outcome.case)
  with r e show ?thesis by blast
qed

end
