(* ===== verification/Candidate_Projection.thy ===== *)
theory Candidate_Projection
  imports Validation_Bounds Domain_Contracts Planning_Ids
begin

section \<open>Projection of candidates\<close>

text \<open>
  \<open>planning-ir/src/projection.rs\<close>: a candidate of a solver adapter becomes a normalized solution of
  the domain, whose record and checks are those of \<open>domain-ir/src/lib.rs\<close>.
\<close>

subsection \<open>Normalized solutions\<close>

definition max_domain_id_bytes :: usize where
  "max_domain_id_bytes = 160"

definition domain_id_valid :: "string \<Rightarrow> bool" where
  "domain_id_valid v \<longleftrightarrow>
     length v \<le> max_domain_id_bytes \<and> length (split_on CHR ''.'' v) \<ge> 2 \<and>
     list_all valid_segment (split_on CHR ''.'' v)"

definition domain_id_new :: "string \<Rightarrow> string option" where
  "domain_id_new v = (if domain_id_valid v then Some v else None)"

record domain_assignment =
  assigned_id :: string
  assigned_entity :: domain_entity_ref
  assigned_value :: assignment_value
  evidence :: "string list"

record normalized_solution =
  solution_schema_version :: nat
  solution_pack_id :: string
  solution_scenario_id :: string
  solution_scenario_revision :: u64
  solution_projection_version :: nat
  solution_id :: string
  assignments :: "domain_assignment list"

definition normalized_solution_schema_version :: nat where
  "normalized_solution_schema_version = 1"

definition revision_max_v1 :: u64 where
  "revision_max_v1 = 9007199254740991"

definition validate_revision :: "u64 \<Rightarrow> unit contract" where
  "validate_revision revision =
     (if revision > revision_max_v1 then Err (DcLimitExceeded ''scenario revision'') else Ok ())"

definition validate_assignment :: "domain_assignment \<Rightarrow> string option \<Rightarrow> (domain_contract_error, string option) outcome" where
  "validate_assignment a prior =
     (if (case prior of Some i \<Rightarrow> i \<ge> assigned_id a | None \<Rightarrow> False) then Err DcNonCanonicalAssignments
      else if (case assigned_value a of AInterval i \<Rightarrow> \<not> assigned_interval_validate i | _ \<Rightarrow> False) then Err DcInvalidInterval
      else if \<not> strictly_sorted_unique (evidence a) then Err DcNonCanonicalEvidence
      else Ok (Some (assigned_id a)))"

definition solution_validate :: "normalized_solution \<Rightarrow> unit contract" where
  "solution_validate s =
     (if solution_schema_version s \<noteq> normalized_solution_schema_version
      then Err (DcUnsupportedVersion (solution_schema_version s))
      else bind_o (validate_revision (solution_scenario_revision s)) (\<lambda>_.
        bind_o (each_o validate_assignment (assignments s) None) (\<lambda>_. Ok ())))"

definition solution_canonicalize :: "normalized_solution \<Rightarrow> normalized_solution contract" where
  "solution_canonicalize s =
     (let sorted = sort_key assigned_id (assignments s) in
      case List.find (\<lambda>(a, b). assigned_id a = assigned_id b) (windows2 sorted) of
        Some (a, _) \<Rightarrow> Err (DcDuplicateAssignment (assigned_id a))
      | None \<Rightarrow>
          let s' = s\<lparr>assignments := map (\<lambda>a. a\<lparr>evidence := sort_dedup (evidence a)\<rparr>) sorted\<rparr> in
          bind_o (solution_validate s') (\<lambda>_. Ok s'))"

subsection \<open>Evaluation\<close>

record planning_candidate =
  candidate_booleans :: "(bool_variable_id, bool) btree_map"
  candidate_integers :: "(int_variable_id, i64) btree_map"

datatype projection_error =
    InvalidProblem validation_error
  | UnknownCandidateValue string
  | OutOfDomain int_variable_id
  | MissingRequiredValue string
  | InvalidInterval interval_variable_id
  | ProjectionOverflow
  | InvalidEvidence provenance_id
  | DomainContract domain_contract_error

type_synonym 'a projected_outcome = "(projection_error, 'a) outcome"

definition missing :: "bool \<Rightarrow> string \<Rightarrow> assignment_value projected_outcome" where
  "missing req v = (if req then Err (MissingRequiredValue v) else Ok Absent)"

fun evaluate_terms ::
    "planning_candidate \<Rightarrow> bool \<Rightarrow> linear_term list \<Rightarrow> i64 \<Rightarrow> assignment_value projected_outcome" where
  "evaluate_terms candidate req [] v = Ok (AInteger v)"
| "evaluate_terms candidate req (t # ts) v =
     (case bt_get (candidate_integers candidate) (term_variable t) of
        None \<Rightarrow> missing req (term_variable t)
      | Some x \<Rightarrow>
          bind_o (ok_or ProjectionOverflow (i64_checked_mul (coefficient t) x)) (\<lambda>product.
          bind_o (ok_or ProjectionOverflow (i64_checked_add v product)) (\<lambda>v. evaluate_terms candidate req ts v)))"

definition evaluate_components ::
    "planning_candidate \<Rightarrow> bool \<Rightarrow> interval_variable_id \<Rightarrow> interval_variable \<Rightarrow> assignment_value projected_outcome" where
  "evaluate_components candidate req v i =
     (case bt_get (candidate_integers candidate) (interval_start i) of
        None \<Rightarrow> missing req (interval_start i)
      | Some s \<Rightarrow>
     (case bt_get (candidate_integers candidate) (interval_duration i) of
        None \<Rightarrow> missing req (interval_duration i)
      | Some d \<Rightarrow>
     (case bt_get (candidate_integers candidate) (interval_end i) of
        None \<Rightarrow> missing req (interval_end i)
      | Some e \<Rightarrow>
          map_err (\<lambda>_. InvalidInterval v) (bind_o (ok_or DcInvalidInterval (assigned_interval_new s d e)) (\<lambda>x. Ok (AInterval x))))))"

definition evaluate_interval ::
    "planning_candidate \<Rightarrow> bool \<Rightarrow> interval_variable_id \<Rightarrow> interval_variable \<Rightarrow> assignment_value projected_outcome" where
  "evaluate_interval candidate req v i =
     (case interval_presence i of
        None \<Rightarrow> evaluate_components candidate req v i
      | Some l \<Rightarrow>
          (case bt_get (candidate_booleans candidate) (lit_variable l) of
             None \<Rightarrow> missing req (lit_variable l)
           | Some b \<Rightarrow> if b \<noteq> lit_positive l then Ok Absent else evaluate_components candidate req v i))"

fun evaluate_projection ::
    "planning_candidate \<Rightarrow> (interval_variable_id, interval_variable) btree_map \<Rightarrow> bool \<Rightarrow> projection_expression \<Rightarrow>
     assignment_value projected_outcome" where
  "evaluate_projection candidate intervals req (EBoolean v) =
     (case bt_get (candidate_booleans candidate) v of None \<Rightarrow> missing req v | Some b \<Rightarrow> Ok (ABoolean b))"
| "evaluate_projection candidate intervals req (EInteger v) =
     (case bt_get (candidate_integers candidate) v of None \<Rightarrow> missing req v | Some n \<Rightarrow> Ok (AInteger n))"
| "evaluate_projection candidate intervals req (ELinear e) = evaluate_terms candidate req (expr_terms e) (expr_constant e)"
| "evaluate_projection candidate intervals req (EInterval v) =
     bind_o (ok_or (UnknownCandidateValue v) (bt_get intervals v)) (evaluate_interval candidate req v)"
| "evaluate_projection candidate intervals req (EConstant c) = Ok c"

subsection \<open>Projection\<close>

fun bool_entry :: "variable \<Rightarrow> bool_variable_id option" where
  "bool_entry (VBoolean v) = Some (bool_id v)"
| "bool_entry _ = None"

fun interval_entry :: "variable \<Rightarrow> (interval_variable_id \<times> interval_variable) option" where
  "interval_entry (VInterval v) = Some (interval_id v, v)"
| "interval_entry _ = None"

definition check_booleans :: "planning_problem \<Rightarrow> planning_candidate \<Rightarrow> unit projected_outcome" where
  "check_booleans problem candidate =
     each_o (\<lambda>v _. if v \<in> set (List.map_filter bool_entry (variables problem)) then Ok () else Err (UnknownCandidateValue v))
       (map fst (candidate_booleans candidate)) ()"

definition check_integers :: "planning_problem \<Rightarrow> planning_candidate \<Rightarrow> unit projected_outcome" where
  "check_integers problem candidate =
     each_o (\<lambda>(v, n) _. case bt_get (bt_collect (List.map_filter int_entry (variables problem))) v of
        None \<Rightarrow> Err (UnknownCandidateValue v)
      | Some d \<Rightarrow> if domain_contains d n then Ok () else Err (OutOfDomain v))
       (candidate_integers candidate) ()"

definition project_assignment ::
    "planning_candidate \<Rightarrow> (interval_variable_id, interval_variable) btree_map \<Rightarrow> solution_projection \<Rightarrow>
     domain_assignment list \<Rightarrow> domain_assignment list projected_outcome" where
  "project_assignment candidate intervals q done =
     bind_o (evaluate_projection candidate intervals (required q) (projection_expression q)) (\<lambda>v.
     bind_o (ok_or (InvalidEvidence (projection_provenance q)) (domain_id_new (projection_provenance q))) (\<lambda>e.
     Ok (done @ [\<lparr>assigned_id = assignment_id q, assigned_entity = projection_entity q, assigned_value = v, evidence = [e]\<rparr>])))"

definition project_candidate_inner ::
    "(string \<Rightarrow> string) \<Rightarrow> planning_problem \<Rightarrow> planning_candidate \<Rightarrow> string \<Rightarrow> planning_ir_limits \<Rightarrow> bool \<Rightarrow>
     normalized_solution projected_outcome" where
  "project_candidate_inner blake3 problem candidate solution limits validate_problem =
     bind_o (if validate_problem then map_err InvalidProblem (validate blake3 problem limits) else Ok ()) (\<lambda>_.
     bind_o (check_booleans problem candidate) (\<lambda>_.
     bind_o (check_integers problem candidate) (\<lambda>_.
     bind_o (each_o (project_assignment candidate (bt_collect (List.map_filter interval_entry (variables problem))))
         (projections problem) []) (\<lambda>xs.
     map_err DomainContract (solution_canonicalize
       \<lparr>solution_schema_version = normalized_solution_schema_version, solution_pack_id = pack_id (metadata problem),
        solution_scenario_id = scenario_id (metadata problem), solution_scenario_revision = scenario_revision (metadata problem),
        solution_projection_version = projection_version (metadata problem), solution_id = solution,
        assignments = sort_key assigned_id xs\<rparr>)))))"

definition project_candidate ::
    "(string \<Rightarrow> string) \<Rightarrow> planning_problem \<Rightarrow> planning_candidate \<Rightarrow> string \<Rightarrow> planning_ir_limits \<Rightarrow>
     normalized_solution projected_outcome" where
  "project_candidate blake3 problem candidate solution limits =
     project_candidate_inner blake3 problem candidate solution limits True"

definition project_candidate_admitted ::
    "(string \<Rightarrow> string) \<Rightarrow> planning_problem \<Rightarrow> planning_candidate \<Rightarrow> string \<Rightarrow> planning_ir_limits \<Rightarrow>
     normalized_solution projected_outcome" where
  "project_candidate_admitted blake3 problem candidate solution limits =
     project_candidate_inner blake3 problem candidate solution limits False"

subsection \<open>What a projection means\<close>

definition interval_of :: "planning_problem \<Rightarrow> interval_variable_id \<Rightarrow> interval_variable option" where
  "interval_of p = map_of (List.map_filter interval_entry (variables p))"

definition is_present :: "(bool_variable_id \<Rightarrow> bool) \<Rightarrow> interval_variable \<Rightarrow> bool" where
  "is_present g i \<longleftrightarrow> (case interval_presence i of None \<Rightarrow> True | Some l \<Rightarrow> g (lit_variable l) = lit_positive l)"

fun projection_meaning ::
    "planning_problem \<Rightarrow> (int_variable_id \<Rightarrow> i64) \<Rightarrow> (bool_variable_id \<Rightarrow> bool) \<Rightarrow> projection_expression \<Rightarrow> assignment_value" where
  "projection_meaning p f g (EBoolean v) = ABoolean (g v)"
| "projection_meaning p f g (EInteger v) = AInteger (f v)"
| "projection_meaning p f g (ELinear e) = AInteger (expr_value e f)"
| "projection_meaning p f g (EInterval v) =
     (case interval_of p v of
        Some i \<Rightarrow> if is_present g i
          then AInterval \<lparr>assigned_start = f (interval_start i), assigned_duration = f (interval_duration i),
            assigned_end = f (interval_end i)\<rparr>
          else Absent
      | None \<Rightarrow> Absent)"
| "projection_meaning p f g (EConstant c) = c"

definition complete_candidate ::
    "planning_problem \<Rightarrow> planning_candidate \<Rightarrow> (int_variable_id \<Rightarrow> i64) \<Rightarrow> (bool_variable_id \<Rightarrow> bool) \<Rightarrow> bool" where
  "complete_candidate p c f g \<longleftrightarrow> bt_invar (candidate_booleans c) \<and> bt_invar (candidate_integers c) \<and>
     (\<forall>v. bt_get (candidate_booleans c) v = (if v \<in> bool_ids p then Some (g v) else None)) \<and>
     (\<forall>v. bt_get (candidate_integers c) v = (if int_ok p v then Some (f v) else None))"

text \<open>A present interval that is projected has a duration that is not negative and leads to its end.\<close>

definition coherent :: "(int_variable_id \<Rightarrow> i64) \<Rightarrow> (bool_variable_id \<Rightarrow> bool) \<Rightarrow> interval_variable \<Rightarrow> bool" where
  "coherent f g i \<longleftrightarrow> (is_present g i \<longrightarrow>
     0 \<le> f (interval_duration i) \<and> f (interval_start i) + f (interval_duration i) = f (interval_end i))"

definition projected_coherent ::
    "planning_problem \<Rightarrow> (int_variable_id \<Rightarrow> i64) \<Rightarrow> (bool_variable_id \<Rightarrow> bool) \<Rightarrow> projection_expression \<Rightarrow> bool" where
  "projected_coherent p f g e \<longleftrightarrow> (\<forall>v i. e = EInterval v \<longrightarrow> interval_of p v = Some i \<longrightarrow> coherent f g i)"

definition projected_assignments ::
    "planning_problem \<Rightarrow> (int_variable_id \<Rightarrow> i64) \<Rightarrow> (bool_variable_id \<Rightarrow> bool) \<Rightarrow> domain_assignment list" where
  "projected_assignments p f g = map (\<lambda>q. \<lparr>assigned_id = assignment_id q, assigned_entity = projection_entity q,
     assigned_value = projection_meaning p f g (projection_expression q), evidence = [projection_provenance q]\<rparr>) (projections p)"

subsection \<open>Candidates of validated problems project\<close>

lemma set_interval_entries:
  "(v, i) \<in> set (List.map_filter interval_entry vs) \<longleftrightarrow> VInterval i \<in> set vs \<and> interval_id i = v"
proof (induction vs)
  case (Cons x vs)
  then show ?case by (cases x) (auto simp: List.map_filter_simps)
qed (simp add: List.map_filter_simps)

lemma set_bool_entries: "set (List.map_filter bool_entry (variables p)) = bool_ids p"
proof -
  have "set (List.map_filter bool_entry vs) = {bool_id v | v. VBoolean v \<in> set vs}" for vs
  proof (induction vs)
    case (Cons x vs)
    then show ?case by (cases x) (auto simp: List.map_filter_simps)
  qed (simp add: List.map_filter_simps)
  then show ?thesis by (simp add: bool_ids_def)
qed

lemma distinct_interval_entries:
  "distinct (map canonical_id vs) \<Longrightarrow> distinct (map fst (List.map_filter interval_entry vs))"
proof (induction vs)
  case (Cons x vs)
  show ?case
  proof (cases x)
    case (VInterval i)
    have "interval_id i \<notin> fst ` set (List.map_filter interval_entry vs)"
      using Cons.prems VInterval by (force simp: set_interval_entries)
    then show ?thesis using Cons VInterval by (simp add: List.map_filter_simps)
  qed (use Cons in \<open>simp_all add: List.map_filter_simps\<close>)
qed (simp add: List.map_filter_simps)

lemma collected_entries:
  assumes "distinct (map canonical_id (variables p))"
  shows "bt_get (bt_collect (List.map_filter interval_entry (variables p))) = interval_of p"
    and "bt_get (bt_collect (List.map_filter int_entry (variables p))) = domain_of p"
  using distinct_interval_entries [OF assms] distinct_int_entries [OF assms]
  by (simp_all add: bt_collect interval_of_def domain_of_def int_entries_def map_of_inject_set rev_map [symmetric])

lemma bt_get_entry: "bt_invar m \<Longrightarrow> (k, v) \<in> set m \<Longrightarrow> bt_get m k = Some v"
  by (simp add: bt_get_def bt_invar_def strictly_sorted_distinct map_of_eq_Some_iff)

lemma candidate_checks:
  assumes "complete_candidate p c f g" "in_domains p f" "distinct (map canonical_id (variables p))"
  shows "check_booleans p c = Ok ()" "check_integers p c = Ok ()"
proof -
  have inv: "bt_invar (candidate_booleans c)" "bt_invar (candidate_integers c)" using assms(1) by (simp_all add: complete_candidate_def)
  have "v \<in> bool_ids p" if "(v, b) \<in> set (candidate_booleans c)" for v b
    using bt_get_entry [OF inv(1) that] assms(1) by (auto simp: complete_candidate_def split: if_splits)
  then show "check_booleans p c = Ok ()"
    by (auto simp: check_booleans_def each_o_check_iff set_bool_entries)
  have "\<exists>d. domain_of p v = Some d \<and> domain_contains d n" if "(v, n) \<in> set (candidate_integers c)" for v n
    using bt_get_entry [OF inv(2) that] assms(1,2)
    by (auto simp: complete_candidate_def in_domains_def int_ok_def split: if_splits)
  then show "check_integers p c = Ok ()"
    using each_o_check_iff [of "\<lambda>(v, n). case domain_of p v of None \<Rightarrow> Err (UnknownCandidateValue v)
      | Some d \<Rightarrow> if domain_contains d n then Ok () else Err (OutOfDomain v)" "candidate_integers c"]
    by (force simp: check_integers_def collected_entries [OF assms(3)] case_prod_unfold)
qed

lemma evaluate_terms_exact:
  assumes "complete_candidate p c f g" "\<forall>t \<in> set ts. int_ok p (term_variable t)"
    and "foldl (\<lambda>acc t. Option.bind acc (\<lambda>v. Option.bind (i64_checked_mul (coefficient t) (f (term_variable t)))
      (i64_checked_add v))) (Some k) ts = Some r"
  shows "evaluate_terms c req ts k = Ok (AInteger r)"
  using assms(2,3)
proof (induction ts arbitrary: k)
  case (Cons t ts)
  have none: "foldl (\<lambda>acc t. Option.bind acc (h t)) None xs = None" for h :: "linear_term \<Rightarrow> i64 \<Rightarrow> i64 option" and xs
    by (induction xs) simp_all
  from Cons.prems(2) none obtain y z where
    "i64_checked_mul (coefficient t) (f (term_variable t)) = Some y" "i64_checked_add k y = Some z"
    "foldl (\<lambda>acc t. Option.bind acc (\<lambda>v. Option.bind (i64_checked_mul (coefficient t) (f (term_variable t)))
      (i64_checked_add v))) (Some z) ts = Some r"
    by (cases "i64_checked_mul (coefficient t) (f (term_variable t))"; cases "i64_checked_add k (coefficient t * f (term_variable t))")
      (auto simp del: i64_checked_mul_Some i64_checked_add_Some simp: i64_checked_mul_def split: if_splits)
  with Cons assms(1) show ?case by (simp add: complete_candidate_def)
qed simp

lemma interval_value:
  assumes "well_typed p" "complete_candidate p c f g"
    and "VInterval i \<in> set (variables p)" "\<And>v. int_ok p v \<Longrightarrow> in_i64 (f v)"
  shows "evaluate_interval c req v i =
    (if \<not> is_present g i then Ok Absent
     else if coherent f g i then Ok (AInterval \<lparr>assigned_start = f (interval_start i),
       assigned_duration = f (interval_duration i), assigned_end = f (interval_end i)\<rparr>)
     else Err (InvalidInterval v))"
proof -
  have ok: "int_ok p (interval_start i)" "int_ok p (interval_duration i)" "int_ok p (interval_end i)"
    "case interval_presence i of None \<Rightarrow> True | Some l \<Rightarrow> lit_variable l \<in> bool_ids p"
    using assms(1,3) by (auto simp: well_typed_def literal_ok_def dest!: bspec [of _ _ "VInterval i"] split: option.splits)
  have "evaluate_components c req v i =
      (if coherent f g i then Ok (AInterval \<lparr>assigned_start = f (interval_start i),
         assigned_duration = f (interval_duration i), assigned_end = f (interval_end i)\<rparr>)
       else Err (InvalidInterval v))" if "is_present g i"
    using that ok(1-3) assms(2) assms(4) [OF ok(3)]
    by (auto simp: evaluate_components_def complete_candidate_def coherent_def assigned_interval_new_def)
  then show ?thesis
    using ok(4) assms(2) by (auto simp: evaluate_interval_def is_present_def complete_candidate_def split: option.splits)
qed

lemma evaluate_projection_exact:
  assumes "well_typed p" "complete_candidate p c f g"
    and "\<And>v. int_ok p v \<Longrightarrow> in_i64 (f v)" "projection_ok p e" "\<forall>l \<in> set (projected_expressions e). evaluates f l"
  shows "evaluate_projection c (bt_collect (List.map_filter interval_entry (variables p))) req e = Ok x \<longleftrightarrow>
    projected_coherent p f g e \<and> x = projection_meaning p f g e"
proof (cases e)
  case (ELinear l)
  then show ?thesis
    using assms(4,5) evaluate_terms_exact [OF assms(2), of "expr_terms l" "expr_constant l" "expr_value l f" req]
    by (auto simp: expression_ok_def evaluates_def checked_linear_def projected_coherent_def)
next
  case (EInterval v)
  have d: "distinct (map canonical_id (variables p))" using assms(1) by (auto simp: well_typed_def root_ok_def strictly_sorted_distinct)
  obtain i where i: "VInterval i \<in> set (variables p)" "interval_id i = v"
    using assms(4) EInterval by (auto simp: interval_ok_def interval_ids_def)
  then have "interval_of p v = Some i"
    using distinct_interval_entries [OF d] by (simp add: interval_of_def map_of_eq_Some_iff set_interval_entries)
  then show ?thesis
    using EInterval interval_value [OF assms(1,2) i(1) assms(3)]
    by (auto simp: collected_entries [OF d] projected_coherent_def coherent_def)
qed (use assms(2,4) in \<open>auto simp: complete_candidate_def projected_coherent_def\<close>)

lemma project_assignments_exact:
  assumes "\<And>q x. q \<in> set qs \<Longrightarrow> evaluate_projection c intervals (required q) (projection_expression q) = Ok x \<longleftrightarrow>
    fits (projection_expression q) \<and> x = m (projection_expression q)"
  shows "each_o (project_assignment c intervals) qs xs = Ok ys \<longleftrightarrow>
    (\<forall>q \<in> set qs. fits (projection_expression q) \<and> domain_id_valid (projection_provenance q)) \<and>
    ys = xs @ map (\<lambda>q. \<lparr>assigned_id = assignment_id q, assigned_entity = projection_entity q,
      assigned_value = m (projection_expression q), evidence = [projection_provenance q]\<rparr>) qs"
  using assms
proof (induction qs arbitrary: xs)
  case (Cons q qs)
  let ?a = "\<lparr>assigned_id = assignment_id q, assigned_entity = projection_entity q,
      assigned_value = m (projection_expression q), evidence = [projection_provenance q]\<rparr>"
  have "project_assignment c intervals q xs = Ok zs \<longleftrightarrow>
      fits (projection_expression q) \<and> domain_id_valid (projection_provenance q) \<and> zs = xs @ [?a]" for zs
    using Cons.prems [of q] by (auto simp: project_assignment_def domain_id_new_def split: if_splits)
  then have "each_o (project_assignment c intervals) (q # qs) xs = Ok ys \<longleftrightarrow>
      fits (projection_expression q) \<and> domain_id_valid (projection_provenance q) \<and>
      each_o (project_assignment c intervals) qs (xs @ [?a]) = Ok ys" by auto
  with Cons.IH [of "xs @ [?a]"] Cons.prems show ?case by auto
qed auto

lemma validate_assignments_Ok:
  assumes "sorted_wrt (<) (map assigned_id xs)" "\<And>a. a \<in> set xs \<Longrightarrow> length (evidence a) = 1"
    and "\<And>a i. a \<in> set xs \<Longrightarrow> assigned_value a = AInterval i \<Longrightarrow> assigned_interval_validate i"
    and "\<And>j a. prior = Some j \<Longrightarrow> a \<in> set xs \<Longrightarrow> j < assigned_id a"
  shows "\<exists>r. each_o validate_assignment xs prior = Ok r"
  using assms
proof (induction xs arbitrary: prior)
  case (Cons a xs)
  have "strictly_sorted_unique (evidence a)"
    using Cons.prems(2) [of a] by (auto simp: strictly_sorted_unique_def length_Suc_conv)
  then have "validate_assignment a prior = Ok (Some (assigned_id a))"
    using Cons.prems(3) [of a] Cons.prems(4) [of _ a]
    by (auto simp: validate_assignment_def not_le split: option.splits assignment_value.splits)
  moreover have "\<exists>r. each_o validate_assignment xs (Some (assigned_id a)) = Ok r"
    using Cons.prems by (intro Cons.IH) auto
  ultimately show ?case by simp
qed simp

lemma solution_canonicalize_exact:
  assumes "distinct (map assigned_id (assignments s))" "\<And>a. a \<in> set (assignments s) \<Longrightarrow> length (evidence a) = 1"
    and "\<And>a i. a \<in> set (assignments s) \<Longrightarrow> assigned_value a = AInterval i \<Longrightarrow> assigned_interval_validate i"
    and "solution_schema_version s = 1"
  shows "solution_canonicalize s = Ok s' \<longleftrightarrow> solution_scenario_revision s \<le> revision_max_v1 \<and>
    s' = s\<lparr>assignments := sort_key assigned_id (assignments s)\<rparr>"
proof -
  let ?sorted = "sort_key assigned_id (assignments s)"
  have strict: "strictly_sorted (map assigned_id ?sorted)"
    using assms(1) by (simp add: strict_sorted_iff distinct_map distinct_sort inj_on_def)
  then have "\<forall>(a, b) \<in> set (windows2 ?sorted). assigned_id a \<noteq> assigned_id b"
    using strictly_sorted_by_windows [of ?sorted assigned_id] by fastforce
  then have find: "List.find (\<lambda>(a, b). assigned_id a = assigned_id b) (windows2 ?sorted) = None"
    by (auto simp: find_None_iff)
  have "sort_dedup xs = xs" if "length xs = 1" for xs :: "string list"
    using that by (auto simp: length_Suc_conv sort_dedup_def)
  then have same: "map (\<lambda>a. a\<lparr>evidence := sort_dedup (evidence a)\<rparr>) ?sorted = ?sorted"
    using assms(2) by (intro map_idI) simp
  have "solution_validate (s\<lparr>assignments := ?sorted\<rparr>) = Ok () \<longleftrightarrow> solution_scenario_revision s \<le> revision_max_v1"
    using validate_assignments_Ok [OF strict, of None] assms
    by (auto simp: solution_validate_def normalized_solution_schema_version_def validate_revision_def)
  then show ?thesis by (auto simp: solution_canonicalize_def find same Let_def)
qed

lemma meaning_interval_valid:
  assumes "well_typed p" "projected_coherent p f g e" "\<And>v. int_ok p v \<Longrightarrow> in_i64 (f v)" "projection_ok p e"
    and "projection_meaning p f g e = AInterval x"
  shows "assigned_interval_validate x"
proof (cases e)
  case (EInterval v)
  with assms(5) obtain i where i: "interval_of p v = Some i" "is_present g i"
    "x = \<lparr>assigned_start = f (interval_start i), assigned_duration = f (interval_duration i), assigned_end = f (interval_end i)\<rparr>"
    by (auto split: option.splits if_splits)
  then have "VInterval i \<in> set (variables p)"
    by (auto simp: interval_of_def set_interval_entries dest: map_of_SomeD)
  then have "int_ok p (interval_end i)" using assms(1) by (auto simp: well_typed_def dest!: bspec [of _ _ "VInterval i"])
  then show ?thesis
    using i EInterval assms(2) assms(3) [of "interval_end i"]
    by (auto simp: projected_coherent_def coherent_def assigned_interval_validate_def assigned_interval_new_def)
qed (use assms(4,5) in auto)

text \<open>The solution a candidate of a problem stands for.\<close>

definition projected_solution ::
    "planning_problem \<Rightarrow> (int_variable_id \<Rightarrow> i64) \<Rightarrow> (bool_variable_id \<Rightarrow> bool) \<Rightarrow> string \<Rightarrow> normalized_solution" where
  "projected_solution p f g sid = \<lparr>solution_schema_version = 1, solution_pack_id = pack_id (metadata p),
     solution_scenario_id = scenario_id (metadata p), solution_scenario_revision = scenario_revision (metadata p),
     solution_projection_version = projection_version (metadata p), solution_id = sid,
     assignments = sort_key assigned_id (projected_assignments p f g)\<rparr>"

lemma validated_values_fit:
  assumes "arithmetic_context p limits refs f" "in_domains p f" "int_ok p v"
  shows "in_i64 (f v)"
proof -
  from assms(3) obtain d where d: "domain_of p v = Some d" by (auto simp: int_ok_def)
  then have "normal_domain d" using assms(1) by (auto simp: arithmetic_context_def normal_index_def resolves_def)
  then show ?thesis using normal_domain_bounds assms(2) d by (metis in_domains_def in_i64_between)
qed

text \<open>
  C3: For a validated problem and a candidate that gives every declared variable a value of its domain,
  projection succeeds exactly if every interval that is projected and present is coherent, every
  projection provenance is a valid domain identifier, and the scenario revision is within the portable
  maximum; no value is missing and nothing overflows. The solution then has one assignment per
  projection, in strictly ascending order of assignment ids, with the exact value of its expression,
  absent for absent intervals, and its provenance as evidence.
\<close>

theorem project_candidate_exact:
  assumes "validate blake3 problem limits = Ok ()" "sane_limits limits"
    and "complete_candidate problem candidate f g" "in_domains problem f"
  shows "(project_candidate blake3 problem candidate sid limits = Ok solution \<longleftrightarrow>
      (\<forall>q \<in> set (projections problem). projected_coherent problem f g (projection_expression q) \<and>
         domain_id_valid (projection_provenance q)) \<and>
      scenario_revision (metadata problem) \<le> revision_max_v1 \<and> solution = projected_solution problem f g sid) \<and>
    strictly_sorted (map assigned_id (assignments (projected_solution problem f g sid)))"
proof -
  from assms(1,2,4) obtain refs n where ctx: "arithmetic_context problem limits refs f"
    and core: "uncontrolled (validate_core problem limits) = Ok (refs, n)" by (rule validate_context)
  from core obtain n4 n5 where prjs: "uncontrolled (validate_projections problem refs limits n4) = Ok n5" by (rule validate_core_Ok)
  note wt = validate_core_well_typed(1) [OF core]
  have dist: "distinct (map canonical_id (variables problem))" "distinct (map assignment_id (projections problem))"
    using wt by (auto simp: well_typed_def root_ok_def strictly_sorted_distinct)
  note i64 = validated_values_fit [OF ctx assms(4)]
  have ok: "projection_ok problem (projection_expression q)" if "q \<in> set (projections problem)" for q
    using wt that by (simp add: well_typed_def)
  let ?fits = "\<forall>q \<in> set (projections problem). projected_coherent problem f g (projection_expression q) \<and>
    domain_id_valid (projection_provenance q)"
  let ?xs = "sort_key assigned_id (projected_assignments problem f g)" and ?s = "projected_solution problem f g sid"
  have each: "each_o (project_assignment candidate (bt_collect (List.map_filter interval_entry (variables problem))))
      (projections problem) [] = Ok ys \<longleftrightarrow> ?fits \<and> ys = projected_assignments problem f g" for ys
    using project_assignments_exact [of "projections problem" candidate _ "projected_coherent problem f g"
        "projection_meaning problem f g" "[]" ys]
      evaluate_projection_exact [OF wt assms(3) i64 ok] context_projections [OF ctx prjs]
    by (simp add: projected_assignments_def)
  have ids: "distinct (map assigned_id ?xs)"
    using dist(2) by (auto simp: projected_assignments_def distinct_map distinct_sort inj_on_def)
  have canonical: "solution_canonicalize ?s = Ok solution \<longleftrightarrow>
      scenario_revision (metadata problem) \<le> revision_max_v1 \<and> solution = ?s" if fits: ?fits
  proof -
    have "distinct (map assigned_id (assignments ?s))" "solution_schema_version ?s = 1"
      using ids by (simp_all add: projected_solution_def)
    moreover have "length (evidence a) = 1" if "a \<in> set (assignments ?s)" for a
      using that by (auto simp: projected_solution_def projected_assignments_def)
    moreover have "assigned_interval_validate i" if "a \<in> set (assignments ?s)" "assigned_value a = AInterval i" for a i
      using that fits meaning_interval_valid [OF wt _ i64 ok]
      by (auto simp: projected_solution_def projected_assignments_def)
    ultimately have "solution_canonicalize ?s = Ok solution \<longleftrightarrow> solution_scenario_revision ?s \<le> revision_max_v1 \<and>
        solution = ?s\<lparr>assignments := sort_key assigned_id (assignments ?s)\<rparr>"
      by (intro solution_canonicalize_exact) blast+
    then show ?thesis by (simp add: projected_solution_def sort_key_id_if_sorted)
  qed
  have "project_candidate blake3 problem candidate sid limits = Ok solution \<longleftrightarrow>
      ?fits \<and> solution_canonicalize ?s = Ok solution"
    using assms(1) candidate_checks [OF assms(3,4) dist(1)] each
    by (auto simp: project_candidate_def project_candidate_inner_def normalized_solution_schema_version_def projected_solution_def)
  moreover have "strictly_sorted (map assigned_id ?xs)" using ids by (simp add: strict_sorted_iff)
  ultimately show ?thesis using canonical by (auto simp: projected_solution_def)
qed

definition sample_candidate :: planning_candidate where
  "sample_candidate = \<lparr>candidate_booleans = [(''bool.a'', True), (''bool.b'', False)],
     candidate_integers = [(''int.d'', 2), (''int.e'', 6), (''int.s'', 4), (''int.x'', 5), (''int.y'', 8)]\<rparr>"

lemma sample_complete: "complete_candidate sample_problem sample_candidate sample_values (\<lambda>v. v = ''bool.a'')"
proof -
  have "bool_ids sample_problem = {''bool.a'', ''bool.b''}"
    by (simp add: set_bool_entries [symmetric] sample_problem_def sample_variables_def sample_bool_def sample_int_def
        List.map_filter_simps)
  moreover have "int_ok sample_problem v \<longleftrightarrow> v \<in> {''int.d'', ''int.e'', ''int.s'', ''int.x'', ''int.y''}" for v
    by (auto simp: int_ok_def domain_of_def sample_problem_def sample_variables_def sample_bool_def sample_int_def split: if_splits)
  moreover have "bt_invar (candidate_booleans sample_candidate)" "bt_invar (candidate_integers sample_candidate)"
    unfolding bt_invar_def sample_candidate_def by code_simp+
  ultimately show ?thesis
    by (auto simp: complete_candidate_def sample_candidate_def bt_get_def sample_values_def)
qed

theorem project_candidate_exact_witness:
  "\<exists>solution. project_candidate (\<lambda>bytes. ''digest'') sample_problem sample_candidate ''solution'' default_limits = Ok solution \<and>
    map assigned_value (assignments solution) =
      [AInterval \<lparr>assigned_start = 4, assigned_duration = 2, assigned_end = 6\<rparr>, AInteger 5]"
proof -
  have v: "validate (\<lambda>bytes. ''digest'') sample_problem default_limits = Ok ()" "sane_limits default_limits" by code_simp+
  have "coherent sample_values (\<lambda>v. v = ''bool.a'') i" if "VInterval i \<in> set (variables sample_problem)" for i
    using that by (auto simp: coherent_def sample_problem_def sample_variables_def sample_bool_def sample_int_def sample_values_def)
  then have h: "projected_coherent sample_problem sample_values (\<lambda>v. v = ''bool.a'') e" for e
    by (auto simp: projected_coherent_def interval_of_def set_interval_entries dest!: map_of_SomeD)
  have d: "\<forall>q \<in> set (projections sample_problem). domain_id_valid (projection_provenance q)"
    "scenario_revision (metadata sample_problem) \<le> revision_max_v1"
    by code_simp+
  have r: "map assigned_value (sort_key assigned_id (projected_assignments sample_problem sample_values (\<lambda>v. v = ''bool.a''))) =
      [AInterval \<lparr>assigned_start = 4, assigned_duration = 2, assigned_end = 6\<rparr>, AInteger 5]"
    by code_simp
  let ?s = "projected_solution sample_problem sample_values (\<lambda>v. v = ''bool.a'') ''solution''"
  from project_candidate_exact [OF v sample_complete sample_in_domains, of "''solution''" ?s] h d
  have "project_candidate (\<lambda>bytes. ''digest'') sample_problem sample_candidate ''solution'' default_limits = Ok ?s" by blast
  with r show ?thesis by (auto simp: projected_solution_def)
qed

end
