(* ===== verification/Canonical_Form.thy ===== *)
theory Canonical_Form
  imports Validation_Soundness Feature_Usage "HOL-Library.Multiset"
begin

section \<open>The canonical form of a planning problem\<close>

text \<open>
  \<open>planning-ir/src/canonical.rs\<close>: \<open>PlanningProblem::canonicalize\<close> with its helpers, the view of a
  problem that is hashed, and the preimage of the fingerprint of a routed solve.
\<close>

subsection \<open>Normalisation\<close>

fun map_o :: "('a \<Rightarrow> ('e, 'b) outcome) \<Rightarrow> 'a list \<Rightarrow> ('e, 'b list) outcome" where
  "map_o f [] = Ok []"
| "map_o f (x # xs) = bind_o (f x) (\<lambda>y. bind_o (map_o f xs) (\<lambda>ys. Ok (y # ys)))"

type_synonym 'a modelled = "(model_error, 'a) outcome"

fun canonicalize_variable :: "variable \<Rightarrow> variable modelled" where
  "canonicalize_variable (VInteger v) =
     bind_o (int_domain_new (inclusive_ranges (variable_domain v))) (\<lambda>d. Ok (VInteger (v\<lparr>variable_domain := d\<rparr>)))"
| "canonicalize_variable v = Ok v"

definition canonicalize_expression :: "linear_expression \<Rightarrow> linear_expression modelled" where
  "canonicalize_expression e =
     (if list_all (\<lambda>t. coefficient t \<noteq> 0) (expr_terms e) \<and>
         list_all (\<lambda>(a, b). term_variable a < term_variable b) (windows2 (expr_terms e))
      then Ok e else linear_expression_new (expr_terms e) (expr_constant e))"

definition canonicalize_comparison :: "linear_comparison \<Rightarrow> linear_comparison modelled" where
  "canonicalize_comparison c =
     bind_o (canonicalize_expression (comparison_expression c)) (\<lambda>e. Ok (c\<lparr>comparison_expression := e\<rparr>))"

fun canonicalize_constraint_expressions :: "constraint \<Rightarrow> constraint modelled" where
  "canonicalize_constraint_expressions (LinearComparison c) =
     bind_o (canonicalize_comparison c) (\<lambda>c. Ok (LinearComparison c))"
| "canonicalize_constraint_expressions (ReifiedLinearComparison l c) =
     bind_o (canonicalize_comparison c) (\<lambda>c. Ok (ReifiedLinearComparison l c))"
| "canonicalize_constraint_expressions c = Ok c"

definition canonicalize_record :: "constraint_record \<Rightarrow> constraint_record modelled" where
  "canonicalize_record r =
     (let r = record_canonicalize r in
      bind_o (canonicalize_constraint_expressions (body r)) (\<lambda>c. Ok (r\<lparr>body := c\<rparr>)))"

definition canonicalize_term :: "objective_term \<Rightarrow> objective_term modelled" where
  "canonicalize_term t =
     bind_o (canonicalize_expression (objective_expression t)) (\<lambda>e. Ok (t\<lparr>objective_expression := e\<rparr>))"

definition canonicalize_level :: "objective_level \<Rightarrow> objective_level modelled" where
  "canonicalize_level l =
     bind_o (map_o canonicalize_term (level_terms l)) (\<lambda>ts. Ok (l\<lparr>level_terms := sort_key objective_term_id ts\<rparr>))"

definition canonicalize_objectives :: "objective_plan \<Rightarrow> objective_plan modelled" where
  "canonicalize_objectives plan = bind_o (map_o canonicalize_level (levels plan)) (\<lambda>ls. Ok (plan\<lparr>levels := ls\<rparr>))"

definition canonicalize_projection :: "solution_projection \<Rightarrow> solution_projection modelled" where
  "canonicalize_projection q =
     (case projection_expression q of
        ELinear e \<Rightarrow> bind_o (canonicalize_expression e) (\<lambda>e. Ok (q\<lparr>projection_expression := ELinear e\<rparr>))
      | _ \<Rightarrow> Ok q)"

definition declare_required :: "planning_problem \<Rightarrow> planning_problem modelled" where
  "declare_required p =
     (case feature_usage p of
        Ok usage \<Rightarrow> Ok (p\<lparr>declared_capabilities := required_capabilities usage\<rparr>)
      | _ \<Rightarrow> Abort)"

definition canonicalize :: "planning_problem \<Rightarrow> planning_problem modelled" where
  "canonicalize p =
     bind_o (map_o canonicalize_variable (variables p)) (\<lambda>vs.
     bind_o (map_o canonicalize_record (constraints p)) (\<lambda>cs.
     bind_o (canonicalize_objectives (objectives p)) (\<lambda>os.
     let as = map (\<lambda>a. a\<lparr>required_rules := sort (required_rules a)\<rparr>) (assumptions p) in
     bind_o (map_o canonicalize_projection (sort_key projection_id (projections p))) (\<lambda>qs.
     let rs = map (\<lambda>r. r\<lparr>entity_refs := sort_dedup (entity_refs r)\<rparr>) (sort_key provenance_record_id (provenance p));
         p' = p\<lparr>variables := sort_key canonical_id vs, constraints := sort_key record_id cs, objectives := os,
           assumptions := sort_key assumption_id as, projections := qs, provenance := rs\<rparr> in
     declare_required p'))))"

subsection \<open>The hashed view\<close>

definition canonical_hash_view :: "planning_problem \<Rightarrow> capability set \<Rightarrow> planning_problem" where
  "canonical_hash_view p declared = p\<lparr>metadata := (metadata p)\<lparr>display_text := []\<rparr>, declared_capabilities := declared,
     split_authorization := None\<rparr>"

subsection \<open>Traversals\<close>

lemma map_o_Ok_iff: "map_o f xs = Ok ys \<longleftrightarrow> list_all2 (\<lambda>x y. f x = Ok y) xs ys"
  by (induction xs arbitrary: ys) (auto simp: list_all2_Cons1)

lemma map_o_id: "(\<And>x. x \<in> set xs \<Longrightarrow> f x = Ok x) \<Longrightarrow> map_o f xs = Ok xs"
  by (induction xs) auto

lemma map_o_idem:
  assumes "map_o f xs = Ok ys" "\<And>x y. x \<in> set xs \<Longrightarrow> f x = Ok y \<Longrightarrow> f y = Ok y" "set zs = set ys"
  shows "map_o f zs = Ok zs"
proof (rule map_o_id)
  fix y assume "y \<in> set zs"
  then obtain i where "i < length ys" "y = ys ! i" using assms(3) by (auto simp: in_set_conv_nth)
  then have "xs ! i \<in> set xs" "f (xs ! i) = Ok y" using assms(1) by (auto simp: map_o_Ok_iff list_all2_conv_all_nth)
  then show "f y = Ok y" using assms(2) by blast
qed

lemma map_o_map: "map_o f xs = Ok ys \<Longrightarrow> (\<And>x y. f x = Ok y \<Longrightarrow> k y = k x) \<Longrightarrow> map k ys = map k xs"
  by (induction xs arbitrary: ys) auto

lemma map_o_not_Abort: "(\<And>x. x \<in> set xs \<Longrightarrow> f x \<noteq> Abort) \<Longrightarrow> map_o f xs \<noteq> Abort"
  by (induction xs) (auto simp: bind_o_Abort_iff)

subsection \<open>Each step is idempotent\<close>

lemma canonicalize_expression_iff:
  "canonicalize_expression e = (if canonical_terms (expr_terms e) then Ok e
     else linear_expression_new (expr_terms e) (expr_constant e))"
  using strictly_sorted_by_windows [of "expr_terms e" term_variable]
  by (auto simp: canonicalize_expression_def canonical_terms_def list_all_iff case_prod_unfold)

lemma canonicalize_expression_idem:
  "canonicalize_expression e = Ok e' \<Longrightarrow> canonicalize_expression e' = Ok e'"
  using linear_expression_new_correct(1) by (auto simp: canonicalize_expression_iff split: if_splits)

lemma canonicalize_expression_value: "canonicalize_expression e = Ok e' \<Longrightarrow> expr_value e' f = expr_value e f"
  using linear_expression_new_correct(2) [of "expr_terms e" "expr_constant e" e' f]
  by (auto simp: canonicalize_expression_iff expr_value_def split: if_splits)

lemma int_domain_new_idem:
  assumes "int_domain_new ranges = Ok d" "domain_in_i64 ranges"
  shows "int_domain_new (inclusive_ranges d) = Ok d"
proof -
  note c = int_domain_new_correct [OF assms]
  have "values_of rs \<subseteq> {v. in_i64 v}" if "domain_in_i64 rs" for rs
    using that by (auto simp: values_of_def range_values_def domain_in_i64_def intro: in_i64_between)
  then have "values_of (inclusive_ranges d) \<subseteq> {v. in_i64 v}" using c(2) assms(2) by simp
  then have "domain_in_i64 (inclusive_ranges d)"
    using c(1) by (force simp: domain_in_i64_def canonical_ranges_def values_of_def range_values_def)
  moreover have "inclusive_ranges d \<noteq> []"
  proof
    assume "inclusive_ranges d = []"
    then have "values_of ranges = {}" using c(2) by simp
    then show False using assms(1) by (fastforce simp: int_domain_new_def values_of_def range_values_def list_ex_iff not_less split: if_splits)
  qed
  ultimately show ?thesis using c(1) by (simp add: int_domain_new_fixpoint)
qed

definition domains_in_i64 :: "planning_problem \<Rightarrow> bool" where
  "domains_in_i64 p \<longleftrightarrow> (\<forall>v. VInteger v \<in> set (variables p) \<longrightarrow> domain_in_i64 (inclusive_ranges (variable_domain v)))"

lemma canonicalize_variable_idem:
  assumes "canonicalize_variable v = Ok w" "\<And>x. v = VInteger x \<Longrightarrow> domain_in_i64 (inclusive_ranges (variable_domain x))"
  shows "canonicalize_variable w = Ok w"
  using assms int_domain_new_idem by (cases v) auto

lemma canonicalize_comparison_idem: "canonicalize_comparison c = Ok c' \<Longrightarrow> canonicalize_comparison c' = Ok c'"
  by (auto simp: canonicalize_comparison_def dest: canonicalize_expression_idem)

lemma canonicalize_constraint_expressions_body:
  assumes "canonicalize_constraint_expressions (canonicalize_body c) = Ok d"
  shows "canonicalize_body d = d" "canonicalize_constraint_expressions d = Ok d"
proof -
  show "canonicalize_body d = d"
    using assms canonicalize_body_idem [of c] by (cases c) (auto simp: Let_def)
  show "canonicalize_constraint_expressions d = Ok d"
    using assms by (cases c) (auto simp: Let_def dest: canonicalize_comparison_idem)
qed

lemma canonicalize_record_idem:
  assumes "canonicalize_record r = Ok r'"
  shows "canonicalize_record r' = Ok r'"
proof -
  obtain d where d: "canonicalize_constraint_expressions (canonicalize_body (body r)) = Ok d"
    "r' = (record_canonicalize r)\<lparr>body := d\<rparr>"
    using assms by (auto simp: canonicalize_record_def record_canonicalize_def Let_def)
  note b = canonicalize_constraint_expressions_body [OF d(1)]
  have "record_canonicalize r' = r'"
    unfolding d(2) using b(1) by (simp add: record_canonicalize_def canonical_literals_def)
  then show ?thesis using b(2) d(2) by (simp add: canonicalize_record_def Let_def)
qed

lemma canonicalize_term_idem: "canonicalize_term t = Ok t' \<Longrightarrow> canonicalize_term t' = Ok t'"
  by (auto simp: canonicalize_term_def dest: canonicalize_expression_idem)

lemma canonicalize_level_idem:
  assumes "canonicalize_level l = Ok l'"
  shows "canonicalize_level l' = Ok l'"
proof -
  obtain ts where ts: "map_o canonicalize_term (level_terms l) = Ok ts" "l' = l\<lparr>level_terms := sort_key objective_term_id ts\<rparr>"
    using assms by (auto simp: canonicalize_level_def)
  have "map_o canonicalize_term (sort_key objective_term_id ts) = Ok (sort_key objective_term_id ts)"
    using map_o_idem [OF ts(1) canonicalize_term_idem] by simp
  then show ?thesis by (simp add: canonicalize_level_def ts(2) sort_key_id_if_sorted)
qed

lemma canonicalize_objectives_idem: "canonicalize_objectives plan = Ok plan' \<Longrightarrow> canonicalize_objectives plan' = Ok plan'"
  by (auto simp: canonicalize_objectives_def dest: map_o_idem [OF _ canonicalize_level_idem])

lemma canonicalize_projection_idem: "canonicalize_projection q = Ok q' \<Longrightarrow> canonicalize_projection q' = Ok q'"
  by (auto simp: canonicalize_projection_def dest: canonicalize_expression_idem split: projection_expression.splits)

lemma canonicalize_projection_id: "canonicalize_projection q = Ok q' \<Longrightarrow> projection_id q' = projection_id q"
  by (auto simp: canonicalize_projection_def split: projection_expression.splits)

subsection \<open>Whole problems\<close>

lemma declare_required_exact: "declare_required p = Ok (p\<lparr>declared_capabilities := used_capabilities p\<rparr>)"
  by (simp add: declare_required_def feature_usage_def uncontrolled_feature_usage_inner required_usage_of)

lemma used_capabilities_declared [simp]: "used_capabilities (p\<lparr>declared_capabilities := c\<rparr>) = used_capabilities p"
  by (simp add: used_capabilities_def occurrences_def)

lemma canonicalize_Ok_iff:
  "canonicalize p = Ok q \<longleftrightarrow> (\<exists>vs cs os qs p'.
     map_o canonicalize_variable (variables p) = Ok vs \<and> map_o canonicalize_record (constraints p) = Ok cs \<and>
     canonicalize_objectives (objectives p) = Ok os \<and>
     map_o canonicalize_projection (sort_key projection_id (projections p)) = Ok qs \<and>
     p' = p\<lparr>variables := sort_key canonical_id vs, constraints := sort_key record_id cs, objectives := os,
       assumptions := sort_key assumption_id (map (\<lambda>a. a\<lparr>required_rules := sort (required_rules a)\<rparr>) (assumptions p)),
       projections := qs,
       provenance := map (\<lambda>r. r\<lparr>entity_refs := sort_dedup (entity_refs r)\<rparr>) (sort_key provenance_record_id (provenance p))\<rparr> \<and>
     q = p'\<lparr>declared_capabilities := used_capabilities p'\<rparr>)"
  by (auto simp: canonicalize_def Let_def declare_required_exact)

lemma canonicalize_fixpointI:
  assumes "\<And>v. v \<in> set (variables p) \<Longrightarrow> canonicalize_variable v = Ok v" "sorted (map canonical_id (variables p))"
    and "\<And>r. r \<in> set (constraints p) \<Longrightarrow> canonicalize_record r = Ok r" "sorted (map record_id (constraints p))"
    and "canonicalize_objectives (objectives p) = Ok (objectives p)"
    and "\<And>a. a \<in> set (assumptions p) \<Longrightarrow> sorted (required_rules a)" "sorted (map assumption_id (assumptions p))"
    and "\<And>q. q \<in> set (projections p) \<Longrightarrow> canonicalize_projection q = Ok q" "sorted (map projection_id (projections p))"
    and "\<And>r. r \<in> set (provenance p) \<Longrightarrow> strictly_sorted (entity_refs r)" "sorted (map provenance_record_id (provenance p))"
  shows "canonicalize p = Ok (p\<lparr>declared_capabilities := used_capabilities p\<rparr>)"
proof -
  have "map (\<lambda>a. a\<lparr>required_rules := sort (required_rules a)\<rparr>) (assumptions p) = assumptions p"
    using assms(6) by (intro map_idI) (simp add: sort_key_id_if_sorted)
  moreover have "map (\<lambda>r. r\<lparr>entity_refs := sort_dedup (entity_refs r)\<rparr>) (provenance p) = provenance p"
    using assms(10) by (intro map_idI) (simp add: sort_dedup_id)
  ultimately show ?thesis
    using assms by (simp add: canonicalize_Ok_iff map_o_id sort_key_id_if_sorted)
qed

lemma well_typed_record:
  assumes "record_ok p r"
  shows "canonicalize_record r = Ok r"
proof -
  have e: "canonicalize_expression e = Ok e" if "expression_ok p e" for e
    using that by (simp add: canonicalize_expression_iff expression_ok_def canonical_terms_def)
  have "canonicalize_body (body r) = body r" "canonicalize_constraint_expressions (body r) = Ok (body r)"
    using assms
    by (cases "body r"; simp add: record_ok_def literals_ok_def table_ok_def canonical_literals_id sort_dedup_id Let_def
        canonicalize_comparison_def e strict_sorted_iff sort_key_id_if_sorted)+
  moreover have "enforcement r = canonical_literals (enforcement r)" "sort_dedup (tags r) = tags r"
    using assms by (simp_all add: record_ok_def literals_ok_def canonical_literals_id sort_dedup_id)
  ultimately show ?thesis by (simp add: canonicalize_record_def record_canonicalize_def Let_def)
qed

lemma canonicalize_well_typed:
  assumes "well_typed p"
  shows "canonicalize p = Ok (p\<lparr>declared_capabilities := used_capabilities p\<rparr>)"
proof (rule canonicalize_fixpointI)
  have e: "canonicalize_expression e = Ok e" if "expression_ok p e" for e
    using that by (simp add: canonicalize_expression_iff expression_ok_def canonical_terms_def)
  have "canonicalize_level l = Ok l" if "level_ok p l" for l
    using that e map_o_id [of "level_terms l" canonicalize_term]
    by (simp add: level_ok_def canonicalize_level_def canonicalize_term_def strict_sorted_iff sort_key_id_if_sorted)
  then show "canonicalize_objectives (objectives p) = Ok (objectives p)"
    using assms by (simp add: canonicalize_objectives_def well_typed_def map_o_id)
  show "canonicalize_variable v = Ok v" if "v \<in> set (variables p)" for v
    using assms that by (cases v) (auto simp: well_typed_def)
  show "canonicalize_projection q = Ok q" if "q \<in> set (projections p)" for q
    using assms that e by (auto simp: well_typed_def canonicalize_projection_def split: projection_expression.splits)
qed (use assms well_typed_record in \<open>auto simp: well_typed_def root_ok_def assumption_ok_def strict_sorted_iff\<close>)

text \<open>The meaning of a variable: its identity and the values it may take.\<close>

fun variable_meaning :: "variable \<Rightarrow> variable \<times> int set" where
  "variable_meaning (VInteger v) = (VInteger (v\<lparr>variable_domain := \<lparr>inclusive_ranges = []\<rparr>\<rparr>), values_of (inclusive_ranges (variable_domain v)))"
| "variable_meaning v = (v, {})"

lemma canonicalize_variable_meaning:
  assumes "canonicalize_variable v = Ok w" "\<And>x. v = VInteger x \<Longrightarrow> domain_in_i64 (inclusive_ranges (variable_domain x))"
  shows "variable_meaning w = variable_meaning v"
  using assms int_domain_new_correct(2) by (cases v) auto

lemma canonicalized_variables:
  assumes "map_o canonicalize_variable (variables p) = Ok vs" "domains_in_i64 p"
  shows "map variable_meaning vs = map variable_meaning (variables p)"
    and "\<And>w. w \<in> set vs \<Longrightarrow> canonicalize_variable w = Ok w"
proof -
  have each: "canonicalize_variable v = Ok w \<Longrightarrow> variable_meaning w = variable_meaning v \<and> canonicalize_variable w = Ok w"
    if "v \<in> set (variables p)" for v w
    using canonicalize_variable_meaning canonicalize_variable_idem assms(2) that by (metis domains_in_i64_def)
  from assms(1) have l: "list_all2 (\<lambda>v w. canonicalize_variable v = Ok w) (variables p) vs" by (simp add: map_o_Ok_iff)
  show "map variable_meaning vs = map variable_meaning (variables p)"
    using l each by (auto simp: list_eq_iff_nth_eq list_all2_conv_all_nth)
  show "canonicalize_variable w = Ok w" if "w \<in> set vs" for w
  proof -
    from that obtain i where "i < length vs" "w = vs ! i" by (auto simp: in_set_conv_nth)
    with l have "variables p ! i \<in> set (variables p)" "canonicalize_variable (variables p ! i) = Ok w"
      by (auto simp: list_all2_conv_all_nth)
    then show ?thesis using each by blast
  qed
qed

lemma canonicalize_idem:
  assumes "canonicalize p = Ok q" "domains_in_i64 p"
  shows "canonicalize q = Ok q"
proof -
  obtain vs cs os qs p' where c: "map_o canonicalize_variable (variables p) = Ok vs" "map_o canonicalize_record (constraints p) = Ok cs"
    "canonicalize_objectives (objectives p) = Ok os" "map_o canonicalize_projection (sort_key projection_id (projections p)) = Ok qs"
    and p': "p' = p\<lparr>variables := sort_key canonical_id vs, constraints := sort_key record_id cs, objectives := os,
       assumptions := sort_key assumption_id (map (\<lambda>a. a\<lparr>required_rules := sort (required_rules a)\<rparr>) (assumptions p)),
       projections := qs,
       provenance := map (\<lambda>r. r\<lparr>entity_refs := sort_dedup (entity_refs r)\<rparr>) (sort_key provenance_record_id (provenance p))\<rparr>"
    and q: "q = p'\<lparr>declared_capabilities := used_capabilities p'\<rparr>"
    using assms(1) by (auto simp: canonicalize_Ok_iff)
  have r: "canonicalize_record x = Ok x" if "x \<in> set cs" for x
    using that c(2) canonicalize_record_idem by (auto simp: map_o_Ok_iff in_set_conv_nth list_all2_conv_all_nth)
  have j: "canonicalize_projection x = Ok x" if "x \<in> set qs" for x
    using that c(4) canonicalize_projection_idem by (auto simp: map_o_Ok_iff in_set_conv_nth list_all2_conv_all_nth)
  have "map projection_id qs = map projection_id (sort_key projection_id (projections p))"
    using map_o_map [OF c(4) canonicalize_projection_id] .
  then have "sorted (map projection_id qs)" by simp
  moreover have "map provenance_record_id (map (\<lambda>r. r\<lparr>entity_refs := sort_dedup (entity_refs r)\<rparr>) xs) =
      map provenance_record_id xs" for xs by simp
  ultimately have "canonicalize q = Ok (q\<lparr>declared_capabilities := used_capabilities q\<rparr>)"
    using canonicalized_variables(2) [OF c(1) assms(2)] r j canonicalize_objectives_idem [OF c(3)]
    by (intro canonicalize_fixpointI) (auto simp: q p' o_def)
  then show ?thesis by (simp add: q)
qed

text \<open>
  C8: Canonicalization is a normal form.  Canonicalizing a canonical problem changes nothing; the
  variables keep their identities and the sets of values of their domains; and a problem that
  validates is already canonical up to its declared capabilities, which become exactly those it
  uses, so normalization cannot repair what validation rejects.
\<close>

theorem canonicalize_normal_form:
  assumes "canonicalize p = Ok q" "domains_in_i64 p"
  shows "canonicalize q = Ok q \<and>
    mset (map variable_meaning (variables q)) = mset (map variable_meaning (variables p)) \<and>
    declared_capabilities q = used_capabilities q \<and>
    (validate blake3 p limits = Ok () \<longrightarrow> q = p\<lparr>declared_capabilities := used_capabilities p\<rparr>)"
proof -
  from assms(1) obtain vs where vs: "map_o canonicalize_variable (variables p) = Ok vs"
    "variables q = sort_key canonical_id vs" "declared_capabilities q = used_capabilities q"
    by (auto simp: canonicalize_Ok_iff)
  have "mset (map variable_meaning (variables q)) = mset (map variable_meaning vs)" by (simp add: vs(2))
  also have "\<dots> = mset (map variable_meaning (variables p))"
    using canonicalized_variables(1) [OF vs(1) assms(2)] by metis
  finally have "mset (map variable_meaning (variables q)) = mset (map variable_meaning (variables p))" .
  moreover have "q = p\<lparr>declared_capabilities := used_capabilities p\<rparr>" if v: "validate blake3 p limits = Ok ()"
  proof -
    from v obtain refs n where "uncontrolled (validate_core p limits) = Ok (refs, n)" by (rule validate_Ok_core)
    from canonicalize_well_typed [OF validate_core_well_typed(1) [OF this]] assms(1) show ?thesis by simp
  qed
  ultimately show ?thesis using canonicalize_idem [OF assms] vs(3) by simp
qed

definition shuffled_problem :: planning_problem where
  "shuffled_problem = sample_problem\<lparr>variables := rev sample_variables, constraints := rev sample_constraints,
     declared_capabilities := {}\<rparr>"

theorem canonicalize_normal_form_witness:
  "canonicalize shuffled_problem = Ok sample_problem \<and> canonicalize sample_problem = Ok sample_problem"
proof -
  have c: "canonicalize shuffled_problem = Ok sample_problem" by code_simp
  have "domains_in_i64 shuffled_problem"
    by (auto simp: domains_in_i64_def shuffled_problem_def sample_variables_def sample_bool_def sample_int_def one_range_def
        domain_in_i64_def in_i64_def i64_min_def i64_max_def)
  with canonicalize_normal_form [OF c] c show ?thesis by blast
qed

end
