(* ===== verification/Protocol_Varint.thy ===== *)
theory Protocol_Varint
  imports Prelude "HOL-Library.Word"
begin

section \<open>Bytes and varints of the worker protocol\<close>

text \<open>
  The varint reader of \<open>crates/eutheto-protocol/src/strict.rs\<close> and the varint writer of
  \<open>crates/eutheto-protocol/src/frame.rs\<close>. A byte is an \<^typ>\<open>8 word\<close>, a decoded varint a
  \<^typ>\<open>64 word\<close>; a \<open>usize\<close> that is written is a natural number below \<open>2 ^ 64\<close>. The reader
  accepts exactly what the writer produces.
\<close>

unbundle bit_operations_syntax

type_synonym byte = "8 word"

definition usize_checked_add :: "usize \<Rightarrow> usize \<Rightarrow> usize option" where
  "usize_checked_add a b = u64_checked_add a b"

definition slice_get :: "'a list \<Rightarrow> usize \<Rightarrow> 'a option" where
  "slice_get xs i = (if i < length xs then Some (xs ! i) else None)"

definition slice :: "'a list \<Rightarrow> usize \<Rightarrow> usize \<Rightarrow> 'a list" where
  "slice xs a b = take (b - a) (drop a xs)"

lemma drop_parts: "drop p xs = a @ rest \<Longrightarrow> drop (p + length a) xs = rest"
  by (metis append_eq_conv_conj drop_drop add.commute)

lemma drop_parts_length: "drop p xs = a @ rest \<Longrightarrow> a \<noteq> [] \<Longrightarrow> p + length a \<le> length xs"
proof -
  assume d: "drop p xs = a @ rest" and "a \<noteq> []"
  then have "p < length xs" by (metis append_is_Nil_conv drop_eq_Nil not_le)
  with d show ?thesis by (metis length_append length_drop le_add1 le_diff_conv2 less_imp_le_nat add.commute)
qed

subsection \<open>Definitions\<close>

datatype varint_error = VarintMalformed | VarintNonCanonical

function canonical_varint_len :: "64 word \<Rightarrow> nat" where
  "canonical_varint_len v = (if v \<ge> 128 then Suc (canonical_varint_len (drop_bit 7 v)) else 1)"
  by auto
termination
proof (relation "measure unat")
  fix v :: "64 word" assume "v \<ge> 128"
  then have "unat v \<ge> 128" by (simp add: word_le_nat_alt)
  then show "(drop_bit 7 v, v) \<in> measure unat" by (simp add: unat_drop_bit_eq) (simp add: drop_bit_eq_div)
qed simp

declare canonical_varint_len.simps [simp del]

fun parse_varint_loop ::
    "byte list \<Rightarrow> usize \<Rightarrow> nat list \<Rightarrow> 64 word \<Rightarrow> (varint_error, 64 word \<times> usize) outcome" where
  "parse_varint_loop bytes start [] v = Err VarintMalformed"
| "parse_varint_loop bytes start (index # indices) v =
     bind_o (ok_or VarintMalformed (usize_checked_add start index)) (\<lambda>position.
     bind_o (ok_or VarintMalformed (slice_get bytes position)) (\<lambda>b.
     if index = 9 \<and> b > 1 then Err VarintMalformed
     else let v = v OR push_bit (index * 7) (ucast (b AND 0x7F)) in
       if b AND 0x80 = 0 then
         (if index + 1 \<noteq> canonical_varint_len v then Err VarintNonCanonical else Ok (v, position + 1))
       else parse_varint_loop bytes start indices v))"

definition parse_varint :: "byte list \<Rightarrow> usize \<Rightarrow> (varint_error, 64 word \<times> usize) outcome" where
  "parse_varint bytes start = parse_varint_loop bytes start [0..<10] 0"

function varint_bytes :: "usize \<Rightarrow> byte list" where
  "varint_bytes value =
     (let low = word_of_nat (value AND 0x7F); rest = drop_bit 7 value in
      if rest = 0 then [low] else (low OR 0x80) # varint_bytes rest)"
  by auto
termination by (relation "measure id") (auto simp: drop_bit_eq_div)

declare varint_bytes.simps [simp del]

function varint_length :: "usize \<Rightarrow> usize" where
  "varint_length value = (if value \<ge> 0x80 then Suc (varint_length (drop_bit 7 value)) else 1)"
  by auto
termination by (relation "measure id") (auto simp: drop_bit_eq_div)

declare varint_length.simps [simp del]

subsection \<open>Lengths\<close>

lemma nat_and_127: "(n :: nat) AND 0x7F = n mod 128"
proof -
  have "(0x7F :: nat) = mask 7" by (simp add: mask_eq_exp_minus_1)
  then show ?thesis by (simp only: take_bit_eq_mask [symmetric]) (simp add: take_bit_eq_mod)
qed

lemma drop_7: "drop_bit 7 n = n div 128" for n :: nat
  by (simp add: drop_bit_eq_div)

lemma varint_bytes_small: "n < 128 \<Longrightarrow> varint_bytes n = [word_of_nat n]"
  by (subst varint_bytes.simps) (simp add: nat_and_127 drop_bit_eq_div)

lemma varint_bytes_large:
  "128 \<le> n \<Longrightarrow> varint_bytes n = (word_of_nat (n mod 128) OR 0x80) # varint_bytes (n div 128)"
  by (subst varint_bytes.simps) (simp add: nat_and_127 drop_bit_eq_div Let_def)

lemma length_varint_bytes: "length (varint_bytes n) = varint_length n"
  by (induction n rule: varint_length.induct)
    (subst varint_length.simps, simp add: varint_bytes_small varint_bytes_large drop_bit_eq_div)

lemma canonical_varint_len_eq: "canonical_varint_len v = varint_length (unat v)"
  by (induction v rule: canonical_varint_len.induct)
    (subst canonical_varint_len.simps, subst varint_length.simps,
     simp add: word_le_nat_alt unat_drop_bit_eq)

lemma varint_length_pos [simp]: "0 < varint_length n"
  by (subst varint_length.simps) simp

lemma varint_bytes_nonempty [simp]: "varint_bytes n \<noteq> []"
  by (cases "n < 128") (simp_all add: varint_bytes_small varint_bytes_large)

lemma varint_length_le: "n < 128 ^ Suc k \<Longrightarrow> varint_length n \<le> Suc k"
proof (induction k arbitrary: n)
  case (Suc k)
  then have "n div 128 < 128 ^ Suc k" by (simp add: less_mult_imp_div_less)
  with Suc.IH show ?case by (subst varint_length.simps) (simp add: drop_bit_eq_div)
qed (subst varint_length.simps, simp)

lemma varint_length_usize: "n \<le> u64_max \<Longrightarrow> varint_length n \<le> 10"
  by (rule varint_length_le [of n 9, simplified]) (simp add: u64_max_def)

subsection \<open>The groups of a varint\<close>

lemma byte_and_127: "unat (b AND 0x7F :: byte) = unat b mod 128"
proof -
  have "(0x7F :: byte) = mask 7" by (simp add: mask_eq_exp_minus_1)
  then show ?thesis by (simp only: take_bit_eq_mask [symmetric] unsigned_take_bit_eq) (simp add: take_bit_eq_mod)
qed

lemma byte_less: "unat (b :: byte) < 256"
  using unsigned_less [of b] by simp

lemma byte_and_128: "(b AND 0x80 :: byte) = 0 \<longleftrightarrow> unat b < 128"
proof -
  have "(b AND 0x80) = 0 \<longleftrightarrow> \<not> bit b 7" using and_exp_eq_0_iff_not_bit [of b 7] by simp
  also have "\<dots> \<longleftrightarrow> even (unat b div 128)" using bit_unsigned_iff [of b 7] by (auto simp: bit_iff_odd)
  also have "\<dots> \<longleftrightarrow> unat b < 128" 
  proof -
    have "unat b div 128 < 2" using byte_less [of b] by (intro less_mult_imp_div_less) simp
    then have "unat b div 128 = 0 \<or> unat b div 128 = 1" by linarith
    then show ?thesis by (auto simp: div_eq_0_iff)
  qed
  finally show ?thesis .
qed

lemma nat_or_push_bit: "a < 2 ^ k \<Longrightarrow> a OR push_bit k b = a + b * 2 ^ k" for a b :: nat
proof -
  assume "a < 2 ^ k"
  then have "take_bit k (int a) = int a" by (simp add: take_bit_int_eq_self_iff)
  with concat_bit_eq [of k "int a" "int b"]
  have "int (a OR push_bit k b) = int (a + b * 2 ^ k)"
    by (simp add: concat_bit_def of_nat_or_eq of_nat_push_bit push_bit_eq_mult)
  then show ?thesis by (simp only: of_nat_eq_iff)
qed

lemma or_push_group:
  assumes "unat a < 2 ^ k" "unat (w :: 64 word) * 2 ^ k < 2 ^ 64"
  shows "unat (a OR push_bit k w) = unat a + unat w * 2 ^ k"
proof -
  have "unat (push_bit k w) = push_bit k (unat w)"
    using assms(2) by (simp only: unsigned_push_bit_eq) (simp add: push_bit_eq_mult take_bit_nat_eq_self_iff)
  with assms(1) show ?thesis by (simp add: unsigned_or_eq nat_or_push_bit)
qed

lemma or_group:
  assumes "unat a < 2 ^ (7 * i)" "i \<le> 8 \<or> i = 9 \<and> unat b \<le> 1"
  shows "unat (a OR push_bit (i * 7) (ucast (b AND 0x7F :: byte) :: 64 word)) = unat a + (unat b mod 128) * 2 ^ (7 * i)"
    and "unat b mod 128 * 2 ^ (7 * i) < 2 ^ 64"
proof -
  show b: "unat b mod 128 * 2 ^ (7 * i) < 2 ^ 64"
  proof (cases "i \<le> 8")
    case True
    have "unat b mod 128 * 2 ^ (7 * i) < 2 ^ 7 * 2 ^ (7 * i)" by simp
    also have "\<dots> \<le> (2 :: nat) ^ 64" unfolding power_add [symmetric] using True by (intro power_increasing) simp_all
    finally show ?thesis .
  next
    case False
    with assms(2) have "i = 9" "unat b = 0 \<or> unat b = 1" by auto
    then show ?thesis by auto
  qed
  have u: "unat (ucast (b AND 0x7F) :: 64 word) = unat b mod 128"
    unfolding byte_and_127 [symmetric] by (simp add: unsigned_ucast_eq take_bit_nat_eq_self_iff byte_and_127)
  show "unat (a OR push_bit (i * 7) (ucast (b AND 0x7F) :: 64 word)) = unat a + (unat b mod 128) * 2 ^ (7 * i)"
    using or_push_group [of a "7 * i" "ucast (b AND 0x7F)"] assms(1) b u by (simp add: mult.commute)
qed

subsection \<open>Reading and writing are inverse\<close>

lemma parse_varint_loop_end:
  "drop (start + i) bytes = [] \<Longrightarrow> i < 10 \<Longrightarrow> parse_varint_loop bytes start [i..<10] a = Err VarintMalformed"
  by (simp add: upt_rec [of i] slice_get_def ok_or_def split: option.split)
    (simp add: usize_checked_add_def)

lemma parse_varint_loop_step:
  assumes "length bytes \<le> u64_max" "i < 10" "drop (start + i) bytes = b # t"
  shows "parse_varint_loop bytes start [i..<10] a =
    (if i = 9 \<and> unat b > 1 then Err VarintMalformed
     else let v = a OR push_bit (i * 7) (ucast (b AND 0x7F)) in
       if unat b < 128 then
         (if i + 1 \<noteq> varint_length (unat v) then Err VarintNonCanonical else Ok (v, start + i + 1))
       else parse_varint_loop bytes start [Suc i..<10] v)"
proof -
  have l: "start + i < length bytes" using assms(3) by (metis drop_eq_Nil list.distinct(1) not_le)
  have "slice_get bytes (start + i) = Some b"
    using l assms(3) by (simp add: slice_get_def Cons_nth_drop_Suc [symmetric])
  moreover have "usize_checked_add start i = Some (start + i)"
    using l assms(1) by (simp add: usize_checked_add_def u64_checked_add_def)
  ultimately show ?thesis
    using assms(2) by (simp add: upt_rec [of i] byte_and_128 canonical_varint_len_eq word_less_nat_alt Let_def)
qed

lemma unat_small_byte: "m < 256 \<Longrightarrow> unat (word_of_nat m :: byte) = m"
  by (simp add: unat_of_nat)

lemma high_group: "m < 128 \<Longrightarrow> unat (word_of_nat m OR 0x80 :: byte) = m + 128"
  using nat_or_push_bit [of m 7 1] unat_small_byte [of m] by (simp only: unsigned_or_eq) simp

lemma continued_group: "\<not> unat b < 128 \<Longrightarrow> (word_of_nat (unat b mod 128) OR 0x80 :: byte) = b"
proof -
  assume "\<not> unat b < 128"
  then have "unat b = (unat b - 128) + 128" "(unat b - 128) mod 128 = unat b - 128" using byte_less [of b] by simp_all
  then have "unat b = unat b mod 128 + 128" by (metis mod_add_self2)
  then show ?thesis by (simp only: word_unat_eq_iff) (simp add: high_group)
qed

lemma varint_bytes_Cons:
  assumes "varint_bytes n = b # t"
  shows "unat b mod 128 = n mod 128 \<and> (unat b < 128 \<longleftrightarrow> n < 128) \<and> (n \<ge> 128 \<longrightarrow> t = varint_bytes (n div 128))"
proof (cases "n < 128")
  case True
  with assms show ?thesis by (auto simp: varint_bytes_small unat_small_byte)
next
  case False
  with assms have "b = word_of_nat (n mod 128) OR 0x80" "t = varint_bytes (n div 128)"
    by (simp_all add: varint_bytes_large)
  with False show ?thesis by (simp add: high_group)
qed

lemma group_bound:
  assumes "unat a < 2 ^ (7 * i)"
  shows "unat a + unat (b :: byte) mod 128 * 2 ^ (7 * i) < 2 ^ (7 * Suc i)"
proof -
  have "unat a + unat b mod 128 * 2 ^ (7 * i) < 2 ^ (7 * i) + 127 * 2 ^ (7 * i)"
    using assms by (intro add_less_le_mono mult_right_mono) auto
  then show ?thesis by (simp add: power_add)
qed

lemma parse_varint_loop_Ok:
  assumes "length bytes \<le> u64_max" "i \<le> 9" "unat a < 2 ^ (7 * i)"
    and "parse_varint_loop bytes start [i..<10] a = Ok (v, after)"
  shows "\<exists>n m. unat v = unat a + n * 2 ^ (7 * i) \<and> after = start + i + m \<and> i + m = varint_length (unat v) \<and>
    after \<le> length bytes \<and> varint_length n \<le> m \<and>
    (varint_length n = m \<longrightarrow> take m (drop (start + i) bytes) = varint_bytes n)"
  using assms(2-4)
proof (induction "9 - i" arbitrary: i a rule: less_induct)
  case less
  obtain b t where d: "drop (start + i) bytes = b # t"
    using less.prems parse_varint_loop_end [of start i bytes a] by (cases "drop (start + i) bytes") auto
  define v' where "v' = a OR push_bit (i * 7) (ucast (b AND 0x7F) :: 64 word)"
  have l: "start + i < length bytes" using d by (metis drop_eq_Nil list.distinct(1) not_le)
  have s: "\<not> (i = 9 \<and> unat b > 1)"
    "(if unat b < 128 then (if i + 1 \<noteq> varint_length (unat v') then Err VarintNonCanonical else Ok (v', start + i + 1))
      else parse_varint_loop bytes start [Suc i..<10] v') = Ok (v, after)"
    using less.prems parse_varint_loop_step [OF assms(1) _ d, of a]
    by (auto simp: v'_def Let_def split: if_splits)
  have v': "unat v' = unat a + unat b mod 128 * 2 ^ (7 * i)"
    unfolding v'_def using less.prems(1,2) s(1) by (intro or_group(1)) linarith+
  show ?case
  proof (cases "unat b < 128")
    case True
    with s have "v = v'" "after = start + i + 1" "i + 1 = varint_length (unat v)" by (auto split: if_splits)
    moreover have "varint_length (unat b) = 1" using True by (subst varint_length.simps) simp
    ultimately show ?thesis using True v' l d
      by (intro exI [of _ "unat b"] exI [of _ 1]) (simp add: varint_bytes_small)
  next
    case False
    with s less.prems(1) have i: "i < 9" by (cases "i = 9") auto
    have v2: "unat v' < 2 ^ (7 * Suc i)" using group_bound [OF less.prems(2), of b] v' by simp
    obtain n m where n: "unat v = unat v' + n * 2 ^ (7 * Suc i)" "after = start + Suc i + m"
      "Suc i + m = varint_length (unat v)" "after \<le> length bytes" "varint_length n \<le> m"
      "varint_length n = m \<longrightarrow> take m (drop (start + Suc i) bytes) = varint_bytes n"
      using less.hyps [of "Suc i" v'] i s(2) False v2 by (metis Suc_leI diff_less_mono2 lessI)
    let ?n = "unat b mod 128 + n * 128"
    have t: "t = drop (start + Suc i) bytes" using d by (metis drop_Suc drop_drop add_Suc_right list.sel(3) tl_drop add.commute)
    have len: "varint_length ?n = (if n = 0 then 1 else Suc (varint_length n))"
      by (subst varint_length.simps) (auto simp: drop_bit_eq_div not_le)
    have m: "0 < m" using n(5) varint_length_pos [of n] by linarith
    have "varint_bytes ?n = b # varint_bytes n" if "n \<noteq> 0"
      using that False by (simp add: varint_bytes_large continued_group)
    then have "varint_length ?n = Suc m \<longrightarrow> take (Suc m) (drop (start + i) bytes) = varint_bytes ?n"
      using len n(6) t d m by (cases "n = 0") auto
    moreover have "unat v = unat a + ?n * 2 ^ (7 * i)" using n(1) v' by (simp add: power_add algebra_simps)
    moreover have "varint_length ?n \<le> Suc m" using len n(5) by (simp split: if_splits)
    ultimately show ?thesis using n(2-4) by (intro exI conjI) auto
  qed
qed

lemma parse_varint_loop_write:
  assumes "length bytes \<le> u64_max" "i \<le> 9" "unat a < 2 ^ (7 * i)" "n * 2 ^ (7 * i) < 2 ^ 64"
    and "drop (start + i) bytes = varint_bytes n @ rest"
  shows "\<exists>v. unat v = unat a + n * 2 ^ (7 * i) \<and> parse_varint_loop bytes start [i..<10] a =
    (if i + varint_length n \<noteq> varint_length (unat v) then Err VarintNonCanonical
     else Ok (v, start + i + varint_length n))"
  using assms(2-5)
proof (induction n arbitrary: i a rule: varint_bytes.induct)
  case (1 n)
  obtain b t where d: "drop (start + i) bytes = b # t" and b: "b # t = varint_bytes n @ rest"
    using "1.prems"(4) by (cases "varint_bytes n") auto
  then obtain t' where h: "varint_bytes n = b # t'" "t = t' @ rest" by (cases "varint_bytes n") auto
  have B: "unat b mod 128 = n mod 128" "unat b < 128 \<longleftrightarrow> n < 128" "n \<ge> 128 \<Longrightarrow> t' = varint_bytes (n div 128)"
    using varint_bytes_Cons [OF h(1)] by simp_all
  have i9: "n < 2" if "i = 9" using "1.prems"(3) that by simp
  have b9: "\<not> (i = 9 \<and> unat b > 1)" using i9 B(1,2) by auto
  define v' where "v' = a OR push_bit (i * 7) (ucast (b AND 0x7F) :: 64 word)"
  have v': "unat v' = unat a + n mod 128 * 2 ^ (7 * i)"
    unfolding v'_def B(1) [symmetric] using "1.prems"(1,2) b9 by (intro or_group(1)) linarith+
  show ?case
  proof (cases "n < 128")
    case True
    moreover have "varint_length n = 1" using True by (subst varint_length.simps) simp
    ultimately show ?thesis
      using parse_varint_loop_step [OF assms(1) _ d, of a] b9 B(2) v' "1.prems"(1)
      by (intro exI [of _ v']) (simp add: Let_def flip: v'_def)
  next
    case False
    with i9 "1.prems"(1) have i: "i < 9" by (cases "i = 9") auto
    have "unat v' < 2 ^ (7 * Suc i)" using group_bound [OF "1.prems"(2), of b] v' B(1) by simp
    moreover have e: "n div 128 * 2 ^ (7 * Suc i) = (n - n mod 128) * 2 ^ (7 * i)"
      by (simp add: power_add minus_mod_eq_div_mult [symmetric])
    then have "n div 128 * 2 ^ (7 * Suc i) < 2 ^ 64"
      using "1.prems"(3) by (metis diff_le_self le_less_trans mult_le_mono1)
    moreover have "drop (start + Suc i) bytes = varint_bytes (n div 128) @ rest"
      using d h(2) B(3) False by (metis add_Suc_right drop_Suc list.sel(3) not_le_imp_less tl_drop)
    ultimately obtain v where v: "unat v = unat v' + n div 128 * 2 ^ (7 * Suc i)"
      "parse_varint_loop bytes start [Suc i..<10] v' =
        (if Suc i + varint_length (n div 128) \<noteq> varint_length (unat v) then Err VarintNonCanonical
         else Ok (v, start + Suc i + varint_length (n div 128)))"
      using "1.IH" [OF refl refl, of "Suc i" v', unfolded drop_7] False i
      by (metis Suc_leI div_greater_zero_iff not_less zero_less_numeral not_gr_zero)
    have "varint_length n = Suc (varint_length (n div 128))"
      using False by (subst varint_length.simps) (simp add: drop_bit_eq_div)
    moreover have "unat v = unat a + n * 2 ^ (7 * i)"
      unfolding v(1) v' e by (simp add: diff_mult_distrib)
    ultimately show ?thesis
      using parse_varint_loop_step [OF assms(1) _ d, of a] b9 B(2) False i v(2)
      by (intro exI [of _ v]) (simp add: Let_def flip: v'_def)
  qed
qed

lemma parse_varint_Ok_iff:
  assumes "length bytes \<le> u64_max"
  shows "parse_varint bytes start = Ok (v, after) \<longleftrightarrow>
    (\<exists>rest. drop start bytes = varint_bytes (unat v) @ rest \<and> after = start + varint_length (unat v))"
proof
  assume "parse_varint bytes start = Ok (v, after)"
  then obtain n m where n: "unat v = n" "after = start + m" "m = varint_length (unat v)"
    "varint_length n = m \<longrightarrow> take m (drop start bytes) = varint_bytes n"
    using parse_varint_loop_Ok [OF assms, of 0 0 start v after] by (auto simp: parse_varint_def)
  then show "\<exists>rest. drop start bytes = varint_bytes (unat v) @ rest \<and> after = start + varint_length (unat v)"
    by (metis append_take_drop_id)
next
  assume "\<exists>rest. drop start bytes = varint_bytes (unat v) @ rest \<and> after = start + varint_length (unat v)"
  then obtain rest where r: "drop start bytes = varint_bytes (unat v) @ rest" "after = start + varint_length (unat v)" by blast
  have "unat v < 2 ^ 64" using unsigned_less [of v] by simp
  with r parse_varint_loop_write [OF assms, of 0 0 "unat v" start rest]
  show "parse_varint bytes start = Ok (v, after)"
    by (auto simp: parse_varint_def word_unat_eq_iff [symmetric])
qed

text \<open>
  C30: The varint reader inverts the varint writer: reading at a position succeeds with a value
  exactly if the writer's encoding of that value starts there, and the position returned is the one
  right after it. Every value therefore has exactly one accepted encoding.
\<close>

theorem parse_varint_exact:
  assumes "length bytes \<le> u64_max"
  shows "parse_varint bytes start = Ok (v, after) \<longleftrightarrow>
    (\<exists>rest. drop start bytes = varint_bytes (unat v) @ rest \<and> after = start + varint_length (unat v))"
  by (rule parse_varint_Ok_iff [OF assms])

theorem parse_varint_exact_witness:
  "parse_varint [0xFF, 0x80, 0x01, 0x07] 1 = Ok (128, 3)"
proof -
  have "length [0xFF, 0x80, 0x01, 0x07 :: byte] \<le> u64_max" by (simp add: u64_max_def)
  from parse_varint_exact [OF this, of 1 128 3] show ?thesis
    by (simp add: varint_bytes_small varint_bytes_large varint_length.simps drop_bit_eq_div)
qed

end
