(* ===== verification/Protocol_Policy.thy ===== *)
theory Protocol_Policy
  imports Protocol_Varint
begin

section \<open>Faults and policy of the worker protocol\<close>

text \<open>
  \<open>crates/eutheto-protocol/src/fault.rs\<close> and \<open>limits.rs\<close>: the faults a protocol operation reports,
  the frame classes, and the policy document with its validation. The checked-in document
  \<open>protocol/version.json\<close> is written out as a value and shown to be accepted.
\<close>

subsection \<open>Faults\<close>

type_synonym u32 = nat
type_synonym error_kind = string

datatype policy_message =
    PolicyText string
  | PolicyFieldLimit string
  | PolicyFieldKey string

datatype frame_fault =
    TruncatedPrefix usize
  | ZeroLength
  | Oversized string usize usize
  | WrongClass string
  | TruncatedPayload usize usize
  | FrameLengthOverflow
  | FrameAllocation
  | EmptyEncoding
  | StreamingRequired
  | FrameEncode string
  | SchemaDrift

datatype wire_violation =
    MalformedTag
  | MalformedVarint
  | NonCanonicalVarint
  | InvalidFieldNumber
  | InvalidWireType nat
  | ReservedField u32
  | WrongWireType string nat string
  | DuplicateSingular string
  | ConflictingOneof string string string
  | WireLengthOverflow
  | TruncatedLength
  | TruncatedFixed
  | NestingDepth usize
  | RepeatedCount string usize
  | FieldBytes string usize usize
  | InvalidBool string "64 word"
  | IntegerRange string "64 word"
  | InvalidUtf8 string
  | GroupViolation

datatype state_fault =
    UnexpectedParent string string
  | UnexpectedWorker string string
  | MissingWorkerBody
  | MissingParentBody
  | InvalidCapability
  | DuplicateCapability int
  | CapabilityDisabled int
  | InvalidHandshake string
  | ModelFingerprint
  | InvalidSolveRequest string
  | ProtocolVersion u32 u32 u32 u32
  | InvalidVersion string
  | VersionMismatch string
  | BackendIdentity
  | ManifestSha256
  | MissingCapability int
  | UnnegotiatedCapability string int
  | RequestId
  | InvalidWorkerField string
  | DuplicateProjection u64
  | UnrequestedProjection u64
  | MissingProjection u64
  | MissingTerminal
  | ContradictoryExit int
  | ExitBeforeEof
  | DuplicateExit
  | CompletionUnavailable string
  | StderrLimit

datatype protocol_fault =
    PolicyFault policy_message
  | DescriptorFault string
  | FrameFault frame_fault
  | WireFault string usize wire_violation
  | DecodeFault string string
  | StateFault state_fault
  | IoFault string error_kind

subsection \<open>Frame classes and the policy\<close>

datatype frame_class = HandshakeClass | SolveRequestClass | WorkerEventClass

fun policy_name :: "frame_class \<Rightarrow> string" where
  "policy_name HandshakeClass = ''handshake''"
| "policy_name SolveRequestClass = ''solve_request''"
| "policy_name WorkerEventClass = ''worker_event''"

record frame_class_policy =
  max_payload_bytes :: usize
  routes :: "string list"

record field_limit =
  max_bytes :: "usize option"
  max_count :: "usize option"

record global_limits =
  max_nesting_depth :: usize
  max_repeated_field_items :: usize
  max_worker_threads :: u32
  max_string_bytes :: usize
  total_session_bytes :: usize
  frames_per_session :: usize
  events_per_session :: usize
  events_per_second :: usize
  max_stderr_bytes :: usize

record protocol_policy =
  hash_algorithm :: string
  hash_domain_separator :: string
  protocol :: string
  accepted_protocol_majors :: "u32 list"
  unknown_major_action :: string
  package :: string
  version_major :: u32
  version_minor :: u32
  handshake_class :: frame_class_policy
  solve_request_class :: frame_class_policy
  worker_event_class :: frame_class_policy
  length_prefix_bytes :: usize
  length_prefix_order :: string
  min_payload_bytes :: usize
  policy_limits :: global_limits
  field_limits :: "(string, field_limit) btree_map"

definition max_ortools_worker_threads :: u32 where
  "max_ortools_worker_threads = 10000"

definition applied_parameters_domain :: string where
  "applied_parameters_domain = ''eutheto.applied-solve-parameters.v1'' @ [CHR 0x00]"

definition accepts_protocol_major :: "protocol_policy \<Rightarrow> u32 \<Rightarrow> bool" where
  "accepts_protocol_major policy major = (major \<in> set (accepted_protocol_majors policy))"

fun policy_frame :: "protocol_policy \<Rightarrow> frame_class \<Rightarrow> frame_class_policy" where
  "policy_frame policy HandshakeClass = handshake_class policy"
| "policy_frame policy SolveRequestClass = solve_request_class policy"
| "policy_frame policy WorkerEventClass = worker_event_class policy"

definition frame_cap :: "protocol_policy \<Rightarrow> frame_class \<Rightarrow> usize" where
  "frame_cap policy class = max_payload_bytes (policy_frame policy class)"

definition policy_field_limit :: "protocol_policy \<Rightarrow> string \<Rightarrow> field_limit" where
  "policy_field_limit policy field =
     (case bt_get (field_limits policy) field of
        Some l \<Rightarrow> l | None \<Rightarrow> \<lparr>max_bytes = None, max_count = None\<rparr>)"

definition handshake_routes :: "string list" where
  "handshake_routes = [''ParentFrame.handshake_request'', ''WorkerFrame.handshake_response'']"

definition solve_request_routes :: "string list" where
  "solve_request_routes = [''ParentFrame.solve_request'']"

definition worker_event_routes :: "string list" where
  "worker_event_routes = [''WorkerFrame.started'', ''WorkerFrame.progress'', ''WorkerFrame.incumbent'',
     ''WorkerFrame.finished'', ''WorkerFrame.error'']"

definition policy_error :: "string \<Rightarrow> (protocol_fault, 'a) outcome" where
  "policy_error message = Err (PolicyFault (PolicyText message))"

definition validate_frame_class ::
    "string \<times> frame_class_policy \<times> string list \<Rightarrow> (protocol_fault, unit) outcome" where
  "validate_frame_class entry = (case entry of (name, class, expected) \<Rightarrow>
     if max_payload_bytes class = 0 then
       policy_error (''frame class '' @ name @ '' must have a nonzero cap'')
     else if length (routes class) \<noteq> length expected \<or> set (routes class) \<noteq> set expected then
       policy_error (''frame class '' @ name @ '' routes do not match the implemented route set'')
     else Ok ())"

definition validate_field_limit :: "string \<times> field_limit \<Rightarrow> (protocol_fault, unit) outcome" where
  "validate_field_limit entry = (case entry of (field, limit) \<Rightarrow>
     if field = [] \<or> max_bytes limit = Some 0 \<or> max_count limit = Some 0 \<or>
        (max_bytes limit = None \<and> max_count limit = None)
     then Err (PolicyFault (PolicyFieldLimit field)) else Ok ())"

definition policy_validate :: "protocol_policy \<Rightarrow> (protocol_fault, unit) outcome" where
  "policy_validate policy =
     (if hash_algorithm policy \<noteq> ''sha256'' \<or> hash_domain_separator policy \<noteq> applied_parameters_domain then
        policy_error ''applied-parameter hash policy does not match the runtime''
      else if package policy \<noteq> ''eutheto.worker.v1'' \<or> protocol policy \<noteq> ''eutheto.solver-worker'' then
        policy_error ''protocol or package identity does not match the runtime''
      else if accepted_protocol_majors policy = [] \<or>
          \<not> accepts_protocol_major policy (version_major policy) \<or>
          unknown_major_action policy \<noteq> ''typed_handshake_error_then_close'' then
        policy_error ''protocol-major compatibility policy is invalid''
      else if 0 \<in> set (accepted_protocol_majors policy) \<or> \<not> distinct (accepted_protocol_majors policy) then
        policy_error ''accepted protocol majors must be nonzero and unique''
      else if length_prefix_bytes policy \<noteq> 4 \<or> length_prefix_order policy \<noteq> ''big-endian'' \<or>
          min_payload_bytes policy \<noteq> 1 then
        policy_error ''framing must use a four-byte big-endian length and nonempty payloads''
      else bind_o (each_o (\<lambda>c _. validate_frame_class c)
          [(''handshake'', handshake_class policy, handshake_routes),
           (''solve_request'', solve_request_class policy, solve_request_routes),
           (''worker_event'', worker_event_class policy, worker_event_routes)] ()) (\<lambda>_.
        let limits = policy_limits policy in
        if max_nesting_depth limits = 0 \<or> max_repeated_field_items limits = 0 \<or>
           max_string_bytes limits = 0 \<or> total_session_bytes limits = 0 \<or>
           frames_per_session limits = 0 \<or> events_per_session limits = 0 \<or>
           events_per_second limits = 0 \<or> max_stderr_bytes limits = 0 \<or>
           max_worker_threads limits \<noteq> max_ortools_worker_threads then
          policy_error ''all global limits must be nonzero''
        else each_o (\<lambda>l _. validate_field_limit l) (field_limits policy) ()))"

subsection \<open>The checked-in document\<close>

definition bytes_limit :: "string \<Rightarrow> usize \<Rightarrow> string \<times> field_limit" where
  "bytes_limit field n = (''eutheto.worker.v1.'' @ field, \<lparr>max_bytes = Some n, max_count = None\<rparr>)"

definition count_limit :: "string \<Rightarrow> usize \<Rightarrow> string \<times> field_limit" where
  "count_limit field n = (''eutheto.worker.v1.'' @ field, \<lparr>max_bytes = None, max_count = Some n\<rparr>)"

definition checked_in_policy :: protocol_policy where
  "checked_in_policy =
     \<lparr>hash_algorithm = ''sha256'', hash_domain_separator = applied_parameters_domain,
      protocol = ''eutheto.solver-worker'', accepted_protocol_majors = [1],
      unknown_major_action = ''typed_handshake_error_then_close'', package = ''eutheto.worker.v1'',
      version_major = 1, version_minor = 1,
      handshake_class = \<lparr>max_payload_bytes = 1048576, routes = handshake_routes\<rparr>,
      solve_request_class = \<lparr>max_payload_bytes = 268435456, routes = solve_request_routes\<rparr>,
      worker_event_class = \<lparr>max_payload_bytes = 16777216, routes = worker_event_routes\<rparr>,
      length_prefix_bytes = 4, length_prefix_order = ''big-endian'', min_payload_bytes = 1,
      policy_limits =
        \<lparr>max_nesting_depth = 8, max_repeated_field_items = 100000, max_worker_threads = 10000,
         max_string_bytes = 4096, total_session_bytes = 536870912, frames_per_session = 4099,
         events_per_session = 4096, events_per_second = 64, max_stderr_bytes = 4194304\<rparr>,
      field_limits =
        [bytes_limit ''Finished.applied_parameters_sha256'' 32,
         count_limit ''Finished.best_bound_values'' 64,
         bytes_limit ''Finished.model_fingerprint'' 32,
         count_limit ''Finished.objective_values'' 64,
         bytes_limit ''Finished.request_id'' 64,
         count_limit ''Finished.sufficient_assumptions'' 100000,
         bytes_limit ''HandshakeError.message'' 512,
         bytes_limit ''HandshakeRequest.core_version'' 64,
         bytes_limit ''HandshakeRequest.expected_backend_id'' 128,
         bytes_limit ''HandshakeRequest.expected_manifest_sha256'' 32,
         count_limit ''HandshakeRequest.required_capabilities'' 64,
         bytes_limit ''HandshakeSuccess.adapter_version'' 64,
         bytes_limit ''HandshakeSuccess.backend_id'' 128,
         count_limit ''HandshakeSuccess.capabilities'' 64,
         bytes_limit ''HandshakeSuccess.manifest_sha256'' 32,
         bytes_limit ''HandshakeSuccess.ortools_version'' 64,
         bytes_limit ''HandshakeSuccess.worker_identity'' 256,
         bytes_limit ''HandshakeSuccess.worker_version'' 64,
         count_limit ''Incumbent.best_bound_values'' 64,
         count_limit ''Incumbent.objective_values'' 64,
         bytes_limit ''Incumbent.request_id'' 64,
         count_limit ''Progress.best_bound_values'' 64,
         count_limit ''Progress.objective_values'' 64,
         bytes_limit ''Progress.request_id'' 64,
         count_limit ''ProjectedCandidate.values'' 100000,
         bytes_limit ''SolveRequest.cp_model_proto'' 267386880,
         bytes_limit ''SolveRequest.model_fingerprint'' 32,
         count_limit ''SolveRequest.projections'' 100000,
         bytes_limit ''SolveRequest.request_id'' 64,
         bytes_limit ''Started.model_fingerprint'' 32,
         bytes_limit ''Started.request_id'' 64,
         bytes_limit ''WorkerError.message'' 512,
         bytes_limit ''WorkerError.request_id'' 64]\<rparr>"

lemma checked_in_policy_valid: "policy_validate checked_in_policy = Ok ()"
  by code_simp

subsection \<open>What a valid policy guarantees\<close>

lemma policy_validate_caps: "policy_validate policy = Ok () \<Longrightarrow> 0 < frame_cap policy c"
  by (cases c) (auto simp: policy_validate_def policy_error_def validate_frame_class_def frame_cap_def
      split: if_splits)

lemma policy_validate_field_limit:
  assumes "policy_validate policy = Ok ()" "bt_get (field_limits policy) field = Some l"
  shows "max_bytes l \<noteq> Some 0 \<and> max_count l \<noteq> Some 0"
proof -
  have "(field, l) \<in> set (field_limits policy)" using assms(2) by (simp add: bt_get_def map_of_SomeD)
  moreover have "each_o (\<lambda>l _. validate_field_limit l) (field_limits policy) () = Ok ()"
    using assms(1) by (auto simp: policy_validate_def policy_error_def Let_def split: if_splits)
  ultimately show ?thesis
    by (auto simp: each_o_check_iff validate_field_limit_def split: if_splits dest!: bspec)
qed

end
