(* ===== verification/Protocol_Wire.thy ===== *)
theory Protocol_Wire
  imports Protocol_Policy
begin

section \<open>Strict validation of wire messages\<close>

text \<open>
  The validator of \<open>crates/eutheto-protocol/src/strict.rs\<close>, which every payload passes before the
  generated decoder sees it. A schema maps message names to their fields; the validator walks the
  bytes of a message with an explicit position. Recursion into nested messages is on the
  number of levels the nesting limit still allows, so depth \<open>d\<close> of the code is
  \<open>max_nesting_depth + 1 - levels\<close>. The loop over the fields of a message ends because every field
  consumes at least its tag.
\<close>

subsection \<open>Schemas\<close>

datatype field_label = LabelOptional | LabelRequired | LabelRepeated

datatype field_type =
    TypeDouble | TypeFloat | TypeInt64 | TypeUint64 | TypeInt32 | TypeFixed64 | TypeFixed32 | TypeBool
  | TypeString | TypeGroup | TypeMessage | TypeBytes | TypeUint32 | TypeEnum | TypeSfixed32
  | TypeSfixed64 | TypeSint32 | TypeSint64

record field_schema =
  field_name :: string
  full_name :: string
  label :: field_label
  kind :: field_type
  type_name :: "string option"
  oneof :: "string option"

record message_schema =
  schema_fields :: "(u32, field_schema) btree_map"
  reserved_ranges :: "(u32 \<times> u32) list"

record wire_schema =
  messages :: "(string, message_schema) btree_map"
  enums :: "(string, int set) btree_map"

subsection \<open>Reading values\<close>

definition wire_error :: "string \<Rightarrow> usize \<Rightarrow> wire_violation \<Rightarrow> (protocol_fault, 'a) outcome" where
  "wire_error message offset violation = Err (WireFault message offset violation)"

fun varint_violation :: "varint_error \<Rightarrow> wire_violation" where
  "varint_violation VarintMalformed = MalformedVarint"
| "varint_violation VarintNonCanonical = NonCanonicalVarint"

fun natural_wire_type :: "field_type \<Rightarrow> nat" where
  "natural_wire_type k =
     (case k of
        TypeDouble \<Rightarrow> 1 | TypeFixed64 \<Rightarrow> 1 | TypeSfixed64 \<Rightarrow> 1
      | TypeString \<Rightarrow> 2 | TypeBytes \<Rightarrow> 2 | TypeMessage \<Rightarrow> 2
      | TypeFloat \<Rightarrow> 5 | TypeFixed32 \<Rightarrow> 5 | TypeSfixed32 \<Rightarrow> 5
      | TypeGroup \<Rightarrow> 3
      | _ \<Rightarrow> 0)"

definition is_packable :: "field_type \<Rightarrow> bool" where
  "is_packable k = (k \<notin> {TypeString, TypeBytes, TypeMessage, TypeGroup})"

definition fixed_end :: "byte list \<Rightarrow> usize \<Rightarrow> usize \<Rightarrow> (wire_violation, usize) outcome" where
  "fixed_end bytes position width =
     bind_o (ok_or WireLengthOverflow (usize_checked_add position width)) (\<lambda>end.
       if end > length bytes then Err TruncatedFixed else Ok end)"

definition take_length :: "byte list \<Rightarrow> usize \<Rightarrow> (wire_violation, byte list \<times> usize \<times> usize) outcome" where
  "take_length bytes position =
     bind_o (map_err varint_violation (parse_varint bytes position)) (\<lambda>(len, payload_offset).
     bind_o (ok_or WireLengthOverflow (usize_checked_add payload_offset (unat len))) (\<lambda>end.
       if end > length bytes then Err TruncatedLength
       else Ok (slice bytes payload_offset end, end, payload_offset)))"

definition decode_i32_wire :: "64 word \<Rightarrow> int option" where
  "decode_i32_wire value =
     (let numeric = (ucast value :: 32 word);
          canonical = (if sint numeric < 0 then (scast numeric :: 64 word) else ucast numeric)
      in if value = canonical then Some (sint numeric) else None)"

fun utf8_valid :: "byte list \<Rightarrow> bool" where
  "utf8_valid [] = True"
| "utf8_valid (a # rest) =
     (if a < 0x80 then utf8_valid rest
      else if 0xC2 \<le> a \<and> a \<le> 0xDF then
        (case rest of b # rest \<Rightarrow> 0x80 \<le> b \<and> b \<le> 0xBF \<and> utf8_valid rest | _ \<Rightarrow> False)
      else if 0xE0 \<le> a \<and> a \<le> 0xEF then
        (case rest of b # c # rest \<Rightarrow>
           (if a = 0xE0 then 0xA0 else 0x80) \<le> b \<and> b \<le> (if a = 0xED then 0x9F else 0xBF) \<and>
           0x80 \<le> c \<and> c \<le> 0xBF \<and> utf8_valid rest
         | _ \<Rightarrow> False)
      else if 0xF0 \<le> a \<and> a \<le> 0xF4 then
        (case rest of b # c # d # rest \<Rightarrow>
           (if a = 0xF0 then 0x90 else 0x80) \<le> b \<and> b \<le> (if a = 0xF4 then 0x8F else 0xBF) \<and>
           0x80 \<le> c \<and> c \<le> 0xBF \<and> 0x80 \<le> d \<and> d \<le> 0xBF \<and> utf8_valid rest
         | _ \<Rightarrow> False)
      else False)"

definition validate_varint_value ::
    "string \<Rightarrow> field_schema \<Rightarrow> 64 word \<Rightarrow> usize \<Rightarrow> (protocol_fault, unit) outcome" where
  "validate_varint_value message field value offset =
     (let range_valid =
        (case kind field of
           TypeInt32 \<Rightarrow> decode_i32_wire value \<noteq> None
         | TypeUint32 \<Rightarrow> unat value \<le> 4294967295
         | TypeSint32 \<Rightarrow> unat value \<le> 4294967295
         | _ \<Rightarrow> True)
      in if \<not> range_valid then wire_error message offset (IntegerRange (field_name field) value)
      else if kind field = TypeBool \<and> value > 1 then wire_error message offset (InvalidBool (field_name field) value)
      else if kind field = TypeEnum \<and> decode_i32_wire value = None then
        wire_error message offset (IntegerRange (field_name field) value)
      else Ok ())"

definition skip_unknown_value ::
    "string \<Rightarrow> byte list \<Rightarrow> usize \<Rightarrow> nat \<Rightarrow> usize \<Rightarrow> (protocol_fault, usize) outcome" where
  "skip_unknown_value message bytes position wire_type base =
     (let fail = WireFault message (base + position) in
      if wire_type = 0 then
        bind_o (map_err (\<lambda>e. fail (varint_violation e)) (parse_varint bytes position)) (\<lambda>(_, next). Ok next)
      else if wire_type = 1 then map_err fail (fixed_end bytes position 8)
      else if wire_type = 2 then
        bind_o (map_err fail (take_length bytes position)) (\<lambda>(_, next, _). Ok next)
      else if wire_type = 5 then map_err fail (fixed_end bytes position 4)
      else if wire_type = 3 \<or> wire_type = 4 then Err (fail GroupViolation)
      else Err (fail (InvalidWireType wire_type)))"

subsection \<open>Packed values\<close>

definition fixed_width :: "field_type \<Rightarrow> usize option" where
  "fixed_width k =
     (if k \<in> {TypeDouble, TypeFixed64, TypeSfixed64} then Some 8
      else if k \<in> {TypeFloat, TypeFixed32, TypeSfixed32} then Some 4
      else None)"

lemma parse_varint_loop_position:
  "parse_varint_loop bytes start indices a = Ok (v, after) \<Longrightarrow> start < after \<and> after \<le> length bytes"
proof (induction indices arbitrary: a)
  case (Cons i indices)
  then show ?case
    by (auto simp: usize_checked_add_def slice_get_def Let_def split: if_splits)
qed simp

lemma parse_varint_position:
  "parse_varint bytes start = Ok (v, after) \<Longrightarrow> start < after \<and> after \<le> length bytes"
  by (simp add: parse_varint_def parse_varint_loop_position)

function packed_varints ::
    "string \<Rightarrow> field_schema \<Rightarrow> byte list \<Rightarrow> usize \<Rightarrow> usize \<Rightarrow> usize \<Rightarrow> usize \<Rightarrow> usize
       \<Rightarrow> (protocol_fault, usize) outcome" where
  "packed_varints message field payload base remaining cap position count =
     (if position < length payload then
        (if count = remaining then
           wire_error message (base + position) (RepeatedCount (field_name field) cap)
         else bind_o (map_err (\<lambda>e. WireFault message (base + position) (varint_violation e))
                (parse_varint payload position)) (\<lambda>(value, next).
              bind_o (validate_varint_value message field value (base + position)) (\<lambda>_.
              packed_varints message field payload base remaining cap next (count + 1))))
      else Ok count)"
  by pat_completeness auto
termination
  by (relation "measure (\<lambda>(_, _, payload, _, _, _, position, _). length payload - position)")
    (auto dest!: parse_varint_position)

declare packed_varints.simps [simp del]

definition validate_packed ::
    "string \<Rightarrow> field_schema \<Rightarrow> byte list \<Rightarrow> usize \<Rightarrow> usize \<Rightarrow> usize \<Rightarrow> (protocol_fault, usize) outcome" where
  "validate_packed message field payload base remaining cap =
     (case fixed_width (kind field) of
        Some width \<Rightarrow>
          if length payload mod width \<noteq> 0 then wire_error message (base + length payload) TruncatedFixed
          else let count = length payload div width in
            if count > remaining then
              wire_error message (base + u64_saturating_mul remaining width) (RepeatedCount (field_name field) cap)
            else Ok count
      | None \<Rightarrow> packed_varints message field payload base remaining cap 0 0)"

subsection \<open>The fields of a message\<close>

type_synonym nested_validator = "string \<Rightarrow> byte list \<Rightarrow> usize \<Rightarrow> (protocol_fault, unit) outcome"

definition validate_delimited ::
    "nested_validator \<Rightarrow> string \<Rightarrow> field_schema \<Rightarrow> byte list \<Rightarrow> usize \<Rightarrow> protocol_policy \<Rightarrow> usize
       \<Rightarrow> (protocol_fault, usize) outcome" where
  "validate_delimited nested message field bytes position policy base =
     bind_o (map_err (WireFault message (base + position)) (take_length bytes position))
       (\<lambda>(payload, next, payload_offset).
     let cap = (case max_bytes (policy_field_limit policy (full_name field)) of
          Some n \<Rightarrow> n
        | None \<Rightarrow> if kind field = TypeString then max_string_bytes (policy_limits policy) else length bytes)
     in if length payload > cap then
          wire_error message (base + payload_offset) (FieldBytes (field_name field) (length payload) cap)
        else if kind field = TypeString \<and> \<not> utf8_valid payload then
          wire_error message (base + payload_offset) (InvalidUtf8 (field_name field))
        else if kind field = TypeMessage then
          bind_o (ok_or (DescriptorFault (''field '' @ full_name field @ '' has no message type'')) (type_name field))
            (\<lambda>nested_name. bind_o (nested nested_name payload (base + payload_offset)) (\<lambda>_. Ok next))
        else Ok next)"

definition validate_value ::
    "nested_validator \<Rightarrow> string \<Rightarrow> field_schema \<Rightarrow> byte list \<Rightarrow> usize \<Rightarrow> protocol_policy \<Rightarrow> usize
       \<Rightarrow> (protocol_fault, usize) outcome" where
  "validate_value nested message field bytes position policy base =
     (case fixed_width (kind field) of
        Some width \<Rightarrow> map_err (WireFault message (base + position)) (fixed_end bytes position width)
      | None \<Rightarrow>
          if kind field \<in> {TypeString, TypeBytes, TypeMessage} then
            validate_delimited nested message field bytes position policy base
          else if kind field = TypeGroup then wire_error message (base + position) GroupViolation
          else bind_o (map_err (\<lambda>e. WireFault message (base + position) (varint_violation e))
                 (parse_varint bytes position)) (\<lambda>(value, next).
               bind_o (validate_varint_value message field value (base + position)) (\<lambda>_. Ok next)))"

record field_scan =
  singular :: "u32 set"
  oneofs :: "(string, string) btree_map"
  repeated_counts :: "(u32, usize) btree_map"
  unknown_fields :: usize

definition empty_scan :: field_scan where
  "empty_scan = \<lparr>singular = {}, oneofs = [], repeated_counts = [], unknown_fields = 0\<rparr>"

definition unknown_field ::
    "string \<Rightarrow> message_schema \<Rightarrow> u32 \<Rightarrow> protocol_policy \<Rightarrow> usize \<Rightarrow> field_scan \<Rightarrow> (protocol_fault, field_scan) outcome" where
  "unknown_field message schema number policy offset st =
     (let cap = max_repeated_field_items (policy_limits policy) in
      bind_o (ok_or (WireFault message offset (RepeatedCount ''unknown fields'' cap))
          (usize_checked_add (unknown_fields st) 1)) (\<lambda>unknown.
      if unknown > cap then wire_error message offset (RepeatedCount ''unknown fields'' cap)
      else if (19000 \<le> number \<and> number \<le> 19999) \<or>
          list_ex (\<lambda>(start, end). start \<le> number \<and> number < end) (reserved_ranges schema) then
        wire_error message offset (ReservedField number)
      else Ok (st\<lparr>unknown_fields := unknown\<rparr>)))"

definition enter_field ::
    "string \<Rightarrow> field_schema \<Rightarrow> u32 \<Rightarrow> usize \<Rightarrow> field_scan \<Rightarrow> (protocol_fault, field_scan) outcome" where
  "enter_field message field number offset st =
     (if label field \<noteq> LabelRepeated \<and> number \<in> singular st then
        wire_error message offset (DuplicateSingular (field_name field))
      else let st = (if label field \<noteq> LabelRepeated then st\<lparr>singular := insert number (singular st)\<rparr> else st) in
        (case oneof field of
           None \<Rightarrow> Ok st
         | Some oneof_name \<Rightarrow>
             (case bt_get (oneofs st) oneof_name of
                Some first \<Rightarrow>
                  if first \<noteq> field_name field then
                    wire_error message offset (ConflictingOneof oneof_name first (field_name field))
                  else Ok (st\<lparr>oneofs := bt_insert oneof_name (field_name field) (oneofs st)\<rparr>)
              | None \<Rightarrow> Ok (st\<lparr>oneofs := bt_insert oneof_name (field_name field) (oneofs st)\<rparr>))))"

definition repeated_cap :: "protocol_policy \<Rightarrow> field_schema \<Rightarrow> usize" where
  "repeated_cap policy field =
     min (case max_count (policy_field_limit policy (full_name field)) of
            Some n \<Rightarrow> n | None \<Rightarrow> max_repeated_field_items (policy_limits policy))
       (max_repeated_field_items (policy_limits policy))"

definition observed_count :: "field_scan \<Rightarrow> u32 \<Rightarrow> usize" where
  "observed_count st number = (case bt_get (repeated_counts st) number of Some n \<Rightarrow> n | None \<Rightarrow> 0)"

definition packed_field :: "field_schema \<Rightarrow> nat \<Rightarrow> bool" where
  "packed_field field wire_type = (label field = LabelRepeated \<and> is_packable (kind field) \<and> wire_type = 2)"

definition field_values ::
    "nested_validator \<Rightarrow> string \<Rightarrow> field_schema \<Rightarrow> u32 \<Rightarrow> nat \<Rightarrow> byte list \<Rightarrow> usize \<Rightarrow> protocol_policy \<Rightarrow> usize \<Rightarrow> usize
       \<Rightarrow> field_scan \<Rightarrow> (protocol_fault, usize \<times> usize) outcome" where
  "field_values nested message field number wire_type bytes position policy base tag_offset st =
     (if packed_field field wire_type then
        bind_o (map_err (WireFault message (base + position)) (take_length bytes position))
          (\<lambda>(payload, next, payload_offset).
        bind_o (validate_packed message field payload (base + payload_offset)
            (repeated_cap policy field - observed_count st number) (repeated_cap policy field)) (\<lambda>added.
        Ok (next, added)))
      else if wire_type \<noteq> natural_wire_type (kind field) then
        wire_error message (base + tag_offset) (WrongWireType (field_name field) wire_type
          (show_nat (natural_wire_type (kind field)) @
           (if label field = LabelRepeated \<and> is_packable (kind field) then '' or 2'' else '''')))
      else bind_o (validate_value nested message field bytes position policy base) (\<lambda>next. Ok (next, 1)))"

definition count_field ::
    "string \<Rightarrow> field_schema \<Rightarrow> u32 \<Rightarrow> protocol_policy \<Rightarrow> usize \<Rightarrow> usize \<Rightarrow> field_scan \<Rightarrow> (protocol_fault, field_scan) outcome" where
  "count_field message field number policy added offset st =
     (if label field = LabelRepeated then
        bind_o (ok_or (WireFault message offset (RepeatedCount (field_name field) (repeated_cap policy field)))
            (usize_checked_add (observed_count st number) added)) (\<lambda>count.
        if count > repeated_cap policy field then
          wire_error message offset (RepeatedCount (field_name field) (repeated_cap policy field))
        else Ok (st\<lparr>repeated_counts := bt_insert number count (repeated_counts st)\<rparr>))
      else Ok st)"

definition field_step ::
    "nested_validator \<Rightarrow> string \<Rightarrow> message_schema \<Rightarrow> byte list \<Rightarrow> protocol_policy \<Rightarrow> usize \<Rightarrow> usize \<times> field_scan
       \<Rightarrow> (protocol_fault, usize \<times> field_scan) outcome" where
  "field_step nested message schema bytes policy base =
     (\<lambda>(tag_offset, st).
     bind_o (map_err (\<lambda>e. WireFault message (base + tag_offset)
            (case e of VarintNonCanonical \<Rightarrow> NonCanonicalVarint | VarintMalformed \<Rightarrow> MalformedTag))
          (parse_varint bytes tag_offset)) (\<lambda>(tag, position).
     let wire_type = unat (tag AND 7); number_value = unat (drop_bit 3 tag) in
     if 19000 \<le> number_value \<and> number_value \<le> 19999 then
       wire_error message (base + tag_offset) (ReservedField number_value)
     else if number_value = 0 \<or> number_value > 536870911 then
       wire_error message (base + tag_offset) InvalidFieldNumber
     else (case bt_get (schema_fields schema) number_value of
         None \<Rightarrow>
           bind_o (unknown_field message schema number_value policy (base + tag_offset) st) (\<lambda>st.
           bind_o (skip_unknown_value message bytes position wire_type base) (\<lambda>position. Ok (position, st)))
       | Some field \<Rightarrow>
           bind_o (enter_field message field number_value (base + tag_offset) st) (\<lambda>st.
           bind_o (field_values nested message field number_value wire_type bytes position policy base tag_offset st)
             (\<lambda>(position, added).
           bind_o (count_field message field number_value policy added (base + tag_offset) st) (\<lambda>st.
           Ok (position, st)))))))"

lemma fixed_end_position: "fixed_end bytes position width = Ok next \<Longrightarrow> position \<le> next \<and> next \<le> length bytes"
  by (auto simp: fixed_end_def usize_checked_add_def split: if_splits)

lemma take_length_position:
  "take_length bytes position = Ok (payload, next, offset) \<Longrightarrow> position < next \<and> next \<le> length bytes"
  by (auto simp: take_length_def usize_checked_add_def split: if_splits dest!: parse_varint_position)

lemma skip_unknown_value_position:
  "skip_unknown_value message bytes position t base = Ok next \<Longrightarrow> position \<le> next \<and> next \<le> length bytes"
  by (auto simp: skip_unknown_value_def Let_def split: if_splits
      dest!: parse_varint_position fixed_end_position take_length_position)

lemma validate_value_position:
  "validate_value nested message field bytes position policy base = Ok next \<Longrightarrow> position \<le> next \<and> next \<le> length bytes"
  by (auto simp: validate_value_def validate_delimited_def wire_error_def Let_def split: if_splits option.splits
      dest!: parse_varint_position fixed_end_position take_length_position)

lemma field_values_position:
  "field_values nested message field number t bytes position policy base tag_offset st = Ok (next, added) \<Longrightarrow>
     position \<le> next \<and> next \<le> length bytes"
  by (auto simp: field_values_def wire_error_def split: if_splits
      dest!: take_length_position validate_value_position)

lemma field_step_position:
  "field_step nested message schema bytes policy base (position, st) = Ok (next, st') \<Longrightarrow>
     position < next \<and> next \<le> length bytes"
  by (auto simp: field_step_def wire_error_def Let_def split: if_splits option.splits
      dest!: parse_varint_position skip_unknown_value_position field_values_position)

function validate_fields ::
    "nested_validator \<Rightarrow> string \<Rightarrow> message_schema \<Rightarrow> byte list \<Rightarrow> protocol_policy \<Rightarrow> usize \<Rightarrow> usize \<times> field_scan
       \<Rightarrow> (protocol_fault, unit) outcome" where
  "validate_fields nested message schema bytes policy base st =
     (if fst st < length bytes then
        bind_o (field_step nested message schema bytes policy base st)
          (validate_fields nested message schema bytes policy base)
      else Ok ())"
  by pat_completeness auto
termination
  by (relation "measure (\<lambda>(_, _, _, bytes, _, _, st). length bytes - fst st)")
    (auto dest!: field_step_position)

declare validate_fields.simps [simp del]

fun validate_nested ::
    "wire_schema \<Rightarrow> protocol_policy \<Rightarrow> nat \<Rightarrow> string \<Rightarrow> byte list \<Rightarrow> usize \<Rightarrow> (protocol_fault, unit) outcome" where
  "validate_nested schema policy 0 message bytes base =
     wire_error message base (NestingDepth (max_nesting_depth (policy_limits policy)))"
| "validate_nested schema policy (Suc levels) message bytes base =
     bind_o (ok_or (DescriptorFault (''message '' @ message @ '' is not in the descriptor''))
         (bt_get (messages schema) message)) (\<lambda>message_schema.
       validate_fields (validate_nested schema policy levels) message message_schema bytes policy base (0, empty_scan))"

definition wire_validate ::
    "wire_schema \<Rightarrow> string \<Rightarrow> byte list \<Rightarrow> protocol_policy \<Rightarrow> (protocol_fault, unit) outcome" where
  "wire_validate schema message bytes policy =
     validate_nested schema policy (max_nesting_depth (policy_limits policy)) message bytes 0"

end
