(* ===== verification/Protocol_Descriptor.thy ===== *)
theory Protocol_Descriptor
  imports Protocol_Wire "HOL-Library.Product_Lexorder"
begin

section \<open>Building a schema from a descriptor\<close>

text \<open>
  \<open>WireSchema::decode\<close> of \<open>crates/eutheto-protocol/src/strict.rs\<close>. The descriptor set is what the
  protobuf library decodes from the embedded bytes; the values below carry the parts of it that the
  code reads. A schema that was built is the one its descriptor describes, and on such a schema the
  strict validator never reports a descriptor fault of its own.
\<close>

subsection \<open>Descriptors\<close>

record enum_descriptor =
  enum_name :: "string option"
  enum_values :: "int option list"

record field_descriptor =
  fd_name :: "string option"
  fd_number :: "int option"
  fd_label :: "int option"
  fd_type :: "int option"
  fd_oneof_index :: "int option"
  fd_type_name :: "string option"

datatype message_descriptor = MessageDescriptor
  (md_name: "string option")
  (md_oneofs: "string option list")
  (md_reserved: "(int option \<times> int option) list")
  (md_fields: "field_descriptor list")
  (md_enums: "enum_descriptor list")
  (md_nested: "message_descriptor list")

record file_descriptor =
  file_package :: "string option"
  file_enums :: "enum_descriptor list"
  file_messages :: "message_descriptor list"

definition label_try_from :: "int \<Rightarrow> field_label option" where
  "label_try_from i =
     (if i = 1 then Some LabelOptional else if i = 2 then Some LabelRequired
      else if i = 3 then Some LabelRepeated else None)"

definition type_try_from :: "int \<Rightarrow> field_type option" where
  "type_try_from i =
     (if 1 \<le> i \<and> i \<le> 18 then
        Some ([TypeDouble, TypeFloat, TypeInt64, TypeUint64, TypeInt32, TypeFixed64, TypeFixed32, TypeBool,
          TypeString, TypeGroup, TypeMessage, TypeBytes, TypeUint32, TypeEnum, TypeSfixed32, TypeSfixed64,
          TypeSint32, TypeSint64] ! nat (i - 1))
      else None)"

definition u32_try_from_i32 :: "int \<Rightarrow> u32 option" where
  "u32_try_from_i32 i = (if 0 \<le> i then Some (nat i) else None)"

subsection \<open>Adding messages and enums\<close>

definition required_name :: "string option \<Rightarrow> string \<Rightarrow> (protocol_fault, string) outcome" where
  "required_name value k =
     (case value of
        Some name \<Rightarrow> if name \<noteq> [] then Ok name else Err (DescriptorFault (k @ '' is missing its name''))
      | None \<Rightarrow> Err (DescriptorFault (k @ '' is missing its name'')))"

definition qualify :: "string \<Rightarrow> string \<Rightarrow> string" where
  "qualify parent name = (if parent = [] then name else parent @ ''.'' @ name)"

definition reserved_range ::
    "string \<Rightarrow> int option \<times> int option \<Rightarrow> (protocol_fault, u32 \<times> u32) outcome" where
  "reserved_range message = (\<lambda>(range_start, range_end).
     let fail = (\<lambda>text. DescriptorFault (''message '' @ message @ text)) in
     bind_o (ok_or (fail '' has a reserved range without a start'') range_start) (\<lambda>start.
     bind_o (ok_or (fail '' has an invalid reserved range start'') (u32_try_from_i32 start)) (\<lambda>start.
     bind_o (ok_or (fail '' has a reserved range without an end'') range_end) (\<lambda>end.
     bind_o (ok_or (fail '' has an invalid reserved range end'') (u32_try_from_i32 end)) (\<lambda>end.
     if start = 0 \<or> start \<ge> end \<or> end > 536870912 \<or> (start < 20000 \<and> end > 19000) then
       Err (fail '' has an invalid reserved range'')
     else Ok (start, end))))))"

definition in_reserved :: "(u32 \<times> u32) list \<Rightarrow> u32 \<Rightarrow> bool" where
  "in_reserved ranges number = list_ex (\<lambda>(start, end). start \<le> number \<and> number < end) ranges"

definition field_oneof :: "string list \<Rightarrow> string \<Rightarrow> int option \<Rightarrow> (protocol_fault, string option) outcome" where
  "field_oneof oneof_names field index =
     (case index of
        None \<Rightarrow> Ok None
      | Some i \<Rightarrow>
          bind_o (ok_or (DescriptorFault (''field '' @ field @ '' has invalid oneof index''))
              (u32_try_from_i32 i)) (\<lambda>i.
          bind_o (ok_or (DescriptorFault (''field '' @ field @ '' has unknown oneof index''))
              (slice_get oneof_names i)) (\<lambda>name. Ok (Some name))))"

definition trim_dots :: "string \<Rightarrow> string" where
  "trim_dots s = dropWhile (\<lambda>c. c = CHR ''.'') s"

definition add_field ::
    "string \<Rightarrow> string list \<Rightarrow> (u32 \<times> u32) list \<Rightarrow> field_descriptor \<Rightarrow> (u32, field_schema) btree_map
       \<Rightarrow> (protocol_fault, (u32, field_schema) btree_map) outcome" where
  "add_field message oneof_names ranges descriptor known =
     bind_o (required_name (fd_name descriptor) ''field'') (\<lambda>name.
     let field = message @ ''.'' @ name; fail = (\<lambda>text. DescriptorFault (''field '' @ field @ text)) in
     bind_o (ok_or (fail '' has no number'') (fd_number descriptor)) (\<lambda>number.
     bind_o (ok_or (fail '' has invalid number'') (u32_try_from_i32 number)) (\<lambda>number.
     if number = 0 \<or> number > 536870911 \<or> (19000 \<le> number \<and> number \<le> 19999) \<or> in_reserved ranges number \<or>
        bt_get known number \<noteq> None then
       Err (fail '' has an invalid or duplicate number'')
     else
       bind_o (ok_or (fail '' has no label'') (fd_label descriptor)) (\<lambda>l.
       bind_o (ok_or (fail '' has invalid label'') (label_try_from l)) (\<lambda>l.
       bind_o (ok_or (fail '' has no type'') (fd_type descriptor)) (\<lambda>k.
       bind_o (ok_or (fail '' has invalid type'') (type_try_from k)) (\<lambda>k.
       bind_o (field_oneof oneof_names field (fd_oneof_index descriptor)) (\<lambda>oneof_name.
       Ok (bt_insert number
         \<lparr>field_name = name, full_name = field, label = l, kind = k,
          type_name = map_option trim_dots (fd_type_name descriptor), oneof = oneof_name\<rparr> known)))))))))"

definition add_enum :: "string \<Rightarrow> enum_descriptor \<Rightarrow> wire_schema \<Rightarrow> (protocol_fault, wire_schema) outcome" where
  "add_enum parent descriptor schema =
     bind_o (required_name (enum_name descriptor) ''enum'') (\<lambda>name.
     let full = qualify parent name in
     bind_o (each_o (\<lambda>value values.
         bind_o (ok_or (DescriptorFault (''enum '' @ full @ '' has an unnumbered value'')) value) (\<lambda>v.
         Ok (insert v values))) (enum_values descriptor) {}) (\<lambda>values.
     if values = {} \<or> bt_get (enums schema) full \<noteq> None then
       Err (DescriptorFault (''enum '' @ full @ '' is empty or duplicated''))
     else Ok (schema\<lparr>enums := bt_insert full values (enums schema)\<rparr>)))"

definition message_schema_of :: "string \<Rightarrow> message_descriptor \<Rightarrow> (protocol_fault, message_schema) outcome" where
  "message_schema_of full descriptor =
     bind_o (each_o (\<lambda>decl names. bind_o (required_name decl ''oneof'') (\<lambda>name. Ok (names @ [name])))
         (md_oneofs descriptor) []) (\<lambda>oneof_names.
     bind_o (each_o (\<lambda>range ranges. bind_o (reserved_range full range) (\<lambda>r. Ok (ranges @ [r])))
         (md_reserved descriptor) []) (\<lambda>ranges.
     let ranges = sort ranges in
     if list_ex (\<lambda>(a, b). snd a > fst b) (windows2 ranges) then
       Err (DescriptorFault (''message '' @ full @ '' has overlapping reserved ranges''))
     else bind_o (each_o (add_field full oneof_names ranges) (md_fields descriptor) []) (\<lambda>known.
       Ok \<lparr>schema_fields = known, reserved_ranges = ranges\<rparr>)))"

fun add_message :: "string \<Rightarrow> message_descriptor \<Rightarrow> wire_schema \<Rightarrow> (protocol_fault, wire_schema) outcome"
and add_messages :: "string \<Rightarrow> message_descriptor list \<Rightarrow> wire_schema \<Rightarrow> (protocol_fault, wire_schema) outcome" where
  "add_message parent (MessageDescriptor name oneof_decls reserved known enum_types nested) schema =
     bind_o (required_name name ''message'') (\<lambda>short.
     let full = qualify parent short in
     bind_o (message_schema_of full (MessageDescriptor name oneof_decls reserved known enum_types nested)) (\<lambda>message.
     if bt_get (messages schema) full \<noteq> None then
       Err (DescriptorFault (''duplicate message '' @ full))
     else bind_o (each_o (add_enum full) enum_types
           (schema\<lparr>messages := bt_insert full message (messages schema)\<rparr>)) (\<lambda>schema.
       add_messages full nested schema)))"
| "add_messages parent [] schema = Ok schema"
| "add_messages parent (d # ds) schema = bind_o (add_message parent d schema) (add_messages parent ds)"

subsection \<open>Checking the policy against the schema\<close>

definition rsplit_dot :: "string \<Rightarrow> (string \<times> string) option" where
  "rsplit_dot s =
     (let tail = takeWhile (\<lambda>c. c \<noteq> CHR ''.'') (rev s) in
      if length tail = length s then None
      else Some (take (length s - length tail - 1) s, rev tail))"

definition check_field_limit :: "wire_schema \<Rightarrow> string \<times> field_limit \<Rightarrow> (protocol_fault, unit) outcome" where
  "check_field_limit schema = (\<lambda>(name, limit).
     bind_o (ok_or (PolicyFault (PolicyFieldKey name)) (rsplit_dot name)) (\<lambda>(message_name, fld).
     bind_o (ok_or (PolicyFault (PolicyText (''field limit names unknown message '' @ message_name)))
         (bt_get (messages schema) message_name)) (\<lambda>message.
     bind_o (ok_or (PolicyFault (PolicyText (''field limit names unknown field '' @ name)))
         (List.find (\<lambda>f. field_name f = fld) (map snd (schema_fields message)))) (\<lambda>field.
     if max_count limit \<noteq> None \<and> label field \<noteq> LabelRepeated then
       policy_error (''non-repeated field '' @ name @ '' has max_count'')
     else if max_bytes limit \<noteq> None \<and> kind field \<notin> {TypeString, TypeBytes} then
       policy_error (''non-byte field '' @ name @ '' has max_bytes'')
     else Ok ()))))"

definition check_field_type ::
    "wire_schema \<Rightarrow> string \<Rightarrow> field_schema \<Rightarrow> (protocol_fault, unit) outcome" where
  "check_field_type schema message_name field =
     (if kind field = TypeMessage \<or> kind field = TypeEnum then
        bind_o (ok_or (DescriptorFault (''field '' @ message_name @ ''.'' @ field_name field @ '' has no type name''))
            (type_name field)) (\<lambda>target.
        if (if kind field = TypeMessage then bt_get (messages schema) target \<noteq> None
            else bt_get (enums schema) target \<noteq> None) then Ok ()
        else Err (DescriptorFault (''field '' @ message_name @ ''.'' @ field_name field @
          '' refers to unknown type '' @ target)))
      else Ok ())"

definition schema_validate_policy :: "wire_schema \<Rightarrow> protocol_policy \<Rightarrow> (protocol_fault, unit) outcome" where
  "schema_validate_policy schema policy =
     bind_o (each_o (\<lambda>l _. check_field_limit schema l) (field_limits policy) ()) (\<lambda>_.
     each_o (\<lambda>(message_name, message) _.
       each_o (\<lambda>f _. check_field_type schema message_name (snd f)) (schema_fields message) ()) (messages schema) ())"

definition schema_decode ::
    "file_descriptor list \<Rightarrow> protocol_policy \<Rightarrow> (protocol_fault, wire_schema) outcome" where
  "schema_decode files policy =
     bind_o (each_o (\<lambda>file schema.
         let package = (case file_package file of Some p \<Rightarrow> p | None \<Rightarrow> []) in
         bind_o (each_o (add_enum package) (file_enums file) schema)
           (add_messages package (file_messages file))) files \<lparr>messages = [], enums = []\<rparr>) (\<lambda>schema.
     if messages schema = [] then Err (DescriptorFault ''descriptor set contains no messages'')
     else bind_o (schema_validate_policy schema policy) (\<lambda>_. Ok schema))"

subsection \<open>The schema a descriptor describes\<close>

text \<open>
  The specification relates declarations to entries, one to one: a table \<open>tabulates\<close> a list of
  declarations if it has exactly one entry for each of them, under distinct keys. The codes of types and
  labels are those of \<open>descriptor.proto\<close>.
\<close>

fun type_code :: "field_type \<Rightarrow> int" where
  "type_code TypeDouble = 1" | "type_code TypeFloat = 2" | "type_code TypeInt64 = 3" | "type_code TypeUint64 = 4"
| "type_code TypeInt32 = 5" | "type_code TypeFixed64 = 6" | "type_code TypeFixed32 = 7" | "type_code TypeBool = 8"
| "type_code TypeString = 9" | "type_code TypeGroup = 10" | "type_code TypeMessage = 11" | "type_code TypeBytes = 12"
| "type_code TypeUint32 = 13" | "type_code TypeEnum = 14" | "type_code TypeSfixed32 = 15"
| "type_code TypeSfixed64 = 16" | "type_code TypeSint32 = 17" | "type_code TypeSint64 = 18"

fun label_code :: "field_label \<Rightarrow> int" where
  "label_code LabelOptional = 1" | "label_code LabelRequired = 2" | "label_code LabelRepeated = 3"

definition tabulates :: "('x \<Rightarrow> 'k::linorder \<times> 'v \<Rightarrow> bool) \<Rightarrow> 'x list \<Rightarrow> ('k, 'v) btree_map \<Rightarrow> bool" where
  "tabulates R xs m \<longleftrightarrow> bt_invar m \<and>
     (\<exists>entries. list_all2 R xs entries \<and> distinct (map fst entries) \<and> set entries = set m)"

definition named :: "string option \<Rightarrow> string \<Rightarrow> bool" where
  "named decl name \<longleftrightarrow> decl = Some name \<and> name \<noteq> []"

definition field_described :: "string \<Rightarrow> string option list \<Rightarrow> field_descriptor \<Rightarrow> u32 \<times> field_schema \<Rightarrow> bool" where
  "field_described message oneof_decls fd = (\<lambda>(n, f).
     fd_number fd = Some (int n) \<and> 0 < n \<and> n < 2 ^ 29 \<and> n \<notin> {19000..<20000} \<and>
     named (fd_name fd) (field_name f) \<and> full_name f = message @ ''.'' @ field_name f \<and>
     fd_label fd = Some (label_code (label f)) \<and> fd_type fd = Some (type_code (kind f)) \<and>
     type_name f = map_option trim_dots (fd_type_name fd) \<and>
     (case fd_oneof_index fd of
        None \<Rightarrow> oneof f = None
      | Some i \<Rightarrow> 0 \<le> i \<and> nat i < length oneof_decls \<and> oneof f \<noteq> None \<and> oneof_decls ! nat i = oneof f))"

definition reserved_described :: "(int option \<times> int option) list \<Rightarrow> (u32 \<times> u32) list \<Rightarrow> bool" where
  "reserved_described decls ranges \<longleftrightarrow>
     (\<exists>declared. decls = map (\<lambda>(a, b). (Some (int a), Some (int b))) declared \<and> ranges = sort declared) \<and>
     (\<forall>(a, b) \<in> set ranges. 0 < a \<and> a < b \<and> b \<le> 2 ^ 29 \<and> {a..<b} \<inter> {19000..<20000} = {}) \<and>
     sorted_wrt (\<lambda>r s. snd r \<le> fst s) ranges"

definition message_described :: "string \<times> message_descriptor \<Rightarrow> string \<times> message_schema \<Rightarrow> bool" where
  "message_described = (\<lambda>(parent, d) (name, m).
     (\<exists>short. named (md_name d) short \<and> name = qualify parent short) \<and>
     (\<forall>decl \<in> set (md_oneofs d). \<exists>short. named decl short) \<and>
     tabulates (field_described name (md_oneofs d)) (md_fields d) (schema_fields m) \<and>
     reserved_described (md_reserved d) (reserved_ranges m) \<and>
     (\<forall>(n, f) \<in> set (schema_fields m). \<forall>(a, b) \<in> set (reserved_ranges m). n \<notin> {a..<b}))"

definition enum_described :: "string \<times> enum_descriptor \<Rightarrow> string \<times> int set \<Rightarrow> bool" where
  "enum_described = (\<lambda>(parent, d) (name, numbers).
     (\<exists>short. named (enum_name d) short \<and> name = qualify parent short) \<and>
     enum_values d \<noteq> [] \<and> set (enum_values d) = Some ` numbers)"

text \<open>All message and enum declarations with the name of their scope, in declaration order.\<close>

definition scope_name :: "string \<Rightarrow> string option \<Rightarrow> string" where
  "scope_name parent name = qualify parent (case name of Some short \<Rightarrow> short | None \<Rightarrow> [])"

fun message_tree :: "string \<Rightarrow> message_descriptor \<Rightarrow> (string \<times> message_descriptor) list"
and message_forest :: "string \<Rightarrow> message_descriptor list \<Rightarrow> (string \<times> message_descriptor) list" where
  "message_tree parent (MessageDescriptor name oneof_decls reserved known enum_types nested) =
     (parent, MessageDescriptor name oneof_decls reserved known enum_types nested) #
     message_forest (scope_name parent name) nested"
| "message_forest parent [] = []"
| "message_forest parent (d # ds) = message_tree parent d @ message_forest parent ds"

definition nested_enums :: "(string \<times> message_descriptor) list \<Rightarrow> (string \<times> enum_descriptor) list" where
  "nested_enums ms = concat (map (\<lambda>(parent, d). map (Pair (scope_name parent (md_name d))) (md_enums d)) ms)"

definition package_of :: "file_descriptor \<Rightarrow> string" where
  "package_of file = (case file_package file of Some p \<Rightarrow> p | None \<Rightarrow> [])"

definition file_message_decls :: "file_descriptor \<Rightarrow> (string \<times> message_descriptor) list" where
  "file_message_decls file = message_forest (package_of file) (file_messages file)"

definition file_enum_decls :: "file_descriptor \<Rightarrow> (string \<times> enum_descriptor) list" where
  "file_enum_decls file = map (Pair (package_of file)) (file_enums file) @ nested_enums (file_message_decls file)"

definition types_resolve :: "wire_schema \<Rightarrow> bool" where
  "types_resolve schema \<longleftrightarrow> (\<forall>(name, m) \<in> set (messages schema). \<forall>(n, f) \<in> set (schema_fields m).
     (kind f = TypeMessage \<longrightarrow> (\<exists>target. type_name f = Some target \<and> bt_get (messages schema) target \<noteq> None)) \<and>
     (kind f = TypeEnum \<longrightarrow> (\<exists>target. type_name f = Some target \<and> bt_get (enums schema) target \<noteq> None)))"

definition policy_fits :: "protocol_policy \<Rightarrow> wire_schema \<Rightarrow> bool" where
  "policy_fits policy schema \<longleftrightarrow> (\<forall>(key, limit) \<in> set (field_limits policy).
     \<exists>name m n f. key = name @ ''.'' @ field_name f \<and> CHR ''.'' \<notin> set (field_name f) \<and>
       bt_get (messages schema) name = Some m \<and> (n, f) \<in> set (schema_fields m) \<and>
       (max_count limit \<noteq> None \<longrightarrow> label f = LabelRepeated) \<and>
       (max_bytes limit \<noteq> None \<longrightarrow> kind f = TypeString \<or> kind f = TypeBytes))"

definition schema_described :: "file_descriptor list \<Rightarrow> protocol_policy \<Rightarrow> wire_schema \<Rightarrow> bool" where
  "schema_described files policy schema \<longleftrightarrow>
     tabulates message_described (concat (map file_message_decls files)) (messages schema) \<and>
     tabulates enum_described (concat (map file_enum_decls files)) (enums schema) \<and>
     messages schema \<noteq> [] \<and> types_resolve schema \<and> policy_fits policy schema"

subsection \<open>Tables grow by one entry per declaration\<close>

definition extends ::
    "('x \<Rightarrow> 'k::linorder \<times> 'v \<Rightarrow> bool) \<Rightarrow> 'x list \<Rightarrow> ('k, 'v) btree_map \<Rightarrow> ('k, 'v) btree_map \<Rightarrow> bool" where
  "extends R xs m m' \<longleftrightarrow> (bt_invar m \<longrightarrow> bt_invar m') \<and>
     (\<exists>entries. list_all2 R xs entries \<and> distinct (map fst entries) \<and> fst ` set entries \<inter> fst ` set m = {} \<and>
        set m' = set m \<union> set entries)"

lemma extends_Nil [simp]: "extends R [] m m"
  by (simp add: extends_def)

lemma extends_append:
  assumes "extends R xs m m1" "extends R ys m1 m2"
  shows "extends R (xs @ ys) m m2"
proof -
  obtain es where e: "list_all2 R xs es" "distinct (map fst es)" "fst ` set es \<inter> fst ` set m = {}" "set m1 = set m \<union> set es"
    using assms(1) by (auto simp: extends_def)
  obtain fs where f: "list_all2 R ys fs" "distinct (map fst fs)" "fst ` set fs \<inter> fst ` set m1 = {}" "set m2 = set m1 \<union> set fs"
    using assms(2) by (auto simp: extends_def)
  have "bt_invar m \<longrightarrow> bt_invar m2" using assms by (simp add: extends_def)
  moreover have "list_all2 R (xs @ ys) (es @ fs)" using e(1) f(1) by (rule list_all2_appendI)
  moreover have "distinct (map fst (es @ fs))" using e(2,4) f(2,3) by auto
  moreover have "fst ` set (es @ fs) \<inter> fst ` set m = {}" using e(3,4) f(3) by auto
  moreover have "set m2 = set m \<union> set (es @ fs)" using e(4) f(4) by auto
  ultimately show ?thesis unfolding extends_def by blast
qed

lemma set_bt_insert_new: "k \<notin> fst ` set m \<Longrightarrow> set (bt_insert k v m) = insert (k, v) (set m)"
  by (induction k v m rule: bt_insert.induct) auto

lemma extends_insert: "bt_get m k = None \<Longrightarrow> R x (k, v) \<Longrightarrow> extends R [x] m (bt_insert k v m)"
  unfolding extends_def bt_get_notin
  by (intro conjI exI [of _ "[(k, v)]"]) (auto simp: set_bt_insert_new bt_invar_insert)

lemma extends_each:
  assumes "each_o f xs s = Ok s'" "\<And>x s s'. x \<in> set xs \<Longrightarrow> f x s = Ok s' \<Longrightarrow> extends R (g x) (t s) (t s')"
  shows "extends R (concat (map g xs)) (t s) (t s')"
  using assms
proof (induction xs arbitrary: s)
  case (Cons x xs)
  from Cons.prems(1) obtain s1 where "f x s = Ok s1" "each_o f xs s1 = Ok s'" by auto
  with Cons.IH [of s1] Cons.prems(2) show ?case by (auto intro: extends_append)
qed simp

lemma extends_tabulates: "extends R xs [] m \<Longrightarrow> tabulates R xs m"
  by (auto simp: extends_def tabulates_def bt_invar_def)

subsection \<open>Each step adds what its declaration describes\<close>

lemma required_name_Ok [simp]: "required_name decl k = Ok name \<longleftrightarrow> named decl name"
  by (auto simp: required_name_def named_def split: option.splits)

lemma u32_try_from_i32_Some [simp]: "u32_try_from_i32 i = Some n \<longleftrightarrow> i = int n"
  by (auto simp: u32_try_from_i32_def)

lemma label_try_from_code: "label_try_from i = Some l \<longleftrightarrow> i = label_code l"
  by (cases l) (auto simp: label_try_from_def)

lemma type_try_from_code: "type_try_from i = Some k \<Longrightarrow> i = type_code k"
proof -
  assume k: "type_try_from i = Some k"
  then have "i \<in> {1, 2, 3, 4, 5, 6, 7, 8, 9, 10, 11, 12, 13, 14, 15, 16, 17, 18}"
    by (simp add: type_try_from_def split: if_splits) presburger
  with k show ?thesis by (auto simp: type_try_from_def)
qed

definition names_collected :: "string option list \<Rightarrow> string list \<Rightarrow> bool" where
  "names_collected decls names \<longleftrightarrow> decls = map Some names \<and> [] \<notin> set names"

lemma collect_names:
  "each_o (\<lambda>decl names. bind_o (required_name decl k) (\<lambda>name. Ok (names @ [name]))) decls names = Ok names' \<Longrightarrow>
   names_collected xs names \<Longrightarrow> names_collected (xs @ decls) names'"
proof (induction decls arbitrary: names xs)
  case (Cons decl decls)
  from Cons.prems(1) obtain name where n: "named decl name"
    and r: "each_o (\<lambda>decl names. bind_o (required_name decl k) (\<lambda>name. Ok (names @ [name]))) decls (names @ [name]) = Ok names'"
    by auto
  from n Cons.prems(2) have "names_collected (xs @ [decl]) (names @ [name])" by (auto simp: names_collected_def named_def)
  from Cons.IH [OF r this] show ?case by simp
qed simp

lemma slice_get_Some: "slice_get xs i = Some x \<longleftrightarrow> i < length xs \<and> xs ! i = x"
  by (auto simp: slice_get_def)

lemma add_field_extends:
  assumes "add_field message names ranges fd known = Ok known'" "names_collected oneof_decls names"
  shows "extends (\<lambda>fd (n, f). field_described message oneof_decls fd (n, f) \<and> \<not> in_reserved ranges n) [fd] known known'"
proof -
  from assms(1) obtain name n l i k j member where a: "named (fd_name fd) name" "fd_number fd = Some (int n)"
    "0 < n" "n \<le> 536870911" "\<not> (19000 \<le> n \<and> n \<le> 19999)" "\<not> in_reserved ranges n" "bt_get known n = None"
    "fd_label fd = Some i" "label_try_from i = Some l" "fd_type fd = Some j" "type_try_from j = Some k"
    "field_oneof names (message @ ''.'' @ name) (fd_oneof_index fd) = Ok member"
    "known' = bt_insert n \<lparr>field_name = name, full_name = message @ ''.'' @ name, label = l, kind = k,
       type_name = map_option trim_dots (fd_type_name fd), oneof = member\<rparr> known"
    by (auto simp: add_field_def Let_def split: if_splits)
  have "case fd_oneof_index fd of None \<Rightarrow> member = None
      | Some i \<Rightarrow> 0 \<le> i \<and> nat i < length oneof_decls \<and> member \<noteq> None \<and> oneof_decls ! nat i = member"
    using a(12) assms(2) by (auto simp: field_oneof_def names_collected_def slice_get_Some split: option.splits)
  with a show ?thesis
    by (auto intro!: extends_insert simp: field_described_def label_try_from_code type_try_from_code split: option.splits)
qed

lemma reserved_range_Ok:
  "reserved_range message decl = Ok r \<Longrightarrow> decl = (Some (int (fst r)), Some (int (snd r))) \<and>
     0 < fst r \<and> fst r < snd r \<and> snd r \<le> 2 ^ 29 \<and> {fst r..<snd r} \<inter> {19000..<20000} = {}"
  by (cases decl; cases r) (auto simp: reserved_range_def Let_def split: if_splits)

lemma collect_ranges:
  assumes "each_o (\<lambda>range ranges. bind_o (reserved_range message range) (\<lambda>r. Ok (ranges @ [r]))) decls acc = Ok ranges"
  shows "\<exists>rs. ranges = acc @ rs \<and> decls = map (\<lambda>r. (Some (int (fst r)), Some (int (snd r)))) rs \<and>
    (\<forall>r \<in> set rs. 0 < fst r \<and> fst r < snd r \<and> snd r \<le> 2 ^ 29 \<and> {fst r..<snd r} \<inter> {19000..<20000} = {})"
  using assms
proof (induction decls arbitrary: acc)
  case (Cons decl decls)
  from Cons.prems obtain r where r: "reserved_range message decl = Ok r"
    and "each_o (\<lambda>range ranges. bind_o (reserved_range message range) (\<lambda>r. Ok (ranges @ [r]))) decls (acc @ [r]) = Ok ranges"
    by auto
  from Cons.IH [OF this(2)] obtain rs where "ranges = (acc @ [r]) @ rs"
    "decls = map (\<lambda>r. (Some (int (fst r)), Some (int (snd r)))) rs"
    "\<forall>r \<in> set rs. 0 < fst r \<and> fst r < snd r \<and> snd r \<le> 2 ^ 29 \<and> {fst r..<snd r} \<inter> {19000..<20000} = {}" by blast
  with reserved_range_Ok [OF r] show ?case by (intro exI [of _ "r # rs"]) simp
qed simp

lemma windows_disjoint:
  assumes "\<not> list_ex (\<lambda>(a, b). snd a > fst b) (windows2 rs)" "\<forall>r \<in> set rs. fst r < (snd r :: nat)"
  shows "sorted_wrt (\<lambda>r s. snd r \<le> fst s) rs"
  using assms
proof (induction rs)
  case (Cons r rs)
  show ?case
  proof (cases rs)
    case (Cons s ts)
    then have ih: "sorted_wrt (\<lambda>r s. snd r \<le> fst s) rs" "snd r \<le> fst s" "fst s < snd s"
      using Cons.IH Cons.prems by (simp_all add: not_less)
    then have "\<forall>t \<in> set ts. snd r \<le> fst t" using Cons by fastforce
    with ih Cons show ?thesis by simp
  qed simp
qed simp

lemma message_schema_of_described:
  assumes "message_schema_of name d = Ok m" "named (md_name d) short" "name = qualify parent short"
  shows "message_described (parent, d) (name, m)"
proof -
  from assms(1) obtain names rs where
    n: "each_o (\<lambda>decl names. bind_o (required_name decl ''oneof'') (\<lambda>name. Ok (names @ [name]))) (md_oneofs d) [] = Ok names"
    and r: "each_o (\<lambda>range ranges. bind_o (reserved_range name range) (\<lambda>r. Ok (ranges @ [r]))) (md_reserved d) [] = Ok rs"
    and w: "\<not> list_ex (\<lambda>(a, b). snd a > fst b) (windows2 (sort rs))"
    and m: "reserved_ranges m = sort rs"
    and f: "each_o (add_field name names (sort rs)) (md_fields d) [] = Ok (schema_fields m)"
    by (auto simp: message_schema_of_def Let_def split: if_splits)
  from collect_names [OF n, of "[]"] have names: "names_collected (md_oneofs d) names" by (simp add: names_collected_def)
  from collect_ranges [OF r] have rs: "md_reserved d = map (\<lambda>r. (Some (int (fst r)), Some (int (snd r)))) rs"
    "\<forall>r \<in> set rs. 0 < fst r \<and> fst r < snd r \<and> snd r \<le> 2 ^ 29 \<and> {fst r..<snd r} \<inter> {19000..<20000} = {}" by auto
  have "reserved_described (md_reserved d) (reserved_ranges m)"
    using rs windows_disjoint [OF w] by (auto simp: reserved_described_def m case_prod_unfold)
  moreover let ?R = "\<lambda>fd (n, f). field_described name (md_oneofs d) fd (n, f) \<and> \<not> in_reserved (sort rs) n"
  have "extends ?R (concat (map (\<lambda>fd. [fd]) (md_fields d))) [] (schema_fields m)"
    by (rule extends_each [OF f, where t = "\<lambda>m. m"]) (rule add_field_extends [OF _ names])
  then have t: "tabulates ?R (md_fields d) (schema_fields m)" by (intro extends_tabulates) simp
  then have "tabulates (field_described name (md_oneofs d)) (md_fields d) (schema_fields m)"
    unfolding tabulates_def by (auto elim: list_all2_mono)
  moreover have "\<forall>(n, f) \<in> set (schema_fields m). \<not> in_reserved (sort rs) n"
  proof -
    from t obtain es where "list_all2 ?R (md_fields d) es" "set es = set (schema_fields m)" by (auto simp: tabulates_def)
    then show ?thesis by (fastforce simp: list_all2_conv_all_nth in_set_conv_nth)
  qed
  moreover have "\<forall>decl \<in> set (md_oneofs d). \<exists>short. named decl short"
    using names by (auto simp: names_collected_def named_def)
  ultimately show ?thesis
    using assms(2,3) by (fastforce simp: message_described_def in_reserved_def list_ex_iff m)
qed

lemma collect_values:
  assumes "each_o (\<lambda>value values. bind_o (ok_or e value) (\<lambda>v. Ok (insert v values))) xs acc = Ok vs"
  shows "Some ` vs = Some ` acc \<union> set xs"
  using assms
proof (induction xs arbitrary: acc)
  case (Cons x xs)
  from Cons.prems obtain v where "x = Some v"
    and r: "each_o (\<lambda>value values. bind_o (ok_or e value) (\<lambda>v. Ok (insert v values))) xs (insert v acc) = Ok vs" by auto
  with Cons.IH [OF r] show ?case by auto
qed simp

lemma add_enum_extends:
  assumes "add_enum parent d schema = Ok schema'"
  shows "messages schema' = messages schema" "extends enum_described [(parent, d)] (enums schema) (enums schema')"
proof -
  from assms obtain short vs where n: "named (enum_name d) short"
    and v: "each_o (\<lambda>value values. bind_o (ok_or (DescriptorFault (''enum '' @ qualify parent short @ '' has an unnumbered value'')) value)
      (\<lambda>v. Ok (insert v values))) (enum_values d) {} = Ok vs"
    and c: "vs \<noteq> {}" "bt_get (enums schema) (qualify parent short) = None"
    and s: "schema' = schema\<lparr>enums := bt_insert (qualify parent short) vs (enums schema)\<rparr>"
    by (auto simp: add_enum_def Let_def split: if_splits)
  show "messages schema' = messages schema" by (simp add: s)
  have "Some ` vs = set (enum_values d)" using collect_values [OF v] by simp
  with n c have "enum_described (parent, d) (qualify parent short, vs)" by (auto simp: enum_described_def)
  with c(2) show "extends enum_described [(parent, d)] (enums schema) (enums schema')" by (simp add: s extends_insert)
qed

lemma add_enums_extends:
  assumes "each_o (add_enum parent) ds schema = Ok schema'"
  shows "messages schema' = messages schema" "extends enum_described (map (Pair parent) ds) (enums schema) (enums schema')"
proof -
  show "messages schema' = messages schema"
    using assms by (induction ds arbitrary: schema) (auto dest: add_enum_extends(1))
  have "extends enum_described (concat (map (\<lambda>d. [(parent, d)]) ds)) (enums schema) (enums schema')"
    by (rule extends_each [OF assms]) (rule add_enum_extends(2))
  moreover have "concat (map (\<lambda>d. [(parent, d)]) ds) = map (Pair parent) ds" by (induction ds) simp_all
  ultimately show "extends enum_described (map (Pair parent) ds) (enums schema) (enums schema')" by simp
qed

lemma nested_enums_simps [simp]:
  "nested_enums [] = []" "nested_enums (xs @ ys) = nested_enums xs @ nested_enums ys"
  "nested_enums ((parent, d) # xs) = map (Pair (scope_name parent (md_name d))) (md_enums d) @ nested_enums xs"
  by (simp_all add: nested_enums_def)

lemma extends_Cons: "extends R [x] m m1 \<Longrightarrow> extends R xs m1 m2 \<Longrightarrow> extends R (x # xs) m m2"
  using extends_append [of R "[x]" m m1 xs m2] by simp

lemma add_message_extends:
  "add_message parent d schema = Ok schema' \<Longrightarrow>
     extends message_described (message_tree parent d) (messages schema) (messages schema') \<and>
     extends enum_described (nested_enums (message_tree parent d)) (enums schema) (enums schema')"
  "add_messages parent ds schema = Ok schema' \<Longrightarrow>
     extends message_described (message_forest parent ds) (messages schema) (messages schema') \<and>
     extends enum_described (nested_enums (message_forest parent ds)) (enums schema) (enums schema')"
proof (induction parent d schema and parent ds schema arbitrary: schema' and schema' rule: add_message_add_messages.induct)
  case (1 parent name oneof_decls reserved known enum_types nested schema)
  let ?d = "MessageDescriptor name oneof_decls reserved known enum_types nested"
  obtain short message schema1 where a: "required_name name ''message'' = Ok short"
    "message_schema_of (qualify parent short) ?d = Ok message" "bt_get (messages schema) (qualify parent short) = None"
    "each_o (add_enum (qualify parent short)) enum_types
      (schema\<lparr>messages := bt_insert (qualify parent short) message (messages schema)\<rparr>) = Ok schema1"
    "add_messages (qualify parent short) nested schema1 = Ok schema'"
    using "1.prems" by (auto simp: Let_def split: if_splits)
  have n: "scope_name parent name = qualify parent short" using a(1) by (simp add: scope_name_def named_def)
  have d: "message_described (parent, ?d) (qualify parent short, message)"
    using message_schema_of_described [OF a(2), of short parent] a(1) by simp
  note e = add_enums_extends [OF a(4)]
  have "\<not> bt_get (messages schema) (qualify parent short) \<noteq> None" using a(3) by simp
  from "1.IH" [OF a(1) refl a(2) this a(4,5)] have
    "extends message_described (message_forest (qualify parent short) nested) (messages schema1) (messages schema')"
    "extends enum_described (nested_enums (message_forest (qualify parent short) nested)) (enums schema1) (enums schema')"
    by simp_all
  moreover have "extends message_described [(parent, ?d)] (messages schema) (messages schema1)"
    using e(1) d a(3) by (simp add: extends_insert)
  ultimately show ?case
    using e(2) by (simp add: n extends_Cons extends_append)
next
  case (3 parent d ds schema)
  from "3.prems" obtain schema1 where a: "add_message parent d schema = Ok schema1" "add_messages parent ds schema1 = Ok schema'"
    by auto
  with "3.IH" show ?case by (auto intro: extends_append)
qed simp

lemma rsplit_dot_Some:
  assumes "rsplit_dot s = Some (a, b)"
  shows "s = a @ ''.'' @ b \<and> CHR ''.'' \<notin> set b"
proof -
  let ?t = "takeWhile (\<lambda>c. c \<noteq> CHR ''.'') (rev s)" and ?d = "dropWhile (\<lambda>c. c \<noteq> CHR ''.'') (rev s)"
  have rs: "rev s = ?t @ ?d" by simp
  have ab: "b = rev ?t" "a = take (length s - length ?t - 1) s" "length ?t \<noteq> length s"
    using assms by (simp_all add: rsplit_dot_def Let_def split: if_splits)
  have "?d \<noteq> []"
  proof
    assume "?d = []"
    with rs have "rev s = ?t" by simp
    then have "length ?t = length s" by (metis length_rev)
    with ab(3) show False by simp
  qed
  then obtain d where d: "?d = CHR ''.'' # d" by (cases ?d) (auto simp: dropWhile_eq_Cons_conv)
  define t where "t = ?t"
  from rs d have "rev s = t @ CHR ''.'' # d" by (simp add: t_def)
  then have s: "s = rev d @ ''.'' @ rev t" by (simp add: rev_swap)
  then have "take (length s - length t - 1) s = rev d" by simp
  then have a: "a = rev d" using ab(2) by (simp add: t_def)
  have b: "b = rev t" using ab(1) by (simp add: t_def)
  have "CHR ''.'' \<notin> set t" by (auto simp: t_def dest: set_takeWhileD)
  then show ?thesis unfolding a b using s by (simp only: set_rev simp_thms)
qed

lemma policy_checked:
  assumes "schema_validate_policy schema policy = Ok ()"
  shows "types_resolve schema \<and> policy_fits policy schema"
proof
  have "each_o (\<lambda>x u. each_o (\<lambda>f _. check_field_type schema (fst x) (snd f)) (schema_fields (snd x)) ()) (messages schema) () = Ok ()"
    and l: "each_o (\<lambda>l _. check_field_limit schema l) (field_limits policy) () = Ok ()"
    using assms by (auto simp: schema_validate_policy_def case_prod_unfold)
  then have "\<forall>x \<in> set (messages schema). \<forall>f \<in> set (schema_fields (snd x)). check_field_type schema (fst x) (snd f) = Ok ()"
    unfolding each_o_check_iff by blast
  then show "types_resolve schema"
    by (fastforce simp: types_resolve_def check_field_type_def split: if_splits)
  show "policy_fits policy schema"
    unfolding policy_fits_def
  proof clarify
    fix key limit assume "(key, limit) \<in> set (field_limits policy)"
    with l have "check_field_limit schema (key, limit) = Ok ()" unfolding each_o_check_iff by blast
    then obtain name fld m f where r: "rsplit_dot key = Some (name, fld)" "bt_get (messages schema) name = Some m"
      "List.find (\<lambda>f. field_name f = fld) (map snd (schema_fields m)) = Some f"
      and c: "max_count limit \<noteq> None \<longrightarrow> label f = LabelRepeated"
        "max_bytes limit \<noteq> None \<longrightarrow> kind f = TypeString \<or> kind f = TypeBytes"
      by (auto simp: check_field_limit_def policy_error_def split: if_splits)
    from r(3) have "field_name f = fld" "f \<in> snd ` set (schema_fields m)" by (auto simp: find_Some_iff)
    moreover from this(2) obtain n where "(n, f) \<in> set (schema_fields m)" by auto
    ultimately show "\<exists>name m n f. key = name @ ''.'' @ field_name f \<and> CHR ''.'' \<notin> set (field_name f) \<and>
       bt_get (messages schema) name = Some m \<and> (n, f) \<in> set (schema_fields m) \<and>
       (max_count limit \<noteq> None \<longrightarrow> label f = LabelRepeated) \<and>
       (max_bytes limit \<noteq> None \<longrightarrow> kind f = TypeString \<or> kind f = TypeBytes)"
      using rsplit_dot_Some [OF r(1)] r(2) c by blast
  qed
qed

lemma schema_decode_described:
  assumes "schema_decode files policy = Ok schema"
  shows "schema_described files policy schema"
proof -
  let ?file = "\<lambda>file schema. let package = (case file_package file of Some p \<Rightarrow> p | None \<Rightarrow> []) in
      bind_o (each_o (add_enum package) (file_enums file) schema) (add_messages package (file_messages file))"
  have e: "each_o ?file files \<lparr>messages = [], enums = []\<rparr> = Ok schema" and n: "messages schema \<noteq> []"
    and v: "schema_validate_policy schema policy = Ok ()"
    using assms by (auto simp: schema_decode_def split: if_splits)
  have step: "extends message_described (file_message_decls fl) (messages s) (messages s') \<and>
      extends enum_described (file_enum_decls fl) (enums s) (enums s')" if "?file fl s = Ok s'" for fl s s'
  proof -
    from that obtain s1 where "each_o (add_enum (package_of fl)) (file_enums fl) s = Ok s1"
      "add_messages (package_of fl) (file_messages fl) s1 = Ok s'" by (auto simp: package_of_def Let_def)
    with add_enums_extends [OF this(1)] add_message_extends(2) [OF this(2)] show ?thesis
      by (auto simp: file_message_decls_def file_enum_decls_def intro: extends_append)
  qed
  have "tabulates message_described (concat (map file_message_decls files)) (messages schema)"
    using extends_each [OF e, where t = messages and g = file_message_decls] step by (intro extends_tabulates) simp
  moreover have "tabulates enum_described (concat (map file_enum_decls files)) (enums schema)"
    using extends_each [OF e, where t = enums and g = file_enum_decls] step by (intro extends_tabulates) simp
  ultimately show ?thesis using n policy_checked [OF v] by (simp add: schema_described_def)
qed

subsection \<open>Validation on a described schema\<close>

definition descriptor_sound :: "(protocol_fault, 'a) outcome \<Rightarrow> bool" where
  "descriptor_sound r \<longleftrightarrow> (\<forall>m. r \<noteq> Err (DescriptorFault m))"

lemma descriptor_sound_simps [simp]:
  "descriptor_sound (Ok x)" "descriptor_sound (wire_error message offset violation)"
  "descriptor_sound (Err (WireFault message offset violation))"
  by (simp_all add: descriptor_sound_def wire_error_def)

lemma descriptor_sound_bind:
  "descriptor_sound r \<Longrightarrow> (\<And>x. r = Ok x \<Longrightarrow> descriptor_sound (f x)) \<Longrightarrow> descriptor_sound (bind_o r f)"
  by (cases r) (auto simp: descriptor_sound_def)

lemma descriptor_sound_wire [simp]:
  "descriptor_sound (map_err (\<lambda>e. WireFault message offset (f e)) r)"
  "descriptor_sound (map_err (WireFault message offset) q)"
  by (cases r; cases q; simp add: descriptor_sound_def)+

lemma descriptor_sound_ok_or [simp]: "descriptor_sound (ok_or (WireFault message offset violation) v)"
  by (cases v) (simp_all add: descriptor_sound_def)

lemma validate_varint_value_sound [simp]: "descriptor_sound (validate_varint_value message field v offset)"
  by (simp add: validate_varint_value_def Let_def)

lemma skip_unknown_value_sound [simp]: "descriptor_sound (skip_unknown_value message bytes p t base)"
  by (auto simp: skip_unknown_value_def Let_def intro!: descriptor_sound_bind split: prod.split)

lemma packed_varints_sound: "descriptor_sound (packed_varints message field payload base remaining cap p count)"
proof (induction message field payload base remaining cap p count rule: packed_varints.induct)
  case (1 message field payload base remaining cap p count)
  then show ?case by (subst packed_varints.simps) (auto intro!: descriptor_sound_bind split: prod.split)
qed

lemma validate_packed_sound [simp]: "descriptor_sound (validate_packed message field payload base remaining cap)"
  by (simp add: validate_packed_def packed_varints_sound Let_def split: option.split)

lemma scan_sound [simp]:
  "descriptor_sound (unknown_field message schema n policy offset st)"
  "descriptor_sound (enter_field message field n offset st)"
  "descriptor_sound (count_field message field n policy added offset st)"
  by (auto simp: unknown_field_def enter_field_def count_field_def Let_def intro!: descriptor_sound_bind split: option.split)

lemma validate_value_sound:
  assumes "kind field = TypeMessage \<Longrightarrow> \<exists>target. type_name field = Some target \<and> (\<forall>payload b. descriptor_sound (nested target payload b))"
  shows "descriptor_sound (validate_value nested message field bytes p policy base)"
proof -
  have "descriptor_sound (validate_delimited nested message field bytes p policy base)"
  proof (cases "kind field = TypeMessage")
    case True
    with assms obtain target where t: "type_name field = Some target" "\<And>payload b. descriptor_sound (nested target payload b)" by blast
    then show ?thesis
      by (auto simp: validate_delimited_def Let_def True intro!: descriptor_sound_bind split: prod.split)
  next
    case False
    then show ?thesis by (auto simp: validate_delimited_def Let_def intro!: descriptor_sound_bind split: prod.split)
  qed
  then show ?thesis by (auto simp: validate_value_def intro!: descriptor_sound_bind split: option.split prod.split)
qed

lemma field_step_sound:
  assumes "\<And>n field. bt_get (schema_fields schema) n = Some field \<Longrightarrow> kind field = TypeMessage \<Longrightarrow>
    \<exists>target. type_name field = Some target \<and> (\<forall>payload b. descriptor_sound (nested target payload b))"
  shows "descriptor_sound (field_step nested message schema bytes policy base st)"
proof -
  have "descriptor_sound (field_values nested message field n t bytes p policy base tag_offset s)"
    if "bt_get (schema_fields schema) n = Some field" for field n t p tag_offset s
    using validate_value_sound [of field nested, OF assms [OF that]]
    by (auto simp: field_values_def intro!: descriptor_sound_bind split: prod.split)
  then show ?thesis
    by (auto simp: field_step_def Let_def intro!: descriptor_sound_bind split: prod.split option.split)
qed

lemma validate_fields_sound:
  assumes "\<And>n field. bt_get (schema_fields schema) n = Some field \<Longrightarrow> kind field = TypeMessage \<Longrightarrow>
    \<exists>target. type_name field = Some target \<and> (\<forall>payload b. descriptor_sound (nested target payload b))"
  shows "descriptor_sound (validate_fields nested message schema bytes policy base st)"
  using assms
proof (induction nested message schema bytes policy base st rule: validate_fields.induct)
  case (1 nested message schema bytes policy base st)
  then show ?case
    by (subst validate_fields.simps) (auto intro!: descriptor_sound_bind field_step_sound)
qed

lemma validate_nested_sound:
  assumes "types_resolve schema" "bt_get (messages schema) name \<noteq> None"
  shows "descriptor_sound (validate_nested schema policy levels name bytes base)"
  using assms(2)
proof (induction levels arbitrary: name bytes base)
  case (Suc levels)
  then obtain message where m: "bt_get (messages schema) name = Some message" by blast
  have "\<exists>target. type_name field = Some target \<and> (\<forall>payload b. descriptor_sound (validate_nested schema policy levels target payload b))"
    if f: "bt_get (schema_fields message) n = Some field" "kind field = TypeMessage" for n field
  proof -
    have "(name, message) \<in> set (messages schema)" "(n, field) \<in> set (schema_fields message)"
      using m f(1) by (simp_all add: bt_get_def map_of_SomeD)
    then obtain target where "type_name field = Some target" "bt_get (messages schema) target \<noteq> None"
      using assms(1) f(2) by (force simp: types_resolve_def)
    with Suc.IH show ?thesis by blast
  qed
  with m show ?case by (auto intro: validate_fields_sound)
qed simp

text \<open>
  C16: A schema built from a descriptor is the one it describes. Each message declaration, nested ones
  included, has exactly one entry under its qualified name, no two share a name, and each of its fields
  has exactly one entry under its own number, which is admissible, shared with no other field and outside
  the reserved ranges; label, type, type name and oneof are the declared ones. Reserved ranges are valid,
  sorted and disjoint. Each enum has one entry with its declared numbers. Message and enum types that
  fields name are defined, and every field limit of the policy names a field of the right kind. The
  strict validator, started on a message the schema has, therefore never blames the descriptor.
\<close>

theorem schema_decode_sound:
  assumes "schema_decode files policy = Ok schema"
  shows "schema_described files policy schema \<and> (\<forall>name bytes m. bt_get (messages schema) name \<noteq> None \<longrightarrow>
    wire_validate schema name bytes policy' \<noteq> Err (DescriptorFault m))"
proof -
  note d = schema_decode_described [OF assms]
  then have "types_resolve schema" by (simp add: schema_described_def)
  from validate_nested_sound [OF this] d show ?thesis by (auto simp: wire_validate_def descriptor_sound_def)
qed

definition sample_descriptor :: "file_descriptor list" where
  "sample_descriptor = [\<lparr>file_package = Some ''p'',
     file_enums = [\<lparr>enum_name = Some ''Color'', enum_values = [Some 0, Some 2]\<rparr>],
     file_messages = [MessageDescriptor (Some ''Outer'') [Some ''choice''] [(Some 3, Some 16)]
        [\<lparr>fd_name = Some ''inner'', fd_number = Some 1, fd_label = Some 1, fd_type = Some 11, fd_oneof_index = Some 0,
          fd_type_name = Some ''.p.Outer.Inner''\<rparr>,
         \<lparr>fd_name = Some ''colors'', fd_number = Some 2, fd_label = Some 3, fd_type = Some 14, fd_oneof_index = None,
          fd_type_name = Some ''.p.Color''\<rparr>] []
        [MessageDescriptor (Some ''Inner'') [] [] [] [] []]]\<rparr>]"

definition sample_policy :: protocol_policy where
  "sample_policy = checked_in_policy\<lparr>field_limits := [(''p.Outer.colors'', \<lparr>max_bytes = None, max_count = Some 4\<rparr>)]\<rparr>"

theorem schema_decode_sound_witness:
  "\<exists>schema. schema_decode sample_descriptor sample_policy = Ok schema \<and>
    schema_described sample_descriptor sample_policy schema \<and> bt_get (messages schema) ''p.Outer.Inner'' \<noteq> None"
proof -
  have "\<exists>schema. schema_decode sample_descriptor sample_policy = Ok schema \<and>
      bt_get (messages schema) ''p.Outer.Inner'' \<noteq> None"
  proof -
    have "(case schema_decode sample_descriptor sample_policy of
        Ok schema \<Rightarrow> bt_get (messages schema) ''p.Outer.Inner'' \<noteq> None | _ \<Rightarrow> False)" by code_simp
    then show ?thesis by (auto split: outcome.splits)
  qed
  with schema_decode_sound show ?thesis by blast
qed

end
