(* ===== verification/Protocol_Grammar.thy ===== *)
theory Protocol_Grammar
  imports Protocol_Wire
begin

section \<open>The language the strict validator accepts\<close>

text \<open>
  A declarative account of the wire messages: a message is a list of numbered values, each written
  in its one canonical encoding, that respects the schema and the policy. The theorem at the end
  says that the validator of the previous theory accepts exactly these messages.
\<close>

subsection \<open>Fields and their encodings\<close>

datatype wire_value = WVarint "64 word" | WFixed64 "byte list" | WLength "byte list" | WFixed32 "byte list"

type_synonym wire_field = "u32 \<times> wire_value"

fun wire_type_of :: "wire_value \<Rightarrow> nat" where
  "wire_type_of (WVarint _) = 0"
| "wire_type_of (WFixed64 _) = 1"
| "wire_type_of (WLength _) = 2"
| "wire_type_of (WFixed32 _) = 5"

fun value_bytes :: "wire_value \<Rightarrow> byte list" where
  "value_bytes (WVarint v) = varint_bytes (unat v)"
| "value_bytes (WFixed64 b) = b"
| "value_bytes (WLength b) = varint_bytes (length b) @ b"
| "value_bytes (WFixed32 b) = b"

fun value_sized :: "wire_value \<Rightarrow> bool" where
  "value_sized (WFixed64 b) = (length b = 8)"
| "value_sized (WFixed32 b) = (length b = 4)"
| "value_sized _ = True"

fun field_encoding :: "wire_field \<Rightarrow> byte list" where
  "field_encoding (n, v) = varint_bytes (n * 8 + wire_type_of v) @ value_bytes v"

definition message_encoding :: "wire_field list \<Rightarrow> byte list" where
  "message_encoding fs = concat (map field_encoding fs)"

subsection \<open>What a message must satisfy\<close>

definition number_ok :: "u32 \<Rightarrow> bool" where
  "number_ok n \<longleftrightarrow> 0 < n \<and> n \<le> 536870911 \<and> \<not> (19000 \<le> n \<and> n \<le> 19999)"

definition number_reserved :: "message_schema \<Rightarrow> u32 \<Rightarrow> bool" where
  "number_reserved schema n \<longleftrightarrow> (\<exists>(start, end) \<in> set (reserved_ranges schema). start \<le> n \<and> n < end)"

definition varint_value_ok :: "field_type \<Rightarrow> 64 word \<Rightarrow> bool" where
  "varint_value_ok k v \<longleftrightarrow>
     (k \<in> {TypeInt32, TypeEnum} \<longrightarrow> (\<exists>i. decode_i32_wire v = Some i)) \<and>
     (k \<in> {TypeUint32, TypeSint32} \<longrightarrow> unat v < 2 ^ 32) \<and>
     (k = TypeBool \<longrightarrow> v \<le> 1)"

definition payload_ok ::
    "(string \<Rightarrow> byte list \<Rightarrow> bool) \<Rightarrow> protocol_policy \<Rightarrow> field_schema \<Rightarrow> byte list \<Rightarrow> bool" where
  "payload_ok nested policy field payload \<longleftrightarrow>
     (case max_bytes (policy_field_limit policy (full_name field)) of
        Some n \<Rightarrow> length payload \<le> n
      | None \<Rightarrow> kind field = TypeString \<longrightarrow> length payload \<le> max_string_bytes (policy_limits policy)) \<and>
     (kind field = TypeString \<longrightarrow> utf8_valid payload) \<and>
     (kind field = TypeMessage \<longrightarrow> (\<exists>name. type_name field = Some name \<and> nested name payload))"

definition packed_ok :: "field_type \<Rightarrow> byte list \<Rightarrow> bool" where
  "packed_ok k payload \<longleftrightarrow>
     (case fixed_width k of
        Some width \<Rightarrow> width dvd length payload
      | None \<Rightarrow> \<exists>vs. payload = concat (map (\<lambda>v. varint_bytes (unat v)) vs) \<and> (\<forall>v \<in> set vs. varint_value_ok k v))"

definition packed_count :: "field_type \<Rightarrow> byte list \<Rightarrow> nat" where
  "packed_count k payload =
     (case fixed_width k of
        Some width \<Rightarrow> length payload div width
      | None \<Rightarrow> length (filter (\<lambda>b. unat b < 128) payload))"

definition elements :: "field_schema \<Rightarrow> wire_value \<Rightarrow> nat" where
  "elements field v =
     (case v of
        WLength payload \<Rightarrow> if packed_field field 2 then packed_count (kind field) payload else 1
      | _ \<Rightarrow> 1)"

definition value_ok ::
    "(string \<Rightarrow> byte list \<Rightarrow> bool) \<Rightarrow> protocol_policy \<Rightarrow> field_schema \<Rightarrow> wire_value \<Rightarrow> bool" where
  "value_ok nested policy field v \<longleftrightarrow>
     (case v of
        WVarint x \<Rightarrow> natural_wire_type (kind field) = 0 \<and> varint_value_ok (kind field) x
      | WFixed64 _ \<Rightarrow> natural_wire_type (kind field) = 1
      | WFixed32 _ \<Rightarrow> natural_wire_type (kind field) = 5
      | WLength payload \<Rightarrow>
          if packed_field field 2 then packed_ok (kind field) payload
          else natural_wire_type (kind field) = 2 \<and> payload_ok nested policy field payload)"

definition entry_ok ::
    "(string \<Rightarrow> byte list \<Rightarrow> bool) \<Rightarrow> protocol_policy \<Rightarrow> message_schema \<Rightarrow> wire_field \<Rightarrow> bool" where
  "entry_ok nested policy schema = (\<lambda>(n, v). number_ok n \<and> value_sized v \<and>
     (case bt_get (schema_fields schema) n of
        None \<Rightarrow> \<not> number_reserved schema n
      | Some field \<Rightarrow> value_ok nested policy field v))"

definition message_ok ::
    "(string \<Rightarrow> byte list \<Rightarrow> bool) \<Rightarrow> protocol_policy \<Rightarrow> message_schema \<Rightarrow> wire_field list \<Rightarrow> bool" where
  "message_ok nested policy schema fs \<longleftrightarrow>
     (\<forall>e \<in> set fs. entry_ok nested policy schema e) \<and>
     length (filter (\<lambda>(n, _). bt_get (schema_fields schema) n = None) fs) \<le> max_repeated_field_items (policy_limits policy) \<and>
     (\<forall>n field. bt_get (schema_fields schema) n = Some field \<longrightarrow> label field \<noteq> LabelRepeated \<longrightarrow>
        length (filter (\<lambda>(m, _). m = n) fs) \<le> 1) \<and>
     (\<forall>n \<in> fst ` set fs. \<forall>m \<in> fst ` set fs. \<forall>f g name. bt_get (schema_fields schema) n = Some f \<longrightarrow>
        bt_get (schema_fields schema) m = Some g \<longrightarrow> oneof f = Some name \<longrightarrow> oneof g = Some name \<longrightarrow>
        field_name f = field_name g) \<and>
     (\<forall>n field. bt_get (schema_fields schema) n = Some field \<longrightarrow> label field = LabelRepeated \<longrightarrow>
        (\<Sum>(m, v)\<leftarrow>fs. if m = n then elements field v else 0) \<le> repeated_cap policy field)"

fun well_formed :: "wire_schema \<Rightarrow> protocol_policy \<Rightarrow> nat \<Rightarrow> string \<Rightarrow> byte list \<Rightarrow> bool" where
  "well_formed schema policy 0 name bytes \<longleftrightarrow> False"
| "well_formed schema policy (Suc levels) name bytes \<longleftrightarrow>
     (\<exists>message fs. bt_get (messages schema) name = Some message \<and> bytes = message_encoding fs \<and>
        message_ok (well_formed schema policy levels) policy message fs)"

subsection \<open>Reading one value\<close>

definition reads :: "byte list \<Rightarrow> usize \<Rightarrow> wire_value \<Rightarrow> usize \<Rightarrow> bool" where
  "reads bytes p v after \<longleftrightarrow> value_sized v \<and> (\<exists>rest. drop p bytes = value_bytes v @ rest) \<and>
     after = p + length (value_bytes v)"

lemma parse_varint_iff:
  "length bytes \<le> u64_max \<Longrightarrow> parse_varint bytes p = Ok (x, after) \<longleftrightarrow> reads bytes p (WVarint x) after"
  by (auto simp: parse_varint_Ok_iff reads_def length_varint_bytes)

lemma unat_length: "n \<le> u64_max \<Longrightarrow> unat (word_of_nat n :: 64 word) = n"
  by (simp add: unat_of_nat u64_max_def)

lemma take_length_iff:
  assumes "length bytes \<le> u64_max"
  shows "take_length bytes p = Ok (payload, after, offset) \<longleftrightarrow>
    reads bytes p (WLength payload) after \<and> offset + length payload = after"
proof
  assume "take_length bytes p = Ok (payload, after, offset)"
  then obtain len where r: "reads bytes p (WVarint len) offset" "after = offset + unat len" "after \<le> length bytes"
    "payload = slice bytes offset after"
    using parse_varint_iff [OF assms]
    by (auto simp: take_length_def usize_checked_add_def split: if_splits)
  obtain rest where d: "drop p bytes = varint_bytes (unat len) @ rest" "offset = p + length (varint_bytes (unat len))"
    using r(1) by (auto simp: reads_def)
  then have rest: "rest = drop offset bytes" using drop_parts by metis
  have "length payload = unat len" using r by (simp add: slice_def)
  moreover have "rest = payload @ drop (unat len) rest"
    unfolding r(2,4) slice_def rest by (simp only: add_diff_cancel_left' append_take_drop_id)
  ultimately show "reads bytes p (WLength payload) after \<and> offset + length payload = after"
    using r d by (auto simp: reads_def)
next
  assume a: "reads bytes p (WLength payload) after \<and> offset + length payload = after"
  then obtain rest where d: "drop p bytes = (varint_bytes (length payload) @ payload) @ rest"
    "after = p + length (varint_bytes (length payload)) + length payload" by (auto simp: reads_def)
  have o: "offset = p + length (varint_bytes (length payload))" using a d(2) by linarith
  have l: "after \<le> length bytes" using drop_parts_length [OF d(1)] d(2) by simp
  have w: "unat (word_of_nat (length payload) :: 64 word) = length payload"
    using l o a assms by (intro unat_length) linarith
  have "parse_varint bytes p = Ok (word_of_nat (length payload), offset)"
    unfolding parse_varint_iff [OF assms] using d o w by (simp add: reads_def)
  moreover have "drop offset bytes = payload @ rest"
    using drop_parts [of p bytes "varint_bytes (length payload)" "payload @ rest"] d(1) o by simp
  ultimately show "take_length bytes p = Ok (payload, after, offset)"
    using a l w assms by (auto simp: take_length_def usize_checked_add_def u64_checked_add_def slice_def)
qed

lemma fixed_end_iff:
  assumes "length bytes \<le> u64_max" "0 < width"
  shows "fixed_end bytes p width = Ok after \<longleftrightarrow>
    (\<exists>b. length b = width \<and> (\<exists>rest. drop p bytes = b @ rest)) \<and> after = p + width"
proof
  assume "fixed_end bytes p width = Ok after"
  then have n: "after = p + width" "after \<le> length bytes"
    by (auto simp: fixed_end_def usize_checked_add_def split: if_splits)
  then have "length (take width (drop p bytes)) = width" by simp
  with n show "(\<exists>b. length b = width \<and> (\<exists>rest. drop p bytes = b @ rest)) \<and> after = p + width"
    by (metis append_take_drop_id)
next
  assume "(\<exists>b. length b = width \<and> (\<exists>rest. drop p bytes = b @ rest)) \<and> after = p + width"
  then obtain b rest where b: "length b = width" "drop p bytes = b @ rest" "after = p + width" by blast
  then have "after \<le> length bytes" using drop_parts_length [OF b(2)] assms(2) by auto
  with b(3) assms(1) show "fixed_end bytes p width = Ok after"
    by (simp add: fixed_end_def usize_checked_add_def u64_checked_add_def)
qed

lemma fixed_end_8_iff:
  "length bytes \<le> u64_max \<Longrightarrow> fixed_end bytes p 8 = Ok after \<longleftrightarrow> (\<exists>b. reads bytes p (WFixed64 b) after)"
  by (auto simp: fixed_end_iff reads_def)

lemma fixed_end_4_iff:
  "length bytes \<le> u64_max \<Longrightarrow> fixed_end bytes p 4 = Ok after \<longleftrightarrow> (\<exists>b. reads bytes p (WFixed32 b) after)"
  by (auto simp: fixed_end_iff reads_def)

lemmas reads_iffs = parse_varint_iff take_length_iff fixed_end_8_iff fixed_end_4_iff

lemma ex_wire_value:
  "(\<exists>v. P v) \<longleftrightarrow> (\<exists>x. P (WVarint x)) \<or> (\<exists>b. P (WFixed64 b)) \<or> (\<exists>b. P (WLength b)) \<or> (\<exists>b. P (WFixed32 b))"
  by (metis wire_value.exhaust)

lemma reads_length_offset: "reads bytes p (WLength b) after \<Longrightarrow> \<exists>offset. offset + length b = after"
  by (auto simp: reads_def intro!: exI [of _ "p + length (varint_bytes (length b))"])

lemma skip_unknown_value_iff:
  assumes "length bytes \<le> u64_max"
  shows "skip_unknown_value message bytes p t base = Ok after \<longleftrightarrow> (\<exists>v. wire_type_of v = t \<and> reads bytes p v after)"
  unfolding ex_wire_value using reads_length_offset [of bytes p _ after]
  by (auto simp: skip_unknown_value_def Let_def reads_iffs [OF assms])

subsection \<open>Packed values\<close>

lemma validate_varint_value_iff:
  "validate_varint_value message field v offset = Ok () \<longleftrightarrow> varint_value_ok (kind field) v"
  by (cases "kind field") (auto simp: validate_varint_value_def varint_value_ok_def wire_error_def Let_def not_less less_eq_Suc_le [symmetric] split: option.splits)

lemma varint_terminals: "length (filter (\<lambda>b. unat b < 128) (varint_bytes n)) = 1"
proof (induction n rule: less_induct)
  case (less n)
  show ?case
  proof (cases "n < 128")
    case False
    then have "varint_bytes n = (word_of_nat (n mod 128) OR 0x80) # varint_bytes (n div 128)"
      by (simp add: varint_bytes_large)
    with less.IH [of "n div 128"] False show ?thesis by (simp add: high_group)
  qed (simp add: varint_bytes_small unat_small_byte)
qed

lemma concat_varints_empty: "concat (map (\<lambda>v. varint_bytes (unat v)) vs) = [] \<longleftrightarrow> vs = []"
  by (cases vs) simp_all

lemma packed_varints_iff:
  assumes "length payload \<le> u64_max" "p \<le> length payload" "count \<le> remaining"
  shows "packed_varints message field payload base remaining cap p count = Ok n \<longleftrightarrow>
    (\<exists>vs. drop p payload = concat (map (\<lambda>v. varint_bytes (unat v)) vs) \<and>
      (\<forall>v \<in> set vs. varint_value_ok (kind field) v) \<and> n = count + length vs \<and> n \<le> remaining)"
    (is "?run p count = Ok n \<longleftrightarrow> (\<exists>vs. ?split p count vs)")
  using assms
proof (induction message field payload base remaining cap p count rule: packed_varints.induct)
  case (1 message field payload base remaining cap p count)
  let ?run = "packed_varints message field payload base remaining cap"
  let ?split = "\<lambda>p count vs. drop p payload = concat (map (\<lambda>v. varint_bytes (unat v)) vs) \<and>
      (\<forall>v \<in> set vs. varint_value_ok (kind field) v) \<and> n = count + length vs \<and> n \<le> remaining"
  consider "p = length payload" | "p < length payload" "count = remaining" | "p < length payload" "count < remaining"
    using "1.prems" by linarith
  then show ?case
  proof cases
    case 1
    have "?split p count vs \<longleftrightarrow> vs = [] \<and> n = count" for vs
      using 1 "1.prems"(3) concat_varints_empty [of vs] by auto
    with 1 show ?thesis by (subst packed_varints.simps) auto
  next
    case 2
    have "\<not> ?split p count vs" for vs using 2 concat_varints_empty [of vs] by (cases vs) auto
    with 2 show ?thesis by (subst packed_varints.simps) (simp add: wire_error_def)
  next
    case 3
    have step: "?run p count = Ok n \<longleftrightarrow>
        (\<exists>v after. reads payload p (WVarint v) after \<and> varint_value_ok (kind field) v \<and> ?run after (count + 1) = Ok n)"
      using 3 by (subst packed_varints.simps)
        (auto simp: parse_varint_iff [OF "1.prems"(1)] validate_varint_value_iff)
    have IH: "?run after (count + 1) = Ok n \<longleftrightarrow> (\<exists>vs. ?split after (count + 1) vs)"
      if "reads payload p (WVarint v) after" "varint_value_ok (kind field) v" for v after
    proof -
      have p: "parse_varint payload p = Ok (v, after)" using that(1) by (simp add: parse_varint_iff [OF "1.prems"(1)])
      show ?thesis
        using 3 "1.prems" that(2) p parse_varint_position [OF p]
        by (intro "1.IH" [of "(v, after)" v after "()"]) (auto simp: validate_varint_value_iff)
    qed
    have succ: "reads payload p (WVarint v) after \<and> ?split after (count + 1) vs \<longleftrightarrow>
        ?split p count (v # vs) \<and> varint_value_ok (kind field) v \<and> after = p + length (varint_bytes (unat v))" 
      if "varint_value_ok (kind field) v" for v after vs
      using that drop_parts [of p payload "varint_bytes (unat v)"] by (auto simp: reads_def)
    show ?thesis
    proof
      assume "?run p count = Ok n"
      then obtain v after where v: "reads payload p (WVarint v) after" "varint_value_ok (kind field) v"
        "?run after (count + 1) = Ok n" unfolding step by blast
      then obtain vs where "?split after (count + 1) vs" using IH [OF v(1,2)] by blast
      with v succ [OF v(2), of after vs] show "\<exists>vs. ?split p count vs" by blast
    next
      assume "\<exists>vs. ?split p count vs"
      then obtain vs where vs: "?split p count vs" by blast
      with 3 obtain v vs' where "vs = v # vs'" by (cases vs) auto
      with vs have v: "varint_value_ok (kind field) v" "?split p count (v # vs')" by auto
      then obtain after where "reads payload p (WVarint v) after" "?split after (count + 1) vs'"
        using succ [OF v(1)] by blast
      with v(1) IH show "?run p count = Ok n" unfolding step by blast
    qed
  qed
qed

lemma length_filter_concat_varints:
  "length (filter (\<lambda>b. unat b < 128) (concat (map (\<lambda>v. varint_bytes (unat v)) vs))) = length vs"
  by (induction vs) (simp_all add: varint_terminals)

lemma validate_packed_iff:
  assumes "length payload \<le> u64_max"
  shows "validate_packed message field payload base remaining cap = Ok n \<longleftrightarrow>
    packed_ok (kind field) payload \<and> n = packed_count (kind field) payload \<and> n \<le> remaining"
proof (cases "fixed_width (kind field)")
  case None
  then show ?thesis
    using packed_varints_iff [OF assms, of 0 0 remaining message field base cap n]
    by (auto simp: validate_packed_def packed_ok_def packed_count_def length_filter_concat_varints)
next
  case (Some width)
  then show ?thesis
    by (auto simp: validate_packed_def packed_ok_def packed_count_def wire_error_def Let_def dvd_eq_mod_eq_0)
qed

subsection \<open>One field\<close>

lemma reads_length_le: "reads bytes p (WLength payload) after \<Longrightarrow> length payload \<le> length bytes"
  using drop_parts_length [of p bytes "value_bytes (WLength payload)"] by (auto simp: reads_def)

lemma take_length_then:
  assumes "length bytes \<le> u64_max"
    and f: "\<And>payload q offset. length payload \<le> length bytes \<Longrightarrow> f payload q offset = Ok y \<longleftrightarrow> g payload q"
  shows "bind_o (map_err fail (take_length bytes p)) (\<lambda>(payload, q, offset). f payload q offset) = Ok y \<longleftrightarrow>
    (\<exists>payload q. reads bytes p (WLength payload) q \<and> g payload q)"
proof
  assume "bind_o (map_err fail (take_length bytes p)) (\<lambda>(payload, q, offset). f payload q offset) = Ok y"
  then obtain payload q offset where r: "reads bytes p (WLength payload) q" "f payload q offset = Ok y"
    by (auto simp: take_length_iff [OF assms(1)])
  with f [OF reads_length_le [OF r(1)]] show "\<exists>payload q. reads bytes p (WLength payload) q \<and> g payload q" by blast
next
  assume "\<exists>payload q. reads bytes p (WLength payload) q \<and> g payload q"
  then obtain payload q offset where r: "reads bytes p (WLength payload) q" "g payload q" "offset + length payload = q"
    using reads_length_offset by blast
  then have "take_length bytes p = Ok (payload, q, offset)" by (simp add: take_length_iff [OF assms(1)])
  with r f [OF reads_length_le [OF r(1)]]
  show "bind_o (map_err fail (take_length bytes p)) (\<lambda>(payload, q, offset). f payload q offset) = Ok y" by simp
qed

lemma validate_delimited_iff:
  assumes "length bytes \<le> u64_max" "kind field \<in> {TypeString, TypeBytes, TypeMessage}"
    and nested: "\<And>name payload b. length payload \<le> u64_max \<Longrightarrow> nested name payload b = Ok () \<longleftrightarrow> nested' name payload"
  shows "validate_delimited nested message field bytes p policy base = Ok after \<longleftrightarrow>
    (\<exists>payload. reads bytes p (WLength payload) after \<and> payload_ok nested' policy field payload)"
proof -
  let ?limit = "max_bytes (policy_field_limit policy (full_name field))"
  let ?cap = "case ?limit of Some n \<Rightarrow> n
    | None \<Rightarrow> if kind field = TypeString then max_string_bytes (policy_limits policy) else length bytes"
  have step: "(let cap = ?cap in
        if length payload > cap then wire_error message (base + offset) (FieldBytes (field_name field) (length payload) cap)
        else if kind field = TypeString \<and> \<not> utf8_valid payload then
          wire_error message (base + offset) (InvalidUtf8 (field_name field))
        else if kind field = TypeMessage then
          bind_o (ok_or (DescriptorFault (''field '' @ full_name field @ '' has no message type'')) (type_name field))
            (\<lambda>nested_name. bind_o (nested nested_name payload (base + offset)) (\<lambda>_. Ok q))
        else Ok q) = Ok after \<longleftrightarrow> payload_ok nested' policy field payload \<and> q = after"
    if "length payload \<le> length bytes" for payload offset q
    using nested [of payload] that assms(1)
    by (auto simp: Let_def payload_ok_def wire_error_def not_less split: option.splits)
  have "validate_delimited nested message field bytes p policy base = Ok after \<longleftrightarrow>
      (\<exists>payload q. reads bytes p (WLength payload) q \<and> (payload_ok nested' policy field payload \<and> q = after))"
    unfolding validate_delimited_def by (rule take_length_then [OF assms(1)]) (rule step)
  then show ?thesis by blast
qed

lemma value_kinds:
  "fixed_width k = Some width \<longleftrightarrow> (width = 8 \<and> natural_wire_type k = 1) \<or> (width = 4 \<and> natural_wire_type k = 5)"
  "natural_wire_type k = 2 \<longleftrightarrow> k \<in> {TypeString, TypeBytes, TypeMessage}"
  "natural_wire_type k = 3 \<longleftrightarrow> k = TypeGroup"
  "is_packable k \<longleftrightarrow> natural_wire_type k \<notin> {2, 3}"
  "natural_wire_type k \<in> {0, 1, 2, 3, 5}"
  by (cases k; simp add: fixed_width_def is_packable_def)+

lemma validate_value_iff:
  assumes "length bytes \<le> u64_max" "natural_wire_type (kind field) = t"
    and nested: "\<And>name payload b. length payload \<le> u64_max \<Longrightarrow> nested name payload b = Ok () \<longleftrightarrow> nested' name payload"
  shows "validate_value nested message field bytes p policy base = Ok after \<longleftrightarrow>
    (\<exists>v. wire_type_of v = t \<and> reads bytes p v after \<and>
      (case v of WVarint x \<Rightarrow> varint_value_ok (kind field) x
       | WLength payload \<Rightarrow> payload_ok nested' policy field payload | _ \<Rightarrow> True))"
proof -
  consider "t = 0" | "t = 1" | "t = 2" | "t = 3" | "t = 5" using value_kinds(5) [of "kind field"] assms(2) by auto
  then show ?thesis
  proof cases
    case 1
    then have "fixed_width (kind field) = None" "kind field \<notin> {TypeString, TypeBytes, TypeMessage}" "kind field \<noteq> TypeGroup"
      using assms(2) value_kinds(2,3) [of "kind field"] value_kinds(1) [of "kind field"] by (cases "fixed_width (kind field)"; force)+
    then show ?thesis unfolding ex_wire_value using 1
      by (auto simp: validate_value_def reads_iffs [OF assms(1)] validate_varint_value_iff)
  next
    case 3
    then have "fixed_width (kind field) = None" "kind field \<in> {TypeString, TypeBytes, TypeMessage}"
      using assms(2) value_kinds(2) [of "kind field"] value_kinds(1) [of "kind field"] by (cases "fixed_width (kind field)"; force)+
    then show ?thesis unfolding ex_wire_value using 3 validate_delimited_iff [OF assms(1) _ nested]
      by (auto simp: validate_value_def)
  next
    case 4
    then have "kind field = TypeGroup" using assms(2) value_kinds(3) by blast
    then show ?thesis unfolding ex_wire_value using 4 by (auto simp: validate_value_def fixed_width_def wire_error_def)
  next
    case 2
    then have "fixed_width (kind field) = Some 8" using assms(2) value_kinds(1) by blast
    then show ?thesis unfolding ex_wire_value using 2 by (auto simp: validate_value_def reads_iffs [OF assms(1)])
  next
    case 5
    then have "fixed_width (kind field) = Some 4" using assms(2) value_kinds(1) by blast
    then show ?thesis unfolding ex_wire_value using 5 by (auto simp: validate_value_def reads_iffs [OF assms(1)])
  qed
qed

lemma field_values_iff:
  assumes "length bytes \<le> u64_max"
    and nested: "\<And>name payload b. length payload \<le> u64_max \<Longrightarrow> nested name payload b = Ok () \<longleftrightarrow> nested' name payload"
  shows "field_values nested message field number t bytes p policy base tag_offset st = Ok (after, added) \<longleftrightarrow>
    (\<exists>v. wire_type_of v = t \<and> reads bytes p v after \<and> value_ok nested' policy field v \<and> added = elements field v \<and>
      (packed_field field t \<longrightarrow> added \<le> repeated_cap policy field - observed_count st number))"
proof (cases "packed_field field t")
  case True
  then have t: "t = 2" by (simp add: packed_field_def)
  have step: "bind_o (validate_packed message field payload (base + offset)
        (repeated_cap policy field - observed_count st number) (repeated_cap policy field)) (\<lambda>added. Ok (q, added)) = Ok (after, added) \<longleftrightarrow>
      (packed_ok (kind field) payload \<and> added = packed_count (kind field) payload \<and>
        added \<le> repeated_cap policy field - observed_count st number) \<and> q = after"
    if "length payload \<le> length bytes" for payload q offset
    using that assms(1) by (auto simp: validate_packed_iff)
  have "field_values nested message field number t bytes p policy base tag_offset st = Ok (after, added) \<longleftrightarrow>
      (\<exists>payload q. reads bytes p (WLength payload) q \<and> ((packed_ok (kind field) payload \<and>
        added = packed_count (kind field) payload \<and>
        added \<le> repeated_cap policy field - observed_count st number) \<and> q = after))"
    unfolding field_values_def if_P [OF True] by (rule take_length_then [OF assms(1)]) (rule step)
  then show ?thesis
    unfolding ex_wire_value using True t by (auto simp: value_ok_def elements_def)
next
  case False
  have "value_ok nested' policy field v \<longleftrightarrow> natural_wire_type (kind field) = t \<and>
      (case v of WVarint x \<Rightarrow> varint_value_ok (kind field) x
       | WLength payload \<Rightarrow> payload_ok nested' policy field payload | _ \<Rightarrow> True)" "elements field v = 1"
    if "wire_type_of v = t" for v
    using that False by (auto simp: value_ok_def elements_def simp del: natural_wire_type.simps split: wire_value.splits)
  then show ?thesis
    using False validate_value_iff [OF assms(1) _ nested, of field t]
    by (auto simp: field_values_def wire_error_def simp del: natural_wire_type.simps)
qed

subsection \<open>One field against the fields before it\<close>

definition update_scan :: "message_schema \<Rightarrow> field_scan \<Rightarrow> wire_field \<Rightarrow> field_scan" where
  "update_scan schema st = (\<lambda>(n, v).
     case bt_get (schema_fields schema) n of
       None \<Rightarrow> st\<lparr>unknown_fields := unknown_fields st + 1\<rparr>
     | Some field \<Rightarrow> st\<lparr>
         singular := (if label field = LabelRepeated then singular st else insert n (singular st)),
         oneofs := (case oneof field of None \<Rightarrow> oneofs st | Some name \<Rightarrow> bt_insert name (field_name field) (oneofs st)),
         repeated_counts := (if label field = LabelRepeated
           then bt_insert n (observed_count st n + elements field v) (repeated_counts st) else repeated_counts st)\<rparr>)"

definition fits :: "message_schema \<Rightarrow> protocol_policy \<Rightarrow> field_scan \<Rightarrow> wire_field \<Rightarrow> bool" where
  "fits schema policy st = (\<lambda>(n, v).
     case bt_get (schema_fields schema) n of
       None \<Rightarrow> unknown_fields st + 1 \<le> max_repeated_field_items (policy_limits policy)
     | Some field \<Rightarrow>
         (label field \<noteq> LabelRepeated \<longrightarrow> n \<notin> singular st) \<and>
         (\<forall>name first. oneof field = Some name \<longrightarrow> bt_get (oneofs st) name = Some first \<longrightarrow> first = field_name field) \<and>
         (label field = LabelRepeated \<longrightarrow> observed_count st n + elements field v \<le> repeated_cap policy field))"

lemma repeated_cap_le: "repeated_cap policy field \<le> max_repeated_field_items (policy_limits policy)"
  by (simp add: repeated_cap_def)

lemma unknown_field_iff:
  assumes "max_repeated_field_items (policy_limits policy) \<le> u64_max" "number_ok n" "bt_get (schema_fields schema) n = None"
  shows "unknown_field message schema n policy offset st = Ok st' \<longleftrightarrow>
    \<not> number_reserved schema n \<and> fits schema policy st (n, v) \<and> st' = update_scan schema st (n, v)"
proof -
  have "list_ex (\<lambda>(start, end). start \<le> n \<and> n < end) (reserved_ranges schema) \<longleftrightarrow> number_reserved schema n"
    by (simp add: number_reserved_def list_ex_iff)
  moreover have "\<not> (19000 \<le> n \<and> n \<le> 19999)" using assms(2) by (simp add: number_ok_def)
  ultimately show ?thesis
    using assms by (auto simp: unknown_field_def Let_def wire_error_def fits_def update_scan_def
        usize_checked_add_def not_less)
qed

lemma enter_field_iff:
  assumes "bt_get (schema_fields schema) n = Some field"
  shows "enter_field message field n offset st = Ok st' \<longleftrightarrow>
    (label field \<noteq> LabelRepeated \<longrightarrow> n \<notin> singular st) \<and>
    (\<forall>name first. oneof field = Some name \<longrightarrow> bt_get (oneofs st) name = Some first \<longrightarrow> first = field_name field) \<and>
    st' = st\<lparr>singular := (if label field = LabelRepeated then singular st else insert n (singular st)),
      oneofs := (case oneof field of None \<Rightarrow> oneofs st | Some name \<Rightarrow> bt_insert name (field_name field) (oneofs st))\<rparr>"
  by (auto simp: enter_field_def wire_error_def Let_def split: option.splits)

lemma count_field_iff:
  assumes "max_repeated_field_items (policy_limits policy) \<le> u64_max"
  shows "count_field message field n policy added offset st = Ok st' \<longleftrightarrow>
    (label field = LabelRepeated \<longrightarrow> observed_count st n + added \<le> repeated_cap policy field) \<and>
    st' = (if label field = LabelRepeated
      then st\<lparr>repeated_counts := bt_insert n (observed_count st n + added) (repeated_counts st)\<rparr> else st)"
  using assms repeated_cap_le [of policy field]
  by (auto simp: count_field_def wire_error_def usize_checked_add_def not_less)

lemma known_field_iff:
  assumes "length bytes \<le> u64_max" "max_repeated_field_items (policy_limits policy) \<le> u64_max"
    and "bt_get (schema_fields schema) n = Some field"
    and nested: "\<And>name payload b. length payload \<le> u64_max \<Longrightarrow> nested name payload b = Ok () \<longleftrightarrow> nested' name payload"
  shows "bind_o (enter_field message field n offset st) (\<lambda>st.
      bind_o (field_values nested message field n t bytes q policy base tag_offset st) (\<lambda>(position, added).
      bind_o (count_field message field n policy added offset st) (\<lambda>st. Ok (position, st)))) = Ok (after, st') \<longleftrightarrow>
    (\<exists>v. wire_type_of v = t \<and> reads bytes q v after \<and> value_ok nested' policy field v \<and>
      fits schema policy st (n, v) \<and> st' = update_scan schema st (n, v))"
proof -
  let ?st = "st\<lparr>singular := (if label field = LabelRepeated then singular st else insert n (singular st)),
      oneofs := (case oneof field of None \<Rightarrow> oneofs st | Some name \<Rightarrow> bt_insert name (field_name field) (oneofs st))\<rparr>"
  have o: "observed_count (st\<lparr>singular := a, oneofs := b\<rparr>) m = observed_count st m"
    "observed_count (st\<lparr>oneofs := b\<rparr>) m = observed_count st m" for m a b by (simp_all add: observed_count_def)
  have vals: "field_values nested message field n t bytes q policy base tag_offset ?st = Ok (after, added) \<longleftrightarrow>
      (\<exists>v. wire_type_of v = t \<and> reads bytes q v after \<and> value_ok nested' policy field v \<and> added = elements field v \<and>
        (packed_field field t \<longrightarrow> added \<le> repeated_cap policy field - observed_count st n))" for added
    using field_values_iff [OF assms(1), of nested nested' message field n t q policy base tag_offset ?st after added] nested
    by (simp only: o)
  have "bind_o (enter_field message field n offset st) (\<lambda>st.
      bind_o (field_values nested message field n t bytes q policy base tag_offset st) (\<lambda>(position, added).
      bind_o (count_field message field n policy added offset st) (\<lambda>st. Ok (position, st)))) = Ok (after, st') \<longleftrightarrow>
    (label field \<noteq> LabelRepeated \<longrightarrow> n \<notin> singular st) \<and>
    (\<forall>name first. oneof field = Some name \<longrightarrow> bt_get (oneofs st) name = Some first \<longrightarrow> first = field_name field) \<and>
    (\<exists>added. field_values nested message field n t bytes q policy base tag_offset ?st = Ok (after, added) \<and>
      (label field = LabelRepeated \<longrightarrow> observed_count st n + added \<le> repeated_cap policy field) \<and>
      st' = (if label field = LabelRepeated
        then ?st\<lparr>repeated_counts := bt_insert n (observed_count st n + added) (repeated_counts st)\<rparr> else ?st))"
    by (auto simp: enter_field_iff [OF assms(3)] count_field_iff [OF assms(2)] o)
  also have "\<dots> \<longleftrightarrow> (\<exists>v. wire_type_of v = t \<and> reads bytes q v after \<and> value_ok nested' policy field v \<and>
      fits schema policy st (n, v) \<and> st' = update_scan schema st (n, v))"
  proof -
    have c: "packed_field field t \<longrightarrow> label field = LabelRepeated" by (simp add: packed_field_def)
    have "fits schema policy st (n, v) \<longleftrightarrow>
        (label field \<noteq> LabelRepeated \<longrightarrow> n \<notin> singular st) \<and>
        (\<forall>name first. oneof field = Some name \<longrightarrow> bt_get (oneofs st) name = Some first \<longrightarrow> first = field_name field) \<and>
        (packed_field field t \<longrightarrow> elements field v \<le> repeated_cap policy field - observed_count st n) \<and>
        (label field = LabelRepeated \<longrightarrow> observed_count st n + elements field v \<le> repeated_cap policy field)" for v
      using assms(3) c by (auto simp: fits_def)
    moreover have "update_scan schema st (n, v) = (if label field = LabelRepeated
        then ?st\<lparr>repeated_counts := bt_insert n (observed_count st n + elements field v) (repeated_counts st)\<rparr> else ?st)" for v
      using assms(3) by (simp add: update_scan_def)
    ultimately show ?thesis unfolding vals by (simp only: ex_simps) blast
  qed
  finally show ?thesis .
qed

lemma tag_parts: "unat (tag AND 7) = unat tag mod 8" "unat (drop_bit 3 tag) = unat tag div 8" for tag :: "64 word"
proof -
  have "(7 :: 64 word) = mask 3" by (simp add: mask_eq_exp_minus_1)
  then show "unat (tag AND 7) = unat tag mod 8"
    by (simp only: take_bit_eq_mask [symmetric] unsigned_take_bit_eq) (simp add: take_bit_eq_mod)
  show "unat (drop_bit 3 tag) = unat tag div 8"
    by (simp only: unat_drop_bit_eq) (simp add: drop_bit_eq_div)
qed

lemma wire_type_of_less: "wire_type_of v < 8"
  by (cases v) simp_all

lemma reads_field:
  assumes "n \<le> 536870911"
  shows "(\<exists>tag q. reads bytes p (WVarint tag) q \<and> unat tag = n * 8 + wire_type_of v \<and> reads bytes q v after) \<longleftrightarrow>
    value_sized v \<and> (\<exists>rest. drop p bytes = field_encoding (n, v) @ rest) \<and> after = p + length (field_encoding (n, v))"
proof
  assume "\<exists>tag q. reads bytes p (WVarint tag) q \<and> unat tag = n * 8 + wire_type_of v \<and> reads bytes q v after"
  then obtain tag q where t: "reads bytes p (WVarint tag) q" "unat tag = n * 8 + wire_type_of v" "reads bytes q v after" by blast
  obtain rest where a: "drop p bytes = varint_bytes (unat tag) @ rest" "q = p + length (varint_bytes (unat tag))"
    using t(1) by (auto simp: reads_def)
  obtain rest' where "drop q bytes = value_bytes v @ rest'" "after = q + length (value_bytes v)" "value_sized v"
    using t(3) by (auto simp: reads_def)
  with a t(2) drop_parts [OF a(1)]
  show "value_sized v \<and> (\<exists>rest. drop p bytes = field_encoding (n, v) @ rest) \<and> after = p + length (field_encoding (n, v))"
    by auto
next
  assume "value_sized v \<and> (\<exists>rest. drop p bytes = field_encoding (n, v) @ rest) \<and> after = p + length (field_encoding (n, v))"
  then obtain rest where r: "value_sized v" "drop p bytes = varint_bytes (n * 8 + wire_type_of v) @ value_bytes v @ rest"
    "after = p + length (varint_bytes (n * 8 + wire_type_of v)) + length (value_bytes v)" by auto
  have u: "unat (word_of_nat (n * 8 + wire_type_of v) :: 64 word) = n * 8 + wire_type_of v"
    using assms wire_type_of_less [of v] by (intro unat_length) (simp add: u64_max_def)
  show "\<exists>tag q. reads bytes p (WVarint tag) q \<and> unat tag = n * 8 + wire_type_of v \<and> reads bytes q v after"
    using r u drop_parts [OF r(2)]
    by (intro exI [of _ "word_of_nat (n * 8 + wire_type_of v)"] exI [of _ "p + length (varint_bytes (n * 8 + wire_type_of v))"])
      (simp add: reads_def)
qed

lemma guard_iff:
  "(if 19000 \<le> n \<and> n \<le> 19999 then wire_error m i v else if n = 0 \<or> n > 536870911 then wire_error m j w else r) = Ok x \<longleftrightarrow>
     number_ok n \<and> r = Ok x"
  by (auto simp: number_ok_def wire_error_def)

lemma field_step_iff:
  assumes "length bytes \<le> u64_max" "max_repeated_field_items (policy_limits policy) \<le> u64_max"
    and nested: "\<And>name payload b. length payload \<le> u64_max \<Longrightarrow> nested name payload b = Ok () \<longleftrightarrow> nested' name payload"
  shows "field_step nested message schema bytes policy base (p, st) = Ok (after, st') \<longleftrightarrow>
    (\<exists>e. (\<exists>rest. drop p bytes = field_encoding e @ rest) \<and> after = p + length (field_encoding e) \<and>
      entry_ok nested' policy schema e \<and> fits schema policy st e \<and> st' = update_scan schema st e)"
proof -
  let ?val_ok = "\<lambda>n v. value_sized v \<and> (case bt_get (schema_fields schema) n of
      None \<Rightarrow> \<not> number_reserved schema n | Some field \<Rightarrow> value_ok nested' policy field v) \<and>
      fits schema policy st (n, v) \<and> st' = update_scan schema st (n, v)"
  let ?rest = "\<lambda>n t q. case bt_get (schema_fields schema) n of
         None \<Rightarrow>
           bind_o (unknown_field message schema n policy (base + p) st) (\<lambda>st.
           bind_o (skip_unknown_value message bytes q t base) (\<lambda>position. Ok (position, st)))
       | Some field \<Rightarrow>
           bind_o (enter_field message field n (base + p) st) (\<lambda>st.
           bind_o (field_values nested message field n t bytes q policy base p st) (\<lambda>(position, added).
           bind_o (count_field message field n policy added (base + p) st) (\<lambda>st. Ok (position, st))))"
  have rest: "?rest n t q = Ok (after, st') \<longleftrightarrow> (\<exists>v. wire_type_of v = t \<and> reads bytes q v after \<and> ?val_ok n v)"
    if "number_ok n" for n t q
  proof (cases "bt_get (schema_fields schema) n")
    case None
    have u: "unknown_field message schema n policy (base + p) st = Ok st' \<longleftrightarrow> \<not> number_reserved schema n \<and>
        fits schema policy st (n, v) \<and> st' = update_scan schema st (n, v)" for v
      by (rule unknown_field_iff [OF assms(2) that None])
    have "?rest n t q = Ok (after, st') \<longleftrightarrow> unknown_field message schema n policy (base + p) st = Ok st' \<and>
        (\<exists>v. wire_type_of v = t \<and> reads bytes q v after)"
      using None by (auto simp: skip_unknown_value_iff [OF assms(1)])
    also have "\<dots> \<longleftrightarrow> (\<exists>v. wire_type_of v = t \<and> reads bytes q v after \<and> ?val_ok n v)"
      using u None by (auto simp: reads_def)
    finally show ?thesis .
  next
    case (Some field)
    then show ?thesis
      using known_field_iff [OF assms(1,2) Some, of nested nested' message "base + p" st t q base p after st'] nested
      by (auto simp: reads_def)
  qed
  have "field_step nested message schema bytes policy base (p, st) = Ok (after, st') \<longleftrightarrow>
      (\<exists>tag q. reads bytes p (WVarint tag) q \<and> number_ok (unat tag div 8) \<and>
        ?rest (unat tag div 8) (unat tag mod 8) q = Ok (after, st'))"
    unfolding field_step_def prod.case bind_o_Ok_iff map_err_Ok_iff Let_def tag_parts
    by (simp only: split_paired_Ex prod.case guard_iff parse_varint_iff [OF assms(1)])
  also have "\<dots> \<longleftrightarrow> (\<exists>n v. number_ok n \<and> ?val_ok n v \<and>
      (\<exists>tag q. reads bytes p (WVarint tag) q \<and> unat tag = n * 8 + wire_type_of v \<and> reads bytes q v after))"
  proof -
    have "unat tag = n * 8 + wire_type_of v \<longleftrightarrow> n = unat tag div 8 \<and> wire_type_of v = unat tag mod 8" for tag :: "64 word" and n v
      using wire_type_of_less [of v] by auto
    note u = this
    show ?thesis
    proof (intro iffI; elim exE conjE)
      fix tag q assume t: "reads bytes p (WVarint tag) q" "number_ok (unat tag div 8)"
        and "?rest (unat tag div 8) (unat tag mod 8) q = Ok (after, st')"
      then obtain v where v: "wire_type_of v = unat tag mod 8" "reads bytes q v after" "?val_ok (unat tag div 8) v"
        unfolding rest [OF t(2)] by blast
      then have "unat tag = unat tag div 8 * 8 + wire_type_of v" by simp
      with t v show "\<exists>n v. number_ok n \<and> ?val_ok n v \<and>
          (\<exists>tag q. reads bytes p (WVarint tag) q \<and> unat tag = n * 8 + wire_type_of v \<and> reads bytes q v after)" by blast
    next
      fix n v tag q assume t: "number_ok n" "reads bytes p (WVarint tag) q" "unat tag = n * 8 + wire_type_of v" "reads bytes q v after"
        and v: "value_sized v" "case bt_get (schema_fields schema) n of
          None \<Rightarrow> \<not> number_reserved schema n | Some field \<Rightarrow> value_ok nested' policy field v"
          "fits schema policy st (n, v)" "st' = update_scan schema st (n, v)"
      then have d: "unat tag div 8 = n \<and> unat tag mod 8 = wire_type_of v" using wire_type_of_less [of v] by simp
      have "?rest n (wire_type_of v) q = Ok (after, st')" unfolding rest [OF t(1)] using t v by blast
      with t d show "\<exists>tag q. reads bytes p (WVarint tag) q \<and> number_ok (unat tag div 8) \<and>
          ?rest (unat tag div 8) (unat tag mod 8) q = Ok (after, st')"
        by (intro exI [of _ tag] exI [of _ q] conjI) (simp_all only: d)
    qed
  qed
  also have "\<dots> \<longleftrightarrow> (\<exists>n v. (\<exists>rest. drop p bytes = field_encoding (n, v) @ rest) \<and> after = p + length (field_encoding (n, v)) \<and>
      entry_ok nested' policy schema (n, v) \<and> fits schema policy st (n, v) \<and> st' = update_scan schema st (n, v))"
  proof -
    have "number_ok n \<and> ?val_ok n v \<and>
        (\<exists>tag q. reads bytes p (WVarint tag) q \<and> unat tag = n * 8 + wire_type_of v \<and> reads bytes q v after) \<longleftrightarrow>
      (\<exists>rest. drop p bytes = field_encoding (n, v) @ rest) \<and> after = p + length (field_encoding (n, v)) \<and>
      entry_ok nested' policy schema (n, v) \<and> fits schema policy st (n, v) \<and> st' = update_scan schema st (n, v)" for n v
      using reads_field [of n bytes p v after] unfolding entry_ok_def number_ok_def prod.case by blast
    then show ?thesis by (simp only:)
  qed
  finally show ?thesis by (simp only: split_paired_Ex)
qed

subsection \<open>All fields of a message\<close>

fun all_fit :: "message_schema \<Rightarrow> protocol_policy \<Rightarrow> field_scan \<Rightarrow> wire_field list \<Rightarrow> bool" where
  "all_fit schema policy st [] = True"
| "all_fit schema policy st (e # es) = (fits schema policy st e \<and> all_fit schema policy (update_scan schema st e) es)"

lemma field_encoding_nonempty: "field_encoding e \<noteq> []"
  by (cases e) simp

lemma message_encoding_simps [simp]:
  "message_encoding [] = []" "message_encoding (e # es) = field_encoding e @ message_encoding es"
  by (simp_all add: message_encoding_def)

lemma message_encoding_empty: "message_encoding fs = [] \<longleftrightarrow> fs = []"
  by (cases fs) (simp_all add: field_encoding_nonempty)

lemma validate_fields_iff:
  assumes "length bytes \<le> u64_max" "max_repeated_field_items (policy_limits policy) \<le> u64_max"
    and nested: "\<And>name payload b. length payload \<le> u64_max \<Longrightarrow> nested name payload b = Ok () \<longleftrightarrow> nested' name payload"
    and "p \<le> length bytes"
  shows "validate_fields nested message schema bytes policy base (p, st) = Ok () \<longleftrightarrow>
    (\<exists>fs. drop p bytes = message_encoding fs \<and> (\<forall>e \<in> set fs. entry_ok nested' policy schema e) \<and> all_fit schema policy st fs)"
  using assms(4)
proof (induction "length bytes - p" arbitrary: p st rule: less_induct)
  case less
  let ?run = "validate_fields nested message schema bytes policy base"
  let ?good = "\<lambda>p st fs. drop p bytes = message_encoding fs \<and> (\<forall>e \<in> set fs. entry_ok nested' policy schema e) \<and> all_fit schema policy st fs"
  let ?step = "\<lambda>e p' st'. (\<exists>rest. drop p bytes = field_encoding e @ rest) \<and> p' = p + length (field_encoding e) \<and>
      entry_ok nested' policy schema e \<and> fits schema policy st e \<and> st' = update_scan schema st e"
  have step: "field_step nested message schema bytes policy base (p, st) = Ok (p', st') \<longleftrightarrow> (\<exists>e. ?step e p' st')" for p' st'
    by (rule field_step_iff [OF assms(1,2)]) (erule nested)
  show ?case
  proof (cases "p < length bytes")
    case False
    with less.prems have "drop p bytes = []" by simp
    then have "?good p st fs \<longleftrightarrow> fs = []" for fs using message_encoding_empty [of fs] by auto
    with False show ?thesis by (subst validate_fields.simps) auto
  next
    case True
    have IH: "?run (p', st') = Ok () \<longleftrightarrow> (\<exists>fs. ?good p' st' fs)" if st: "?step e p' st'" for e p' st'
    proof (rule less.hyps)
      obtain rest where "drop p bytes = field_encoding e @ rest" "p' = p + length (field_encoding e)" using st by auto
      with drop_parts_length [OF _ field_encoding_nonempty] field_encoding_nonempty [of e] True
      show "length bytes - p' < length bytes - p" "p' \<le> length bytes" by (auto simp: diff_less_mono2)
    qed
    have "?run (p, st) = Ok () \<longleftrightarrow> (\<exists>p' st'. field_step nested message schema bytes policy base (p, st) = Ok (p', st') \<and>
        ?run (p', st') = Ok ())"
      using True by (subst validate_fields.simps) auto
    also have "\<dots> \<longleftrightarrow> (\<exists>e p' st'. ?step e p' st' \<and> ?run (p', st') = Ok ())" unfolding step by blast
    also have "\<dots> \<longleftrightarrow> (\<exists>e p' st'. ?step e p' st' \<and> (\<exists>fs. ?good p' st' fs))"
      by (intro ex_cong1, rule conj_cong, rule refl, rule IH, assumption)
    also have "\<dots> \<longleftrightarrow> (\<exists>e fs. ?good p st (e # fs))"
    proof (intro iffI; elim exE conjE)
      fix e p' st' rest fs
      assume "drop p bytes = field_encoding e @ rest" "p' = p + length (field_encoding e)"
        "entry_ok nested' policy schema e" "fits schema policy st e" "st' = update_scan schema st e"
        "drop p' bytes = message_encoding fs" "\<forall>e \<in> set fs. entry_ok nested' policy schema e" "all_fit schema policy st' fs"
      with drop_parts [of p bytes "field_encoding e" rest] show "\<exists>e fs. ?good p st (e # fs)"
        by (intro exI [of _ e] exI [of _ fs]) simp
    next
      fix e fs assume g: "drop p bytes = message_encoding (e # fs)" "\<forall>e \<in> set (e # fs). entry_ok nested' policy schema e"
        "all_fit schema policy st (e # fs)"
      with drop_parts [of p bytes "field_encoding e" "message_encoding fs"]
      show "\<exists>e p' st'. ?step e p' st' \<and> (\<exists>fs. ?good p' st' fs)"
        by (intro exI [of _ e] exI [of _ "p + length (field_encoding e)"] exI [of _ "update_scan schema st e"] conjI exI [of _ fs]) auto
    qed
    also have "\<dots> \<longleftrightarrow> (\<exists>fs. ?good p st fs)"
    proof -
      have "\<not> ?good p st []" using True by simp
      then show ?thesis by (metis list.exhaust)
    qed
    finally show ?thesis .
  qed
qed

subsection \<open>The running checks as conditions on the list\<close>

type_synonym known_fields = "u32 \<Rightarrow> field_schema option"

fun unknown_fit :: "known_fields \<Rightarrow> nat \<Rightarrow> nat \<Rightarrow> wire_field list \<Rightarrow> bool" where
  "unknown_fit K cap u [] = True"
| "unknown_fit K cap u ((n, v) # es) =
     (if K n = None then u + 1 \<le> cap \<and> unknown_fit K cap (u + 1) es else unknown_fit K cap u es)"

fun singular_fit :: "known_fields \<Rightarrow> u32 set \<Rightarrow> wire_field list \<Rightarrow> bool" where
  "singular_fit K s [] = True"
| "singular_fit K s ((n, v) # es) =
     (case K n of
        Some f \<Rightarrow> if label f = LabelRepeated then singular_fit K s es
          else n \<notin> s \<and> singular_fit K (insert n s) es
      | None \<Rightarrow> singular_fit K s es)"

fun oneof_fit :: "known_fields \<Rightarrow> (string \<rightharpoonup> string) \<Rightarrow> wire_field list \<Rightarrow> bool" where
  "oneof_fit K m [] = True"
| "oneof_fit K m ((n, v) # es) =
     (case K n of
        Some f \<Rightarrow> (case oneof f of
            Some name \<Rightarrow> m name \<in> {None, Some (field_name f)} \<and> oneof_fit K (m(name \<mapsto> field_name f)) es
          | None \<Rightarrow> oneof_fit K m es)
      | None \<Rightarrow> oneof_fit K m es)"

fun count_fit :: "known_fields \<Rightarrow> (field_schema \<Rightarrow> nat) \<Rightarrow> (u32 \<Rightarrow> nat) \<Rightarrow> wire_field list \<Rightarrow> bool" where
  "count_fit K cap c [] = True"
| "count_fit K cap c ((n, v) # es) =
     (case K n of
        Some f \<Rightarrow> if label f = LabelRepeated
          then c n + elements f v \<le> cap f \<and> count_fit K cap (c(n := c n + elements f v)) es
          else count_fit K cap c es
      | None \<Rightarrow> count_fit K cap c es)"

lemma bt_get_insert: "bt_invar m \<Longrightarrow> bt_get (bt_insert k v m) l = (if l = k then Some v else bt_get m l)"
  by (simp add: bt_get_def map_of_bt_insert)

lemma none_or: "x \<in> {None, Some y} \<longleftrightarrow> (\<forall>z. x = Some z \<longrightarrow> z = y)"
  by (cases x) auto

lemma all_fit_split:
  assumes "bt_invar (oneofs st)" "bt_invar (repeated_counts st)"
    and K_def: "K = bt_get (schema_fields schema)"
  shows "all_fit schema policy st fs \<longleftrightarrow>
    unknown_fit K (max_repeated_field_items (policy_limits policy)) (unknown_fields st) fs \<and>
    singular_fit K (singular st) fs \<and> oneof_fit K (bt_get (oneofs st)) fs \<and>
    count_fit K (repeated_cap policy) (observed_count st) fs"
  using assms(1,2)
proof (induction fs arbitrary: st)
  case (Cons e fs)
  obtain n v where e: "e = (n, v)" by fastforce
  let ?st = "update_scan schema st e"
  have inv: "bt_invar (oneofs ?st)" "bt_invar (repeated_counts ?st)"
    using Cons.prems by (auto simp: update_scan_def e bt_invar_insert split: option.split)
  have u: "unknown_fields ?st = (if K n = None then unknown_fields st + 1 else unknown_fields st)"
    "singular ?st = (case K n of Some f \<Rightarrow> if label f = LabelRepeated then singular st else insert n (singular st) | None \<Rightarrow> singular st)"
    "bt_get (oneofs ?st) = (case K n of Some f \<Rightarrow> (case oneof f of
        Some name \<Rightarrow> (bt_get (oneofs st))(name \<mapsto> field_name f) | None \<Rightarrow> bt_get (oneofs st)) | None \<Rightarrow> bt_get (oneofs st))"
    "observed_count ?st = (case K n of Some f \<Rightarrow> if label f = LabelRepeated
        then (observed_count st)(n := observed_count st n + elements f v) else observed_count st | None \<Rightarrow> observed_count st)"
    using Cons.prems
    by (auto simp: update_scan_def e K_def bt_get_insert observed_count_def fun_eq_iff split: option.split)
  have f: "fits schema policy st e \<longleftrightarrow> (case K n of
      None \<Rightarrow> unknown_fields st + 1 \<le> max_repeated_field_items (policy_limits policy)
    | Some f \<Rightarrow> (label f \<noteq> LabelRepeated \<longrightarrow> n \<notin> singular st) \<and>
        (\<forall>name. oneof f = Some name \<longrightarrow> bt_get (oneofs st) name \<in> {None, Some (field_name f)}) \<and>
        (label f = LabelRepeated \<longrightarrow> observed_count st n + elements f v \<le> repeated_cap policy f))"
    unfolding none_or by (auto simp: fits_def e K_def split: option.split)
  show ?case
    unfolding all_fit.simps(2) Cons.IH [OF inv] u f
    by (cases "K n") (auto simp: e split: option.split)
qed simp

lemma unknown_fit_iff:
  "unknown_fit K cap u fs \<longleftrightarrow> u + length (filter (\<lambda>(n, _). K n = None) fs) \<le> cap \<or>
     length (filter (\<lambda>(n, _). K n = None) fs) = 0"
  by (induction K cap u fs rule: unknown_fit.induct) auto

lemma occurrences_0: "length (filter (\<lambda>(m, _). m = n) fs) = 0 \<longleftrightarrow> n \<notin> fst ` set fs"
  by (force simp: filter_empty_conv)

lemma singular_fit_iff:
  "singular_fit K s fs \<longleftrightarrow> (\<forall>k f. K k = Some f \<longrightarrow> label f \<noteq> LabelRepeated \<longrightarrow>
     (k \<in> s \<longrightarrow> k \<notin> fst ` set fs) \<and> length (filter (\<lambda>(m, _). m = k) fs) \<le> 1)"
proof (induction fs arbitrary: s)
  case (Cons e es)
  obtain n v where e: "e = (n, v)" by fastforce
  let ?ok = "\<lambda>s es k. (k \<in> s \<longrightarrow> k \<notin> fst ` set es) \<and> length (filter (\<lambda>(m, _). m = k) es) \<le> 1"
  show ?case
  proof (cases "\<exists>f. K n = Some f \<and> label f \<noteq> LabelRepeated")
    case True
    then obtain f where f: "K n = Some f" "label f \<noteq> LabelRepeated" by blast
    have "n \<notin> s \<Longrightarrow> ?ok (insert n s) es k \<longleftrightarrow> ?ok s (e # es) k" for k
      using occurrences_0 [of n es] e by (cases "k = n") auto
    moreover have "?ok s (e # es) n \<Longrightarrow> n \<notin> s" using e by auto
    moreover have "singular_fit K s (e # es) \<longleftrightarrow> n \<notin> s \<and> singular_fit K (insert n s) es" using f e by simp
    ultimately show ?thesis using Cons.IH [of "insert n s"] f by metis
  next
    case False
    then have "singular_fit K s (e # es) = singular_fit K s es" using e by (cases "K n") auto
    moreover have "?ok s (e # es) k \<longleftrightarrow> ?ok s es k" if "K k = Some f" "label f \<noteq> LabelRepeated" for k f
      using that False e by (cases "k = n") auto
    ultimately show ?thesis using Cons.IH [of s] by metis
  qed
qed simp

definition oneof_uses :: "known_fields \<Rightarrow> wire_field list \<Rightarrow> (string \<times> string) set" where
  "oneof_uses K fs = {(name, field_name f) | n f name. n \<in> fst ` set fs \<and> K n = Some f \<and> oneof f = Some name}"

lemma oneof_uses_Cons:
  "oneof_uses K ((n, v) # es) =
     (case K n of
        Some f \<Rightarrow> (case oneof f of Some name \<Rightarrow> insert (name, field_name f) (oneof_uses K es) | None \<Rightarrow> oneof_uses K es)
      | None \<Rightarrow> oneof_uses K es)"
  by (auto simp: oneof_uses_def split: option.split)

lemma single_valued_insert_iff:
  "single_valued (insert (a, b) r) \<longleftrightarrow> single_valued r \<and> (\<forall>c. (a, c) \<in> r \<longrightarrow> c = b)"
  by (auto simp: single_valued_def)

lemma oneof_fit_iff:
  "oneof_fit K m fs \<longleftrightarrow> (\<forall>(name, x) \<in> oneof_uses K fs. m name \<in> {None, Some x}) \<and> single_valued (oneof_uses K fs)"
proof (induction fs arbitrary: m)
  case (Cons e es)
  obtain n v where e: "e = (n, v)" by fastforce
  let ?free = "\<lambda>m u. \<forall>(name, x) \<in> u. m name \<in> {None, Some x}"
  have step: "m name \<in> {None, Some x} \<and> ?free (m(name \<mapsto> x)) u \<and> single_valued u \<longleftrightarrow>
      ?free m (insert (name, x) u) \<and> single_valued (insert (name, x) u)" for name and x :: string and u
  proof -
    let ?N = "\<forall>k y. (k, y) \<in> u \<longrightarrow> k \<noteq> name \<longrightarrow> m k \<in> {None, Some y}"
    let ?F = "\<forall>k y. (k, y) \<in> u \<longrightarrow> m k \<in> {None, Some y}"
    have 1: "?free (m(name \<mapsto> x)) u \<longleftrightarrow> (\<forall>y. (name, y) \<in> u \<longrightarrow> y = x) \<and> ?N"
      by (auto simp: Ball_def)
    have 2: "?free m (insert (name, x) u) \<longleftrightarrow> m name \<in> {None, Some x} \<and> ?F"
      by (auto simp: Ball_def)
    have 3: "m name \<in> {None, Some x} \<longrightarrow> (\<forall>y. (name, y) \<in> u \<longrightarrow> y = x) \<longrightarrow> (?N \<longleftrightarrow> ?F)"
      by (intro impI iff_allI) (rename_tac k y, case_tac "k = name", auto)
    show ?thesis unfolding single_valued_insert_iff 1 2 using 3 by argo
  qed
  show ?case
  proof (cases "\<exists>f name. K n = Some f \<and> oneof f = Some name")
    case True
    then obtain f name where f: "K n = Some f" "oneof f = Some name" by blast
    then have "oneof_fit K m (e # es) \<longleftrightarrow> m name \<in> {None, Some (field_name f)} \<and> oneof_fit K (m(name \<mapsto> field_name f)) es"
      "oneof_uses K (e # es) = insert (name, field_name f) (oneof_uses K es)" by (simp_all add: e oneof_uses_Cons)
    with step [of name "field_name f" "oneof_uses K es"] Cons.IH [of "m(name \<mapsto> field_name f)"] show ?thesis by (simp only:)
  next
    case False
    then have "oneof_fit K m (e # es) = oneof_fit K m es" "oneof_uses K (e # es) = oneof_uses K es"
      by (auto simp: e oneof_uses_Cons split: option.split)
    with Cons.IH [of m] show ?thesis by (simp only:)
  qed
qed (simp add: oneof_uses_def)

lemma count_fit_iff:
  "count_fit K cap c fs \<longleftrightarrow> (\<forall>n f. K n = Some f \<longrightarrow> label f = LabelRepeated \<longrightarrow>
     c n + (\<Sum>(m, v)\<leftarrow>fs. if m = n then elements f v else 0) \<le> cap f \<or> n \<notin> fst ` set fs)"
proof (induction fs arbitrary: c)
  case (Cons e es)
  obtain n v where e: "e = (n, v)" by fastforce
  let ?sum = "\<lambda>fs n f. \<Sum>(m, v)\<leftarrow>fs. if m = n then elements f v else 0"
  have zero: "?sum es k f = 0" if "k \<notin> fst ` set es" for k f using that by (induction es) auto
  show ?case
  proof (cases "\<exists>f. K n = Some f \<and> label f = LabelRepeated")
    case True
    then obtain f where f: "K n = Some f" "label f = LabelRepeated" by blast
    have "count_fit K cap c (e # es) \<longleftrightarrow> c n + elements f v \<le> cap f \<and> count_fit K cap (c(n := c n + elements f v)) es"
      using f e by simp
    also have "\<dots> \<longleftrightarrow> c n + elements f v \<le> cap f \<and> (\<forall>k g. K k = Some g \<longrightarrow> label g = LabelRepeated \<longrightarrow>
        (c(n := c n + elements f v)) k + ?sum es k g \<le> cap g \<or> k \<notin> fst ` set es)" unfolding Cons.IH ..
    also have "\<dots> \<longleftrightarrow> (\<forall>k g. K k = Some g \<longrightarrow> label g = LabelRepeated \<longrightarrow>
        c k + ?sum (e # es) k g \<le> cap g \<or> k \<notin> fst ` set (e # es))"
    proof -
      have other: "(c(n := c n + elements f v)) k + ?sum es k g \<le> cap g \<or> k \<notin> fst ` set es \<longleftrightarrow>
          c k + ?sum (e # es) k g \<le> cap g \<or> k \<notin> fst ` set (e # es)" if "k \<noteq> n" for k g using that e by simp
      have self: "c n + elements f v \<le> cap f \<and> ((c(n := c n + elements f v)) n + ?sum es n f \<le> cap f \<or> n \<notin> fst ` set es) \<longleftrightarrow>
          c n + ?sum (e # es) n f \<le> cap f \<or> n \<notin> fst ` set (e # es)"
        using e by (cases "n \<in> fst ` set es") (auto simp: zero)
      show ?thesis using other self f by (metis option.inject)
    qed
    finally show ?thesis .
  next
    case False
    then have "count_fit K cap c (e # es) = count_fit K cap c es" using e by (cases "K n") auto
    moreover have "c k + ?sum (e # es) k f \<le> cap f \<or> k \<notin> fst ` set (e # es) \<longleftrightarrow> c k + ?sum es k f \<le> cap f \<or> k \<notin> fst ` set es"
      if "K k = Some f" "label f = LabelRepeated" for k f using that False e by (cases "k = n") auto
    ultimately show ?thesis using Cons.IH [of c] by metis
  qed
qed simp

lemma message_ok_iff:
  "message_ok nested policy schema fs \<longleftrightarrow>
     (\<forall>e \<in> set fs. entry_ok nested policy schema e) \<and> all_fit schema policy empty_scan fs"
proof -
  let ?K = "bt_get (schema_fields schema)"
  have zero: "(\<Sum>(m, v)\<leftarrow>fs. if m = n then elements f v else 0) = 0" if "n \<notin> fst ` set fs" for n f
    using that by (induction fs) auto
  have u: "unknown_fit ?K cap 0 fs \<longleftrightarrow> length (filter (\<lambda>(n, _). ?K n = None) fs) \<le> cap" for cap
    unfolding unknown_fit_iff by auto
  have s: "singular_fit ?K {} fs \<longleftrightarrow> (\<forall>n field. ?K n = Some field \<longrightarrow> label field \<noteq> LabelRepeated \<longrightarrow>
      length (filter (\<lambda>(m, _). m = n) fs) \<le> 1)" by (simp add: singular_fit_iff)
  have "single_valued (oneof_uses ?K fs) \<longleftrightarrow> (\<forall>n \<in> fst ` set fs. \<forall>m \<in> fst ` set fs. \<forall>f g name. ?K n = Some f \<longrightarrow>
      ?K m = Some g \<longrightarrow> oneof f = Some name \<longrightarrow> oneof g = Some name \<longrightarrow> field_name f = field_name g)"
    unfolding single_valued_def oneof_uses_def by blast
  then have o: "oneof_fit ?K (bt_get []) fs \<longleftrightarrow> (\<forall>n \<in> fst ` set fs. \<forall>m \<in> fst ` set fs. \<forall>f g name. ?K n = Some f \<longrightarrow>
      ?K m = Some g \<longrightarrow> oneof f = Some name \<longrightarrow> oneof g = Some name \<longrightarrow> field_name f = field_name g)"
    unfolding oneof_fit_iff by (simp add: bt_get_def case_prod_beta)
  have "0 + (\<Sum>(m, v)\<leftarrow>fs. if m = n then elements f v else 0) \<le> k \<or> n \<notin> fst ` set fs \<longleftrightarrow>
      (\<Sum>(m, v)\<leftarrow>fs. if m = n then elements f v else 0) \<le> k" for n f k
    using zero [of n f] by (metis add_0 le0)
  then have c: "count_fit ?K cap (\<lambda>n. 0) fs \<longleftrightarrow> (\<forall>n f. ?K n = Some f \<longrightarrow> label f = LabelRepeated \<longrightarrow>
      (\<Sum>(m, v)\<leftarrow>fs. if m = n then elements f v else 0) \<le> cap f)" for cap
    unfolding count_fit_iff by presburger
  have "observed_count empty_scan = (\<lambda>n. 0)" "bt_invar (oneofs empty_scan)" "bt_invar (repeated_counts empty_scan)"
    by (simp_all add: fun_eq_iff observed_count_def empty_scan_def bt_get_def bt_invar_def)
  with all_fit_split [of empty_scan ?K schema policy fs]
  have "all_fit schema policy empty_scan fs \<longleftrightarrow>
      unknown_fit ?K (max_repeated_field_items (policy_limits policy)) 0 fs \<and> singular_fit ?K {} fs \<and>
      oneof_fit ?K (bt_get []) fs \<and> count_fit ?K (repeated_cap policy) (\<lambda>n. 0) fs" by (simp add: empty_scan_def)
  then show ?thesis unfolding message_ok_def u s o c by argo
qed

lemma validate_nested_iff:
  assumes "max_repeated_field_items (policy_limits policy) \<le> u64_max" "length bytes \<le> u64_max"
  shows "validate_nested schema policy levels name bytes base = Ok () \<longleftrightarrow> well_formed schema policy levels name bytes"
  using assms(2)
proof (induction levels arbitrary: name bytes base)
  case (Suc levels)
  have "validate_fields (validate_nested schema policy levels) name message bytes policy base (0, empty_scan) = Ok () \<longleftrightarrow>
      (\<exists>fs. drop 0 bytes = message_encoding fs \<and> (\<forall>e \<in> set fs. entry_ok (well_formed schema policy levels) policy message e) \<and>
        all_fit message policy empty_scan fs)" for message
    by (rule validate_fields_iff [OF Suc.prems assms(1)]) (simp_all add: Suc.IH)
  then show ?case by (auto simp: message_ok_iff)
qed (simp add: wire_error_def)

subsection \<open>The validator returns\<close>

lemma parse_varint_loop_not_Abort: "parse_varint_loop bytes start indices v \<noteq> Abort"
  by (induction bytes start indices v rule: parse_varint_loop.induct) (auto simp: bind_o_Abort_iff Let_def)

lemma wire_reads_not_Abort [simp]:
  "parse_varint bytes p \<noteq> Abort" "fixed_end bytes p width \<noteq> Abort" "take_length bytes p \<noteq> Abort"
  "wire_error message offset violation \<noteq> Abort" "validate_varint_value message field v offset \<noteq> Abort"
  by (simp_all add: parse_varint_def parse_varint_loop_not_Abort fixed_end_def take_length_def wire_error_def
      validate_varint_value_def bind_o_Abort_iff Let_def split: prod.split)

lemma packed_varints_not_Abort: "packed_varints message field payload base remaining cap p count \<noteq> Abort"
proof (induction message field payload base remaining cap p count rule: packed_varints.induct)
  case (1 message field payload base remaining cap p count)
  then show ?case by (subst packed_varints.simps) (auto simp: bind_o_Abort_iff)
qed

lemma field_parts_not_Abort [simp]:
  "skip_unknown_value message bytes p t base \<noteq> Abort" "validate_packed message field payload base remaining cap \<noteq> Abort"
  "unknown_field message schema n policy offset st \<noteq> Abort" "enter_field message field n offset st \<noteq> Abort"
  "count_field message field n policy added offset st \<noteq> Abort"
  by (auto simp: skip_unknown_value_def validate_packed_def unknown_field_def enter_field_def count_field_def
      packed_varints_not_Abort bind_o_Abort_iff Let_def split: option.split)

lemma validate_delimited_not_Abort:
  "(\<And>name payload b. nested name payload b \<noteq> Abort) \<Longrightarrow>
     validate_delimited nested message field bytes p policy base \<noteq> Abort"
  by (simp add: validate_delimited_def bind_o_Abort_iff Let_def)

lemma validate_value_not_Abort:
  "(\<And>name payload b. nested name payload b \<noteq> Abort) \<Longrightarrow>
     validate_value nested message field bytes p policy base \<noteq> Abort"
  by (simp add: validate_value_def validate_delimited_not_Abort bind_o_Abort_iff split: option.split prod.split)

lemma field_values_not_Abort:
  "(\<And>name payload b. nested name payload b \<noteq> Abort) \<Longrightarrow>
     field_values nested message field n t bytes p policy base tag_offset st \<noteq> Abort"
  by (simp add: field_values_def validate_value_not_Abort bind_o_Abort_iff split: prod.split)

lemma field_step_not_Abort:
  "(\<And>name payload b. nested name payload b \<noteq> Abort) \<Longrightarrow>
     field_step nested message schema bytes policy base st \<noteq> Abort"
  by (simp add: field_step_def field_values_not_Abort bind_o_Abort_iff Let_def split: option.split prod.split)

lemma validate_fields_not_Abort:
  "(\<And>name payload b. nested name payload b \<noteq> Abort) \<Longrightarrow>
     validate_fields nested message schema bytes policy base st \<noteq> Abort"
proof (induction nested message schema bytes policy base st rule: validate_fields.induct)
  case (1 nested message schema bytes policy base st)
  then show ?case by (subst validate_fields.simps) (simp add: bind_o_Abort_iff field_step_not_Abort)
qed

lemma validate_nested_not_Abort: "validate_nested schema policy levels name bytes base \<noteq> Abort"
  by (induction levels arbitrary: name bytes base) (simp_all add: bind_o_Abort_iff validate_fields_not_Abort)

text \<open>
  C2: The strict validator always returns, and it accepts exactly the well-formed messages: those
  that are the canonical encoding of a list of fields in which every number is admissible and not
  reserved, every known value has the wire type, range, size, text encoding and nested message its
  field declares, no singular field repeats, no oneof is set twice, and no repeated field, packed
  or not, nor the unknown fields together exceed their limits, down to the nesting limit.
\<close>

theorem wire_validate_exact:
  assumes "length bytes \<le> u64_max" "max_repeated_field_items (policy_limits policy) \<le> u64_max"
  shows "wire_validate schema message bytes policy \<noteq> Abort \<and>
    (wire_validate schema message bytes policy = Ok () \<longleftrightarrow>
      well_formed schema policy (max_nesting_depth (policy_limits policy)) message bytes)"
  unfolding wire_validate_def
  using validate_nested_not_Abort validate_nested_iff [OF assms(2,1)] by blast

theorem wire_validate_exact_witness:
  "\<exists>schema. wire_validate schema ''m'' [0x08, 0x96, 0x01, 0x12, 0x01, 0x61] checked_in_policy = Ok () \<and>
    well_formed schema checked_in_policy 8 ''m'' [0x08, 0x96, 0x01, 0x12, 0x01, 0x61] \<and>
    \<not> well_formed schema checked_in_policy 8 ''m'' [0x08, 0x96, 0x01, 0x08, 0x01]"
proof -
  define schema where "schema = \<lparr>messages = [(''m'', \<lparr>schema_fields =
    [(1, \<lparr>field_name = ''a'', full_name = ''m.a'', label = LabelOptional, kind = TypeUint32, type_name = None, oneof = None\<rparr>),
     (2, \<lparr>field_name = ''b'', full_name = ''m.b'', label = LabelRepeated, kind = TypeString, type_name = None, oneof = None\<rparr>)],
    reserved_ranges = []\<rparr>)], enums = []\<rparr>"
  have ok: "wire_validate schema ''m'' [0x08, 0x96, 0x01, 0x12, 0x01, 0x61] checked_in_policy = Ok ()"
    unfolding schema_def by code_simp
  have no: "wire_validate schema ''m'' [0x08, 0x96, 0x01, 0x08, 0x01] checked_in_policy =
      Err (WireFault ''m'' 3 (DuplicateSingular ''a''))"
    unfolding schema_def by code_simp
  have p: "max_repeated_field_items (policy_limits checked_in_policy) \<le> u64_max"
    "max_nesting_depth (policy_limits checked_in_policy) = 8" by (simp_all add: checked_in_policy_def u64_max_def)
  have l: "length [0x08, 0x96, 0x01, 0x12, 0x01, 0x61 :: byte] \<le> u64_max" "length [0x08, 0x96, 0x01, 0x08, 0x01 :: byte] \<le> u64_max"
    by (simp_all add: u64_max_def)
  show ?thesis
    using wire_validate_exact [OF l(1) p(1), of schema "''m''"] wire_validate_exact [OF l(2) p(1), of schema "''m''"] ok no p(2)
    by auto
qed

end
