(* ===== verification/Protocol_Frame.thy ===== *)
theory Protocol_Frame
  imports Protocol_Policy
begin

section \<open>Framing\<close>

text \<open>
  \<open>crates/eutheto-protocol/src/frame.rs\<close>. A frame is a four-byte big-endian length and a payload.
  A reader is the sequence of what its \<open>read\<close> calls return: bytes in chunks of any size,
  interruptions and failures. A writer records what was written and may fail at any call.
  The generated message types come with an encoder, which is an argument (\<open>codec\<close>), as is
  whether an allocation of a given size succeeds. The asynchronous writer functions are the same
  functions over an asynchronous writer.
\<close>

subsection \<open>Big-endian lengths\<close>

definition u32_max_value :: nat where
  "u32_max_value = 2 ^ 32 - 1"

definition from_be_bytes :: "byte list \<Rightarrow> u32" where
  "from_be_bytes bytes = foldl (\<lambda>n b. n * 256 + unat b) 0 bytes"

definition to_be_bytes :: "u32 \<Rightarrow> byte list" where
  "to_be_bytes n = [word_of_nat (n div 2 ^ 24), word_of_nat (n div 2 ^ 16), word_of_nat (n div 2 ^ 8), word_of_nat n]"

definition u32_try_from :: "usize \<Rightarrow> u32 option" where
  "u32_try_from n = (if n \<le> u32_max_value then Some n else None)"

definition frame_error :: "frame_fault \<Rightarrow> (protocol_fault, 'a) outcome" where
  "frame_error fault = Err (FrameFault fault)"

subsection \<open>Inspecting a frame\<close>

record frame_slice =
  payload :: "byte list"
  remainder :: "byte list"

definition validate_length :: "usize \<Rightarrow> frame_class \<Rightarrow> protocol_policy \<Rightarrow> (protocol_fault, unit) outcome" where
  "validate_length len class policy =
     (if len = 0 then frame_error ZeroLength
      else let cap = frame_cap policy class in
        if len > cap then frame_error (Oversized (policy_name class) len cap) else Ok ())"

definition inspect_frame ::
    "byte list \<Rightarrow> frame_class \<Rightarrow> protocol_policy \<Rightarrow> (protocol_fault, frame_slice) outcome" where
  "inspect_frame input class policy =
     (if length input < 4 then frame_error (TruncatedPrefix (length input))
      else let len = from_be_bytes (take 4 input) in
        bind_o (validate_length len class policy) (\<lambda>_.
        bind_o (ok_or (FrameFault FrameLengthOverflow) (usize_checked_add 4 len)) (\<lambda>end.
        if length input < end then frame_error (TruncatedPayload len (length input - 4))
        else Ok \<lparr>payload = slice input 4 end, remainder = drop end input\<rparr>)))"

subsection \<open>Reading a frame\<close>

datatype read_event = ReadBytes "byte list" | ReadInterrupted | ReadFailed error_kind

type_synonym reader = "read_event list"

fun read_some :: "reader \<Rightarrow> usize \<Rightarrow> string \<Rightarrow> (protocol_fault, byte list) outcome \<times> reader" where
  "read_some [] n operation = (Ok [], [])"
| "read_some (ReadBytes bytes # events) n operation =
     (Ok (take n bytes), if length bytes \<le> n then events else ReadBytes (drop n bytes) # events)"
| "read_some (ReadInterrupted # events) n operation = read_some events n operation"
| "read_some (ReadFailed kind # events) n operation = (Err (IoFault operation kind), events)"

lemma read_some_length: "read_some r n operation = (Ok bytes, r') \<Longrightarrow> length bytes \<le> n"
  by (induction r n operation rule: read_some.induct) auto

function read_until_eof ::
    "reader \<Rightarrow> usize \<Rightarrow> string \<Rightarrow> (protocol_fault, byte list) outcome \<times> reader" where
  "read_until_eof r n operation =
     (if n = 0 then (Ok [], r)
      else case read_some r n operation of
        (Ok bytes, r) \<Rightarrow>
          if bytes = [] then (Ok [], r)
          else (case read_until_eof r (n - length bytes) operation of
              (Ok others, r) \<Rightarrow> (Ok (bytes @ others), r)
            | (Err e, r) \<Rightarrow> (Err e, r)
            | (Abort, r) \<Rightarrow> (Abort, r))
      | (Err e, r) \<Rightarrow> (Err e, r)
      | (Abort, r) \<Rightarrow> (Abort, r))"
  by pat_completeness auto
termination by (relation "measure (\<lambda>(r, n, _). n)") (auto dest: read_some_length)

declare read_until_eof.simps [simp del]

definition read_payload ::
    "(usize \<Rightarrow> bool) \<Rightarrow> reader \<Rightarrow> usize \<Rightarrow> (protocol_fault, byte list option) outcome \<times> reader" where
  "read_payload alloc r len =
     (if \<not> alloc len then (frame_error FrameAllocation, r)
      else case read_until_eof r len ''reading frame payload'' of
        (Ok bytes, r) \<Rightarrow>
          if length bytes \<noteq> len then (frame_error (TruncatedPayload len (length bytes)), r)
          else (Ok (Some bytes), r)
      | (Err e, r) \<Rightarrow> (Err e, r)
      | (Abort, r) \<Rightarrow> (Abort, r))"

definition read_frame ::
    "(usize \<Rightarrow> bool) \<Rightarrow> reader \<Rightarrow> frame_class \<Rightarrow> protocol_policy
       \<Rightarrow> (protocol_fault, byte list option) outcome \<times> reader" where
  "read_frame alloc r class policy =
     (case read_some r 1 ''reading frame prefix'' of
        (Ok first, r) \<Rightarrow>
          if first = [] then (Ok None, r)
          else (case read_until_eof r 3 ''reading frame prefix'' of
              (Ok rest, r) \<Rightarrow>
                if 1 + length rest \<noteq> 4 then (frame_error (TruncatedPrefix (1 + length rest)), r)
                else let len = from_be_bytes (first @ rest) in
                  (case validate_length len class policy of
                     Ok _ \<Rightarrow> read_payload alloc r len
                   | Err e \<Rightarrow> (Err e, r)
                   | Abort \<Rightarrow> (Abort, r))
            | (Err e, r) \<Rightarrow> (Err e, r)
            | (Abort, r) \<Rightarrow> (Abort, r))
      | (Err e, r) \<Rightarrow> (Err e, r)
      | (Abort, r) \<Rightarrow> (Abort, r))"

subsection \<open>Encoding a frame\<close>

record 'm codec =
  encoded_len :: "'m \<Rightarrow> usize"
  encode :: "'m \<Rightarrow> (string, byte list) outcome"

definition encode_frame_allocating ::
    "(usize \<Rightarrow> bool) \<Rightarrow> 'm codec \<Rightarrow> 'm \<Rightarrow> frame_class \<Rightarrow> protocol_policy
       \<Rightarrow> (protocol_fault, byte list) outcome" where
  "encode_frame_allocating alloc codec message class policy =
     (let len = encoded_len codec message in
      if len = 0 then frame_error EmptyEncoding
      else bind_o (validate_length len class policy) (\<lambda>_.
        bind_o (ok_or (FrameFault FrameLengthOverflow) (u32_try_from len)) (\<lambda>encoded_length.
        bind_o (ok_or (FrameFault FrameLengthOverflow) (usize_checked_add len 4)) (\<lambda>capacity.
        if \<not> alloc capacity then frame_error FrameAllocation
        else bind_o (map_err (\<lambda>m. FrameFault (FrameEncode m)) (encode codec message)) (\<lambda>bytes.
          Ok (to_be_bytes encoded_length @ bytes))))))"

definition encode_frame ::
    "(usize \<Rightarrow> bool) \<Rightarrow> 'm codec \<Rightarrow> 'm \<Rightarrow> frame_class \<Rightarrow> protocol_policy
       \<Rightarrow> (protocol_fault, byte list) outcome" where
  "encode_frame alloc codec message class policy =
     (if class = SolveRequestClass then frame_error StreamingRequired
      else encode_frame_allocating alloc codec message class policy)"

subsection \<open>Streaming a solve request\<close>

record solve_parameters =
  random_seed :: "int option"
  stop_after_first_feasible :: "bool option"
  emit_intermediate_solutions :: "bool option"
  log_search_progress :: "bool option"
  deterministic_test_profile :: "bool option"

record projection_request =
  projection_id :: u64
  cp_sat_variable_index :: int

record resource_limits =
  wall_time_millis :: u64
  memory_bytes :: "u64 option"
  worker_threads :: u32

record solve_request =
  request_id :: string
  cp_model_proto :: "byte list"
  parameters :: "solve_parameters option"
  projection_requests :: "projection_request list"
  request_limits :: "resource_limits option"
  model_fingerprint :: "byte list"

record solve_codecs =
  parameters_codec :: "solve_parameters codec"
  projection_codec :: "projection_request codec"
  limits_codec :: "resource_limits codec"
  request_encoded_len :: "solve_request \<Rightarrow> usize"

record writer =
  written :: "byte list"
  write_faults :: "(error_kind \<times> usize) option list"

type_synonym 'a writes = "writer \<Rightarrow> (protocol_fault, 'a) outcome \<times> writer"

definition as_bytes :: "string \<Rightarrow> byte list" where
  "as_bytes s = map of_char s"

definition then_w :: "unit writes \<Rightarrow> unit writes \<Rightarrow> unit writes" where
  "then_w f g w = (case f w of (Ok _, w) \<Rightarrow> g w | (Err e, w) \<Rightarrow> (Err e, w) | (Abort, w) \<Rightarrow> (Abort, w))"

fun each_w :: "('a \<Rightarrow> unit writes) \<Rightarrow> 'a list \<Rightarrow> unit writes" where
  "each_w f [] w = (Ok (), w)"
| "each_w f (x # xs) w = then_w (f x) (each_w f xs) w"

definition write_all :: "byte list \<Rightarrow> string \<Rightarrow> unit writes" where
  "write_all bytes operation w =
     (case write_faults w of
        Some (kind, n) # faults \<Rightarrow>
          (Err (IoFault operation kind), w\<lparr>written := written w @ take n bytes, write_faults := faults\<rparr>)
      | None # faults \<Rightarrow> (Ok (), w\<lparr>written := written w @ bytes, write_faults := faults\<rparr>)
      | [] \<Rightarrow> (Ok (), w\<lparr>written := written w @ bytes\<rparr>))"

definition write_varint :: "usize \<Rightarrow> string \<Rightarrow> unit writes" where
  "write_varint value operation w =
     (if length (varint_bytes value) > 10 then (Abort, w) else write_all (varint_bytes value) operation w)"

definition write_length_delimited :: "byte \<Rightarrow> byte list \<Rightarrow> string \<Rightarrow> unit writes" where
  "write_length_delimited tag value operation =
     then_w (write_all [tag] operation)
    (then_w (write_varint (length value) operation) (write_all value operation))"

definition write_nested :: "'m codec \<Rightarrow> byte \<Rightarrow> 'm \<Rightarrow> unit writes" where
  "write_nested codec tag message w =
     (case encode codec message of
        Ok scratch \<Rightarrow> write_length_delimited tag scratch ''writing nested solve field'' w
      | Err m \<Rightarrow> (frame_error (FrameEncode m), w)
      | Abort \<Rightarrow> (Abort, w))"

definition length_delimited_field_length :: "usize \<Rightarrow> (protocol_fault, usize) outcome" where
  "length_delimited_field_length value_length =
     bind_o (ok_or (FrameFault FrameLengthOverflow) (usize_checked_add 1 (varint_length value_length))) (\<lambda>len.
       ok_or (FrameFault FrameLengthOverflow) (usize_checked_add len value_length))"

definition add_field_length :: "usize \<Rightarrow> usize \<Rightarrow> (protocol_fault, usize) outcome" where
  "add_field_length field_length len =
     bind_o (length_delimited_field_length field_length) (\<lambda>field.
       ok_or (FrameFault FrameLengthOverflow) (usize_checked_add len field))"

definition manual_solve_request_length :: "solve_codecs \<Rightarrow> solve_request \<Rightarrow> (protocol_fault, usize) outcome" where
  "manual_solve_request_length codecs request =
     bind_o (each_o add_field_length (List.map_filter id
        [if request_id request \<noteq> [] then Some (length (as_bytes (request_id request))) else None,
         if cp_model_proto request \<noteq> [] then Some (length (cp_model_proto request)) else None,
         map_option (encoded_len (parameters_codec codecs)) (parameters request)]) 0) (\<lambda>len.
     bind_o (each_o (\<lambda>p. add_field_length (encoded_len (projection_codec codecs) p))
        (projection_requests request) len) (\<lambda>len.
     bind_o (case request_limits request of
         Some l \<Rightarrow> add_field_length (encoded_len (limits_codec codecs) l) len | None \<Rightarrow> Ok len) (\<lambda>len.
     if model_fingerprint request \<noteq> [] then add_field_length (length (model_fingerprint request)) len
     else Ok len)))"

record prepared_solve_request =
  solve_length :: usize
  frame_prefix :: "byte list"
  scratch_capacity :: usize

definition prepare_solve_request ::
    "solve_codecs \<Rightarrow> solve_request \<Rightarrow> protocol_policy \<Rightarrow> (protocol_fault, prepared_solve_request) outcome" where
  "prepare_solve_request codecs request policy =
     bind_o (manual_solve_request_length codecs request) (\<lambda>len.
     if len \<noteq> request_encoded_len codecs request then frame_error SchemaDrift
     else bind_o (length_delimited_field_length len) (\<lambda>payload_length.
       bind_o (validate_length payload_length SolveRequestClass policy) (\<lambda>_.
       bind_o (ok_or (FrameFault FrameLengthOverflow) (u32_try_from payload_length)) (\<lambda>prefix.
       Ok \<lparr>solve_length = len, frame_prefix = to_be_bytes prefix,
           scratch_capacity =
             max (max (case parameters request of None \<Rightarrow> 0 | Some p \<Rightarrow> encoded_len (parameters_codec codecs) p)
                   (foldr max (map (encoded_len (projection_codec codecs)) (projection_requests request)) 0))
                 (case request_limits request of None \<Rightarrow> 0 | Some l \<Rightarrow> encoded_len (limits_codec codecs) l)\<rparr>))))"

definition write_solve_fields :: "solve_codecs \<Rightarrow> solve_request \<Rightarrow> usize \<Rightarrow> unit writes" where
  "write_solve_fields codecs request len =
     then_w (write_all [0x12] ''writing parent solve tag'')
    (then_w (write_varint len ''writing parent solve length'')
    (then_w (if request_id request \<noteq> []
        then write_length_delimited 0x0A (as_bytes (request_id request)) ''writing solve request ID''
        else Pair (Ok ()))
    (then_w (if cp_model_proto request \<noteq> []
        then write_length_delimited 0x12 (cp_model_proto request) ''writing solve model'' else Pair (Ok ()))
    (then_w (case parameters request of
        Some p \<Rightarrow> write_nested (parameters_codec codecs) 0x1A p | None \<Rightarrow> Pair (Ok ()))
    (then_w (each_w (write_nested (projection_codec codecs) 0x22) (projection_requests request))
    (then_w (case request_limits request of
        Some l \<Rightarrow> write_nested (limits_codec codecs) 0x2A l | None \<Rightarrow> Pair (Ok ()))
    (if model_fingerprint request \<noteq> []
     then write_length_delimited 0x32 (model_fingerprint request) ''writing solve fingerprint''
     else Pair (Ok ()))))))))"

definition write_solve_request_frame ::
    "(usize \<Rightarrow> bool) \<Rightarrow> solve_codecs \<Rightarrow> solve_request \<Rightarrow> protocol_policy \<Rightarrow> unit writes" where
  "write_solve_request_frame alloc codecs request policy w =
     (case prepare_solve_request codecs request policy of
        Ok prepared \<Rightarrow>
          if \<not> alloc (scratch_capacity prepared) then (frame_error FrameAllocation, w)
          else then_w (write_all (frame_prefix prepared) ''writing solve frame prefix'')
            (write_solve_fields codecs request (solve_length prepared)) w
      | Err e \<Rightarrow> (Err e, w)
      | Abort \<Rightarrow> (Abort, w))"

subsection \<open>Lengths on the wire\<close>

lemma from_to_be_bytes: "n \<le> u32_max_value \<Longrightarrow> from_be_bytes (to_be_bytes n) = n"
proof -
  assume "n \<le> u32_max_value"
  then have a: "n div 2 ^ 24 < 256" by (simp add: u32_max_value_def less_mult_imp_div_less)
  have d: "n div 2 ^ 24 = n div 2 ^ 16 div 256" "n div 2 ^ 16 = n div 2 ^ 8 div 256" "n div 2 ^ 8 = n div 256"
    by (simp_all add: div_mult2_eq [symmetric])
  have m: "m div 256 * 256 + m mod 256 = m" for m :: nat by simp
  have u: "unat (word_of_nat m :: byte) = m mod 256" for m by (simp add: unat_of_nat)
  have "from_be_bytes (to_be_bytes n) =
      (((n div 2 ^ 24) * 256 + n div 2 ^ 16 mod 256) * 256 + n div 2 ^ 8 mod 256) * 256 + n mod 256"
    unfolding from_be_bytes_def to_be_bytes_def by (simp only: foldl.simps u) (use a in simp)
  also have "\<dots> = n" unfolding d(1) m unfolding d(2) m unfolding d(3) m ..
  finally show ?thesis .
qed

lemma length_to_be_bytes [simp]: "length (to_be_bytes n) = 4"
  by (simp add: to_be_bytes_def)

lemma from_be_bytes_less: "length bytes = 4 \<Longrightarrow> from_be_bytes bytes \<le> u32_max_value"
proof -
  assume "length bytes = 4"
  then obtain a b c d where "bytes = [a, b, c, d]" by (auto simp: numeral_eq_Suc length_Suc_conv)
  then show ?thesis
    using byte_less [of a] byte_less [of b] byte_less [of c] byte_less [of d]
    by (simp add: from_be_bytes_def u32_max_value_def)
qed

lemma u32_fits: "n \<le> u32_max_value \<Longrightarrow> 4 + n \<le> u64_max"
  by (simp add: u32_max_value_def u64_max_def)

lemma inspect_frame_of_parts:
  assumes "validate_length (length body) c policy = Ok ()" "length body \<le> u32_max_value"
  shows "inspect_frame (to_be_bytes (length body) @ body @ rest) c policy = Ok \<lparr>payload = body, remainder = rest\<rparr>"
  using assms u32_fits [OF assms(2)]
  by (simp add: inspect_frame_def Let_def from_to_be_bytes usize_checked_add_def u64_checked_add_def slice_def)

subsection \<open>Reading agrees with inspecting\<close>

fun delivers :: "reader \<Rightarrow> byte list \<Rightarrow> bool" where
  "delivers [] s = (s = [])"
| "delivers (ReadBytes bytes # events) s =
     (bytes \<noteq> [] \<and> bytes = take (length bytes) s \<and> delivers events (drop (length bytes) s))"
| "delivers (ReadInterrupted # events) s = delivers events s"
| "delivers (ReadFailed kind # events) s = False"

lemma read_some_delivers:
  assumes "delivers r s" "0 < n"
  shows "\<exists>bytes r'. read_some r n operation = (Ok bytes, r') \<and> bytes = take (length bytes) s \<and>
    length bytes \<le> n \<and> (bytes = [] \<longleftrightarrow> s = []) \<and> delivers r' (drop (length bytes) s)"
  using assms
proof (induction r n operation rule: read_some.induct)
  case (2 bytes events n operation)
  obtain t where s: "s = bytes @ t" "delivers events t" "bytes \<noteq> []"
    using 2 by (metis append_take_drop_id append_eq_conv_conj delivers.simps(2))
  then show ?case using 2(2) by (auto simp: min_def)
qed auto

lemma read_until_eof_delivers:
  assumes "delivers r s"
  shows "\<exists>r'. read_until_eof r n operation = (Ok (take n s), r') \<and> delivers r' (drop n s)"
  using assms
proof (induction r n operation arbitrary: s rule: read_until_eof.induct)
  case (1 r n operation)
  show ?case
  proof (cases "n = 0")
    case False
    obtain bytes r' where b: "read_some r n operation = (Ok bytes, r')" "bytes = take (length bytes) s"
      "length bytes \<le> n" "bytes = [] \<longleftrightarrow> s = []" "delivers r' (drop (length bytes) s)"
      using read_some_delivers [OF "1.prems"] False by blast
    show ?thesis
    proof (cases "bytes = []")
      case True
      with b False show ?thesis by (subst read_until_eof.simps) simp
    next
      case ne: False
      obtain r'' where r: "read_until_eof r' (n - length bytes) operation = (Ok (take (n - length bytes) (drop (length bytes) s)), r'')"
        "delivers r'' (drop (n - length bytes) (drop (length bytes) s))"
        using "1.IH" [OF False b(1) [symmetric] refl ne b(5)] by blast
      have "take n s = bytes @ take (n - length bytes) (drop (length bytes) s)"
        using b(2,3) by (metis le_add_diff_inverse take_add)
      moreover have "drop (n - length bytes) (drop (length bytes) s) = drop n s" using b(3) by simp
      ultimately show ?thesis using False b(1) r ne by (subst read_until_eof.simps) simp
    qed
  qed (use 1 in \<open>simp add: read_until_eof.simps\<close>)
qed

text \<open>
  C18: However the transport cuts a byte stream into chunks and interrupts the reads, reading a frame
  gives what inspecting the whole stream gives: no frame exactly at the end of the stream, the
  payload of a well-formed frame with the reader left at the remainder, and the same fault
  otherwise.
\<close>

theorem read_frame_chunking:
  assumes "delivers r s"
  shows "\<exists>r'. read_frame (\<lambda>_. True) r c policy =
      (if s = [] then Ok None
       else case inspect_frame s c policy of Ok f \<Rightarrow> Ok (Some (payload f)) | Err e \<Rightarrow> Err e | Abort \<Rightarrow> Abort, r') \<and>
    (\<forall>f. s \<noteq> [] \<longrightarrow> inspect_frame s c policy = Ok f \<longrightarrow> delivers r' (remainder f))"
proof -
  obtain first r1 where f: "read_some r 1 ''reading frame prefix'' = (Ok first, r1)" "first = take (length first) s"
    "length first \<le> 1" "first = [] \<longleftrightarrow> s = []" "delivers r1 (drop (length first) s)"
    using read_some_delivers [OF assms, of 1 "''reading frame prefix''"] by (metis zero_less_one)
  show ?thesis
  proof (cases "s = []")
    case False
    then have "0 < length first" using f(4) by simp
    with f(3) have l1: "length first = 1" by linarith
    obtain r2 where r2: "read_until_eof r1 3 ''reading frame prefix'' = (Ok (take 3 (drop 1 s)), r2)"
      "delivers r2 (drop 4 s)"
      using read_until_eof_delivers [OF f(5), of 3 "''reading frame prefix''"] l1 by auto
    have p: "first @ take 3 (drop 1 s) = take 4 s"
      using f(2) l1 take_add [of 1 3 s] by simp
    have len: "1 + length (take 3 (drop 1 s)) = length (take 4 s)" using False by (cases s) auto
    show ?thesis
    proof (cases "length s < 4")
      case True
      with False f r2 len show ?thesis
        by (intro exI [of _ r2]) (simp add: read_frame_def inspect_frame_def frame_error_def)
    next
      case long: False
      define n where "n = from_be_bytes (take 4 s)"
      have n: "4 + n \<le> u64_max" using from_be_bytes_less [of "take 4 s"] long u32_fits by (simp add: n_def)
      obtain r3 where r3: "read_until_eof r2 n ''reading frame payload'' = (Ok (take n (drop 4 s)), r3)"
        "delivers r3 (drop n (drop 4 s))" using read_until_eof_delivers [OF r2(2)] by blast
      have i: "inspect_frame s c policy = bind_o (validate_length n c policy) (\<lambda>_.
          if length s < 4 + n then frame_error (TruncatedPayload n (length s - 4))
          else Ok \<lparr>payload = take n (drop 4 s), remainder = drop n (drop 4 s)\<rparr>)"
        using long n by (simp add: inspect_frame_def Let_def n_def [symmetric] usize_checked_add_def
            u64_checked_add_def slice_def add.commute)
      have r: "read_frame (\<lambda>_. True) r c policy = (case validate_length n c policy of
          Ok _ \<Rightarrow> read_payload (\<lambda>_. True) r2 n | Err e \<Rightarrow> (Err e, r2) | Abort \<Rightarrow> (Abort, r2))"
        unfolding n_def using False f(1,4) r2(1) long len p by (simp add: read_frame_def Let_def)
      show ?thesis
        using False long r3 unfolding i r
        by (cases "validate_length n c policy") (auto simp: read_payload_def frame_error_def)
    qed
  qed (use f in \<open>simp add: read_frame_def\<close>)
qed

theorem read_frame_chunking_witness:
  "\<exists>r'. read_frame (\<lambda>_. True) [ReadBytes [0, 0], ReadInterrupted, ReadBytes [0, 2, 7], ReadBytes [8, 9]]
      HandshakeClass checked_in_policy = (Ok (Some [7, 8]), r') \<and> delivers r' [9]"
proof -
  let ?s = "[0, 0, 0, 2, 7, 8, 9] :: byte list"
  have d: "delivers [ReadBytes [0, 0], ReadInterrupted, ReadBytes [0, 2, 7], ReadBytes [8, 9]] ?s" by simp
  have "inspect_frame ?s HandshakeClass checked_in_policy = Ok \<lparr>payload = [7, 8], remainder = [9]\<rparr>"
    by (simp add: inspect_frame_def from_be_bytes_def validate_length_def frame_cap_def checked_in_policy_def
        usize_checked_add_def u64_checked_add_def u64_max_def slice_def Let_def)
  with read_frame_chunking [OF d, of HandshakeClass checked_in_policy] show ?thesis by auto
qed

subsection \<open>Encoding\<close>

lemma validate_length_not_Abort [simp]: "validate_length n c policy \<noteq> Abort"
  by (simp add: validate_length_def frame_error_def Let_def)

text \<open>
  C31: A frame that the encoder returns is read back: inspecting it in front of any further bytes
  yields exactly the encoded message and leaves exactly those bytes.
\<close>

theorem encode_frame_roundtrip:
  assumes "encode_frame alloc codec message c policy = Ok frame"
    and "\<forall>bytes. encode codec message = Ok bytes \<longrightarrow> length bytes = encoded_len codec message"
  shows "\<exists>bytes. encode codec message = Ok bytes \<and>
    inspect_frame (frame @ rest) c policy = Ok \<lparr>payload = bytes, remainder = rest\<rparr>"
proof -
  obtain bytes where b: "validate_length (encoded_len codec message) c policy = Ok ()"
    "encoded_len codec message \<le> u32_max_value" "encode codec message = Ok bytes"
    "frame = to_be_bytes (encoded_len codec message) @ bytes"
    using assms(1) by (auto simp: encode_frame_def encode_frame_allocating_def frame_error_def Let_def
        u32_try_from_def split: if_splits)
  with assms(2) inspect_frame_of_parts [of bytes c policy rest] show ?thesis by simp
qed

theorem encode_frame_roundtrip_witness:
  "inspect_frame ([0, 0, 0, 3, 1, 2, 3] @ [255]) WorkerEventClass checked_in_policy =
     Ok \<lparr>payload = [1, 2, 3], remainder = [255]\<rparr>"
proof -
  define codec where "codec = \<lparr>encoded_len = length, encode = Ok\<rparr>"
  have "encode_frame (\<lambda>_. True) codec [1, 2, 3] WorkerEventClass checked_in_policy = Ok [0, 0, 0, 3, 1, 2, 3]"
    by (simp add: codec_def encode_frame_def encode_frame_allocating_def validate_length_def frame_cap_def
        checked_in_policy_def usize_checked_add_def u64_checked_add_def u64_max_def Let_def u32_try_from_def
        u32_max_value_def to_be_bytes_def)
  from encode_frame_roundtrip [OF this, of "[255]"] show ?thesis by (simp add: codec_def)
qed

subsection \<open>The streaming encoder\<close>

definition field_bytes :: "byte \<Rightarrow> byte list \<Rightarrow> byte list" where
  "field_bytes tag value = tag # varint_bytes (length value) @ value"

definition encoding :: "'m codec \<Rightarrow> 'm \<Rightarrow> byte list" where
  "encoding codec message = (case encode codec message of Ok bytes \<Rightarrow> bytes | _ \<Rightarrow> [])"

definition solve_body :: "solve_codecs \<Rightarrow> solve_request \<Rightarrow> byte list" where
  "solve_body codecs request =
     (if request_id request \<noteq> [] then field_bytes 0x0A (as_bytes (request_id request)) else []) @
     (if cp_model_proto request \<noteq> [] then field_bytes 0x12 (cp_model_proto request) else []) @
     (case parameters request of None \<Rightarrow> [] | Some p \<Rightarrow> field_bytes 0x1A (encoding (parameters_codec codecs) p)) @
     concat (map (\<lambda>p. field_bytes 0x22 (encoding (projection_codec codecs) p)) (projection_requests request)) @
     (case request_limits request of None \<Rightarrow> [] | Some l \<Rightarrow> field_bytes 0x2A (encoding (limits_codec codecs) l)) @
     (if model_fingerprint request \<noteq> [] then field_bytes 0x32 (model_fingerprint request) else [])"

definition lawful_codec :: "'m codec \<Rightarrow> bool" where
  "lawful_codec codec \<longleftrightarrow> (\<forall>m. \<exists>bytes. encode codec m = Ok bytes \<and> length bytes = encoded_len codec m)"

definition lawful_codecs :: "solve_codecs \<Rightarrow> bool" where
  "lawful_codecs codecs \<longleftrightarrow> lawful_codec (parameters_codec codecs) \<and> lawful_codec (projection_codec codecs) \<and>
     lawful_codec (limits_codec codecs)"

lemma lawful_codecD:
  "lawful_codec codec \<Longrightarrow> encode codec m = Ok (encoding codec m)"
  "lawful_codec codec \<Longrightarrow> length (encoding codec m) = encoded_len codec m"
  by (auto simp: lawful_codec_def encoding_def dest!: spec [of _ m])

lemma length_field_bytes [simp]: "length (field_bytes tag value) = 1 + varint_length (length value) + length value"
  by (simp add: field_bytes_def length_varint_bytes)

lemma length_as_bytes [simp]: "length (as_bytes s) = length s"
  by (simp add: as_bytes_def)

lemma add_field_length_Ok:
  "add_field_length v len = Ok len' \<longleftrightarrow> len' = len + (1 + varint_length v + v) \<and> len' \<le> u64_max"
  by (auto simp: add_field_length_def length_delimited_field_length_def usize_checked_add_def u64_checked_add_def)

lemma add_field_length_not_Abort [simp]: "add_field_length v len \<noteq> Abort"
  by (simp add: add_field_length_def length_delimited_field_length_def bind_o_Abort_iff)

lemma each_o_not_Abort: "(\<And>x s. f x s \<noteq> Abort) \<Longrightarrow> each_o f xs s \<noteq> Abort"
  by (induction xs arbitrary: s) (auto simp: bind_o_Abort_iff)

lemma add_field_lengths_Ok:
  assumes "each_o (\<lambda>x. add_field_length (f x)) xs len = Ok len'" "len \<le> u64_max"
  shows "len' = len + (\<Sum>x\<leftarrow>xs. 1 + varint_length (f x) + f x) \<and> len' \<le> u64_max"
  using assms
proof (induction xs arbitrary: len)
  case (Cons x xs)
  then obtain l where l: "add_field_length (f x) len = Ok l" "each_o (\<lambda>x. add_field_length (f x)) xs l = Ok len'"
    by auto
  with Cons.IH [OF l(2)] show ?case by (simp add: add_field_length_Ok)
qed simp

definition emits :: "unit writes \<Rightarrow> byte list \<Rightarrow> bool" where
  "emits f bytes \<longleftrightarrow> (\<forall>w. case f w of
      (Ok _, w') \<Rightarrow> written w' = written w @ bytes
    | (Err e, w') \<Rightarrow> write_faults w \<noteq> [] \<and> (\<exists>operation kind. e = IoFault operation kind)
    | (Abort, w') \<Rightarrow> False) \<and> (\<forall>w. write_faults w = [] \<longrightarrow> write_faults (snd (f w)) = [])"

lemma emits_write_all: "emits (write_all bytes operation) bytes"
  by (auto simp: emits_def write_all_def split: list.split option.split)

lemma emits_skip: "emits (Pair (Ok ())) []"
  by (simp add: emits_def)

lemma emits_then:
  assumes "emits f a" "emits g b"
  shows "emits (then_w f g) (a @ b)"
proof -
  have "(case then_w f g w of (Ok _, w') \<Rightarrow> written w' = written w @ a @ b
      | (Err e, w') \<Rightarrow> write_faults w \<noteq> [] \<and> (\<exists>operation kind. e = IoFault operation kind)
      | (Abort, w') \<Rightarrow> False) \<and> (write_faults w = [] \<longrightarrow> write_faults (snd (then_w f g w)) = [])" for w
  proof -
    obtain r w1 where f: "f w = (r, w1)" by fastforce
    have F: "case r of Ok _ \<Rightarrow> written w1 = written w @ a
        | Err e \<Rightarrow> write_faults w \<noteq> [] \<and> (\<exists>operation kind. e = IoFault operation kind) | Abort \<Rightarrow> False"
      "write_faults w = [] \<longrightarrow> write_faults w1 = []"
      using assms(1) f by (auto simp: emits_def dest!: spec [of _ w] split: outcome.splits)
    obtain q w2 where g: "g w1 = (q, w2)" by fastforce
    have G: "case q of Ok _ \<Rightarrow> written w2 = written w1 @ b
        | Err e \<Rightarrow> write_faults w1 \<noteq> [] \<and> (\<exists>operation kind. e = IoFault operation kind) | Abort \<Rightarrow> False"
      "write_faults w1 = [] \<longrightarrow> write_faults w2 = []"
      using assms(2) g by (auto simp: emits_def dest!: spec [of _ w1] split: outcome.splits)
    from F G f g show ?thesis by (cases r; cases q) (auto simp: then_w_def)
  qed
  then show ?thesis by (simp add: emits_def)
qed

lemma emits_each: "(\<And>x. x \<in> set xs \<Longrightarrow> emits (f x) (g x)) \<Longrightarrow> emits (each_w f xs) (concat (map g xs))"
proof (induction xs)
  case Nil
  have "each_w f [] = Pair (Ok ())" by (rule ext) simp
  with emits_skip show ?case by simp
next
  case (Cons x xs)
  have "each_w f (x # xs) = then_w (f x) (each_w f xs)" by (rule ext) simp
  with emits_then [of "f x" "g x" "each_w f xs"] Cons show ?case by simp
qed

lemma emits_varint: "n \<le> u64_max \<Longrightarrow> emits (write_varint n operation) (varint_bytes n)"
  using emits_write_all [of "varint_bytes n" operation] varint_length_usize [of n]
  by (simp add: emits_def write_varint_def length_varint_bytes)

lemma emits_field:
  "length value \<le> u64_max \<Longrightarrow> emits (write_length_delimited tag value operation) (field_bytes tag value)"
  unfolding write_length_delimited_def field_bytes_def
  using emits_then [OF emits_write_all emits_then [OF emits_varint emits_write_all], of "length value" "[tag]"]
  by simp

lemma emits_nested:
  assumes "lawful_codec codec" "encoded_len codec message \<le> u64_max"
  shows "emits (write_nested codec tag message) (field_bytes tag (encoding codec message))"
proof -
  have "write_nested codec tag message =
      write_length_delimited tag (encoding codec message) ''writing nested solve field''"
    by (rule ext) (simp add: write_nested_def lawful_codecD [OF assms(1)])
  with emits_field assms lawful_codecD(2) [OF assms(1)] show ?thesis by simp
qed

lemma sum_list_bound: "x \<in> set xs \<Longrightarrow> f x \<le> (\<Sum>x\<leftarrow>xs. 1 + g x + f x)" for f g :: "'a \<Rightarrow> nat"
  by (induction xs) auto

lemma manual_length_Ok:
  assumes "lawful_codecs codecs" "manual_solve_request_length codecs request = Ok len"
  shows "len = length (solve_body codecs request) \<and> len \<le> u64_max"
proof -
  note law = assms(1) [unfolded lawful_codecs_def]
  have l: "length (encoding (parameters_codec codecs) p) = encoded_len (parameters_codec codecs) p"
    "length (encoding (projection_codec codecs) j) = encoded_len (projection_codec codecs) j"
    "length (encoding (limits_codec codecs) l) = encoded_len (limits_codec codecs) l" for p j l
    using law by (simp_all add: lawful_codecD)
  let ?heads = "List.map_filter id
        [if request_id request \<noteq> [] then Some (length (as_bytes (request_id request))) else None,
         if cp_model_proto request \<noteq> [] then Some (length (cp_model_proto request)) else None,
         map_option (encoded_len (parameters_codec codecs)) (parameters request)]"
  obtain a b c where a: "each_o (\<lambda>x. add_field_length (id x)) ?heads 0 = Ok a"
    and b: "each_o (\<lambda>p. add_field_length (encoded_len (projection_codec codecs) p)) (projection_requests request) a = Ok b"
    and c: "(case request_limits request of Some l \<Rightarrow> add_field_length (encoded_len (limits_codec codecs) l) b | None \<Rightarrow> Ok b) = Ok c"
    and d: "(if model_fingerprint request \<noteq> [] then add_field_length (length (model_fingerprint request)) c else Ok c) = Ok len"
    using assms(2) by (auto simp: manual_solve_request_length_def)
  have A: "a = (\<Sum>x\<leftarrow>?heads. 1 + varint_length (id x) + id x)" "a \<le> u64_max"
    using add_field_lengths_Ok [OF a] by simp_all
  have B: "b = a + (\<Sum>p\<leftarrow>projection_requests request. 1 + varint_length (encoded_len (projection_codec codecs) p) +
      encoded_len (projection_codec codecs) p)" "b \<le> u64_max"
    using add_field_lengths_Ok [OF b A(2)] by simp_all
  have "c = b + length (case request_limits request of None \<Rightarrow> [] | Some l \<Rightarrow> field_bytes 0x2A (encoding (limits_codec codecs) l)) \<and> c \<le> u64_max"
    using c B(2) l by (auto simp: add_field_length_Ok split: option.splits)
  moreover have "len = c + length (if model_fingerprint request \<noteq> [] then field_bytes 0x32 (model_fingerprint request) else []) \<and>
      (len = c \<or> len \<le> u64_max)"
    using d by (auto simp: add_field_length_Ok split: if_splits)
  moreover have "length (concat (map (\<lambda>p. field_bytes 0x22 (encoding (projection_codec codecs) p)) (projection_requests request))) =
      (\<Sum>p\<leftarrow>projection_requests request. 1 + varint_length (encoded_len (projection_codec codecs) p) + encoded_len (projection_codec codecs) p)"
    by (simp add: length_concat l o_def)
  moreover have "(\<Sum>x\<leftarrow>?heads. 1 + varint_length (id x) + id x) =
      length (if request_id request \<noteq> [] then field_bytes 0x0A (as_bytes (request_id request)) else []) +
      length (if cp_model_proto request \<noteq> [] then field_bytes 0x12 (cp_model_proto request) else []) +
      length (case parameters request of None \<Rightarrow> [] | Some p \<Rightarrow> field_bytes 0x1A (encoding (parameters_codec codecs) p))"
    by (cases "parameters request") (simp_all add: List.map_filter_simps l)
  ultimately show ?thesis using A B unfolding solve_body_def length_append by linarith
qed

lemma solve_body_lengths:
  assumes "lawful_codecs codecs" "length (solve_body codecs request) \<le> u64_max"
  shows "length (as_bytes (request_id request)) \<le> u64_max" "length (cp_model_proto request) \<le> u64_max"
    "length (model_fingerprint request) \<le> u64_max"
    "parameters request = Some p \<Longrightarrow> encoded_len (parameters_codec codecs) p \<le> u64_max"
    "request_limits request = Some l \<Longrightarrow> encoded_len (limits_codec codecs) l \<le> u64_max"
    "j \<in> set (projection_requests request) \<Longrightarrow> encoded_len (projection_codec codecs) j \<le> u64_max"
proof -
  note law = assms(1) [unfolded lawful_codecs_def]
  have l: "length (encoding (parameters_codec codecs) p) = encoded_len (parameters_codec codecs) p"
    "length (encoding (projection_codec codecs) j) = encoded_len (projection_codec codecs) j"
    "length (encoding (limits_codec codecs) l) = encoded_len (limits_codec codecs) l" for p j l
    using law by (simp_all add: lawful_codecD)
  show "length (as_bytes (request_id request)) \<le> u64_max" "length (cp_model_proto request) \<le> u64_max"
    "length (model_fingerprint request) \<le> u64_max"
    "parameters request = Some p \<Longrightarrow> encoded_len (parameters_codec codecs) p \<le> u64_max"
    "request_limits request = Some l \<Longrightarrow> encoded_len (limits_codec codecs) l \<le> u64_max"
    using assms(2) l by (auto simp: solve_body_def split: if_splits option.splits)
  assume "j \<in> set (projection_requests request)"
  then have "encoded_len (projection_codec codecs) j \<le> (\<Sum>p\<leftarrow>projection_requests request.
      1 + varint_length (encoded_len (projection_codec codecs) p) + encoded_len (projection_codec codecs) p)"
    by (rule sum_list_bound)
  also have "\<dots> \<le> length (solve_body codecs request)"
    by (simp add: solve_body_def length_concat l o_def)
  finally show "encoded_len (projection_codec codecs) j \<le> u64_max" using assms(2) by simp
qed

lemma emits_solve_fields:
  assumes "lawful_codecs codecs" "length (solve_body codecs request) \<le> u64_max"
  shows "emits (write_solve_fields codecs request (length (solve_body codecs request)))
    (field_bytes 0x12 (solve_body codecs request))"
proof -
  note law = assms(1) [unfolded lawful_codecs_def]
  note bounds = solve_body_lengths [OF assms]
  have "emits (if request_id request \<noteq> []
      then write_length_delimited 0x0A (as_bytes (request_id request)) ''writing solve request ID'' else Pair (Ok ()))
      (if request_id request \<noteq> [] then field_bytes 0x0A (as_bytes (request_id request)) else [])"
    using emits_field bounds(1) emits_skip by simp
  moreover have "emits (if cp_model_proto request \<noteq> []
      then write_length_delimited 0x12 (cp_model_proto request) ''writing solve model'' else Pair (Ok ()))
      (if cp_model_proto request \<noteq> [] then field_bytes 0x12 (cp_model_proto request) else [])"
    using emits_field bounds(2) emits_skip by simp
  moreover have "emits (case parameters request of
        Some p \<Rightarrow> write_nested (parameters_codec codecs) 0x1A p | None \<Rightarrow> Pair (Ok ()))
      (case parameters request of None \<Rightarrow> [] | Some p \<Rightarrow> field_bytes 0x1A (encoding (parameters_codec codecs) p))"
    using law bounds(4) by (cases "parameters request") (simp_all add: emits_skip emits_nested)
  moreover have "emits (each_w (write_nested (projection_codec codecs) 0x22) (projection_requests request))
      (concat (map (\<lambda>p. field_bytes 0x22 (encoding (projection_codec codecs) p)) (projection_requests request)))"
    by (rule emits_each) (use law bounds(6) in \<open>simp add: emits_nested\<close>)
  moreover have "emits (case request_limits request of
        Some l \<Rightarrow> write_nested (limits_codec codecs) 0x2A l | None \<Rightarrow> Pair (Ok ()))
      (case request_limits request of None \<Rightarrow> [] | Some l \<Rightarrow> field_bytes 0x2A (encoding (limits_codec codecs) l))"
    using law bounds(5) by (cases "request_limits request") (simp_all add: emits_skip emits_nested)
  moreover have "emits (if model_fingerprint request \<noteq> []
      then write_length_delimited 0x32 (model_fingerprint request) ''writing solve fingerprint'' else Pair (Ok ()))
      (if model_fingerprint request \<noteq> [] then field_bytes 0x32 (model_fingerprint request) else [])"
    using emits_field bounds(3) emits_skip by simp
  ultimately have "emits (write_solve_fields codecs request (length (solve_body codecs request)))
      ([0x12] @ varint_bytes (length (solve_body codecs request)) @ solve_body codecs request)"
    unfolding write_solve_fields_def solve_body_def [of codecs request, THEN arg_cong [where f = "\<lambda>b. _ @ _ @ b"]]
    by (intro emits_then emits_write_all emits_varint assms(2))
  then show ?thesis by (simp add: field_bytes_def)
qed

lemma write_solve_request_frame_cases:
  assumes "lawful_codecs codecs"
  shows "case write_solve_request_frame alloc codecs request policy w of
      (Ok _, w') \<Rightarrow> \<exists>frame. written w' = written w @ frame \<and>
        length (solve_body codecs request) = request_encoded_len codecs request \<and>
        (\<forall>rest. inspect_frame (frame @ rest) SolveRequestClass policy =
          Ok \<lparr>payload = field_bytes 0x12 (solve_body codecs request), remainder = rest\<rparr>)
    | (Err e, w') \<Rightarrow> w' = w \<or> (write_faults w \<noteq> [] \<and> (\<exists>operation kind. e = IoFault operation kind))
    | (Abort, w') \<Rightarrow> False"
proof (cases "prepare_solve_request codecs request policy")
  case (Ok prepared)
  let ?body = "solve_body codecs request"
  let ?payload = "field_bytes 0x12 ?body"
  obtain len where m: "manual_solve_request_length codecs request = Ok len"
    and p: "len = request_encoded_len codecs request" "validate_length (1 + varint_length len + len) SolveRequestClass policy = Ok ()"
      "1 + varint_length len + len \<le> u32_max_value" "solve_length prepared = len"
      "frame_prefix prepared = to_be_bytes (1 + varint_length len + len)"
    using Ok by (auto simp: prepare_solve_request_def frame_error_def length_delimited_field_length_def
        usize_checked_add_def u64_checked_add_def u32_try_from_def split: if_splits)
  have len: "len = length ?body" "length ?body \<le> u64_max" using manual_length_Ok [OF assms m] by simp_all
  have e: "emits (then_w (write_all (frame_prefix prepared) ''writing solve frame prefix'')
      (write_solve_fields codecs request (solve_length prepared))) (to_be_bytes (length ?payload) @ ?payload)"
    unfolding p(4,5) len(1) using emits_then [OF emits_write_all emits_solve_fields [OF assms len(2)]] by simp
  have "inspect_frame (to_be_bytes (length ?payload) @ ?payload @ rest) SolveRequestClass policy =
      Ok \<lparr>payload = ?payload, remainder = rest\<rparr>" for rest
    using p(2,3) len by (intro inspect_frame_of_parts) simp_all
  with e p(1) len(1) Ok show ?thesis
    by (auto simp: write_solve_request_frame_def emits_def frame_error_def dest!: spec [of _ w]
        split: prod.splits outcome.splits)
next
  case (Err e)
  then show ?thesis by (simp add: write_solve_request_frame_def)
next
  case Abort
  then have "manual_solve_request_length codecs request = Abort"
    by (auto simp: prepare_solve_request_def bind_o_Abort_iff frame_error_def length_delimited_field_length_def split: if_splits)
  then show ?thesis
    by (auto simp: manual_solve_request_length_def bind_o_Abort_iff each_o_not_Abort add_field_length_not_Abort
        split: option.splits if_splits)
qed

text \<open>
  C12: Streaming a solve request either writes one frame of its class whose payload is the request
  field with the length-delimited fields in order and whose body has the length the generated
  encoder promises, or fails. A failure other than a failing write happens before the first byte is
  written, and without write faults and with memory the only failures are those of the length checks.
\<close>

theorem write_solve_request_frame_exact:
  assumes "lawful_codecs codecs"
  shows "case write_solve_request_frame alloc codecs request policy w of
      (Ok _, w') \<Rightarrow> \<exists>frame. written w' = written w @ frame \<and>
        length (solve_body codecs request) = request_encoded_len codecs request \<and>
        (\<forall>rest. inspect_frame (frame @ rest) SolveRequestClass policy =
          Ok \<lparr>payload = field_bytes 0x12 (solve_body codecs request), remainder = rest\<rparr>)
    | (Err e, w') \<Rightarrow> w' = w \<or> (write_faults w \<noteq> [] \<and> (\<exists>operation kind. e = IoFault operation kind))
    | (Abort, w') \<Rightarrow> False"
  by (rule write_solve_request_frame_cases [OF assms])

theorem write_solve_request_frame_exact_witness:
  "\<exists>codecs request frame. lawful_codecs codecs \<and>
    snd (write_solve_request_frame (\<lambda>_. True) codecs request checked_in_policy \<lparr>written = [], write_faults = []\<rparr>) =
      \<lparr>written = frame, write_faults = []\<rparr> \<and>
    inspect_frame (frame @ [9]) SolveRequestClass checked_in_policy =
      Ok \<lparr>payload = [0x12, 12, 0x0A, 1, 0x72, 0x12, 2, 5, 6, 0x22, 3, 1, 2, 3], remainder = [9]\<rparr>"
proof -
  define c :: "projection_request codec" where "c = \<lparr>encoded_len = \<lambda>_. 3, encode = \<lambda>_. Ok [1, 2, 3]\<rparr>"
  define codecs where "codecs = \<lparr>parameters_codec = \<lparr>encoded_len = \<lambda>_. 0, encode = \<lambda>_. Ok []\<rparr>, projection_codec = c,
    limits_codec = \<lparr>encoded_len = \<lambda>_. 0, encode = \<lambda>_. Ok []\<rparr>, request_encoded_len = \<lambda>_. 12\<rparr>"
  define request where "request = \<lparr>request_id = ''r'', cp_model_proto = [5, 6], parameters = None,
    projection_requests = [\<lparr>projection_id = 4, cp_sat_variable_index = 0\<rparr>], request_limits = None, model_fingerprint = []\<rparr>"
  have law: "lawful_codecs codecs" by (simp add: lawful_codecs_def lawful_codec_def codecs_def c_def)
  have body: "solve_body codecs request = [0x0A, 1, 0x72, 0x12, 2, 5, 6, 0x22, 3, 1, 2, 3]"
    by (simp add: solve_body_def codecs_def request_def c_def field_bytes_def as_bytes_def encoding_def varint_bytes_small)
  let ?run = "write_solve_request_frame (\<lambda>_. True) codecs request checked_in_policy \<lparr>written = [], write_faults = []\<rparr>"
  have run: "?run = (Ok (), \<lparr>written = [0, 0, 0, 14, 0x12, 12, 0x0A, 1, 0x72, 0x12, 2, 5, 6, 0x22, 3, 1, 2, 3], write_faults = []\<rparr>)"
    unfolding codecs_def c_def request_def by code_simp
  from write_solve_request_frame_exact [OF law, where alloc = "\<lambda>_. True" and
      request = request and policy = checked_in_policy and w = "\<lparr>written = [], write_faults = []\<rparr>"]
  show ?thesis unfolding run body by (intro exI [of _ codecs] exI [of _ request]) (auto simp: law run field_bytes_def varint_bytes_small)
qed

end
