(* ===== verification/Protocol_Schema.thy ===== *)
theory Protocol_Schema
  imports Protocol_Descriptor Protocol_Grammar Protocol_Frame
begin

section \<open>The schema of the worker protocol\<close>

text \<open>
  The messages of \<open>protocol/solver-worker.proto\<close> as the protobuf compiler describes them: type and
  label codes, one oneof declaration per \<open>oneof\<close> and one synthetic declaration per \<open>optional\<close>
  field, reserved ranges with an exclusive end. The checked-in policy is accepted for it. A solve
  request that the parent streams is accepted by the strict validator of the receiving side.
\<close>

definition enum_of :: "string \<Rightarrow> int list \<Rightarrow> enum_descriptor" where
  "enum_of name values = \<lparr>enum_name = Some name, enum_values = map Some values\<rparr>"

definition field_of ::
    "string \<Rightarrow> int \<Rightarrow> int \<Rightarrow> int \<Rightarrow> int option \<Rightarrow> string option \<Rightarrow> field_descriptor" where
  "field_of name number l k index target =
     \<lparr>fd_name = Some name, fd_number = Some number, fd_label = Some l, fd_type = Some k,
      fd_oneof_index = index, fd_type_name = target\<rparr>"

definition message_of ::
    "string \<Rightarrow> string list \<Rightarrow> (int \<times> int) list \<Rightarrow> field_descriptor list \<Rightarrow> message_descriptor" where
  "message_of name oneof_names ranges known =
     MessageDescriptor (Some name) (map Some oneof_names) (map (\<lambda>(a, b). (Some a, Some b)) ranges) known [] []"

definition handshake_error_code_enum :: enum_descriptor where
  "handshake_error_code_enum = enum_of ''HandshakeErrorCode'' [0, 1, 2, 3, 4, 5, 6]"

definition capability_enum :: enum_descriptor where
  "capability_enum = enum_of ''Capability'' [0, 1, 2, 3, 4, 5, 6, 7, 8]"

definition progress_kind_enum :: enum_descriptor where
  "progress_kind_enum = enum_of ''ProgressKind'' [0, 1, 2, 3]"

definition worker_solve_status_enum :: enum_descriptor where
  "worker_solve_status_enum = enum_of ''WorkerSolveStatus'' [0, 1, 2, 3, 4, 5, 6, 7]"

definition termination_reason_enum :: enum_descriptor where
  "termination_reason_enum = enum_of ''TerminationReason'' [0, 1, 2, 3, 4, 5, 6, 7, 8, 9]"

definition worker_error_code_enum :: enum_descriptor where
  "worker_error_code_enum = enum_of ''WorkerErrorCode'' [0, 1, 2, 3, 4, 5, 6, 7, 8]"

definition parent_frame_message :: message_descriptor where
  "parent_frame_message = message_of ''ParentFrame'' [''body''] [(3, 16)]
     [field_of ''handshake_request'' 1 1 11 (Some 0) (Some ''.eutheto.worker.v1.HandshakeRequest''),
      field_of ''solve_request'' 2 1 11 (Some 0) (Some ''.eutheto.worker.v1.SolveRequest'')]"

definition worker_frame_message :: message_descriptor where
  "worker_frame_message = message_of ''WorkerFrame'' [''body''] [(7, 16)]
     [field_of ''handshake_response'' 1 1 11 (Some 0) (Some ''.eutheto.worker.v1.HandshakeResponse''),
      field_of ''started'' 2 1 11 (Some 0) (Some ''.eutheto.worker.v1.Started''),
      field_of ''progress'' 3 1 11 (Some 0) (Some ''.eutheto.worker.v1.Progress''),
      field_of ''incumbent'' 4 1 11 (Some 0) (Some ''.eutheto.worker.v1.Incumbent''),
      field_of ''finished'' 5 1 11 (Some 0) (Some ''.eutheto.worker.v1.Finished''),
      field_of ''error'' 6 1 11 (Some 0) (Some ''.eutheto.worker.v1.WorkerError'')]"

definition handshake_request_message :: message_descriptor where
  "handshake_request_message = message_of ''HandshakeRequest'' [] [(6, 16), (17, 32)]
     [field_of ''protocol_major'' 1 1 13 None None,
      field_of ''protocol_minor'' 2 1 13 None None,
      field_of ''core_version'' 3 1 9 None None,
      field_of ''expected_backend_id'' 4 1 9 None None,
      field_of ''required_capabilities'' 5 3 14 None (Some ''.eutheto.worker.v1.Capability''),
      field_of ''expected_manifest_sha256'' 16 1 12 None None]"

definition handshake_response_message :: message_descriptor where
  "handshake_response_message = message_of ''HandshakeResponse'' [''outcome''] [(3, 16)]
     [field_of ''success'' 1 1 11 (Some 0) (Some ''.eutheto.worker.v1.HandshakeSuccess''),
      field_of ''error'' 2 1 11 (Some 0) (Some ''.eutheto.worker.v1.HandshakeError'')]"

definition handshake_success_message :: message_descriptor where
  "handshake_success_message = message_of ''HandshakeSuccess'' [] [(10, 32)]
     [field_of ''protocol_major'' 1 1 13 None None,
      field_of ''protocol_minor'' 2 1 13 None None,
      field_of ''worker_identity'' 3 1 9 None None,
      field_of ''worker_version'' 4 1 9 None None,
      field_of ''backend_id'' 5 1 9 None None,
      field_of ''ortools_version'' 6 1 9 None None,
      field_of ''adapter_version'' 7 1 9 None None,
      field_of ''manifest_sha256'' 8 1 12 None None,
      field_of ''capabilities'' 9 3 14 None (Some ''.eutheto.worker.v1.Capability'')]"

definition handshake_error_message :: message_descriptor where
  "handshake_error_message = message_of ''HandshakeError'' [''_supported_protocol_major'', ''_supported_protocol_minor''] [(5, 16)]
     [field_of ''code'' 1 1 14 None (Some ''.eutheto.worker.v1.HandshakeErrorCode''),
      field_of ''message'' 2 1 9 None None,
      field_of ''supported_protocol_major'' 3 1 13 (Some 0) None,
      field_of ''supported_protocol_minor'' 4 1 13 (Some 1) None]"

definition solve_request_message :: message_descriptor where
  "solve_request_message = message_of ''SolveRequest'' [] [(7, 32)]
     [field_of ''request_id'' 1 1 9 None None,
      field_of ''cp_model_proto'' 2 1 12 None None,
      field_of ''parameters'' 3 1 11 None (Some ''.eutheto.worker.v1.SolveParameters''),
      field_of ''projections'' 4 3 11 None (Some ''.eutheto.worker.v1.ProjectionRequest''),
      field_of ''resource_limits'' 5 1 11 None (Some ''.eutheto.worker.v1.ResourceLimits''),
      field_of ''model_fingerprint'' 6 1 12 None None]"

definition solve_parameters_message :: message_descriptor where
  "solve_parameters_message = message_of ''SolveParameters'' [''_random_seed'', ''_stop_after_first_feasible'', ''_emit_intermediate_solutions'', ''_log_search_progress'', ''_deterministic_test_profile''] [(1, 2), (2, 3), (8, 32)]
     [field_of ''random_seed'' 3 1 5 (Some 0) None,
      field_of ''stop_after_first_feasible'' 4 1 8 (Some 1) None,
      field_of ''emit_intermediate_solutions'' 5 1 8 (Some 2) None,
      field_of ''log_search_progress'' 6 1 8 (Some 3) None,
      field_of ''deterministic_test_profile'' 7 1 8 (Some 4) None]"

definition projection_request_message :: message_descriptor where
  "projection_request_message = message_of ''ProjectionRequest'' [] [(3, 16)]
     [field_of ''projection_id'' 1 1 4 None None,
      field_of ''cp_sat_variable_index'' 2 1 5 None None]"

definition resource_limits_message :: message_descriptor where
  "resource_limits_message = message_of ''ResourceLimits'' [''_memory_bytes''] [(4, 16)]
     [field_of ''wall_time_millis'' 1 1 4 None None,
      field_of ''memory_bytes'' 2 1 4 (Some 0) None,
      field_of ''worker_threads'' 3 1 13 None None]"

definition started_message :: message_descriptor where
  "started_message = message_of ''Started'' [] [(3, 16)]
     [field_of ''request_id'' 1 1 9 None None,
      field_of ''model_fingerprint'' 2 1 12 None None]"

definition progress_message :: message_descriptor where
  "progress_message = message_of ''Progress'' [''_wall_time_seconds'', ''_deterministic_time''] [(7, 16)]
     [field_of ''request_id'' 1 1 9 None None,
      field_of ''kind'' 2 1 14 None (Some ''.eutheto.worker.v1.ProgressKind''),
      field_of ''objective_values'' 3 3 1 None None,
      field_of ''best_bound_values'' 4 3 1 None None,
      field_of ''wall_time_seconds'' 5 1 1 (Some 0) None,
      field_of ''deterministic_time'' 6 1 1 (Some 1) None]"

definition incumbent_message :: message_descriptor where
  "incumbent_message = message_of ''Incumbent'' [''_wall_time_seconds'', ''_deterministic_time''] [(7, 16)]
     [field_of ''request_id'' 1 1 9 None None,
      field_of ''candidate'' 2 1 11 None (Some ''.eutheto.worker.v1.ProjectedCandidate''),
      field_of ''objective_values'' 3 3 1 None None,
      field_of ''best_bound_values'' 4 3 1 None None,
      field_of ''wall_time_seconds'' 5 1 1 (Some 0) None,
      field_of ''deterministic_time'' 6 1 1 (Some 1) None]"

definition projected_candidate_message :: message_descriptor where
  "projected_candidate_message = message_of ''ProjectedCandidate'' [] [(2, 16)]
     [field_of ''values'' 1 3 11 None (Some ''.eutheto.worker.v1.ProjectedValue'')]"

definition projected_value_message :: message_descriptor where
  "projected_value_message = message_of ''ProjectedValue'' [] [(3, 16)]
     [field_of ''projection_id'' 1 1 4 None None,
      field_of ''value'' 2 1 3 None None]"

definition finished_message :: message_descriptor where
  "finished_message = message_of ''Finished'' [''_final_candidate'', ''_wall_time_seconds'', ''_user_time_seconds'', ''_deterministic_time'', ''_conflicts'', ''_branches'', ''_binary_propagations'', ''_integer_propagations''] [(18, 32)]
     [field_of ''request_id'' 1 1 9 None None,
      field_of ''raw_cp_sat_status'' 2 1 5 None None,
      field_of ''status'' 3 1 14 None (Some ''.eutheto.worker.v1.WorkerSolveStatus''),
      field_of ''termination_reason'' 4 1 14 None (Some ''.eutheto.worker.v1.TerminationReason''),
      field_of ''final_candidate'' 5 1 11 (Some 0) (Some ''.eutheto.worker.v1.ProjectedCandidate''),
      field_of ''objective_values'' 6 3 1 None None,
      field_of ''best_bound_values'' 7 3 1 None None,
      field_of ''wall_time_seconds'' 8 1 1 (Some 1) None,
      field_of ''user_time_seconds'' 9 1 1 (Some 2) None,
      field_of ''deterministic_time'' 10 1 1 (Some 3) None,
      field_of ''conflicts'' 11 1 4 (Some 4) None,
      field_of ''branches'' 12 1 4 (Some 5) None,
      field_of ''binary_propagations'' 13 1 4 (Some 6) None,
      field_of ''integer_propagations'' 14 1 4 (Some 7) None,
      field_of ''sufficient_assumptions'' 15 3 5 None None,
      field_of ''applied_parameters_sha256'' 16 1 12 None None,
      field_of ''model_fingerprint'' 17 1 12 None None]"

definition worker_error_message :: message_descriptor where
  "worker_error_message = message_of ''WorkerError'' [] [(5, 16)]
     [field_of ''request_id'' 1 1 9 None None,
      field_of ''code'' 2 1 14 None (Some ''.eutheto.worker.v1.WorkerErrorCode''),
      field_of ''message'' 3 1 9 None None,
      field_of ''retryable'' 4 1 8 None None]"

definition worker_descriptor :: "file_descriptor list" where
  "worker_descriptor = [\<lparr>file_package = Some ''eutheto.worker.v1'',
     file_enums = [handshake_error_code_enum, capability_enum, progress_kind_enum, worker_solve_status_enum, termination_reason_enum, worker_error_code_enum],
     file_messages = [parent_frame_message, worker_frame_message, handshake_request_message, handshake_response_message, handshake_success_message, handshake_error_message, solve_request_message, solve_parameters_message, projection_request_message, resource_limits_message, started_message, progress_message, incumbent_message, projected_candidate_message, projected_value_message, finished_message, worker_error_message]\<rparr>]"

definition singular_field :: "string \<Rightarrow> string \<Rightarrow> field_type \<Rightarrow> string option \<Rightarrow> string option \<Rightarrow> field_schema" where
  "singular_field message name k target oneof_name =
     \<lparr>field_name = name, full_name = ''eutheto.worker.v1.'' @ message @ ''.'' @ name, label = LabelOptional, kind = k,
      type_name = map_option (\<lambda>t. ''eutheto.worker.v1.'' @ t) target, oneof = oneof_name\<rparr>"

definition parent_frame_schema :: message_schema where
  "parent_frame_schema = \<lparr>schema_fields =
     [(1, singular_field ''ParentFrame'' ''handshake_request'' TypeMessage (Some ''HandshakeRequest'') (Some ''body'')),
      (2, singular_field ''ParentFrame'' ''solve_request'' TypeMessage (Some ''SolveRequest'') (Some ''body''))],
     reserved_ranges = [(3, 16)]\<rparr>"

definition solve_request_schema :: message_schema where
  "solve_request_schema = \<lparr>schema_fields =
     [(1, singular_field ''SolveRequest'' ''request_id'' TypeString None None),
      (2, singular_field ''SolveRequest'' ''cp_model_proto'' TypeBytes None None),
      (3, singular_field ''SolveRequest'' ''parameters'' TypeMessage (Some ''SolveParameters'') None),
      (4, (singular_field ''SolveRequest'' ''projections'' TypeMessage (Some ''ProjectionRequest'') None)\<lparr>label := LabelRepeated\<rparr>),
      (5, singular_field ''SolveRequest'' ''resource_limits'' TypeMessage (Some ''ResourceLimits'') None),
      (6, singular_field ''SolveRequest'' ''model_fingerprint'' TypeBytes None None)],
     reserved_ranges = [(7, 32)]\<rparr>"

lemma worker_descriptor_decodes:
  "case schema_decode worker_descriptor checked_in_policy of
     Ok schema \<Rightarrow> map (bt_get (messages schema)) [''eutheto.worker.v1.ParentFrame'', ''eutheto.worker.v1.SolveRequest''] =
       [Some parent_frame_schema, Some solve_request_schema] \<and>
       validate_nested schema checked_in_policy 6 ''eutheto.worker.v1.ProjectionRequest'' [0x08, 4] 0 = Ok ()
   | _ \<Rightarrow> False"
  by code_simp

lemma worker_schema_lookup:
  assumes "schema_decode worker_descriptor checked_in_policy = Ok schema"
  shows "bt_get (messages schema) ''eutheto.worker.v1.ParentFrame'' = Some parent_frame_schema"
    "bt_get (messages schema) ''eutheto.worker.v1.SolveRequest'' = Some solve_request_schema"
  using worker_descriptor_decodes unfolding assms by simp_all

definition solve_entries :: "solve_codecs \<Rightarrow> solve_request \<Rightarrow> wire_field list" where
  "solve_entries codecs request =
     (if request_id request \<noteq> [] then [(1, WLength (as_bytes (request_id request)))] else []) @
     (if cp_model_proto request \<noteq> [] then [(2, WLength (cp_model_proto request))] else []) @
     (case parameters request of None \<Rightarrow> [] | Some p \<Rightarrow> [(3, WLength (encoding (parameters_codec codecs) p))]) @
     map (\<lambda>p. (4, WLength (encoding (projection_codec codecs) p))) (projection_requests request) @
     (case request_limits request of None \<Rightarrow> [] | Some l \<Rightarrow> [(5, WLength (encoding (limits_codec codecs) l))]) @
     (if model_fingerprint request \<noteq> [] then [(6, WLength (model_fingerprint request))] else [])"

lemma field_bytes_encoding: "n < 16 \<Longrightarrow> field_bytes (word_of_nat (n * 8 + 2)) value = field_encoding (n, WLength value)"
  by (simp add: field_bytes_def varint_bytes_small)

lemma solve_body_encoding: "solve_body codecs request = message_encoding (solve_entries codecs request)"
proof -
  have "field_bytes 0x0A = (\<lambda>v. field_encoding (1, WLength v))" "field_bytes 0x12 = (\<lambda>v. field_encoding (2, WLength v))"
    "field_bytes 0x1A = (\<lambda>v. field_encoding (3, WLength v))" "field_bytes 0x22 = (\<lambda>v. field_encoding (4, WLength v))"
    "field_bytes 0x2A = (\<lambda>v. field_encoding (5, WLength v))" "field_bytes 0x32 = (\<lambda>v. field_encoding (6, WLength v))"
    using field_bytes_encoding [of 1] field_bytes_encoding [of 2] field_bytes_encoding [of 3] field_bytes_encoding [of 4]
      field_bytes_encoding [of 5] field_bytes_encoding [of 6] by (simp_all add: fun_eq_iff)
  then show ?thesis
    by (simp add: solve_body_def solve_entries_def message_encoding_def o_def split: option.split)
qed

end
