(* ===== verification/Protocol_Streaming.thy ===== *)
theory Protocol_Streaming
  imports Protocol_Schema
begin

section \<open>Streamed requests pass the strict validator\<close>

text \<open>
  The composition of the streaming encoder (\<open>frame.rs\<close>) with the strict validator (\<open>strict.rs\<close>)
  over the schema of \<open>solver-worker.proto\<close> and the checked-in policy.
\<close>

definition request_admissible :: "solve_request \<Rightarrow> bool" where
  "request_admissible request \<longleftrightarrow> utf8_valid (as_bytes (request_id request)) \<and> length (request_id request) \<le> 64 \<and>
     length (cp_model_proto request) \<le> 267386880 \<and> length (projection_requests request) \<le> 100000 \<and>
     length (model_fingerprint request) \<le> 32"

definition nested_admissible :: "wire_schema \<Rightarrow> solve_codecs \<Rightarrow> solve_request \<Rightarrow> bool" where
  "nested_admissible schema codecs request \<longleftrightarrow>
     (\<forall>p. parameters request = Some p \<longrightarrow>
        well_formed schema checked_in_policy 6 ''eutheto.worker.v1.SolveParameters'' (encoding (parameters_codec codecs) p)) \<and>
     (\<forall>p \<in> set (projection_requests request).
        well_formed schema checked_in_policy 6 ''eutheto.worker.v1.ProjectionRequest'' (encoding (projection_codec codecs) p)) \<and>
     (\<forall>l. request_limits request = Some l \<longrightarrow>
        well_formed schema checked_in_policy 6 ''eutheto.worker.v1.ResourceLimits'' (encoding (limits_codec codecs) l))"

lemma request_field_limits:
  "map (policy_field_limit checked_in_policy)
     [''eutheto.worker.v1.SolveRequest.request_id'', ''eutheto.worker.v1.SolveRequest.cp_model_proto'',
      ''eutheto.worker.v1.SolveRequest.parameters'', ''eutheto.worker.v1.SolveRequest.projections'',
      ''eutheto.worker.v1.SolveRequest.resource_limits'', ''eutheto.worker.v1.SolveRequest.model_fingerprint'',
      ''eutheto.worker.v1.ParentFrame.solve_request''] =
   [\<lparr>max_bytes = Some 64, max_count = None\<rparr>, \<lparr>max_bytes = Some 267386880, max_count = None\<rparr>,
    \<lparr>max_bytes = None, max_count = None\<rparr>, \<lparr>max_bytes = None, max_count = Some 100000\<rparr>,
    \<lparr>max_bytes = None, max_count = None\<rparr>, \<lparr>max_bytes = Some 32, max_count = None\<rparr>,
    \<lparr>max_bytes = None, max_count = None\<rparr>]"
  by code_simp

lemma request_numbers:
  "bt_get (schema_fields solve_request_schema) n = Some f \<longleftrightarrow> (n, f) \<in> set (schema_fields solve_request_schema)"
  "bt_get (schema_fields parent_frame_schema) n = Some f \<longleftrightarrow> (n, f) \<in> set (schema_fields parent_frame_schema)"
  by (auto simp: bt_get_def solve_request_schema_def parent_frame_schema_def split: if_splits)

lemma entries_distinct:
  "n \<noteq> 4 \<Longrightarrow> length (filter (\<lambda>(m, _). m = n) (solve_entries codecs request)) \<le> 1"
  by (auto simp: solve_entries_def split: option.split)

lemma entries_projections:
  "(\<Sum>(m, v)\<leftarrow>solve_entries codecs request. if m = 4 then elements f v else 0) =
     (\<Sum>p\<leftarrow>projection_requests request. elements f (WLength (encoding (projection_codec codecs) p)))"
  by (simp add: solve_entries_def o_def split: option.split)

lemma entries_numbers: "(n, v) \<in> set (solve_entries codecs request) \<Longrightarrow> n \<in> {1, 2, 3, 4, 5, 6}"
  by (auto simp: solve_entries_def split: if_splits option.splits)

lemma entries_known: "filter (\<lambda>(n, _). bt_get (schema_fields solve_request_schema) n = None) (solve_entries codecs request) = []"
  using entries_numbers by (fastforce simp: filter_empty_conv bt_get_def solve_request_schema_def)

lemma request_entry_iffs:
  fixes nested :: "string \<Rightarrow> byte list \<Rightarrow> bool"
  defines "ok \<equiv> entry_ok nested checked_in_policy solve_request_schema"
  shows "ok (1, WLength b) \<longleftrightarrow> length b \<le> 64 \<and> utf8_valid b"
    and "ok (2, WLength b) \<longleftrightarrow> length b \<le> 267386880"
    and "ok (3, WLength b) \<longleftrightarrow> nested ''eutheto.worker.v1.SolveParameters'' b"
    and "ok (4, WLength b) \<longleftrightarrow> nested ''eutheto.worker.v1.ProjectionRequest'' b"
    and "ok (5, WLength b) \<longleftrightarrow> nested ''eutheto.worker.v1.ResourceLimits'' b"
    and "ok (6, WLength b) \<longleftrightarrow> length b \<le> 32"
  using request_field_limits unfolding ok_def
  by (simp_all add: entry_ok_def number_ok_def bt_get_def solve_request_schema_def singular_field_def
      value_ok_def packed_field_def is_packable_def payload_ok_def)

lemma entries_ok:
  assumes "request_admissible request" "nested_admissible schema codecs request" "e \<in> set (solve_entries codecs request)"
  shows "entry_ok (well_formed schema checked_in_policy 6) checked_in_policy solve_request_schema e"
proof -
  note a = assms(1) [unfolded request_admissible_def] and n = assms(2) [unfolded nested_admissible_def]
  from assms(3) consider
      "e = (1, WLength (as_bytes (request_id request)))" | "e = (2, WLength (cp_model_proto request))"
    | p where "parameters request = Some p" "e = (3, WLength (encoding (parameters_codec codecs) p))"
    | p where "p \<in> set (projection_requests request)" "e = (4, WLength (encoding (projection_codec codecs) p))"
    | l where "request_limits request = Some l" "e = (5, WLength (encoding (limits_codec codecs) l))"
    | "e = (6, WLength (model_fingerprint request))"
    by (auto simp: solve_entries_def dest: sym split: if_splits option.splits)
  then show ?thesis by cases (use a n in \<open>simp_all only: request_entry_iffs length_as_bytes\<close>)
qed

lemma projection_elements:
  assumes "(4, f) \<in> set (schema_fields solve_request_schema)"
  shows "elements f (WLength b) = 1" "repeated_cap checked_in_policy f = 100000"
  using assms request_field_limits
  by (auto simp: solve_request_schema_def singular_field_def elements_def packed_field_def is_packable_def repeated_cap_def
      checked_in_policy_def [THEN arg_cong [where f = policy_limits]])

lemma well_formedI:
  assumes "bt_get (messages schema) name = Some message" "bytes = message_encoding fs"
    and "message_ok (well_formed schema policy levels) policy message fs" "n = Suc levels"
  shows "well_formed schema policy n name bytes"
  using assms by auto

lemma solve_request_well_formed:
  assumes "request_admissible request" "nested_admissible schema codecs request"
    and "bt_get (messages schema) ''eutheto.worker.v1.SolveRequest'' = Some solve_request_schema"
  shows "well_formed schema checked_in_policy 7 ''eutheto.worker.v1.SolveRequest'' (solve_body codecs request)"
proof -
  have only4: "n = 4" if "(n, f) \<in> set (schema_fields solve_request_schema)" "label f = LabelRepeated" for n f
    using that by (auto simp: solve_request_schema_def singular_field_def)
  have not4: "n \<noteq> 4" if "(n, f) \<in> set (schema_fields solve_request_schema)" "label f \<noteq> LabelRepeated" for n f
    using that by (auto simp: solve_request_schema_def singular_field_def)
  have no_oneof: "oneof f = None" if "(n, f) \<in> set (schema_fields solve_request_schema)" for n f
    using that by (auto simp: solve_request_schema_def singular_field_def)
  have count: "(\<Sum>(m, v)\<leftarrow>solve_entries codecs request. if m = n then elements f v else 0) \<le> repeated_cap checked_in_policy f"
    if f: "(n, f) \<in> set (schema_fields solve_request_schema)" "label f = LabelRepeated" for n f
  proof -
    have "n = 4" using only4 [OF f] .
    then show ?thesis
      using projection_elements f(1) assms(1) by (simp add: entries_projections request_admissible_def sum_list_triv)
  qed
  have single: "length (filter (\<lambda>(m, _). m = n) (solve_entries codecs request)) \<le> 1"
    if "(n, f) \<in> set (schema_fields solve_request_schema)" "label f \<noteq> LabelRepeated" for n f
    using entries_distinct not4 [OF that] by blast
  have "message_ok (well_formed schema checked_in_policy 6) checked_in_policy solve_request_schema (solve_entries codecs request)"
    unfolding message_ok_def entries_known request_numbers
    by (intro conjI ballI allI impI) (use entries_ok [OF assms(1,2)] single no_oneof count in \<open>auto; fail\<close>)+
  with assms(3) solve_body_encoding show ?thesis by (rule well_formedI) simp
qed

lemma parent_payload_well_formed:
  assumes "well_formed schema checked_in_policy 7 ''eutheto.worker.v1.SolveRequest'' body"
    and "bt_get (messages schema) ''eutheto.worker.v1.ParentFrame'' = Some parent_frame_schema"
  shows "well_formed schema checked_in_policy 8 ''eutheto.worker.v1.ParentFrame'' (field_bytes 0x12 body)"
proof -
  have "entry_ok (well_formed schema checked_in_policy 7) checked_in_policy parent_frame_schema (2, WLength body)"
    using assms(1) request_field_limits
    by (simp add: entry_ok_def number_ok_def bt_get_def parent_frame_schema_def singular_field_def
      value_ok_def packed_field_def is_packable_def payload_ok_def)
  moreover have "bt_get (schema_fields parent_frame_schema) 2 \<noteq> None"
    by (simp add: bt_get_def parent_frame_schema_def)
  moreover have "label f = LabelOptional" if "(n, f) \<in> set (schema_fields parent_frame_schema)" for n f
    using that by (auto simp: parent_frame_schema_def singular_field_def)
  moreover have "f = g" if "(2, f) \<in> set (schema_fields parent_frame_schema)" "(2, g) \<in> set (schema_fields parent_frame_schema)" for f g
    using that by (auto simp: parent_frame_schema_def)
  ultimately have "message_ok (well_formed schema checked_in_policy 7) checked_in_policy parent_frame_schema [(2, WLength body)]"
    unfolding message_ok_def request_numbers by auto
  moreover have "field_bytes 0x12 body = message_encoding [(2, WLength body)]"
    using field_bytes_encoding [of 2 body] by (simp add: message_encoding_def)
  ultimately show ?thesis by (intro well_formedI [OF assms(2)]) simp_all
qed

lemma inspect_frame_payload_length:
  assumes "inspect_frame input c policy = Ok r"
  shows "length (payload r) \<le> u64_max"
proof -
  have "length (payload r) \<le> from_be_bytes (take 4 input)" "length (take 4 input) = 4"
    using assms by (auto simp: inspect_frame_def Let_def slice_def usize_checked_add_def u64_checked_add_def
      frame_error_def split: if_splits)
  then show ?thesis using from_be_bytes_less [of "take 4 input"] by (simp add: u32_max_value_def u64_max_def)
qed

text \<open>
  C5: What the parent streams, the strict validator accepts: for a request within the declared field
  limits whose nested messages are well formed, the bytes that a successful write adds are one
  frame of the solve-request class, and its payload passes the validator for the parent frame
  under the checked-in policy and schema.
\<close>

theorem streamed_request_validates:
  assumes "schema_decode worker_descriptor checked_in_policy = Ok schema"
    and "lawful_codecs codecs" "request_admissible request" "nested_admissible schema codecs request"
    and "write_solve_request_frame alloc codecs request checked_in_policy w = (Ok (), w')"
  shows "\<exists>frame contents. written w' = written w @ frame \<and>
    inspect_frame frame SolveRequestClass checked_in_policy = Ok \<lparr>payload = contents, remainder = []\<rparr> \<and>
    wire_validate schema ''eutheto.worker.v1.ParentFrame'' contents checked_in_policy = Ok ()"
proof -
  let ?contents = "field_bytes 0x12 (solve_body codecs request)"
  note write_solve_request_frame_cases [OF assms(2), where alloc = alloc and request = request
      and policy = checked_in_policy and w = w, unfolded assms(5)]
  then obtain frame where f: "written w' = written w @ frame"
    "\<And>rest. inspect_frame (frame @ rest) SolveRequestClass checked_in_policy = Ok \<lparr>payload = ?contents, remainder = rest\<rparr>"
    by auto
  have "well_formed schema checked_in_policy 8 ''eutheto.worker.v1.ParentFrame'' ?contents"
    using worker_schema_lookup [OF assms(1)] assms(3,4)
    by (intro parent_payload_well_formed solve_request_well_formed)
  moreover have "max_nesting_depth (policy_limits checked_in_policy) = 8"
    "max_repeated_field_items (policy_limits checked_in_policy) \<le> u64_max"
    by (simp_all add: checked_in_policy_def u64_max_def)
  moreover have "length ?contents \<le> u64_max"
    using inspect_frame_payload_length [OF f(2)] by simp
  ultimately have "wire_validate schema ''eutheto.worker.v1.ParentFrame'' ?contents checked_in_policy = Ok ()"
    by (simp add: wire_validate_def validate_nested_iff)
  with f f(2) [of "[]"] show ?thesis by auto
qed

theorem streamed_request_validates_witness:
  "\<exists>schema codecs request frame contents. request_admissible request \<and> nested_admissible schema codecs request \<and>
    snd (write_solve_request_frame (\<lambda>_. True) codecs request checked_in_policy \<lparr>written = [], write_faults = []\<rparr>) =
      \<lparr>written = frame, write_faults = []\<rparr> \<and>
    inspect_frame frame SolveRequestClass checked_in_policy = Ok \<lparr>payload = contents, remainder = []\<rparr> \<and>
    wire_validate schema ''eutheto.worker.v1.ParentFrame'' contents checked_in_policy = Ok ()"
proof -
  define c :: "projection_request codec" where "c = \<lparr>encoded_len = \<lambda>_. 2, encode = \<lambda>_. Ok [0x08, 4]\<rparr>"
  define codecs where "codecs = \<lparr>parameters_codec = \<lparr>encoded_len = \<lambda>_. 0, encode = \<lambda>_. Ok []\<rparr>, projection_codec = c,
    limits_codec = \<lparr>encoded_len = \<lambda>_. 0, encode = \<lambda>_. Ok []\<rparr>, request_encoded_len = \<lambda>_. 11\<rparr>"
  define request where "request = \<lparr>request_id = ''r'', cp_model_proto = [5, 6], parameters = None,
    projection_requests = [\<lparr>projection_id = 4, cp_sat_variable_index = 0\<rparr>], request_limits = None, model_fingerprint = []\<rparr>"
  obtain schema where schema: "schema_decode worker_descriptor checked_in_policy = Ok schema"
    and nested: "validate_nested schema checked_in_policy 6 ''eutheto.worker.v1.ProjectionRequest'' [0x08, 4] 0 = Ok ()"
    using worker_descriptor_decodes by (auto split: outcome.splits)
  have law: "lawful_codecs codecs" by (simp add: lawful_codecs_def lawful_codec_def codecs_def c_def)
  have req: "request_admissible request" unfolding request_def by code_simp
  have "max_repeated_field_items (policy_limits checked_in_policy) \<le> u64_max" by code_simp
  with nested have nest: "nested_admissible schema codecs request"
    by (simp add: nested_admissible_def request_def codecs_def c_def encoding_def validate_nested_iff u64_max_def)
  have run: "write_solve_request_frame (\<lambda>_. True) codecs request checked_in_policy \<lparr>written = [], write_faults = []\<rparr> =
      (Ok (), \<lparr>written = [0, 0, 0, 13, 0x12, 11, 0x0A, 1, 0x72, 0x12, 2, 5, 6, 0x22, 2, 8, 4], write_faults = []\<rparr>)"
    unfolding codecs_def c_def request_def by code_simp
  from streamed_request_validates [OF schema law req nest run] show ?thesis
    by (intro exI [of _ schema] exI [of _ codecs] exI [of _ request]) (auto simp: req nest run)
qed

end
