(* ===== verification/Protocol_Text.thy ===== *)
theory Protocol_Text
  imports Protocol_Frame Protocol_Wire
begin

section \<open>Worker text: decoding, control characters, bounded standard error\<close>

text \<open>
  \<open>stderr.rs\<close>: what the parent keeps of the worker's standard error, and the control characters it
  refuses in diagnostics.  A Rust \<open>String\<close> is here its list of code points, a byte string decodes to
  code points the way \<open>utf8_chunks\<close> does: every maximal invalid sequence counts as U+FFFD.
\<close>

type_synonym code_point = nat

definition continuation :: "byte \<Rightarrow> bool" where
  "continuation b \<longleftrightarrow> 0x80 \<le> b \<and> b \<le> 0xBF"

definition low_bits :: "byte \<Rightarrow> nat" where
  "low_bits b = unat b - 0x80"

definition replacement_character :: code_point where
  "replacement_character = 0xFFFD"

definition utf8_next :: "byte \<Rightarrow> byte list \<Rightarrow> code_point \<times> byte list" where
  "utf8_next a rest =
     (if a < 0x80 then (unat a, rest)
      else if 0xC2 \<le> a \<and> a \<le> 0xDF then
        (case rest of b # r \<Rightarrow> if continuation b then ((unat a - 0xC0) * 64 + low_bits b, r) else (replacement_character, rest)
         | [] \<Rightarrow> (replacement_character, rest))
      else if 0xE0 \<le> a \<and> a \<le> 0xEF then
        (case rest of b # r \<Rightarrow>
           if (if a = 0xE0 then 0xA0 else 0x80) \<le> b \<and> b \<le> (if a = 0xED then 0x9F else 0xBF) then
             (case r of c # r' \<Rightarrow>
                if continuation c then ((unat a - 0xE0) * 4096 + low_bits b * 64 + low_bits c, r') else (replacement_character, r)
              | [] \<Rightarrow> (replacement_character, r))
           else (replacement_character, rest)
         | [] \<Rightarrow> (replacement_character, rest))
      else if 0xF0 \<le> a \<and> a \<le> 0xF4 then
        (case rest of b # r \<Rightarrow>
           if (if a = 0xF0 then 0x90 else 0x80) \<le> b \<and> b \<le> (if a = 0xF4 then 0x8F else 0xBF) then
             (case r of c # r' \<Rightarrow>
                if continuation c then
                  (case r' of d # r'' \<Rightarrow>
                     if continuation d
                     then ((unat a - 0xF0) * 262144 + low_bits b * 4096 + low_bits c * 64 + low_bits d, r'')
                     else (replacement_character, r')
                   | [] \<Rightarrow> (replacement_character, r'))
                else (replacement_character, r)
              | [] \<Rightarrow> (replacement_character, r))
           else (replacement_character, rest)
         | [] \<Rightarrow> (replacement_character, rest))
      else (replacement_character, rest))"

lemma utf8_next_shrinks: "length (snd (utf8_next a rest)) \<le> length rest"
  by (auto simp: utf8_next_def split: list.splits)

function utf8_lossy :: "byte list \<Rightarrow> code_point list" where
  "utf8_lossy [] = []"
| "utf8_lossy (a # rest) = (let n = utf8_next a rest in fst n # utf8_lossy (snd n))"
  by pat_completeness auto
termination by (relation "measure length") (auto simp: utf8_next_shrinks le_imp_less_Suc)

definition chars :: "string \<Rightarrow> code_point list" where
  "chars s = utf8_lossy (as_bytes s)"

subsection \<open>Control characters\<close>

definition is_control :: "code_point \<Rightarrow> bool" where
  "is_control c \<longleftrightarrow> c \<le> 0x1F \<or> (0x7F \<le> c \<and> c \<le> 0x9F)"

definition is_unsafe_control :: "code_point \<Rightarrow> bool" where
  "is_unsafe_control c \<longleftrightarrow> is_control c \<or> c = 0x061C \<or> (0x200B \<le> c \<and> c \<le> 0x200F) \<or>
     (0x2028 \<le> c \<and> c \<le> 0x202E) \<or> (0x2060 \<le> c \<and> c \<le> 0x206F) \<or> c = 0xFEFF"

subsection \<open>Strings by their encoded length\<close>

definition len_utf8 :: "code_point \<Rightarrow> usize" where
  "len_utf8 c = (if c < 0x80 then 1 else if c < 0x800 then 2 else if c < 0x10000 then 3 else 4)"

definition str_len :: "code_point list \<Rightarrow> usize" where
  "str_len cs = sum_list (map len_utf8 cs)"

fun is_char_boundary :: "code_point list \<Rightarrow> usize \<Rightarrow> bool" where
  "is_char_boundary [] n \<longleftrightarrow> n = 0"
| "is_char_boundary (c # cs) n \<longleftrightarrow> n = 0 \<or> (len_utf8 c \<le> n \<and> is_char_boundary cs (n - len_utf8 c))"

fun str_truncate :: "code_point list \<Rightarrow> usize \<Rightarrow> code_point list" where
  "str_truncate [] n = []"
| "str_truncate (c # cs) n = (if n = 0 then [] else c # str_truncate cs (n - len_utf8 c))"

subsection \<open>The bounded accumulator\<close>

record bounded_stderr =
  retained :: "code_point list"
  stderr_max_bytes :: usize
  truncated :: bool

definition stderr_truncation_marker :: "code_point list" where
  "stderr_truncation_marker = map of_char ''[stderr truncated]''"

definition stderr_new :: "usize \<Rightarrow> (protocol_fault, bounded_stderr) outcome" where
  "stderr_new cap =
     (if cap < str_len stderr_truncation_marker then Err (StateFault StderrLimit)
      else Ok \<lparr>retained = [], stderr_max_bytes = cap, truncated = False\<rparr>)"

fun boundary_below :: "code_point list \<Rightarrow> usize \<Rightarrow> usize" where
  "boundary_below cs 0 = 0"
| "boundary_below cs (Suc n) = (if is_char_boundary cs (Suc n) then Suc n else boundary_below cs n)"

definition mark_truncated :: "bounded_stderr \<Rightarrow> (protocol_fault, bounded_stderr) outcome" where
  "mark_truncated s =
     (case u64_checked_sub (stderr_max_bytes s) (str_len stderr_truncation_marker) of
        None \<Rightarrow> Abort
      | Some prefix_cap \<Rightarrow>
          let boundary = boundary_below (retained s) (min prefix_cap (str_len (retained s))) in
          Ok (s\<lparr>retained := str_truncate (retained s) boundary @ stderr_truncation_marker, truncated := True\<rparr>))"

definition push_character :: "code_point \<Rightarrow> bounded_stderr \<Rightarrow> (protocol_fault, bool \<times> bounded_stderr) outcome" where
  "push_character c s =
     (if is_unsafe_control c \<and> c \<noteq> 0x0A \<and> c \<noteq> 0x09 then Ok (True, s)
      else if min u64_max (str_len (retained s) + len_utf8 c) > stderr_max_bytes s then
        bind_o (mark_truncated s) (\<lambda>s. Ok (False, s))
      else Ok (True, s\<lparr>retained := retained s @ [c]\<rparr>))"

fun push_characters :: "code_point list \<Rightarrow> bounded_stderr \<Rightarrow> (protocol_fault, bounded_stderr) outcome" where
  "push_characters [] s = Ok s"
| "push_characters (c # cs) s =
     bind_o (push_character c s) (\<lambda>(more, s). if more then push_characters cs s else Ok s)"

definition stderr_push :: "byte list \<Rightarrow> bounded_stderr \<Rightarrow> (protocol_fault, bounded_stderr) outcome" where
  "stderr_push bytes s = (if truncated s then Ok s else push_characters (utf8_lossy bytes) s)"

subsection \<open>What is kept\<close>

definition printable :: "code_point \<Rightarrow> bool" where
  "printable c \<longleftrightarrow> \<not> is_unsafe_control c \<or> c = 0x0A \<or> c = 0x09"

fun fitting :: "usize \<Rightarrow> code_point list \<Rightarrow> code_point list" where
  "fitting n [] = []"
| "fitting n (c # cs) = (if len_utf8 c \<le> n then c # fitting (n - len_utf8 c) cs else [])"

definition stderr_text :: "byte list list \<Rightarrow> code_point list" where
  "stderr_text chunks = filter printable (concat (map utf8_lossy chunks))"

definition stderr_kept :: "usize \<Rightarrow> code_point list \<Rightarrow> bounded_stderr" where
  "stderr_kept cap cs =
     \<lparr>retained = (if str_len cs \<le> cap then cs
        else fitting (cap - str_len stderr_truncation_marker) cs @ stderr_truncation_marker),
      stderr_max_bytes = cap, truncated = \<not> str_len cs \<le> cap\<rparr>"

lemma len_utf8_pos [simp]: "0 < len_utf8 c" by (simp add: len_utf8_def)

lemma len_utf8_nonzero [simp]: "len_utf8 c \<noteq> 0" using len_utf8_pos [of c] by linarith

lemma str_len_simps [simp]:
  "str_len [] = 0" "str_len (c # cs) = len_utf8 c + str_len cs" "str_len (cs @ ds) = str_len cs + str_len ds"
  by (simp_all add: str_len_def)

lemma str_len_marker [simp]: "str_len stderr_truncation_marker = 18" by code_simp

lemma fitting_all: "str_len cs \<le> n \<Longrightarrow> fitting n cs = cs"
  by (induction cs arbitrary: n) auto

lemma fitting_bound: "str_len (fitting n cs) \<le> n"
  by (induction n cs rule: fitting.induct) auto

lemma fitting_fitting: "n \<le> m \<Longrightarrow> fitting n (fitting m cs) = fitting n cs"
  by (induction cs arbitrary: n m) auto

lemma fitting_append: "n < str_len cs \<Longrightarrow> fitting n (cs @ ds) = fitting n cs"
  by (induction cs arbitrary: n) auto

lemma set_fitting: "set (fitting n cs) \<subseteq> set cs"
  by (induction cs arbitrary: n) auto

lemma is_char_boundary_0 [simp]: "is_char_boundary cs 0" by (cases cs) simp_all

lemma boundary_above: "str_len cs < n \<Longrightarrow> \<not> is_char_boundary cs n"
  by (induction cs arbitrary: n) auto

lemma boundary_below_le: "boundary_below cs n \<le> n"
  by (induction n) auto

lemma boundary_below_Cons:
  "boundary_below (c # cs) n = (if len_utf8 c \<le> n then len_utf8 c + boundary_below cs (n - len_utf8 c) else 0)"
proof (induction n)
  case (Suc n)
  then show ?case
    by (cases "len_utf8 c \<le> n") (auto simp: Suc_diff_le not_le le_Suc_eq intro: Nat.gr0I)
qed simp

lemma truncate_boundary: "str_truncate cs (boundary_below cs n) = fitting n cs"
  by (induction cs arbitrary: n) (auto simp: boundary_below_Cons)

lemma stderr_kept_more:
  assumes "str_len cs > cap" "18 \<le> cap"
  shows "stderr_kept cap (cs @ ds) = stderr_kept cap cs"
  using assms fitting_append [of "cap - 18" cs ds] by (auto simp: stderr_kept_def)

lemma push_character_kept:
  assumes "str_len cs \<le> cap" "18 \<le> cap" "cap < u64_max"
  shows "push_character c (stderr_kept cap cs) =
    Ok (str_len (cs @ filter printable [c]) \<le> cap, stderr_kept cap (cs @ filter printable [c]))"
proof -
  have "mark_truncated (stderr_kept cap cs) = Ok (stderr_kept cap (cs @ [c]))" if "cap < str_len cs + len_utf8 c"
  proof -
    have "fitting (cap - 18) (cs @ [c]) = fitting (min (cap - 18) (str_len cs)) cs"
    proof (cases "str_len cs \<le> cap - 18")
      case True
      with that have "fitting (cap - 18) (cs @ [c]) = fitting (cap - 18) (fitting cap (cs @ [c]))" by (simp add: fitting_fitting)
      also have "fitting cap (cs @ [c]) = cs"
        using assms(1) that by (induction cs arbitrary: cap) auto
      finally show ?thesis using True by (simp add: fitting_all)
    qed (simp add: fitting_append)
    then show ?thesis
      using assms that by (simp add: mark_truncated_def stderr_kept_def truncate_boundary u64_checked_sub_def)
  qed
  then show ?thesis using assms by (auto simp: push_character_def printable_def stderr_kept_def)
qed

lemma push_characters_kept:
  assumes "str_len cs \<le> cap" "18 \<le> cap" "cap < u64_max"
  shows "push_characters ds (stderr_kept cap cs) = Ok (stderr_kept cap (cs @ filter printable ds))"
  using assms(1)
proof (induction ds arbitrary: cs)
  case (Cons d ds)
  show ?case
  proof (cases "str_len (cs @ filter printable [d]) \<le> cap")
    case True
    then show ?thesis using Cons.IH [OF True] push_character_kept [OF Cons.prems assms(2,3), of d] by (simp split: if_splits)
  next
    case False
    then show ?thesis
      using push_character_kept [OF Cons.prems assms(2,3), of d] stderr_kept_more [of cap "cs @ [d]" "filter printable ds"] assms(2)
      Cons.prems by (simp split: if_splits)
  qed
qed simp

lemma stderr_push_kept:
  assumes "18 \<le> cap" "cap < u64_max"
  shows "stderr_push bytes (stderr_kept cap cs) = Ok (stderr_kept cap (cs @ filter printable (utf8_lossy bytes)))"
  using push_characters_kept [of cs cap] stderr_kept_more [of cap cs] assms
  by (cases "str_len cs \<le> cap") (auto simp: stderr_push_def stderr_kept_def)

text \<open>
  C32: The parent keeps a bounded, printable record of the worker's standard error.  Whatever chunks
  arrive, no push fails: the record is the printable text decoded from them when that fits the
  limit, and otherwise its longest prefix that leaves room for the truncation marker, followed by
  the marker.  The record never exceeds the limit and holds no unsafe control character.
\<close>

theorem stderr_retained_exact:
  assumes "str_len stderr_truncation_marker \<le> cap" "cap < u64_max"
  shows "bind_o (stderr_new cap) (each_o stderr_push chunks) = Ok (stderr_kept cap (stderr_text chunks)) \<and>
    str_len (retained (stderr_kept cap (stderr_text chunks))) \<le> cap \<and>
    list_all printable (retained (stderr_kept cap (stderr_text chunks)))"
proof -
  have cap: "18 \<le> cap" using assms(1) by simp
  have "each_o stderr_push chunks (stderr_kept cap cs) = Ok (stderr_kept cap (cs @ stderr_text chunks))" for cs
    by (induction chunks arbitrary: cs) (simp_all add: stderr_text_def stderr_push_kept [OF cap assms(2)])
  from this [of "[]"] have "bind_o (stderr_new cap) (each_o stderr_push chunks) = Ok (stderr_kept cap (stderr_text chunks))"
    using cap by (simp add: stderr_new_def stderr_kept_def)
  moreover have "list_all printable stderr_truncation_marker" by code_simp
  then have "list_all printable (retained (stderr_kept cap (stderr_text chunks)))"
    using set_fitting [of "cap - 18" "stderr_text chunks"] by (auto simp: stderr_kept_def stderr_text_def list_all_iff)
  moreover have "str_len (retained (stderr_kept cap (stderr_text chunks))) \<le> cap"
    using fitting_bound [of "cap - 18" "stderr_text chunks"] cap by (auto simp: stderr_kept_def)
  ultimately show ?thesis by blast
qed

theorem stderr_retained_exact_witness:
  "bind_o (stderr_new 20) (each_o stderr_push [[0x61, 0x1B, 0xE2, 0x82, 0xAC], [0xFF, 0x62, 0x0A], replicate 20 0x63]) =
    Ok \<lparr>retained = 0x61 # stderr_truncation_marker, stderr_max_bytes = 20, truncated = True\<rparr>"
proof -
  have "stderr_kept 20 (stderr_text [[0x61, 0x1B, 0xE2, 0x82, 0xAC], [0xFF, 0x62, 0x0A], replicate 20 0x63]) =
      \<lparr>retained = 0x61 # stderr_truncation_marker, stderr_max_bytes = 20, truncated = True\<rparr>"
    by code_simp
  then show ?thesis
    using stderr_retained_exact [of 20 "[[0x61, 0x1B, 0xE2, 0x82, 0xAC], [0xFF, 0x62, 0x0A], replicate 20 0x63]"]
    by (simp add: u64_max_def)
qed

end
