(* ===== verification/Protocol_Messages.thy ===== *)
theory Protocol_Messages
  imports Protocol_Streaming Protocol_Text
begin

section \<open>Protocol messages and their strict decoding\<close>

text \<open>
  The messages of the worker protocol as the generated structures hold them
  (\<open>generated/eutheto.worker.v1.rs\<close>), and the strict decoding of frames with their routing to frame
  classes (\<open>frame.rs\<close>, \<open>strict.rs\<close>).  An \<open>f64\<close> is its 64 bits, an open enum field its \<open>i32\<close>.
\<close>

type_synonym f64 = "64 word"

definition f64_exponent :: "f64 \<Rightarrow> nat" where
  "f64_exponent v = unat v div 2 ^ 52 mod 2 ^ 11"

definition f64_is_finite :: "f64 \<Rightarrow> bool" where
  "f64_is_finite v \<longleftrightarrow> f64_exponent v \<noteq> 2047"

definition f64_is_nan :: "f64 \<Rightarrow> bool" where
  "f64_is_nan v \<longleftrightarrow> f64_exponent v = 2047 \<and> unat v mod 2 ^ 52 \<noteq> 0"

definition f64_below_zero :: "f64 \<Rightarrow> bool" where
  "f64_below_zero v \<longleftrightarrow> \<not> f64_is_nan v \<and> 2 ^ 63 < unat v"

subsection \<open>Enumerations\<close>

datatype worker_capability =
    CapabilityUnspecified | CpSat | IntermediateSolutions | ProgressReports | SolutionProjection
  | ObjectiveBounds | SolutionStats | SufficientAssumptions | DeterministicTime

fun capability_i32 :: "worker_capability \<Rightarrow> int" where
  "capability_i32 CapabilityUnspecified = 0"
| "capability_i32 CpSat = 1"
| "capability_i32 IntermediateSolutions = 2"
| "capability_i32 ProgressReports = 3"
| "capability_i32 SolutionProjection = 4"
| "capability_i32 ObjectiveBounds = 5"
| "capability_i32 SolutionStats = 6"
| "capability_i32 SufficientAssumptions = 7"
| "capability_i32 DeterministicTime = 8"

definition worker_capabilities :: "worker_capability list" where
  "worker_capabilities = [CapabilityUnspecified, CpSat, IntermediateSolutions, ProgressReports, SolutionProjection,
     ObjectiveBounds, SolutionStats, SufficientAssumptions, DeterministicTime]"

definition capability_try_from :: "int \<Rightarrow> worker_capability option" where
  "capability_try_from n = List.find (\<lambda>c. capability_i32 c = n) worker_capabilities"

definition progress_kind_known :: "int \<Rightarrow> bool" where
  "progress_kind_known n \<longleftrightarrow> 0 \<le> n \<and> n \<le> 3"

definition handshake_error_code_known :: "int \<Rightarrow> bool" where
  "handshake_error_code_known n \<longleftrightarrow> 0 \<le> n \<and> n \<le> 6"

definition worker_error_code_known :: "int \<Rightarrow> bool" where
  "worker_error_code_known n \<longleftrightarrow> 0 \<le> n \<and> n \<le> 8"

datatype worker_solve_status =
    StatusUnspecified | StatusOptimal | StatusFeasible | StatusInfeasible | StatusNoSolution | StatusInvalidModel
  | StatusCancelled | StatusFailed

definition worker_solve_status_try_from :: "int \<Rightarrow> worker_solve_status option" where
  "worker_solve_status_try_from n =
     map_of [(0, StatusUnspecified), (1, StatusOptimal), (2, StatusFeasible), (3, StatusInfeasible), (4, StatusNoSolution),
       (5, StatusInvalidModel), (6, StatusCancelled), (7, StatusFailed)] n"

datatype termination_reason =
    ReasonUnspecified | ReasonOptimal | ReasonInfeasible | ReasonTimeLimit | ReasonSolutionLimit | ReasonMemoryLimit
  | ReasonCancelled | ReasonInvalidModel | ReasonInternalError | ReasonUnknown

definition termination_reason_try_from :: "int \<Rightarrow> termination_reason option" where
  "termination_reason_try_from n =
     map_of [(0, ReasonUnspecified), (1, ReasonOptimal), (2, ReasonInfeasible), (3, ReasonTimeLimit), (4, ReasonSolutionLimit),
       (5, ReasonMemoryLimit), (6, ReasonCancelled), (7, ReasonInvalidModel), (8, ReasonInternalError), (9, ReasonUnknown)] n"

subsection \<open>Messages\<close>

record handshake_request =
  request_protocol_major :: u32
  request_protocol_minor :: u32
  core_version :: string
  expected_backend_id :: string
  required_capability_values :: "int list"
  expected_manifest_sha256 :: "byte list"

record handshake_success =
  success_protocol_major :: u32
  success_protocol_minor :: u32
  success_worker_identity :: string
  success_worker_version :: string
  success_backend_id :: string
  success_ortools_version :: string
  success_adapter_version :: string
  success_manifest_sha256 :: "byte list"
  success_capabilities :: "int list"

record handshake_error =
  rejection_code :: int
  rejection_message :: string
  supported_protocol_major :: "u32 option"
  supported_protocol_minor :: "u32 option"

datatype handshake_outcome = HandshakeAccept handshake_success | HandshakeReject handshake_error

record started =
  started_request_id :: string
  started_fingerprint :: "byte list"

record progress =
  progress_request_id :: string
  progress_kind :: int
  progress_objective_values :: "f64 list"
  progress_best_bound_values :: "f64 list"
  progress_wall_time_seconds :: "f64 option"
  progress_deterministic_time :: "f64 option"

record projected_value =
  value_projection_id :: u64
  projected :: int

record projected_candidate =
  candidate_values :: "projected_value list"

record incumbent =
  incumbent_request_id :: string
  incumbent_candidate :: "projected_candidate option"
  incumbent_objective_values :: "f64 list"
  incumbent_best_bound_values :: "f64 list"
  incumbent_wall_time_seconds :: "f64 option"
  incumbent_deterministic_time :: "f64 option"

record finished =
  finished_request_id :: string
  raw_cp_sat_status :: int
  finished_status :: int
  finished_termination_reason :: int
  final_candidate :: "projected_candidate option"
  finished_objective_values :: "f64 list"
  finished_best_bound_values :: "f64 list"
  finished_wall_time_seconds :: "f64 option"
  finished_user_time_seconds :: "f64 option"
  finished_deterministic_time :: "f64 option"
  conflicts :: "u64 option"
  branches :: "u64 option"
  binary_propagations :: "u64 option"
  integer_propagations :: "u64 option"
  sufficient_assumptions :: "int list"
  applied_parameters_hash :: "byte list"
  finished_fingerprint :: "byte list"

record worker_error =
  error_request_id :: string
  error_code :: int
  error_message :: string
  retryable :: bool

datatype parent_body = HandshakeRequestBody handshake_request | SolveRequestBody solve_request

record parent_frame =
  parent_frame_body :: "parent_body option"

datatype worker_body =
    HandshakeResponseBody "handshake_outcome option"
  | StartedBody started
  | ProgressBody progress
  | IncumbentBody incumbent
  | FinishedBody finished
  | ErrorBody worker_error

record worker_frame =
  worker_frame_body :: "worker_body option"

fun parent_body_name :: "parent_body \<Rightarrow> string" where
  "parent_body_name (HandshakeRequestBody _) = ''handshake-request''"
| "parent_body_name (SolveRequestBody _) = ''solve-request''"

fun worker_body_name :: "worker_body \<Rightarrow> string" where
  "worker_body_name (HandshakeResponseBody _) = ''handshake-response''"
| "worker_body_name (StartedBody _) = ''started''"
| "worker_body_name (ProgressBody _) = ''progress''"
| "worker_body_name (IncumbentBody _) = ''incumbent''"
| "worker_body_name (FinishedBody _) = ''finished''"
| "worker_body_name (ErrorBody _) = ''error''"

subsection \<open>Strict decoding\<close>

definition checked_in_schema :: "(protocol_fault, wire_schema) outcome" where
  "checked_in_schema = schema_decode worker_descriptor checked_in_policy"

definition validate_checked_in :: "string \<Rightarrow> byte list \<Rightarrow> (protocol_fault, unit) outcome" where
  "validate_checked_in message bytes =
     bind_o checked_in_schema (\<lambda>schema. wire_validate schema message bytes checked_in_policy)"

definition decode_checked_in ::
    "(byte list \<Rightarrow> (string, 'm) outcome) \<Rightarrow> string \<Rightarrow> byte list \<Rightarrow> (protocol_fault, 'm) outcome" where
  "decode_checked_in decoder message bytes =
     bind_o (validate_checked_in message bytes) (\<lambda>_. map_err (DecodeFault message) (decoder bytes))"

fun parent_class :: "parent_body option \<Rightarrow> frame_class \<Rightarrow> bool" where
  "parent_class (Some (HandshakeRequestBody _)) HandshakeClass = True"
| "parent_class (Some (SolveRequestBody _)) SolveRequestClass = True"
| "parent_class _ _ = False"

fun worker_class :: "worker_body option \<Rightarrow> frame_class \<Rightarrow> bool" where
  "worker_class (Some (HandshakeResponseBody _)) HandshakeClass = True"
| "worker_class (Some (StartedBody _)) WorkerEventClass = True"
| "worker_class (Some (ProgressBody _)) WorkerEventClass = True"
| "worker_class (Some (IncumbentBody _)) WorkerEventClass = True"
| "worker_class (Some (FinishedBody _)) WorkerEventClass = True"
| "worker_class (Some (ErrorBody _)) WorkerEventClass = True"
| "worker_class _ _ = False"

definition decode_parent_frame ::
    "(byte list \<Rightarrow> (string, parent_frame) outcome) \<Rightarrow> byte list \<Rightarrow> frame_class \<Rightarrow> (protocol_fault, parent_frame) outcome" where
  "decode_parent_frame decoder bytes class =
     bind_o (decode_checked_in decoder ''eutheto.worker.v1.ParentFrame'' bytes) (\<lambda>frame.
     if parent_class (parent_frame_body frame) class then Ok frame else frame_error (WrongClass (policy_name class)))"

definition decode_worker_frame ::
    "(byte list \<Rightarrow> (string, worker_frame) outcome) \<Rightarrow> byte list \<Rightarrow> frame_class \<Rightarrow> (protocol_fault, worker_frame) outcome" where
  "decode_worker_frame decoder bytes class =
     bind_o (decode_checked_in decoder ''eutheto.worker.v1.WorkerFrame'' bytes) (\<lambda>frame.
     if worker_class (worker_frame_body frame) class then Ok frame else frame_error (WrongClass (policy_name class)))"

lemma capability_try_from_iff: "capability_try_from n = Some c \<longleftrightarrow> n = capability_i32 c"
  by (cases c) (auto simp: capability_try_from_def worker_capabilities_def split: if_splits)

lemma capability_i32_inject [simp]: "capability_i32 c = capability_i32 d \<longleftrightarrow> c = d"
  by (cases c; cases d) simp_all

end
