(* ===== verification/Protocol_Request.thy ===== *)
theory Protocol_Request
  imports Protocol_Messages
begin

section \<open>Admission of requests and applied parameters\<close>

text \<open>
  \<open>state.rs\<close>: the expectations of a handshake, the normal form of the applied solve parameters with
  its hash preimage, and the validation of a solve request.  SHA-256 and the parser of semantic
  versions are library code: the model takes them as the fields of an environment.
\<close>

record protocol_env =
  sha256 :: "byte list \<Rightarrow> byte list"
  semver_parses :: "string \<Rightarrow> bool"

definition sha256_sized :: "protocol_env \<Rightarrow> bool" where
  "sha256_sized env \<longleftrightarrow> (\<forall>bytes. length (sha256 env bytes) = 32)"

definition ensure :: "bool \<Rightarrow> state_fault \<Rightarrow> (protocol_fault, unit) outcome" where
  "ensure b fault = (if b then Ok () else Err (StateFault fault))"

fun all_checks :: "(protocol_fault, unit) outcome list \<Rightarrow> (protocol_fault, unit) outcome" where
  "all_checks [] = Ok ()"
| "all_checks (c # cs) = bind_o c (\<lambda>_. all_checks cs)"

lemma ensure_Ok_iff [simp]: "ensure b fault = Ok u \<longleftrightarrow> b"
  by (simp add: ensure_def)

lemma ensure_not_Abort [simp]: "ensure b fault \<noteq> Abort" "Abort \<noteq> ensure b fault"
  by (simp_all add: ensure_def)

lemma all_checks_append: "all_checks (cs @ ds) = bind_o (all_checks cs) (\<lambda>_. all_checks ds)"
proof (induction cs)
  case (Cons c cs)
  then show ?case by (cases c) simp_all
qed simp

subsection \<open>Text and capability checks\<close>

definition text_cap :: "string \<Rightarrow> usize" where
  "text_cap key =
     min (case max_bytes (policy_field_limit checked_in_policy key) of
            Some n \<Rightarrow> n | None \<Rightarrow> max_string_bytes (policy_limits checked_in_policy))
         (max_string_bytes (policy_limits checked_in_policy))"

definition validate_expected_text :: "string \<Rightarrow> string \<Rightarrow> string \<Rightarrow> (protocol_fault, unit) outcome" where
  "validate_expected_text key field s = ensure (s \<noteq> [] \<and> length s \<le> text_cap key) (InvalidHandshake field)"

definition validate_semver :: "protocol_env \<Rightarrow> string \<Rightarrow> string \<Rightarrow> (protocol_fault, unit) outcome" where
  "validate_semver env field s = ensure (semver_parses env s) (InvalidVersion field)"

definition validate_safe_diagnostic :: "string \<Rightarrow> string \<Rightarrow> (protocol_fault, unit) outcome" where
  "validate_safe_diagnostic s field = ensure (s \<noteq> [] \<and> \<not> list_ex is_unsafe_control (chars s)) (InvalidWorkerField field)"

definition sufficient_assumptions_enabled :: bool where
  "sufficient_assumptions_enabled = True"

definition insert_capability ::
    "worker_capability \<Rightarrow> int set \<Rightarrow> (protocol_fault, int set) outcome" where
  "insert_capability c seen =
     bind_o (all_checks
       [ensure (c \<noteq> CapabilityUnspecified) InvalidCapability,
        ensure (sufficient_assumptions_enabled \<or> c \<noteq> SufficientAssumptions) (CapabilityDisabled (capability_i32 c)),
        ensure (capability_i32 c \<notin> seen) (DuplicateCapability (capability_i32 c))])
       (\<lambda>_. Ok (insert (capability_i32 c) seen))"

definition validate_capability_values :: "int list \<Rightarrow> (protocol_fault, int set) outcome" where
  "validate_capability_values vs =
     each_o (\<lambda>v seen. bind_o (ok_or (StateFault InvalidCapability) (capability_try_from v)) (\<lambda>c. insert_capability c seen)) vs {}"

definition require_negotiated_capability ::
    "int set \<Rightarrow> worker_capability \<Rightarrow> string \<Rightarrow> (protocol_fault, unit) outcome" where
  "require_negotiated_capability negotiated c field =
     ensure (capability_i32 c \<in> negotiated) (UnnegotiatedCapability field (capability_i32 c))"

definition check_if :: "bool \<Rightarrow> (protocol_fault, unit) outcome \<Rightarrow> (protocol_fault, unit) outcome" where
  "check_if b c = (if b then c else Ok ())"

lemma check_if_Ok_iff [simp]: "check_if b c = Ok u \<longleftrightarrow> (b \<longrightarrow> c = Ok ())"
  by (simp add: check_if_def)

lemma require_negotiated_Ok_iff [simp]:
  "require_negotiated_capability negotiated c field = Ok u \<longleftrightarrow> capability_i32 c \<in> negotiated"
  by (simp add: require_negotiated_capability_def)

subsection \<open>Handshake expectations\<close>

record handshake_expectations =
  protocol_major :: u32
  protocol_minor :: u32
  worker_identity :: string
  worker_version :: string
  backend_id :: string
  ortools_version :: string
  adapter_version :: string
  manifest_sha256 :: "byte list"
  required_capabilities :: "int set"
  expected_advertised_capabilities :: "int set"

definition handshake_expectations_new ::
    "protocol_env \<Rightarrow> u32 \<Rightarrow> u32 \<Rightarrow> string \<Rightarrow> string \<Rightarrow> string \<Rightarrow> string \<Rightarrow> string \<Rightarrow> byte list \<Rightarrow>
     worker_capability list \<Rightarrow> worker_capability list \<Rightarrow> (protocol_fault, handshake_expectations) outcome" where
  "handshake_expectations_new env major minor identity version backend ortools adapter manifest required advertised =
     bind_o (all_checks
       [ensure (major = version_major checked_in_policy \<and> minor = version_minor checked_in_policy)
          (ProtocolVersion (version_major checked_in_policy) (version_minor checked_in_policy) major minor),
        validate_expected_text ''eutheto.worker.v1.HandshakeSuccess.worker_identity'' ''worker_identity'' identity,
        validate_expected_text ''eutheto.worker.v1.HandshakeSuccess.worker_version'' ''worker_version'' version,
        validate_expected_text ''eutheto.worker.v1.HandshakeSuccess.backend_id'' ''backend_id'' backend,
        validate_expected_text ''eutheto.worker.v1.HandshakeSuccess.ortools_version'' ''ortools_version'' ortools,
        validate_expected_text ''eutheto.worker.v1.HandshakeSuccess.adapter_version'' ''adapter_version'' adapter,
        validate_semver env ''worker_version'' version,
        validate_semver env ''ortools_version'' ortools,
        validate_semver env ''adapter_version'' adapter]) (\<lambda>_.
     bind_o (each_o insert_capability required {}) (\<lambda>required.
     bind_o (each_o insert_capability advertised {}) (\<lambda>advertised.
     bind_o (ensure (required \<subseteq> advertised) (InvalidHandshake ''expected_advertised_capabilities'')) (\<lambda>_.
     Ok \<lparr>protocol_major = major, protocol_minor = minor, worker_identity = identity, worker_version = version,
         backend_id = backend, ortools_version = ortools, adapter_version = adapter, manifest_sha256 = manifest,
         required_capabilities = required, expected_advertised_capabilities = advertised\<rparr>))))"

definition handshake_expectations_checked_in ::
    "protocol_env \<Rightarrow> string \<Rightarrow> string \<Rightarrow> string \<Rightarrow> string \<Rightarrow> string \<Rightarrow> byte list \<Rightarrow>
     worker_capability list \<Rightarrow> worker_capability list \<Rightarrow> (protocol_fault, handshake_expectations) outcome" where
  "handshake_expectations_checked_in env =
     handshake_expectations_new env (version_major checked_in_policy) (version_minor checked_in_policy)"

subsection \<open>Applied parameters\<close>

record normalized_applied_parameters =
  applied_wall_time_millis :: u64
  applied_worker_threads :: u32
  applied_random_seed :: int
  applied_stop_after_first_feasible :: bool
  applied_emit_intermediate_solutions :: bool
  applied_log_search_progress :: bool
  applied_deterministic_test_profile :: bool

definition unwrap_or :: "'a \<Rightarrow> 'a option \<Rightarrow> 'a" where
  "unwrap_or d v = (case v of Some x \<Rightarrow> x | None \<Rightarrow> d)"

definition normalize_applied_parameters ::
    "solve_request \<Rightarrow> (protocol_fault, normalized_applied_parameters) outcome" where
  "normalize_applied_parameters solve =
     bind_o (ok_or (StateFault (InvalidSolveRequest ''parameters'')) (parameters solve)) (\<lambda>p.
     bind_o (ok_or (StateFault (InvalidSolveRequest ''resource_limits'')) (request_limits solve)) (\<lambda>l.
     bind_o (all_checks
       [ensure (wall_time_millis l \<noteq> 0) (InvalidSolveRequest ''resource_limits.wall_time_millis''),
        ensure (worker_threads l \<noteq> 0 \<and> worker_threads l \<le> max_worker_threads (policy_limits checked_in_policy))
          (InvalidSolveRequest ''resource_limits.worker_threads''),
        ensure (memory_bytes l \<noteq> Some 0) (InvalidSolveRequest ''resource_limits.memory_bytes'')]) (\<lambda>_.
     let n = \<lparr>applied_wall_time_millis = wall_time_millis l, applied_worker_threads = worker_threads l,
              applied_random_seed = unwrap_or 1 (random_seed p),
              applied_stop_after_first_feasible = unwrap_or False (stop_after_first_feasible p),
              applied_emit_intermediate_solutions = unwrap_or False (emit_intermediate_solutions p),
              applied_log_search_progress = unwrap_or False (log_search_progress p),
              applied_deterministic_test_profile = unwrap_or False (deterministic_test_profile p)\<rparr> in
     bind_o (ensure (\<not> applied_deterministic_test_profile n \<or> (applied_worker_threads n = 1 \<and> applied_random_seed n = 1))
         (InvalidSolveRequest ''parameters.deterministic_test_profile'')) (\<lambda>_. Ok n))))"

definition u64_be_bytes :: "u64 \<Rightarrow> byte list" where
  "u64_be_bytes n = to_be_bytes (n div 4294967296) @ to_be_bytes (n mod 4294967296)"

definition i32_be_bytes :: "int \<Rightarrow> byte list" where
  "i32_be_bytes n = to_be_bytes (unat (word_of_int n :: 32 word))"

definition bool_byte :: "bool \<Rightarrow> byte" where
  "bool_byte b = (if b then 1 else 0)"

definition applied_parameters_preimage :: "normalized_applied_parameters \<Rightarrow> byte list" where
  "applied_parameters_preimage p =
     as_bytes applied_parameters_domain @ u64_be_bytes (applied_wall_time_millis p) @ to_be_bytes (applied_worker_threads p) @
     i32_be_bytes (applied_random_seed p) @
     [bool_byte (applied_stop_after_first_feasible p), bool_byte (applied_emit_intermediate_solutions p),
      bool_byte (applied_log_search_progress p), bool_byte (applied_deterministic_test_profile p)]"

definition applied_parameters_sha256 :: "protocol_env \<Rightarrow> normalized_applied_parameters \<Rightarrow> byte list" where
  "applied_parameters_sha256 env p = sha256 env (applied_parameters_preimage p)"

subsection \<open>Solve requests\<close>

record validated_solve_request =
  validated_projections :: "u64 list"
  validated_parameters :: normalized_applied_parameters
  validated_fingerprint :: "byte list"

definition duplicate_id :: "u64 list \<Rightarrow> u64 option" where
  "duplicate_id ids = map_option fst (List.find (\<lambda>(a, b). a = b) (windows2 ids))"

definition check_no_duplicate :: "u64 list \<Rightarrow> (protocol_fault, unit) outcome" where
  "check_no_duplicate ids =
     (case duplicate_id ids of Some i \<Rightarrow> Err (StateFault (DuplicateProjection i)) | None \<Rightarrow> Ok ())"

definition model_cap :: usize where
  "model_cap = (case max_bytes (policy_field_limit checked_in_policy ''eutheto.worker.v1.SolveRequest.cp_model_proto'') of
     Some n \<Rightarrow> n | None \<Rightarrow> frame_cap checked_in_policy SolveRequestClass)"

definition projection_cap :: usize where
  "projection_cap = min
     (case max_count (policy_field_limit checked_in_policy ''eutheto.worker.v1.SolveRequest.projections'') of
        Some n \<Rightarrow> n | None \<Rightarrow> max_repeated_field_items (policy_limits checked_in_policy))
     (max_repeated_field_items (policy_limits checked_in_policy))"

definition validate_solve_request ::
    "protocol_env \<Rightarrow> solve_request \<Rightarrow> int set \<Rightarrow> (protocol_fault, validated_solve_request) outcome" where
  "validate_solve_request env solve negotiated =
     bind_o (all_checks
       [require_negotiated_capability negotiated CpSat ''solve_request'',
        ensure (request_id solve \<noteq> [] \<and> length (request_id solve) \<le> text_cap ''eutheto.worker.v1.SolveRequest.request_id'')
          (InvalidSolveRequest ''request_id''),
        ensure (length (cp_model_proto solve) \<le> model_cap) (InvalidSolveRequest ''cp_model_proto'')]) (\<lambda>_.
     bind_o (normalize_applied_parameters solve) (\<lambda>normalized.
     bind_o (ok_or (StateFault (InvalidSolveRequest ''parameters'')) (parameters solve)) (\<lambda>p.
     bind_o (all_checks
       [check_if (emit_intermediate_solutions p = Some True)
          (require_negotiated_capability negotiated IntermediateSolutions ''solve_request.parameters.emit_intermediate_solutions''),
        check_if (log_search_progress p = Some True)
          (require_negotiated_capability negotiated ProgressReports ''solve_request.parameters.log_search_progress''),
        ensure (model_fingerprint solve = sha256 env (cp_model_proto solve)) (InvalidSolveRequest ''model_fingerprint''),
        ensure (length (projection_requests solve) \<le> projection_cap) (InvalidSolveRequest ''projections''),
        check_if (projection_requests solve \<noteq> [])
          (require_negotiated_capability negotiated SolutionProjection ''solve_request.projections''),
        ensure (list_all (\<lambda>p. 0 \<le> cp_sat_variable_index p) (projection_requests solve))
          (InvalidSolveRequest ''projections.cp_sat_variable_index'')]) (\<lambda>_.
     let requested = sort (map projection_id (projection_requests solve)) in
     bind_o (check_no_duplicate requested) (\<lambda>_.
     Ok \<lparr>validated_projections = requested, validated_parameters = normalized,
         validated_fingerprint = sha256 env (cp_model_proto solve)\<rparr>)))))"

subsection \<open>The preimage identifies the parameters\<close>

definition applied_in_range :: "normalized_applied_parameters \<Rightarrow> bool" where
  "applied_in_range p \<longleftrightarrow> applied_wall_time_millis p < 2 ^ 64 \<and> applied_worker_threads p < 2 ^ 32 \<and>
     - (2 ^ 31) \<le> applied_random_seed p \<and> applied_random_seed p < 2 ^ 31"

lemma to_be_bytes_inject: "a < 2 ^ 32 \<Longrightarrow> b < 2 ^ 32 \<Longrightarrow> to_be_bytes a = to_be_bytes b \<longleftrightarrow> a = b"
proof -
  assume "a < 2 ^ 32" "b < 2 ^ 32"
  then have "a \<le> u32_max_value" "b \<le> u32_max_value" by (simp_all add: u32_max_value_def)
  then show ?thesis using from_to_be_bytes by metis
qed

lemma length_u64_be_bytes [simp]: "length (u64_be_bytes n) = 8"
  by (simp add: u64_be_bytes_def)

lemma u64_be_bytes_inject:
  assumes "a < 2 ^ 64" "b < 2 ^ 64"
  shows "u64_be_bytes a = u64_be_bytes b \<longleftrightarrow> a = b"
proof -
  have "a div 2 ^ 32 < 2 ^ 32" "b div 2 ^ 32 < 2 ^ 32" using assms by (simp_all add: less_mult_imp_div_less)
  then have "u64_be_bytes a = u64_be_bytes b \<longleftrightarrow> a div 2 ^ 32 = b div 2 ^ 32 \<and> a mod 2 ^ 32 = b mod 2 ^ 32"
    by (simp add: u64_be_bytes_def to_be_bytes_inject)
  also have "\<dots> \<longleftrightarrow> a = b" by (metis div_mult_mod_eq)
  finally show ?thesis .
qed

lemma i32_be_bytes_inject:
  assumes "- (2 ^ 31) \<le> a" "a < 2 ^ 31" "- (2 ^ 31) \<le> b" "b < 2 ^ 31"
  shows "i32_be_bytes a = i32_be_bytes b \<longleftrightarrow> a = b"
proof -
  have small: "unat (w :: 32 word) < 2 ^ 32" for w using unsigned_less [of w] by simp
  have round: "sint (word_of_int c :: 32 word) = c" if "- (2 ^ 31) \<le> c" "c < 2 ^ 31" for c
    using that by (simp add: signed_of_int signed_take_bit_int_eq_self)
  have "i32_be_bytes a = i32_be_bytes b \<longleftrightarrow> (word_of_int a :: 32 word) = word_of_int b"
    using small by (simp add: i32_be_bytes_def to_be_bytes_inject word_unat_eq_iff)
  also have "\<dots> \<longleftrightarrow> a = b" using round [of a] round [of b] assms by metis
  finally show ?thesis .
qed

lemma length_applied_parameters_domain: "length applied_parameters_domain = 36"
  by code_simp

text \<open>
  C33: The hash preimage of the applied parameters is 56 bytes long and identifies them: two sets of
  parameters in the ranges of their machine types have the same preimage only if they are equal,
  so the hash in a finish frame stands for exactly one set of parameters (up to hash collisions).
\<close>

theorem applied_parameters_preimage_injective:
  assumes "applied_in_range p" "applied_in_range q"
  shows "length (applied_parameters_preimage p) = 56 \<and>
    (applied_parameters_preimage p = applied_parameters_preimage q \<longleftrightarrow> p = q)"
proof -
  have "length (i32_be_bytes n) = 4" for n by (simp add: i32_be_bytes_def)
  moreover have "bool_byte b = bool_byte c \<longleftrightarrow> b = c" for b c by (simp add: bool_byte_def)
  ultimately show ?thesis
    using assms by (auto simp: applied_parameters_preimage_def length_applied_parameters_domain applied_in_range_def
        u64_be_bytes_inject to_be_bytes_inject i32_be_bytes_inject)
qed

theorem applied_parameters_preimage_injective_witness:
  "\<exists>p q. applied_in_range p \<and> applied_in_range q \<and> p \<noteq> q \<and> length (applied_parameters_preimage p) = 56 \<and>
    applied_parameters_preimage p \<noteq> applied_parameters_preimage q"
proof -
  define p where "p = \<lparr>applied_wall_time_millis = 5, applied_worker_threads = 1, applied_random_seed = - 1,
    applied_stop_after_first_feasible = True, applied_emit_intermediate_solutions = False,
    applied_log_search_progress = False, applied_deterministic_test_profile = False\<rparr>"
  define q where "q = p\<lparr>applied_random_seed := 1\<rparr>"
  have "applied_in_range p" "applied_in_range q" "p \<noteq> q" by (simp_all add: p_def q_def applied_in_range_def)
  with applied_parameters_preimage_injective [of p q] show ?thesis by (intro exI [of _ p] exI [of _ q]) simp
qed

end
