(* ===== verification/Protocol_State.thy ===== *)
theory Protocol_State
  imports Protocol_Request
begin

section \<open>The session state machine of the parent\<close>

text \<open>
  \<open>state.rs\<close>: \<open>ParentProtocol\<close>, the parent's view of one worker session.  Its calls are functions from
  a state to a result and the next state.  A call that fails leaves the phase \<open>Failed\<close>
  (\<open>absorb_failure\<close>); nothing else of the state is written before a call can fail, so a call is
  first computed as an outcome that holds the next state.
\<close>

subsection \<open>Checks on worker evidence\<close>

definition validate_request_id :: "string \<Rightarrow> string \<Rightarrow> (protocol_fault, unit) outcome" where
  "validate_request_id expected actual = ensure (expected = actual) RequestId"

definition validate_finite :: "f64 list \<Rightarrow> string \<Rightarrow> (protocol_fault, unit) outcome" where
  "validate_finite vs field = ensure (list_all f64_is_finite vs) (InvalidWorkerField field)"

definition validate_optional_nonnegative_finite :: "f64 option \<Rightarrow> string \<Rightarrow> (protocol_fault, unit) outcome" where
  "validate_optional_nonnegative_finite v field =
     ensure (case v of Some x \<Rightarrow> f64_is_finite x \<and> \<not> f64_below_zero x | None \<Rightarrow> True) (InvalidWorkerField field)"

definition validate_progress :: "progress \<Rightarrow> int set \<Rightarrow> (protocol_fault, unit) outcome" where
  "validate_progress p negotiated = all_checks
     [require_negotiated_capability negotiated ProgressReports ''progress'',
      check_if (progress_best_bound_values p \<noteq> [])
        (require_negotiated_capability negotiated ObjectiveBounds ''progress.best_bound_values''),
      check_if (progress_deterministic_time p \<noteq> None)
        (require_negotiated_capability negotiated DeterministicTime ''progress.deterministic_time''),
      ensure (progress_kind_known (progress_kind p)) (InvalidWorkerField ''progress.kind''),
      ensure (progress_kind p \<noteq> 0) (InvalidWorkerField ''progress.kind''),
      validate_finite (progress_objective_values p) ''progress.objective_values'',
      validate_finite (progress_best_bound_values p) ''progress.best_bound_values'',
      validate_optional_nonnegative_finite (progress_wall_time_seconds p) ''progress.wall_time_seconds'',
      validate_optional_nonnegative_finite (progress_deterministic_time p) ''progress.deterministic_time'']"

text \<open>Both slices are sorted, so \<open>binary_search\<close> succeeds exactly for their elements.\<close>

definition validate_candidate :: "projected_candidate \<Rightarrow> u64 list \<Rightarrow> (protocol_fault, unit) outcome" where
  "validate_candidate candidate requested =
     (let observed = sort (map value_projection_id (candidate_values candidate)) in
      bind_o (check_no_duplicate observed) (\<lambda>_.
      case List.find (\<lambda>i. i \<notin> set requested) observed of
        Some i \<Rightarrow> Err (StateFault (UnrequestedProjection i))
      | None \<Rightarrow>
          (case List.find (\<lambda>i. i \<notin> set observed) requested of
             Some i \<Rightarrow> Err (StateFault (MissingProjection i))
           | None \<Rightarrow> Ok ())))"

definition validate_incumbent :: "incumbent \<Rightarrow> int set \<Rightarrow> u64 list \<Rightarrow> (protocol_fault, unit) outcome" where
  "validate_incumbent i negotiated requested =
     bind_o (all_checks
       [require_negotiated_capability negotiated IntermediateSolutions ''incumbent'',
        require_negotiated_capability negotiated SolutionProjection ''incumbent.candidate'',
        check_if (incumbent_best_bound_values i \<noteq> [])
          (require_negotiated_capability negotiated ObjectiveBounds ''incumbent.best_bound_values''),
        check_if (incumbent_deterministic_time i \<noteq> None)
          (require_negotiated_capability negotiated DeterministicTime ''incumbent.deterministic_time''),
        validate_finite (incumbent_objective_values i) ''incumbent.objective_values'',
        validate_finite (incumbent_best_bound_values i) ''incumbent.best_bound_values'',
        validate_optional_nonnegative_finite (incumbent_wall_time_seconds i) ''incumbent.wall_time_seconds'',
        validate_optional_nonnegative_finite (incumbent_deterministic_time i) ''incumbent.deterministic_time'']) (\<lambda>_.
     bind_o (ok_or (StateFault (InvalidWorkerField ''incumbent.candidate'')) (incumbent_candidate i)) (\<lambda>candidate.
     validate_candidate candidate requested))"

definition finished_outcome_is_coherent ::
    "int \<Rightarrow> worker_solve_status \<Rightarrow> termination_reason \<Rightarrow> bool \<Rightarrow> bool" where
  "finished_outcome_is_coherent raw status reason has_candidate \<longleftrightarrow>
     (if raw = 4 then status = StatusOptimal \<and> reason = ReasonOptimal \<and> has_candidate
      else if raw = 3 then status = StatusInfeasible \<and> reason = ReasonInfeasible \<and> \<not> has_candidate
      else if raw = 2 then status = StatusFeasible \<and>
        reason \<in> {ReasonTimeLimit, ReasonSolutionLimit, ReasonMemoryLimit, ReasonCancelled} \<and> has_candidate
      else if raw = 1 then status = StatusInvalidModel \<and> reason = ReasonInvalidModel \<and> \<not> has_candidate
      else if raw = 0 then
        (status = StatusNoSolution \<and> reason \<in> {ReasonTimeLimit, ReasonMemoryLimit, ReasonUnknown} \<and> \<not> has_candidate) \<or>
        (status = StatusCancelled \<and> reason = ReasonCancelled) \<or>
        (status = StatusFailed \<and> reason = ReasonInternalError \<and> \<not> has_candidate)
      else False)"

definition validate_sufficient_assumptions ::
    "finished \<Rightarrow> worker_solve_status \<Rightarrow> termination_reason \<Rightarrow> int set \<Rightarrow> (protocol_fault, unit) outcome" where
  "validate_sufficient_assumptions f status reason negotiated =
     check_if (sufficient_assumptions f \<noteq> []) (all_checks
       [ensure sufficient_assumptions_enabled (CapabilityDisabled (capability_i32 SufficientAssumptions)),
        require_negotiated_capability negotiated SufficientAssumptions ''finished.sufficient_assumptions'',
        ensure (raw_cp_sat_status f = 3 \<and> status = StatusInfeasible \<and> reason = ReasonInfeasible \<and> final_candidate f = None)
          (InvalidWorkerField ''finished.sufficient_assumptions'')])"

definition validate_final_candidate :: "finished \<Rightarrow> u64 list \<Rightarrow> int set \<Rightarrow> (protocol_fault, unit) outcome" where
  "validate_final_candidate f requested negotiated =
     (case final_candidate f of
        None \<Rightarrow> Ok ()
      | Some candidate \<Rightarrow>
          bind_o (require_negotiated_capability negotiated SolutionProjection ''finished.final_candidate'') (\<lambda>_.
          validate_candidate candidate requested))"

definition validate_finished ::
    "finished \<Rightarrow> byte list \<Rightarrow> u64 list \<Rightarrow> byte list \<Rightarrow> int set \<Rightarrow> (protocol_fault, unit) outcome" where
  "validate_finished f fingerprint requested expected_sha256 negotiated =
     bind_o (ensure (0 \<le> raw_cp_sat_status f \<and> raw_cp_sat_status f \<le> 4) (InvalidWorkerField ''finished.raw_cp_sat_status'')) (\<lambda>_.
     bind_o (ok_or (StateFault (InvalidWorkerField ''finished.status'')) (worker_solve_status_try_from (finished_status f))) (\<lambda>status.
     bind_o (ensure (status \<noteq> StatusUnspecified) (InvalidWorkerField ''finished.status'')) (\<lambda>_.
     bind_o (ok_or (StateFault (InvalidWorkerField ''finished.termination_reason''))
         (termination_reason_try_from (finished_termination_reason f))) (\<lambda>reason.
     all_checks
       [ensure (reason \<noteq> ReasonUnspecified) (InvalidWorkerField ''finished.termination_reason''),
        ensure (finished_outcome_is_coherent (raw_cp_sat_status f) status reason (final_candidate f \<noteq> None))
          (InvalidWorkerField ''finished.outcome''),
        ensure (finished_fingerprint f = fingerprint) ModelFingerprint,
        ensure (applied_parameters_hash f = expected_sha256) (InvalidWorkerField ''finished.applied_parameters_sha256''),
        validate_finite (finished_objective_values f) ''finished.objective_values'',
        validate_finite (finished_best_bound_values f) ''finished.best_bound_values'',
        check_if (finished_best_bound_values f \<noteq> [])
          (require_negotiated_capability negotiated ObjectiveBounds ''finished.best_bound_values''),
        check_if (finished_deterministic_time f \<noteq> None)
          (require_negotiated_capability negotiated DeterministicTime ''finished.deterministic_time''),
        check_if (conflicts f \<noteq> None \<or> branches f \<noteq> None \<or> binary_propagations f \<noteq> None \<or> integer_propagations f \<noteq> None)
          (require_negotiated_capability negotiated SolutionStats ''finished.solution_stats''),
        validate_optional_nonnegative_finite (finished_wall_time_seconds f) ''finished.wall_time_seconds'',
        validate_optional_nonnegative_finite (finished_user_time_seconds f) ''finished.user_time_seconds'',
        validate_optional_nonnegative_finite (finished_deterministic_time f) ''finished.deterministic_time'',
        validate_final_candidate f requested negotiated,
        validate_sufficient_assumptions f status reason negotiated]))))"

subsection \<open>Phases\<close>

record solve_session =
  session_request_id :: string
  session_fingerprint :: "byte list"
  requested_projections :: "u64 list"
  applied_parameters :: normalized_applied_parameters

record handshake_rejection_evidence =
  rejection_error :: handshake_error

record terminal_evidence =
  evidence_frame :: worker_frame

datatype phase_state =
    HandshakeRequestPhase | HandshakeResponsePhase
  | RejectedPhase handshake_rejection_evidence | RejectedEofPhase handshake_rejection_evidence
  | RejectedCompletePhase handshake_rejection_evidence
  | SolveRequestPhase | StartedPhase solve_session | RunningPhase solve_session
  | TerminalPhase terminal_evidence | EofPhase terminal_evidence | CompletePhase terminal_evidence
  | FailedPhase

fun phase_state_name :: "phase_state \<Rightarrow> string" where
  "phase_state_name HandshakeRequestPhase = ''handshake-request''"
| "phase_state_name HandshakeResponsePhase = ''handshake-response''"
| "phase_state_name (RejectedPhase _) = ''rejected''"
| "phase_state_name (RejectedEofPhase _) = ''rejected-eof''"
| "phase_state_name (RejectedCompletePhase _) = ''rejected-complete''"
| "phase_state_name SolveRequestPhase = ''solve-request''"
| "phase_state_name (StartedPhase _) = ''started''"
| "phase_state_name (RunningPhase _) = ''running''"
| "phase_state_name (TerminalPhase _) = ''terminal''"
| "phase_state_name (EofPhase _) = ''eof''"
| "phase_state_name (CompletePhase _) = ''complete''"
| "phase_state_name FailedPhase = ''failed''"

record parent_protocol =
  expectations :: handshake_expectations
  negotiated_capabilities :: "int set"
  phase :: phase_state

record started_observation =
  observed_request_id :: string
  observed_fingerprint :: "byte list"

datatype worker_observation =
    HandshakeAcceptedSeen | HandshakeRejectedSeen | StartedSeen started_observation | ProgressSeen progress
  | IncumbentSeen incumbent | TerminalSeen

datatype completed_session = CompletedSolve terminal_evidence | CompletedRejection handshake_rejection_evidence

definition parent_protocol_new :: "handshake_expectations \<Rightarrow> parent_protocol" where
  "parent_protocol_new e = \<lparr>expectations = e, negotiated_capabilities = {}, phase = HandshakeRequestPhase\<rparr>"

definition absorb_failure ::
    "(protocol_fault, 'a \<times> parent_protocol) outcome \<Rightarrow> parent_protocol \<Rightarrow> (protocol_fault, 'a) outcome \<times> parent_protocol" where
  "absorb_failure r st =
     (case r of Ok (x, st') \<Rightarrow> (Ok x, st') | Err e \<Rightarrow> (Err e, st\<lparr>phase := FailedPhase\<rparr>) | Abort \<Rightarrow> (Abort, st))"

subsection \<open>Handshake\<close>

definition validate_protocol_version ::
    "handshake_expectations \<Rightarrow> u32 \<Rightarrow> u32 \<Rightarrow> (protocol_fault, unit) outcome" where
  "validate_protocol_version e major minor =
     ensure (major = protocol_major e \<and> minor = protocol_minor e)
       (ProtocolVersion (protocol_major e) (protocol_minor e) major minor)"

definition validate_handshake_request ::
    "protocol_env \<Rightarrow> handshake_expectations \<Rightarrow> handshake_request \<Rightarrow> (protocol_fault, unit) outcome" where
  "validate_handshake_request env e h =
     bind_o (all_checks
       [validate_protocol_version e (request_protocol_major h) (request_protocol_minor h),
        validate_expected_text ''eutheto.worker.v1.HandshakeRequest.core_version'' ''core_version'' (core_version h),
        validate_semver env ''core_version'' (core_version h),
        ensure (expected_backend_id h = backend_id e) (InvalidHandshake ''backend_id''),
        ensure (length (expected_manifest_sha256 h) = 32 \<and> expected_manifest_sha256 h = manifest_sha256 e)
          (InvalidHandshake ''expected_manifest_sha256'')]) (\<lambda>_.
     bind_o (validate_capability_values (required_capability_values h)) (\<lambda>required.
     ensure (required = required_capabilities e) (InvalidHandshake ''required_capabilities'')))"

definition validate_handshake_success ::
    "protocol_env \<Rightarrow> handshake_expectations \<Rightarrow> handshake_success \<Rightarrow> (protocol_fault, int set) outcome" where
  "validate_handshake_success env e s =
     bind_o (all_checks
       [validate_protocol_version e (success_protocol_major s) (success_protocol_minor s),
        validate_expected_text ''eutheto.worker.v1.HandshakeSuccess.worker_identity'' ''worker_identity'' (success_worker_identity s),
        validate_expected_text ''eutheto.worker.v1.HandshakeSuccess.worker_version'' ''worker_version'' (success_worker_version s),
        validate_expected_text ''eutheto.worker.v1.HandshakeSuccess.backend_id'' ''backend_id'' (success_backend_id s),
        validate_expected_text ''eutheto.worker.v1.HandshakeSuccess.ortools_version'' ''ortools_version'' (success_ortools_version s),
        validate_expected_text ''eutheto.worker.v1.HandshakeSuccess.adapter_version'' ''adapter_version'' (success_adapter_version s),
        validate_semver env ''worker_version'' (success_worker_version s),
        validate_semver env ''ortools_version'' (success_ortools_version s),
        validate_semver env ''adapter_version'' (success_adapter_version s),
        ensure (success_worker_identity s = worker_identity e \<and> success_backend_id s = backend_id e) BackendIdentity,
        ensure (success_worker_version s = worker_version e) (VersionMismatch ''worker_version''),
        ensure (success_ortools_version s = ortools_version e) (VersionMismatch ''ortools_version''),
        ensure (success_adapter_version s = adapter_version e) (VersionMismatch ''adapter_version''),
        ensure (success_manifest_sha256 s = manifest_sha256 e) ManifestSha256]) (\<lambda>_.
     bind_o (validate_capability_values (success_capabilities s)) (\<lambda>capabilities.
     bind_o (ensure (capabilities = expected_advertised_capabilities e) (InvalidHandshake ''advertised_capabilities'')) (\<lambda>_.
     Ok capabilities)))"

subsection \<open>Frames of the parent\<close>

definition on_parent_frame_inner ::
    "protocol_env \<Rightarrow> parent_frame \<Rightarrow> parent_protocol \<Rightarrow> (protocol_fault, unit \<times> parent_protocol) outcome" where
  "on_parent_frame_inner env frame st =
     bind_o (ok_or (StateFault MissingParentBody) (parent_frame_body frame)) (\<lambda>body.
     case (phase st, body) of
       (HandshakeRequestPhase, HandshakeRequestBody h) \<Rightarrow>
         bind_o (validate_handshake_request env (expectations st) h) (\<lambda>_. Ok ((), st\<lparr>phase := HandshakeResponsePhase\<rparr>))
     | (SolveRequestPhase, SolveRequestBody solve) \<Rightarrow>
         bind_o (validate_solve_request env solve (negotiated_capabilities st)) (\<lambda>v.
         Ok ((), st\<lparr>phase := StartedPhase
           \<lparr>session_request_id = request_id solve, session_fingerprint = validated_fingerprint v,
            requested_projections = validated_projections v, applied_parameters = validated_parameters v\<rparr>\<rparr>))
     | _ \<Rightarrow> Err (StateFault (UnexpectedParent (phase_state_name (phase st)) (parent_body_name body))))"

definition on_parent_frame ::
    "protocol_env \<Rightarrow> parent_frame \<Rightarrow> parent_protocol \<Rightarrow> (protocol_fault, unit) outcome \<times> parent_protocol" where
  "on_parent_frame env frame st = absorb_failure (on_parent_frame_inner env frame st) st"

definition tighten_started_wall_time_millis ::
    "u64 \<Rightarrow> parent_protocol \<Rightarrow> (protocol_fault, unit) outcome \<times> parent_protocol" where
  "tighten_started_wall_time_millis millis st = absorb_failure
     (case phase st of
        StartedPhase s \<Rightarrow>
          if 0 < millis \<and> millis \<le> applied_wall_time_millis (applied_parameters s) then
            Ok ((), st\<lparr>phase := StartedPhase (s\<lparr>applied_parameters := (applied_parameters s)\<lparr>applied_wall_time_millis := millis\<rparr>\<rparr>)\<rparr>)
          else Err (StateFault (InvalidSolveRequest ''resource_limits.wall_time_millis''))
      | _ \<Rightarrow> Err (StateFault (UnexpectedParent (phase_state_name (phase st)) ''wall-time-tightening''))) st"

subsection \<open>Frames of the worker\<close>

definition take_started_observation :: "started \<Rightarrow> (protocol_fault, worker_observation) outcome" where
  "take_started_observation s =
     (if length (started_fingerprint s) = 32
      then Ok (StartedSeen \<lparr>observed_request_id = started_request_id s, observed_fingerprint = started_fingerprint s\<rparr>)
      else Err (StateFault ModelFingerprint))"

definition on_handshake_outcome ::
    "protocol_env \<Rightarrow> handshake_outcome \<Rightarrow> parent_protocol \<Rightarrow> (protocol_fault, worker_observation \<times> parent_protocol) outcome" where
  "on_handshake_outcome env r st =
     (case r of
        HandshakeAccept s \<Rightarrow>
          bind_o (validate_handshake_success env (expectations st) s) (\<lambda>capabilities.
          Ok (HandshakeAcceptedSeen, st\<lparr>negotiated_capabilities := capabilities, phase := SolveRequestPhase\<rparr>))
      | HandshakeReject e \<Rightarrow>
          bind_o (all_checks
            [ensure (handshake_error_code_known (rejection_code e)) (InvalidWorkerField ''handshake_error.code''),
             ensure (rejection_code e \<noteq> 0) (InvalidWorkerField ''handshake_error.code''),
             validate_safe_diagnostic (rejection_message e) ''handshake_error.message'']) (\<lambda>_.
          Ok (HandshakeRejectedSeen, st\<lparr>phase := RejectedPhase \<lparr>rejection_error = e\<rparr>\<rparr>)))"

definition on_started ::
    "solve_session \<Rightarrow> started \<Rightarrow> parent_protocol \<Rightarrow> (protocol_fault, worker_observation \<times> parent_protocol) outcome" where
  "on_started s x st =
     bind_o (all_checks
       [validate_request_id (session_request_id s) (started_request_id x),
        ensure (started_fingerprint x = session_fingerprint s) ModelFingerprint]) (\<lambda>_.
     bind_o (take_started_observation x) (\<lambda>seen. Ok (seen, st\<lparr>phase := RunningPhase s\<rparr>)))"

definition on_finished ::
    "protocol_env \<Rightarrow> solve_session \<Rightarrow> finished \<Rightarrow> worker_frame \<Rightarrow> parent_protocol \<Rightarrow>
     (protocol_fault, worker_observation \<times> parent_protocol) outcome" where
  "on_finished env s f frame st =
     bind_o (all_checks
       [validate_request_id (session_request_id s) (finished_request_id f),
        validate_finished f (session_fingerprint s) (requested_projections s)
          (applied_parameters_sha256 env (applied_parameters s)) (negotiated_capabilities st)]) (\<lambda>_.
     Ok (TerminalSeen, st\<lparr>phase := TerminalPhase \<lparr>evidence_frame = frame\<rparr>\<rparr>))"

definition on_error ::
    "solve_session \<Rightarrow> worker_error \<Rightarrow> worker_frame \<Rightarrow> parent_protocol \<Rightarrow>
     (protocol_fault, worker_observation \<times> parent_protocol) outcome" where
  "on_error s e frame st =
     bind_o (all_checks
       [validate_request_id (session_request_id s) (error_request_id e),
        ensure (worker_error_code_known (error_code e)) (InvalidWorkerField ''error.code''),
        ensure (error_code e \<noteq> 0) (InvalidWorkerField ''error.code''),
        validate_safe_diagnostic (error_message e) ''error.message'']) (\<lambda>_.
     Ok (TerminalSeen, st\<lparr>phase := TerminalPhase \<lparr>evidence_frame = frame\<rparr>\<rparr>))"

definition on_worker_frame_inner ::
    "protocol_env \<Rightarrow> worker_frame \<Rightarrow> parent_protocol \<Rightarrow> (protocol_fault, worker_observation \<times> parent_protocol) outcome" where
  "on_worker_frame_inner env frame st =
     bind_o (ok_or (StateFault MissingWorkerBody) (worker_frame_body frame)) (\<lambda>body.
     case (phase st, body) of
       (HandshakeResponsePhase, HandshakeResponseBody r) \<Rightarrow>
         bind_o (ok_or (StateFault MissingWorkerBody) r) (\<lambda>r. on_handshake_outcome env r st)
     | (StartedPhase s, StartedBody x) \<Rightarrow> on_started s x st
     | (RunningPhase s, ProgressBody p) \<Rightarrow>
         bind_o (all_checks
           [validate_request_id (session_request_id s) (progress_request_id p),
            validate_progress p (negotiated_capabilities st)]) (\<lambda>_. Ok (ProgressSeen p, st))
     | (RunningPhase s, IncumbentBody i) \<Rightarrow>
         bind_o (all_checks
           [validate_request_id (session_request_id s) (incumbent_request_id i),
            validate_incumbent i (negotiated_capabilities st) (requested_projections s)]) (\<lambda>_. Ok (IncumbentSeen i, st))
     | (RunningPhase s, FinishedBody f) \<Rightarrow> on_finished env s f frame st
     | (RunningPhase s, ErrorBody e) \<Rightarrow> on_error s e frame st
     | _ \<Rightarrow> Err (StateFault (UnexpectedWorker (phase_state_name (phase st)) (worker_body_name body))))"

definition on_worker_frame ::
    "protocol_env \<Rightarrow> worker_frame \<Rightarrow> parent_protocol \<Rightarrow> (protocol_fault, worker_observation) outcome \<times> parent_protocol" where
  "on_worker_frame env frame st = absorb_failure (on_worker_frame_inner env frame st) st"

subsection \<open>End of file, exit and completion\<close>

definition on_eof_inner :: "parent_protocol \<Rightarrow> (protocol_fault, unit \<times> parent_protocol) outcome" where
  "on_eof_inner st =
     (case phase st of
        TerminalPhase e \<Rightarrow> Ok ((), st\<lparr>phase := EofPhase e\<rparr>)
      | RejectedPhase e \<Rightarrow> Ok ((), st\<lparr>phase := RejectedEofPhase e\<rparr>)
      | EofPhase _ \<Rightarrow> Err (StateFault (UnexpectedWorker (phase_state_name (phase st)) ''EOF''))
      | CompletePhase _ \<Rightarrow> Err (StateFault (UnexpectedWorker (phase_state_name (phase st)) ''EOF''))
      | RejectedEofPhase _ \<Rightarrow> Err (StateFault (UnexpectedWorker (phase_state_name (phase st)) ''EOF''))
      | RejectedCompletePhase _ \<Rightarrow> Err (StateFault (UnexpectedWorker (phase_state_name (phase st)) ''EOF''))
      | _ \<Rightarrow> Err (StateFault MissingTerminal))"

definition on_eof :: "parent_protocol \<Rightarrow> (protocol_fault, unit) outcome \<times> parent_protocol" where
  "on_eof st = absorb_failure (on_eof_inner st) st"

definition on_exit_inner :: "int \<Rightarrow> parent_protocol \<Rightarrow> (protocol_fault, unit \<times> parent_protocol) outcome" where
  "on_exit_inner code st =
     (case phase st of
        EofPhase e \<Rightarrow> if code = 0 then Ok ((), st\<lparr>phase := CompletePhase e\<rparr>) else Err (StateFault (ContradictoryExit code))
      | RejectedEofPhase e \<Rightarrow>
          if code = 0 then Ok ((), st\<lparr>phase := RejectedCompletePhase e\<rparr>) else Err (StateFault (ContradictoryExit code))
      | TerminalPhase _ \<Rightarrow> Err (StateFault ExitBeforeEof)
      | RejectedPhase _ \<Rightarrow> Err (StateFault ExitBeforeEof)
      | CompletePhase _ \<Rightarrow> Err (StateFault DuplicateExit)
      | RejectedCompletePhase _ \<Rightarrow> Err (StateFault DuplicateExit)
      | _ \<Rightarrow> Err (StateFault MissingTerminal))"

definition on_exit :: "int \<Rightarrow> parent_protocol \<Rightarrow> (protocol_fault, unit) outcome \<times> parent_protocol" where
  "on_exit code st = absorb_failure (on_exit_inner code st) st"

definition completion :: "parent_protocol \<Rightarrow> terminal_evidence option" where
  "completion st = (case phase st of CompletePhase e \<Rightarrow> Some e | _ \<Rightarrow> None)"

definition handshake_rejection :: "parent_protocol \<Rightarrow> handshake_rejection_evidence option" where
  "handshake_rejection st = (case phase st of RejectedCompletePhase e \<Rightarrow> Some e | _ \<Rightarrow> None)"

definition into_completion :: "parent_protocol \<Rightarrow> (protocol_fault, completed_session) outcome" where
  "into_completion st =
     (case phase st of
        CompletePhase e \<Rightarrow> Ok (CompletedSolve e)
      | RejectedCompletePhase e \<Rightarrow> Ok (CompletedRejection e)
      | p \<Rightarrow> Err (StateFault (CompletionUnavailable (phase_state_name p))))"

end
