(* ===== verification/Protocol_Session.thy ===== *)
theory Protocol_Session
  imports Protocol_State "HOL-Library.Multiset"
begin

section \<open>What a completed session guarantees\<close>

text \<open>
  Sessions as sequences of the calls a parent makes on its state machine: frames sent and received,
  wall-time tightening, end of file and process exit, in any order.
\<close>

datatype session_event =
    ParentSent parent_frame | Tightened u64 | WorkerSent worker_frame | StdoutEof | ProcessExit int

definition call_result :: "('e, 'a) outcome \<times> parent_protocol \<Rightarrow> bool \<times> parent_protocol" where
  "call_result r = (case fst r of Ok _ \<Rightarrow> True | _ \<Rightarrow> False, snd r)"

fun session_step :: "protocol_env \<Rightarrow> session_event \<Rightarrow> parent_protocol \<Rightarrow> bool \<times> parent_protocol" where
  "session_step env (ParentSent frame) st = call_result (on_parent_frame env frame st)"
| "session_step env (Tightened millis) st = call_result (tighten_started_wall_time_millis millis st)"
| "session_step env (WorkerSent frame) st = call_result (on_worker_frame env frame st)"
| "session_step env StdoutEof st = call_result (on_eof st)"
| "session_step env (ProcessExit code) st = call_result (on_exit code st)"

fun run_session :: "protocol_env \<Rightarrow> session_event list \<Rightarrow> parent_protocol \<Rightarrow> bool list \<times> parent_protocol" where
  "run_session env [] st = ([], st)"
| "run_session env (ev # evs) st =
     (let (ok, st') = session_step env ev st; (oks, st'') = run_session env evs st' in (ok # oks, st''))"

subsection \<open>Legal sessions\<close>

text \<open>What an accepted solve request, tightened to the wall times \<open>ts\<close>, makes of the session.\<close>

definition opened_session :: "protocol_env \<Rightarrow> solve_request \<Rightarrow> u64 list \<Rightarrow> solve_session \<Rightarrow> bool" where
  "opened_session env solve ts s \<longleftrightarrow>
     (\<exists>p. normalize_applied_parameters solve = Ok p \<and>
        sorted_wrt (\<ge>) (applied_wall_time_millis p # ts) \<and> 0 \<notin> set ts \<and>
        s = \<lparr>session_request_id = request_id solve, session_fingerprint = sha256 env (cp_model_proto solve),
             requested_projections = sort (map projection_id (projection_requests solve)),
             applied_parameters = p\<lparr>applied_wall_time_millis := last (applied_wall_time_millis p # ts)\<rparr>\<rparr>) \<and>
     distinct (map projection_id (projection_requests solve))"

definition session_opening :: "handshake_request \<Rightarrow> handshake_success \<Rightarrow> solve_request \<Rightarrow> u64 list \<Rightarrow> session_event list" where
  "session_opening h a solve ts =
     [ParentSent \<lparr>parent_frame_body = Some (HandshakeRequestBody h)\<rparr>,
      WorkerSent \<lparr>worker_frame_body = Some (HandshakeResponseBody (Some (HandshakeAccept a)))\<rparr>,
      ParentSent \<lparr>parent_frame_body = Some (SolveRequestBody solve)\<rparr>] @ map Tightened ts"

text \<open>A search report that belongs to the request and names only what was asked for.\<close>

definition candidate_answers :: "solve_request \<Rightarrow> projected_candidate \<Rightarrow> bool" where
  "candidate_answers solve c \<longleftrightarrow>
     mset (map value_projection_id (candidate_values c)) = mset (map projection_id (projection_requests solve))"

fun report_answers :: "solve_request \<Rightarrow> worker_body option \<Rightarrow> bool" where
  "report_answers solve (Some (ProgressBody p)) \<longleftrightarrow> progress_request_id p = request_id solve"
| "report_answers solve (Some (IncumbentBody i)) \<longleftrightarrow> incumbent_request_id i = request_id solve \<and>
     (\<exists>c. incumbent_candidate i = Some c \<and> candidate_answers solve c)"
| "report_answers solve _ \<longleftrightarrow> False"

fun terminal_answers :: "protocol_env \<Rightarrow> solve_request \<Rightarrow> solve_session \<Rightarrow> worker_body option \<Rightarrow> bool" where
  "terminal_answers env solve s (Some (FinishedBody f)) \<longleftrightarrow>
     finished_request_id f = request_id solve \<and> finished_fingerprint f = sha256 env (cp_model_proto solve) \<and>
     applied_parameters_hash f = sha256 env (applied_parameters_preimage (applied_parameters s)) \<and>
     (\<exists>status reason. worker_solve_status_try_from (finished_status f) = Some status \<and>
        termination_reason_try_from (finished_termination_reason f) = Some reason \<and>
        finished_outcome_is_coherent (raw_cp_sat_status f) status reason (final_candidate f \<noteq> None)) \<and>
     (\<forall>c. final_candidate f = Some c \<longrightarrow> candidate_answers solve c)"
| "terminal_answers env solve s (Some (ErrorBody e)) \<longleftrightarrow>
     error_request_id e = request_id solve \<and> error_code e \<in> {1..8} \<and> \<not> list_ex is_unsafe_control (chars (error_message e))"
| "terminal_answers env solve s _ \<longleftrightarrow> False"

definition running_trace ::
    "protocol_env \<Rightarrow> session_event list \<Rightarrow> solve_request \<Rightarrow> solve_session \<Rightarrow> bool" where
  "running_trace env evs solve s \<longleftrightarrow>
     (\<exists>h a ts x reports. evs = session_opening h a solve ts @ WorkerSent \<lparr>worker_frame_body = Some (StartedBody x)\<rparr> # map WorkerSent reports \<and>
        opened_session env solve ts s \<and> started_request_id x = request_id solve \<and>
        started_fingerprint x = sha256 env (cp_model_proto solve) \<and>
        list_all (\<lambda>r. report_answers solve (worker_frame_body r)) reports)"

definition terminal_trace :: "protocol_env \<Rightarrow> session_event list \<Rightarrow> worker_frame \<Rightarrow> bool" where
  "terminal_trace env evs frame \<longleftrightarrow>
     (\<exists>before solve s. evs = before @ [WorkerSent frame] \<and> running_trace env before solve s \<and>
        terminal_answers env solve s (worker_frame_body frame))"

definition rejected_trace :: "session_event list \<Rightarrow> handshake_error \<Rightarrow> bool" where
  "rejected_trace evs e \<longleftrightarrow>
     (\<exists>h. evs = [ParentSent \<lparr>parent_frame_body = Some (HandshakeRequestBody h)\<rparr>,
        WorkerSent \<lparr>worker_frame_body = Some (HandshakeResponseBody (Some (HandshakeReject e)))\<rparr>])"

fun phase_trace :: "protocol_env \<Rightarrow> session_event list \<Rightarrow> phase_state \<Rightarrow> bool" where
  "phase_trace env evs HandshakeRequestPhase \<longleftrightarrow> evs = []"
| "phase_trace env evs HandshakeResponsePhase \<longleftrightarrow> (\<exists>h. evs = [ParentSent \<lparr>parent_frame_body = Some (HandshakeRequestBody h)\<rparr>])"
| "phase_trace env evs (RejectedPhase e) \<longleftrightarrow> rejected_trace evs (rejection_error e)"
| "phase_trace env evs (RejectedEofPhase e) \<longleftrightarrow> (\<exists>before. evs = before @ [StdoutEof] \<and> rejected_trace before (rejection_error e))"
| "phase_trace env evs (RejectedCompletePhase e) \<longleftrightarrow>
     (\<exists>before. evs = before @ [StdoutEof, ProcessExit 0] \<and> rejected_trace before (rejection_error e))"
| "phase_trace env evs SolveRequestPhase \<longleftrightarrow>
     (\<exists>h a. evs = [ParentSent \<lparr>parent_frame_body = Some (HandshakeRequestBody h)\<rparr>,
        WorkerSent \<lparr>worker_frame_body = Some (HandshakeResponseBody (Some (HandshakeAccept a)))\<rparr>])"
| "phase_trace env evs (StartedPhase s) \<longleftrightarrow> (\<exists>h a solve ts. evs = session_opening h a solve ts \<and> opened_session env solve ts s)"
| "phase_trace env evs (RunningPhase s) \<longleftrightarrow> (\<exists>solve. running_trace env evs solve s)"
| "phase_trace env evs (TerminalPhase t) \<longleftrightarrow> terminal_trace env evs (evidence_frame t)"
| "phase_trace env evs (EofPhase t) \<longleftrightarrow> (\<exists>before. evs = before @ [StdoutEof] \<and> terminal_trace env before (evidence_frame t))"
| "phase_trace env evs (CompletePhase t) \<longleftrightarrow>
     (\<exists>before. evs = before @ [StdoutEof, ProcessExit 0] \<and> terminal_trace env before (evidence_frame t))"
| "phase_trace env evs FailedPhase \<longleftrightarrow> True"

subsection \<open>A sample session\<close>

definition sample_env :: protocol_env where
  "sample_env = \<lparr>sha256 = \<lambda>bytes. replicate 32 (if length bytes = 56 then 1 else 0), semver_parses = \<lambda>s. s = ''1.0.0''\<rparr>"

definition sample_expectations :: handshake_expectations where
  "sample_expectations = \<lparr>protocol_major = 1, protocol_minor = 1, worker_identity = ''w'', worker_version = ''1.0.0'',
     backend_id = ''b'', ortools_version = ''1.0.0'', adapter_version = ''1.0.0'', manifest_sha256 = replicate 32 7,
     required_capabilities = {1}, expected_advertised_capabilities = {1, 4}\<rparr>"

definition sample_finished :: finished where
  "sample_finished = \<lparr>finished_request_id = ''r'', raw_cp_sat_status = 4,
     finished_status = 1, finished_termination_reason = 1,
     final_candidate = Some \<lparr>candidate_values = [\<lparr>value_projection_id = 2, projected = 5\<rparr>, \<lparr>value_projection_id = 1, projected = - 3\<rparr>]\<rparr>,
     finished_objective_values = [], finished_best_bound_values = [], finished_wall_time_seconds = None,
     finished_user_time_seconds = None, finished_deterministic_time = None, conflicts = None, branches = None,
     binary_propagations = None, integer_propagations = None, sufficient_assumptions = [],
     applied_parameters_hash = replicate 32 1, finished_fingerprint = replicate 32 0\<rparr>"

definition sample_terminal :: worker_frame where
  "sample_terminal = \<lparr>worker_frame_body = Some (FinishedBody sample_finished)\<rparr>"

definition sample_opening :: "session_event list" where
  "sample_opening =
     [ParentSent \<lparr>parent_frame_body = Some (HandshakeRequestBody \<lparr>request_protocol_major = 1, request_protocol_minor = 1,
        core_version = ''1.0.0'', expected_backend_id = ''b'', required_capability_values = [1],
        expected_manifest_sha256 = replicate 32 7\<rparr>)\<rparr>,
      WorkerSent \<lparr>worker_frame_body = Some (HandshakeResponseBody (Some (HandshakeAccept \<lparr>success_protocol_major = 1,
        success_protocol_minor = 1, success_worker_identity = ''w'', success_worker_version = ''1.0.0'', success_backend_id = ''b'',
        success_ortools_version = ''1.0.0'', success_adapter_version = ''1.0.0'', success_manifest_sha256 = replicate 32 7,
        success_capabilities = [4, 1]\<rparr>)))\<rparr>,
      ParentSent \<lparr>parent_frame_body = Some (SolveRequestBody \<lparr>request_id = ''r'', cp_model_proto = [5],
        parameters = Some \<lparr>random_seed = None, stop_after_first_feasible = None, emit_intermediate_solutions = None,
          log_search_progress = None, deterministic_test_profile = None\<rparr>,
        projection_requests = [\<lparr>projection_id = 1, cp_sat_variable_index = 0\<rparr>, \<lparr>projection_id = 2, cp_sat_variable_index = 3\<rparr>],
        request_limits = Some \<lparr>wall_time_millis = 100, memory_bytes = None, worker_threads = 2\<rparr>,
        model_fingerprint = replicate 32 0\<rparr>)\<rparr>,
      Tightened 90]"

definition sample_started :: worker_frame where
  "sample_started = \<lparr>worker_frame_body = Some (StartedBody \<lparr>started_request_id = ''r'', started_fingerprint = replicate 32 0\<rparr>)\<rparr>"

definition sample_solve_session :: solve_session where
  "sample_solve_session =
     \<lparr>session_request_id = ''r'', session_fingerprint = replicate 32 0, requested_projections = [1, 2],
      applied_parameters = \<lparr>applied_wall_time_millis = 90, applied_worker_threads = 2, applied_random_seed = 1,
        applied_stop_after_first_feasible = False, applied_emit_intermediate_solutions = False,
        applied_log_search_progress = False, applied_deterministic_test_profile = False\<rparr>\<rparr>"

definition sample_state :: "phase_state \<Rightarrow> parent_protocol" where
  "sample_state p = \<lparr>expectations = sample_expectations, negotiated_capabilities = {1, 4}, phase = p\<rparr>"

subsection \<open>No call panics\<close>

named_theorems never_aborts \<open>the checks of the state machine end in a value or a fault\<close>

lemma all_checks_never [never_aborts]: "list_all (\<lambda>c. c \<noteq> Abort) cs \<Longrightarrow> all_checks cs \<noteq> Abort"
  by (induction cs) (auto simp: bind_o_Abort_iff)

lemma bind_o_never [never_aborts]: "r \<noteq> Abort \<Longrightarrow> (\<And>x. f x \<noteq> Abort) \<Longrightarrow> bind_o r f \<noteq> Abort"
  by (auto simp: bind_o_Abort_iff)

lemma each_o_never [never_aborts]: "(\<And>x s. f x s \<noteq> Abort) \<Longrightarrow> each_o f xs s \<noteq> Abort"
  by (induction xs arbitrary: s) (simp_all add: bind_o_Abort_iff)

lemma check_if_never [simp]: "c \<noteq> Abort \<Longrightarrow> check_if b c \<noteq> Abort"
  by (auto simp: check_if_def)

lemma simple_checks_never [simp]:
  "require_negotiated_capability n c field \<noteq> Abort" "validate_request_id s t \<noteq> Abort"
  "validate_finite vs field \<noteq> Abort" "validate_optional_nonnegative_finite v field \<noteq> Abort"
  "validate_expected_text key field s \<noteq> Abort" "validate_semver env field s \<noteq> Abort"
  "validate_safe_diagnostic s field \<noteq> Abort" "validate_protocol_version e major minor \<noteq> Abort"
  "check_no_duplicate ids \<noteq> Abort" "take_started_observation x \<noteq> Abort"
  by (simp_all add: require_negotiated_capability_def validate_request_id_def validate_finite_def
      validate_optional_nonnegative_finite_def validate_expected_text_def validate_semver_def validate_safe_diagnostic_def
      validate_protocol_version_def check_no_duplicate_def take_started_observation_def split: option.split)

lemma insert_capability_never [simp]: "insert_capability c seen \<noteq> Abort"
  unfolding insert_capability_def by (intro never_aborts) simp_all

lemma validate_capability_values_never [simp]: "validate_capability_values vs \<noteq> Abort"
  unfolding validate_capability_values_def by (intro never_aborts) simp_all

lemma validate_candidate_never [simp]: "validate_candidate c requested \<noteq> Abort"
  by (auto simp: validate_candidate_def Let_def bind_o_Abort_iff split: option.split)

lemma validate_final_candidate_never [simp]: "validate_final_candidate f requested n \<noteq> Abort"
  by (auto simp: validate_final_candidate_def bind_o_Abort_iff split: option.split)

lemma validate_sufficient_assumptions_never [simp]: "validate_sufficient_assumptions f s r n \<noteq> Abort"
  unfolding validate_sufficient_assumptions_def by (intro check_if_never never_aborts) simp_all

lemma evidence_checks_never [simp]:
  "validate_progress p n \<noteq> Abort" "validate_incumbent i n requested \<noteq> Abort" "validate_finished f a requested b n \<noteq> Abort"
  unfolding validate_progress_def validate_incumbent_def validate_finished_def by (intro never_aborts; simp)+

lemma handshake_checks_never [simp]:
  "validate_handshake_request env e h \<noteq> Abort" "validate_handshake_success env e s \<noteq> Abort"
  unfolding validate_handshake_request_def validate_handshake_success_def by (intro never_aborts; simp)+

lemma normalize_applied_parameters_never [simp]: "normalize_applied_parameters solve \<noteq> Abort"
  unfolding normalize_applied_parameters_def Let_def by (intro never_aborts) simp_all

lemma validate_solve_request_never [simp]: "validate_solve_request env solve n \<noteq> Abort"
  unfolding validate_solve_request_def Let_def by (intro never_aborts) simp_all

lemma calls_never [simp]:
  "on_parent_frame_inner env pf st \<noteq> Abort" "on_worker_frame_inner env frame st \<noteq> Abort"
  "on_eof_inner st \<noteq> Abort" "on_exit_inner code st \<noteq> Abort"
  unfolding on_parent_frame_inner_def on_worker_frame_inner_def on_handshake_outcome_def on_started_def on_finished_def
    on_error_def on_eof_inner_def on_exit_inner_def
  by (auto simp: bind_o_Abort_iff all_checks_never split: phase_state.splits parent_body.splits worker_body.splits
      handshake_outcome.splits if_splits)

subsection \<open>Successful calls\<close>

lemma absorb_failure_Ok_iff:
  "call_result (absorb_failure r st) = (True, st') \<longleftrightarrow> (\<exists>x. r = Ok (x, st'))"
  by (auto simp: call_result_def absorb_failure_def split: outcome.splits)

lemma absorb_failure_failed:
  "r \<noteq> Abort \<Longrightarrow> call_result (absorb_failure r st) = (False, st') \<Longrightarrow> st' = st\<lparr>phase := FailedPhase\<rparr>"
  by (auto simp: call_result_def absorb_failure_def split: outcome.splits)

lemma session_step_failed:
  assumes "session_step env ev st = (False, st')"
  shows "phase st' = FailedPhase"
proof (cases ev)
  case (Tightened m)
  then show ?thesis using assms
    by (auto simp: tighten_started_wall_time_millis_def absorb_failure_def call_result_def
        split: phase_state.splits if_splits)
qed (use assms in \<open>auto simp: on_parent_frame_def on_worker_frame_def on_eof_def on_exit_def dest!: absorb_failure_failed [rotated]\<close>)

lemma failed_session_step: "phase st = FailedPhase \<Longrightarrow> fst (session_step env ev st) = False"
  by (cases ev)
     (auto simp: on_parent_frame_def on_worker_frame_def on_eof_def on_exit_def on_parent_frame_inner_def
      on_worker_frame_inner_def on_eof_inner_def on_exit_inner_def tighten_started_wall_time_millis_def
      absorb_failure_def call_result_def bind_o_def ok_or_def
      split: outcome.splits option.splits parent_body.splits worker_body.splits)

subsection \<open>What the checks establish\<close>

lemma check_no_duplicate_Ok_iff [simp]: "check_no_duplicate (sort ids) = Ok u \<longleftrightarrow> distinct ids"
proof -
  have "duplicate_id xs = None \<longleftrightarrow> (\<forall>p \<in> set (windows2 xs). fst p \<noteq> snd p)" for xs
    by (auto simp: duplicate_id_def find_None_iff)
  moreover have "(\<forall>p \<in> set (windows2 xs). fst p \<noteq> snd p) \<longleftrightarrow> distinct xs" if "sorted xs" for xs :: "nat list"
    using that by (induction xs rule: induct_list012) auto
  ultimately have "duplicate_id (sort ids) = None \<longleftrightarrow> distinct ids" by simp
  then show ?thesis by (auto simp: check_no_duplicate_def split: option.splits)
qed

lemma find_fault_Ok_iff:
  "(case List.find P xs of Some i \<Rightarrow> Err (fault i) | None \<Rightarrow> r) = Ok u \<longleftrightarrow> (\<forall>x \<in> set xs. \<not> P x) \<and> r = Ok u"
  by (induction xs) auto

lemma validate_candidate_Ok_iff:
  assumes "distinct ids"
  shows "validate_candidate c (sort ids) = Ok u \<longleftrightarrow> mset (map value_projection_id (candidate_values c)) = mset ids"
proof -
  let ?seen = "map value_projection_id (candidate_values c)"
  have "validate_candidate c (sort ids) = Ok u \<longleftrightarrow> distinct ?seen \<and> set ?seen = set ids"
    by (auto simp: validate_candidate_def Let_def find_fault_Ok_iff)
  also have "\<dots> \<longleftrightarrow> mset ?seen = mset ids"
    using assms by (metis mset_eq_imp_distinct_iff set_eq_iff_mset_eq_distinct mset_eq_setD)
  finally show ?thesis .
qed

lemma validate_solve_request_opens:
  assumes "validate_solve_request env solve n = Ok v"
  shows "opened_session env solve [] \<lparr>session_request_id = request_id solve, session_fingerprint = validated_fingerprint v,
            requested_projections = validated_projections v, applied_parameters = validated_parameters v\<rparr>"
  using assms by (auto simp: validate_solve_request_def Let_def opened_session_def)

lemma opened_session_facts:
  assumes "opened_session env solve ts s"
  shows "session_request_id s = request_id solve" "session_fingerprint s = sha256 env (cp_model_proto solve)"
    "validate_candidate c (requested_projections s) = Ok u \<longleftrightarrow> candidate_answers solve c"
  using assms validate_candidate_Ok_iff by (auto simp: opened_session_def candidate_answers_def)

lemma opened_session_tighten:
  assumes "opened_session env solve ts s" "0 < m" "m \<le> applied_wall_time_millis (applied_parameters s)"
  shows "opened_session env solve (ts @ [m]) (s\<lparr>applied_parameters := (applied_parameters s)\<lparr>applied_wall_time_millis := m\<rparr>\<rparr>)"
proof -
  obtain p where p: "normalize_applied_parameters solve = Ok p" "sorted_wrt (\<ge>) (applied_wall_time_millis p # ts)" "0 \<notin> set ts"
    "s = \<lparr>session_request_id = request_id solve, session_fingerprint = sha256 env (cp_model_proto solve),
             requested_projections = sort (map projection_id (projection_requests solve)),
             applied_parameters = p\<lparr>applied_wall_time_millis := last (applied_wall_time_millis p # ts)\<rparr>\<rparr>"
    "distinct (map projection_id (projection_requests solve))"
    using assms(1) by (auto simp: opened_session_def)
  have "sorted_wrt (\<ge>) xs \<Longrightarrow> x \<in> set xs \<Longrightarrow> last xs \<le> x" for xs :: "nat list" and x
    by (induction xs) auto
  from this [OF p(2)] have "m \<le> x" if "x \<in> set (applied_wall_time_millis p # ts)" for x
    using that assms(3) p(4) by fastforce
  then have "sorted_wrt (\<ge>) (applied_wall_time_millis p # ts @ [m])" using p(2) by (auto simp: sorted_wrt_append)
  then show ?thesis using p assms(2) by (auto simp: opened_session_def)
qed

lemma validate_finished_answers:
  assumes "opened_session env solve ts s" "finished_request_id f = request_id solve"
    and "validate_finished f (session_fingerprint s) (requested_projections s)
          (applied_parameters_sha256 env (applied_parameters s)) n = Ok u"
  shows "terminal_answers env solve s (Some (FinishedBody f))"
  using assms opened_session_facts [OF assms(1)]
  by (auto simp: validate_finished_def applied_parameters_sha256_def validate_final_candidate_def split: option.splits)

lemma validate_incumbent_answers:
  assumes "opened_session env solve ts s" "validate_incumbent i n (requested_projections s) = Ok u"
  shows "\<exists>c. incumbent_candidate i = Some c \<and> candidate_answers solve c"
  using assms opened_session_facts [OF assms(1)] by (auto simp: validate_incumbent_def)

subsection \<open>Every reachable phase is explained by the calls made\<close>

lemma on_parent_frame_traced:
  assumes "phase_trace env evs (phase st)" "on_parent_frame_inner env frame st = Ok (u, st')"
  shows "phase_trace env (evs @ [ParentSent frame]) (phase st')"
proof -
  obtain body where "parent_frame_body frame = Some body" using assms(2) by (auto simp: on_parent_frame_inner_def)
  then have frame: "frame = \<lparr>parent_frame_body = Some body\<rparr>" by (cases frame) simp
  show ?thesis
    using assms unfolding frame
    by (auto simp: on_parent_frame_inner_def session_opening_def split: phase_state.splits parent_body.splits
        dest!: validate_solve_request_opens)
qed

lemma running_trace_report:
  assumes "running_trace env evs solve s" "report_answers solve (worker_frame_body r)"
  shows "running_trace env (evs @ [WorkerSent r]) solve s"
proof -
  obtain h a ts x reports where "evs = session_opening h a solve ts @ WorkerSent \<lparr>worker_frame_body = Some (StartedBody x)\<rparr> # map WorkerSent reports"
    "opened_session env solve ts s" "started_request_id x = request_id solve"
    "started_fingerprint x = sha256 env (cp_model_proto solve)" "list_all (\<lambda>r. report_answers solve (worker_frame_body r)) reports"
    using assms(1) by (auto simp: running_trace_def)
  with assms(2) show ?thesis
    unfolding running_trace_def
    by (intro exI [of _ h] exI [of _ a] exI [of _ ts] exI [of _ x] exI [of _ "reports @ [r]"]) simp
qed

lemma running_trace_opened: "running_trace env evs solve s \<Longrightarrow> \<exists>ts. opened_session env solve ts s"
  by (auto simp: running_trace_def)

lemma on_started_traced:
  assumes "phase_trace env evs (StartedPhase s)" "on_started s x st = Ok (seen, st')"
  shows "phase_trace env (evs @ [WorkerSent \<lparr>worker_frame_body = Some (StartedBody x)\<rparr>]) (phase st')"
proof -
  obtain h a solve ts where t: "evs = session_opening h a solve ts" "opened_session env solve ts s" using assms(1) by auto
  have "running_trace env (evs @ [WorkerSent \<lparr>worker_frame_body = Some (StartedBody x)\<rparr>]) solve s"
    unfolding running_trace_def
    using assms(2) t opened_session_facts [OF t(2)]
    by (intro exI [of _ h] exI [of _ a] exI [of _ ts] exI [of _ x] exI [of _ "[]"])
      (auto simp: on_started_def validate_request_id_def)
  then show ?thesis using assms(2) by (auto simp: on_started_def)
qed

lemma on_terminal_traced:
  assumes "running_trace env evs solve s"
    and "(\<exists>f. worker_frame_body frame = Some (FinishedBody f) \<and> on_finished env s f frame st = Ok (seen, st')) \<or>
      (\<exists>e. worker_frame_body frame = Some (ErrorBody e) \<and> on_error s e frame st = Ok (seen, st'))"
  shows "phase_trace env (evs @ [WorkerSent frame]) (phase st')"
proof -
  obtain ts where o: "opened_session env solve ts s" using running_trace_opened [OF assms(1)] by blast
  have "terminal_answers env solve s (worker_frame_body frame) \<and> phase st' = TerminalPhase \<lparr>evidence_frame = frame\<rparr>"
    using assms(2)
  proof (elim disjE exE conjE)
    fix f assume "worker_frame_body frame = Some (FinishedBody f)" "on_finished env s f frame st = Ok (seen, st')"
    then show ?thesis
      using validate_finished_answers [OF o] opened_session_facts(1) [OF o] by (auto simp: on_finished_def validate_request_id_def)
  next
    fix e assume "worker_frame_body frame = Some (ErrorBody e)" "on_error s e frame st = Ok (seen, st')"
    then show ?thesis
      using opened_session_facts(1) [OF o]
      by (auto simp: on_error_def validate_request_id_def worker_error_code_known_def validate_safe_diagnostic_def)
  qed
  with assms(1) show ?thesis by (auto simp: terminal_trace_def)
qed

lemma on_handshake_traced:
  assumes "phase_trace env evs HandshakeResponsePhase" "on_handshake_outcome env r st = Ok (seen, st')"
  shows "phase_trace env (evs @ [WorkerSent \<lparr>worker_frame_body = Some (HandshakeResponseBody (Some r))\<rparr>]) (phase st')"
  using assms by (auto simp: on_handshake_outcome_def rejected_trace_def split: handshake_outcome.splits)

lemma on_worker_frame_cases:
  assumes "on_worker_frame_inner env \<lparr>worker_frame_body = Some body\<rparr> st = Ok (seen, st')"
  obtains r where "phase st = HandshakeResponsePhase" "body = HandshakeResponseBody (Some r)" "on_handshake_outcome env r st = Ok (seen, st')"
  | s x where "phase st = StartedPhase s" "body = StartedBody x" "on_started s x st = Ok (seen, st')"
  | s p where "phase st = RunningPhase s" "body = ProgressBody p" "session_request_id s = progress_request_id p" "st' = st"
  | s i where "phase st = RunningPhase s" "body = IncumbentBody i" "session_request_id s = incumbent_request_id i" "st' = st"
      "validate_incumbent i (negotiated_capabilities st) (requested_projections s) = Ok ()"
  | s where "phase st = RunningPhase s"
      "(\<exists>f. body = FinishedBody f \<and> on_finished env s f \<lparr>worker_frame_body = Some body\<rparr> st = Ok (seen, st')) \<or>
       (\<exists>e. body = ErrorBody e \<and> on_error s e \<lparr>worker_frame_body = Some body\<rparr> st = Ok (seen, st'))"
  using assms
  by (cases "phase st"; cases body) (auto simp: on_worker_frame_inner_def validate_request_id_def)

lemma on_worker_frame_traced:
  assumes "phase_trace env evs (phase st)" "on_worker_frame_inner env frame st = Ok (seen, st')"
  shows "phase_trace env (evs @ [WorkerSent frame]) (phase st')"
proof -
  obtain body where "worker_frame_body frame = Some body" using assms(2) by (auto simp: on_worker_frame_inner_def)
  then have frame: "frame = \<lparr>worker_frame_body = Some body\<rparr>" by (cases frame) simp
  from assms(2) [unfolded frame] show ?thesis
  proof (cases rule: on_worker_frame_cases)
    case (3 s p)
    then obtain solve where "running_trace env evs solve s" using assms(1) by auto
    moreover from this have "report_answers solve (Some (ProgressBody p))"
      using 3 by (auto dest!: running_trace_opened dest: opened_session_facts(1))
    ultimately show ?thesis using 3 running_trace_report [of env evs solve s frame] frame by auto
  next
    case (4 s i)
    then obtain solve where "running_trace env evs solve s" using assms(1) by auto
    moreover from this have "report_answers solve (Some (IncumbentBody i))"
      using 4 by (auto dest!: running_trace_opened dest: opened_session_facts(1) validate_incumbent_answers)
    ultimately show ?thesis using 4 running_trace_report [of env evs solve s frame] frame by auto
  next
    case (5 s)
    then obtain solve where "running_trace env evs solve s" using assms(1) by auto
    from on_terminal_traced [OF this, of "\<lparr>worker_frame_body = Some body\<rparr>" st seen st'] 5 show ?thesis by (simp add: frame)
  qed (use assms(1) on_handshake_traced on_started_traced in \<open>auto simp: frame\<close>)
qed

lemma tighten_traced:
  assumes "phase_trace env evs (phase st)" "call_result (tighten_started_wall_time_millis m st) = (True, st')"
  shows "phase_trace env (evs @ [Tightened m]) (phase st')"
proof -
  obtain s where s: "phase st = StartedPhase s" "0 < m" "m \<le> applied_wall_time_millis (applied_parameters s)"
    and st': "phase st' = StartedPhase (s\<lparr>applied_parameters := (applied_parameters s)\<lparr>applied_wall_time_millis := m\<rparr>\<rparr>)"
    using assms(2) by (auto simp: tighten_started_wall_time_millis_def absorb_failure_Ok_iff split: phase_state.splits if_splits)
  obtain h a solve ts where t: "evs = session_opening h a solve ts" "opened_session env solve ts s" using assms(1) s(1) by auto
  show ?thesis
    unfolding st' phase_trace.simps using opened_session_tighten [OF t(2) s(2,3)]
    by (intro exI [of _ h] exI [of _ a] exI [of _ solve] exI [of _ "ts @ [m]"]) (simp add: t(1) session_opening_def)
qed

lemma session_step_traced:
  assumes "phase_trace env evs (phase st)" "session_step env ev st = (ok, st')"
  shows "phase_trace env (evs @ [ev]) (phase st')"
proof (cases ok)
  case True
  then show ?thesis
  proof (cases ev)
    case (Tightened m)
    then show ?thesis using assms True tighten_traced by simp
  next
    case StdoutEof
    then show ?thesis using assms True
      by (auto simp: on_eof_def absorb_failure_Ok_iff on_eof_inner_def split: phase_state.splits)
  next
    case (ProcessExit code)
    then show ?thesis using assms True
      by (auto simp: on_exit_def absorb_failure_Ok_iff on_exit_inner_def split: phase_state.splits if_splits)
  qed (use assms True on_parent_frame_traced on_worker_frame_traced in
      \<open>auto simp: on_parent_frame_def on_worker_frame_def absorb_failure_Ok_iff\<close>)
qed (use assms session_step_failed in fastforce)

lemma run_session_traced:
  assumes "phase_trace env before (phase st)" "run_session env evs st = (oks, st')"
  shows "phase_trace env (before @ evs) (phase st')"
  using assms
proof (induction evs arbitrary: before st oks)
  case (Cons ev evs)
  obtain ok st1 where step: "session_step env ev st = (ok, st1)" by (cases "session_step env ev st")
  obtain oks1 where run: "run_session env evs st1 = (oks1, st')"
    using Cons.prems(2) step by (auto split: prod.splits)
  show ?case using Cons.IH [OF session_step_traced [OF Cons.prems(1) step] run] by simp
qed simp

lemma run_session_new_traced: "run_session env evs (parent_protocol_new e) = (oks, st) \<Longrightarrow> phase_trace env evs (phase st)"
  using run_session_traced [of env "[]" "parent_protocol_new e" evs oks st] by (simp add: parent_protocol_new_def)

lemma into_completion_Solve_iff: "into_completion st = Ok (CompletedSolve ev) \<longleftrightarrow> phase st = CompletePhase ev"
  by (auto simp: into_completion_def split: phase_state.splits)

lemma run_session_failed:
  "phase st = FailedPhase \<Longrightarrow> run_session env evs st = (oks, st') \<Longrightarrow>
    oks = replicate (length evs) False \<and> phase st' = FailedPhase"
proof (induction evs arbitrary: st oks)
  case (Cons ev evs)
  obtain st1 where step: "session_step env ev st = (False, st1)"
    using failed_session_step [OF Cons.prems(1), of env ev] by (cases "session_step env ev st") simp
  from Cons.IH [OF session_step_failed [OF step]] show ?case
    using Cons.prems(2) step by (auto split: prod.splits)
qed simp

subsection \<open>Properties of sessions\<close>

text \<open>
  C1: A session yields solve evidence only for the right conversation.  Whatever calls were made in
  whatever order, if the session completes with a terminal frame then the calls were: a handshake
  request, its acceptance, one solve request, wall-time tightenings, a start notice for that request
  and model, progress and incumbent reports for that request, the terminal frame, end of file and
  exit code zero.  The terminal frame carries the id of the request; a finish also carries the hash of its model,
  the hash of the parameters in force after the last tightening, a coherent outcome, and a candidate
  only with exactly the requested projections.
\<close>

theorem completed_session_explained:
  assumes "run_session env evs (parent_protocol_new e) = (oks, st)" "into_completion st = Ok (CompletedSolve evidence)"
  shows "\<exists>h a solve ts x reports s.
    evs = session_opening h a solve ts @ WorkerSent \<lparr>worker_frame_body = Some (StartedBody x)\<rparr> # map WorkerSent reports @
      [WorkerSent (evidence_frame evidence), StdoutEof, ProcessExit 0] \<and>
    opened_session env solve ts s \<and> started_request_id x = request_id solve \<and>
    started_fingerprint x = sha256 env (cp_model_proto solve) \<and>
    list_all (\<lambda>r. report_answers solve (worker_frame_body r)) reports \<and>
    terminal_answers env solve s (worker_frame_body (evidence_frame evidence))"
proof -
  have "phase_trace env evs (CompletePhase evidence)"
    using run_session_new_traced [OF assms(1)] assms(2) by (simp add: into_completion_Solve_iff)
  then obtain before solve s where "evs = before @ [WorkerSent (evidence_frame evidence), StdoutEof, ProcessExit 0]"
    "running_trace env before solve s" "terminal_answers env solve s (worker_frame_body (evidence_frame evidence))"
    by (auto simp: terminal_trace_def)
  then show ?thesis unfolding running_trace_def by fastforce
qed

lemma sample_handshake_runs:
  "run_session sample_env (take 2 sample_opening) (parent_protocol_new sample_expectations) =
    ([True, True], sample_state SolveRequestPhase)"
  by code_simp

lemma sample_request_accepted:
  "session_step sample_env (sample_opening ! 2) (sample_state SolveRequestPhase) =
    (True, sample_state (StartedPhase (sample_solve_session
       \<lparr>applied_parameters := (applied_parameters sample_solve_session)\<lparr>applied_wall_time_millis := 100\<rparr>\<rparr>)))"
  by code_simp

lemma sample_tightened:
  "session_step sample_env (Tightened 90) (sample_state (StartedPhase (sample_solve_session
       \<lparr>applied_parameters := (applied_parameters sample_solve_session)\<lparr>applied_wall_time_millis := 100\<rparr>\<rparr>))) =
    (True, sample_state (StartedPhase sample_solve_session))"
  by (simp add: tighten_started_wall_time_millis_def absorb_failure_Ok_iff sample_state_def sample_solve_session_def)

lemma sample_opening_split: "sample_opening = take 2 sample_opening @ [sample_opening ! 2, Tightened 90]"
  by (simp add: sample_opening_def)

lemma run_session_append:
  "run_session env (evs @ evs') st =
    (fst (run_session env evs st) @ fst (run_session env evs' (snd (run_session env evs st))),
     snd (run_session env evs' (snd (run_session env evs st))))"
  by (induction evs arbitrary: st) (auto split: prod.splits)

lemma sample_opening_runs:
  "run_session sample_env sample_opening (parent_protocol_new sample_expectations) =
    ([True, True, True, True], sample_state (StartedPhase sample_solve_session))"
  by (subst sample_opening_split)
    (simp add: run_session_append sample_handshake_runs sample_request_accepted sample_tightened del: session_step.simps)

lemma sample_started_accepted:
  "session_step sample_env (WorkerSent sample_started) (sample_state (StartedPhase sample_solve_session)) =
    (True, sample_state (RunningPhase sample_solve_session))"
  by (simp add: on_worker_frame_def absorb_failure_Ok_iff on_worker_frame_inner_def on_started_def sample_state_def
      sample_started_def sample_solve_session_def validate_request_id_def take_started_observation_def)

lemma sample_hash: "applied_parameters_sha256 sample_env p = replicate 32 1"
proof -
  have "length (applied_parameters_preimage p) = 56"
    by (simp add: applied_parameters_preimage_def length_applied_parameters_domain i32_be_bytes_def)
  then show ?thesis by (simp add: applied_parameters_sha256_def sample_env_def)
qed

lemma sample_terminal_accepted:
  "session_step sample_env (WorkerSent sample_terminal) (sample_state (RunningPhase sample_solve_session)) =
    (True, sample_state (TerminalPhase \<lparr>evidence_frame = sample_terminal\<rparr>))"
proof -
  have "validate_finished sample_finished (replicate 32 0) [1, 2] (replicate 32 1) {1, 4} = Ok ()"
    "finished_request_id sample_finished = ''r''" by code_simp+
  then show ?thesis
    by (simp add: on_worker_frame_def absorb_failure_Ok_iff on_worker_frame_inner_def on_finished_def sample_hash
        validate_request_id_def sample_state_def sample_solve_session_def sample_terminal_def)
qed

theorem completed_session_explained_witness:
  "\<exists>solve s. into_completion (snd (run_session sample_env (sample_opening @ [WorkerSent sample_started, WorkerSent sample_terminal, StdoutEof, ProcessExit 0])
      (parent_protocol_new sample_expectations))) = Ok (CompletedSolve \<lparr>evidence_frame = sample_terminal\<rparr>) \<and>
    opened_session sample_env solve [90] s \<and> terminal_answers sample_env solve s (worker_frame_body sample_terminal)"
proof -
  let ?evs = "sample_opening @ [WorkerSent sample_started, WorkerSent sample_terminal, StdoutEof, ProcessExit 0]"
  have fin: "into_completion (snd (run_session sample_env ?evs (parent_protocol_new sample_expectations))) =
      Ok (CompletedSolve \<lparr>evidence_frame = sample_terminal\<rparr>)"
    unfolding run_session_append sample_opening_runs snd_conv run_session.simps sample_started_accepted
      sample_terminal_accepted prod.case Let_def
    by (simp add: sample_state_def on_eof_def on_exit_def on_eof_inner_def on_exit_inner_def
        absorb_failure_def call_result_def into_completion_def)
  obtain oks st where run: "run_session sample_env ?evs (parent_protocol_new sample_expectations) = (oks, st)"
    by (cases "run_session sample_env ?evs (parent_protocol_new sample_expectations)")
  obtain h a solve ts x reports s where t: "?evs = session_opening h a solve ts @
      WorkerSent \<lparr>worker_frame_body = Some (StartedBody x)\<rparr> # map WorkerSent reports @
      [WorkerSent sample_terminal, StdoutEof, ProcessExit 0]"
    and o: "opened_session sample_env solve ts s" "terminal_answers sample_env solve s (worker_frame_body sample_terminal)"
    using completed_session_explained [OF run, of "\<lparr>evidence_frame = sample_terminal\<rparr>"] fin run by auto
  have "ts = [90]" using t by (cases ts; cases "tl ts") (auto simp: sample_opening_def session_opening_def sample_started_def)
  with o fin show ?thesis by blast
qed

text \<open>
  C17: Failure is final.  In every session the calls that succeed come first; from the first fault on
  every call fails, and no completion is available.
\<close>

theorem session_failure_absorbing:
  "\<exists>n m. fst (run_session env evs st) = replicate n True @ replicate m False \<and> n + m = length evs \<and>
    (m = 0 \<or> into_completion (snd (run_session env evs st)) = Err (StateFault (CompletionUnavailable ''failed'')))"
proof (induction evs arbitrary: st)
  case (Cons ev evs)
  obtain ok st1 where step: "session_step env ev st = (ok, st1)" by (cases "session_step env ev st")
  obtain oks st2 where run: "run_session env evs st1 = (oks, st2)" by (cases "run_session env evs st1")
  show ?case
  proof (cases ok)
    case True
    from Cons.IH [of st1] obtain n m where "oks = replicate n True @ replicate m False" "n + m = length evs"
      "m = 0 \<or> into_completion st2 = Err (StateFault (CompletionUnavailable ''failed''))" unfolding run by auto
    then show ?thesis using step run True by (intro exI [of _ "Suc n"] exI [of _ m]) simp
  next
    case False
    then have "oks = replicate (length evs) False \<and> phase st2 = FailedPhase"
      using run_session_failed [OF session_step_failed run] step by simp
    then show ?thesis using step run False
      by (intro exI [of _ 0] exI [of _ "Suc (length evs)"]) (simp add: into_completion_def)
  qed
qed simp

end
