(* ===== verification/Spec2Isabelle.thy ===== *)
theory Spec2Isabelle
  imports Scalarization Component_Hash Validation_Bounds Validation_Provenance Assumption_Mapping
    Candidate_Projection Canonical_Form Protocol_Session
begin

text \<open>
  A verification development for the planning kernel of Eutheto: the solver-neutral model and its
  analyses, the explanation of infeasibility, the budgets they run under, and the protocol to the
  solver worker.

  \<^bold>\<open>The parts and how they interact.\<close> A domain pack compiles a scenario to a planning problem
  (\<open>crates/eutheto-planning-ir\<close>). The problem is validated, canonicalized and analysed under a
  preparation budget that charges work and transient memory. A solver adapter sends the solve to a
  worker process over a framed protobuf protocol (\<open>crates/eutheto-protocol\<close>), whose answers are
  untrusted: every payload passes a strict validator, and a state machine admits only the legal
  conversation. A candidate is projected to a normalized solution (\<open>projection.rs\<close>, with the
  records of \<open>crates/eutheto-domain-ir\<close>). An infeasible core is mapped to conflict groups and
  shrunk by repeated trials (\<open>crates/eutheto-explain\<close>) under the solve budget of
  \<open>crates/eutheto-types\<close>.

  \<^bold>\<open>Conventions.\<close> A fallible function returns an \<open>outcome\<close>: \<open>Ok\<close>, \<open>Err\<close>, or \<open>Abort\<close> for a panic
  or a loop that exhausts its fuel; theorems that a function returns exclude \<open>Abort\<close>. An \<open>i64\<close> is
  an \<^typ>\<open>int\<close> and a \<open>u64\<close> or \<open>usize\<close> a \<^typ>\<open>nat\<close> with checked, saturating and casting operations
  written out; bytes and decoded varints are words. A \<open>BTreeMap\<close> is a sorted association list behind
  the locale \<open>ordered_map\<close> of \<open>Prelude\<close>; a search in a sorted slice is membership. A mutable
  structure is a record that is passed and returned.

  \<^bold>\<open>The theories\<close>, by source file:
  \<^item> \<open>Prelude\<close>: integers, outcomes, slices and ordered maps.
  \<^item> \<open>Budget\<close>, \<open>Traversal\<close>: \<open>planning-ir/src/budget.rs\<close> and the functions that take an optional
    budget, as pairs of what they do without and with one. For every sequence of calls live bytes are
    the raw and the reserved ones, dropping a reservation never panics, ceilings hold.
  \<^item> \<open>Planning_Ids\<close>, \<open>Int_Domain\<close>, \<open>Linear_Expr\<close>, \<open>Planning_Model\<close>, \<open>Sample\<close>: \<open>ids.rs\<close> and
    \<open>model.rs\<close>; constructors yield unique normal forms with the meaning of their input.
  \<^item> \<open>Feature_Usage\<close>, \<open>Union_Find\<close>, \<open>Components\<close>, \<open>Component_Correctness\<close>, \<open>Component_Budget\<close>,
    \<open>Component_Hash\<close>, \<open>Scalarization\<close>: \<open>analysis.rs\<close>. The union-find implements the locale
    \<open>partition_structure\<close>; the analysis refines the connected components of the hypergraph; its
    hash preimage is injective; the scalarized order is the lexicographic one.
  \<^item> \<open>Validation_Checks\<close>, \<open>Validation\<close> and \<open>Validation_Safety\<close>, \<open>Validation_Soundness\<close>,
    \<open>Validation_Bounds\<close>, \<open>Validation_Provenance\<close>: \<open>validation.rs\<close>. Validation returns, agrees with and
    without a budget and leaks nothing; what it accepts is well typed, evaluates without overflow and
    has well-founded provenance.
  \<^item> \<open>Canonical_Form\<close>, \<open>Candidate_Projection\<close>: \<open>canonical.rs\<close> (canonicalization and hashed view) and
    \<open>projection.rs\<close>. Canonicalization is an idempotent normal form; a complete candidate of a
    validated problem projects, exactly when its projected intervals, evidence and revision are
    admissible, to what its projections mean.
  \<^item> \<open>Domain_Contracts\<close>, \<open>Conflict_Shrink\<close>, \<open>Assumption_Mapping\<close>: conflict evidence of \<open>domain-ir\<close>,
    \<open>shrink.rs\<close> and \<open>assumption.rs\<close>. Results of the shrinker are conflicts, minimal where they are
    said to be; the mapping is exact and its result is a legal input of the shrinker.
  \<^item> \<open>Solve_Budget\<close>: \<open>types/src/budget.rs\<close>; cancellation trees and derived views.
  \<^item> \<open>Protocol_Policy\<close>, \<open>Protocol_Varint\<close>, \<open>Protocol_Wire\<close>, \<open>Protocol_Grammar\<close>, \<open>Protocol_Descriptor\<close>,
    \<open>Protocol_Schema\<close>: \<open>fault.rs\<close>, \<open>limits.rs\<close>, \<open>strict.rs\<close>, \<open>protocol/version.json\<close> and
    \<open>protocol/solver-worker.proto\<close>. A schema is the one its descriptor describes; the validator
    accepts exactly a declarative grammar.
  \<^item> \<open>Protocol_Frame\<close>, \<open>Protocol_Streaming\<close>, \<open>Protocol_Messages\<close>, \<open>Protocol_Text\<close>: \<open>frame.rs\<close>, the
    generated structures and \<open>stderr.rs\<close>. Frames round-trip under any fragmentation, and what the
    streaming encoder writes passes the validator.
  \<^item> \<open>Protocol_Request\<close>, \<open>Protocol_State\<close>, \<open>Protocol_Session\<close>: \<open>state.rs\<close>. A session completes only
    after the legal conversation and with evidence bound to its request; a fault is final.

  \<^bold>\<open>Fuel and bounds.\<close> \<open>find_root\<close> has one unit of fuel more than there are nodes, the provenance
  chain one more than there are records, the provenance worklist one per push; none is ever
  exhausted. Nested messages recurse on the levels the nesting limit leaves. The trial loop of the
  shrinker is bounded by its number of trials, and enough trials end it.

  \<^bold>\<open>Parameters\<close>, that is code outside the sources: BLAKE3 and SHA-256, the semantic version parser,
  \<open>serde_json\<close>, the generated protobuf codecs (with the law that an encoder writes as many bytes as it
  announces), the clock, and whether an allocation succeeds.

  \<^bold>\<open>Simplifications.\<close> Offsets that only locate a fault are added without a bound. Counters shared
  between threads are modelled by their effect without interference. Moving a decoded frame into
  compact storage is the identity on its value. Numeric limits of the host (\<open>usize\<close>) are 64 bit.

  \<^bold>\<open>Not modelled.\<close> Of the crates above: the asynchronous frame writers, which repeat the synchronous
  ones; JSON forms, summaries and the hashing calls of \<open>canonical.rs\<close>; counterfactual validation;
  run records, comparisons and explanation records of \<open>domain-ir\<close>; the portable contracts of
  \<open>types\<close>. Outside them: persistence (SQLite), import and export, the application services, the
  command line, the desktop application and its packages, the backend adapters and the C++ worker,
  routing, scenario commands, acceptance and the domain packs. They are input and output, other
  languages, or layers over scenario documents that the kernel never sees.
\<close>

end
